(* ===== verification/Prelude.thy ===== *)
theory Prelude
  imports Main "HOL-Library.Word" "HOL-Library.Monad_Syntax"
begin

unbundle bit_operations_syntax

text \<open>
  Shared vocabulary of the development.

  \<^item> Machine integers: \<open>u8\<close>, \<open>u16\<close>, \<open>u32\<close>, \<open>u64\<close> are words of that width, so \<open>+\<close>, \<open>-\<close> and \<open>*\<close>
    wrap as in the release profile the Makefile builds by default; \<open>usize\<close> is 64 bits wide on
    riscv64. Where the source works with a \<open>usize\<close> that is an index into or a length of a slice
    (slices hold at most \<open>2 ^ 63 - 1\<close> bytes) the model uses \<open>nat\<close>, with the bound written out in
    the \<open>checked_\<close> operations.
  \<^item> Results: Rust's \<open>Result<T, E>\<close> is \<open>'e + 't\<close> (\<open>Inl\<close> the error), \<open>Option\<close> is \<open>option\<close>; the \<open>?\<close>
    operator is \<open>rbind\<close> on results and \<open>do\<close>-notation on options.
  \<^item> Byte slices: \<open>u8 list\<close>, with \<open>slice_get\<close> for \<open>get(a..b)\<close>, the big- and little-endian
    decoders, the UTF-8 validity test of \<open>str::from_utf8\<close> and ASCII literals.
\<close>

named_theorems rust_ops \<open>unsigned readings of the checked and saturating operations\<close>
named_theorems slice_simps \<open>rewrites for byte slices\<close>

section \<open>Machine integers\<close>

type_synonym u8 = "8 word"
type_synonym u16 = "16 word"
type_synonym u32 = "32 word"
type_synonym u64 = "64 word"

definition checked_add :: "'a::len word \<Rightarrow> 'a word \<Rightarrow> 'a word option" where
  "checked_add a b = (if unat a + unat b < 2 ^ LENGTH('a) then Some (a + b) else None)"

definition checked_sub :: "'a::len word \<Rightarrow> 'a word \<Rightarrow> 'a word option" where
  "checked_sub a b = (if b \<le> a then Some (a - b) else None)"

definition checked_mul :: "'a::len word \<Rightarrow> 'a word \<Rightarrow> 'a word option" where
  "checked_mul a b = (if unat a * unat b < 2 ^ LENGTH('a) then Some (a * b) else None)"

definition saturating_add :: "'a::len word \<Rightarrow> 'a word \<Rightarrow> 'a word" where
  "saturating_add a b = (if unat a + unat b < 2 ^ LENGTH('a) then a + b else - 1)"

definition saturating_sub :: "'a::len word \<Rightarrow> 'a word \<Rightarrow> 'a word" where
  "saturating_sub a b = (if b \<le> a then a - b else 0)"

definition div_ceil :: "'a::len word \<Rightarrow> 'a word \<Rightarrow> 'a word" where
  "div_ceil a b = (if a mod b \<noteq> 0 then a div b + 1 else a div b)"

text \<open>\<open>usize\<close> values read as \<open>nat\<close>: the checked operations keep the 64-bit bound.\<close>

abbreviation (input) USIZE_LIMIT :: nat where
  "USIZE_LIMIT \<equiv> 2 ^ 64"

definition us_checked_add :: "nat \<Rightarrow> nat \<Rightarrow> nat option" where
  "us_checked_add a b = (if a + b < USIZE_LIMIT then Some (a + b) else None)"

definition us_checked_sub :: "nat \<Rightarrow> nat \<Rightarrow> nat option" where
  "us_checked_sub a b = (if b \<le> a then Some (a - b) else None)"

definition us_checked_mul :: "nat \<Rightarrow> nat \<Rightarrow> nat option" where
  "us_checked_mul a b = (if a * b < USIZE_LIMIT then Some (a * b) else None)"

section \<open>Results\<close>

primrec rbind :: "'e + 'a \<Rightarrow> ('a \<Rightarrow> 'e + 'b) \<Rightarrow> 'e + 'b" where
  "rbind (Inl e) f = Inl e"
| "rbind (Inr x) f = f x"

primrec ok_or :: "'e \<Rightarrow> 'a option \<Rightarrow> 'e + 'a" where
  "ok_or e None = Inl e"
| "ok_or e (Some x) = Inr x"

primrec result_ok :: "'e + 'a \<Rightarrow> 'a option" where
  "result_ok (Inl e) = None"
| "result_ok (Inr x) = Some x"

text \<open>A fallible operation on a mutable receiver: the result together with the receiver after the
  call, also when the call fails. \<open>sbind\<close> is \<open>?\<close> followed by the rest of the body.\<close>

type_synonym ('e, 'a, 's) outcome = "('e + 'a) \<times> 's"

definition sbind :: "('e, 'a, 's) outcome \<Rightarrow> ('a \<Rightarrow> 's \<Rightarrow> ('e, 'b, 's) outcome) \<Rightarrow> ('e, 'b, 's) outcome" where
  "sbind m f = (case m of (Inl e, s) \<Rightarrow> (Inl e, s) | (Inr x, s) \<Rightarrow> f x s)"

section \<open>Byte slices\<close>

definition slice_get :: "'a list \<Rightarrow> nat \<Rightarrow> nat \<Rightarrow> 'a list option" where
  "slice_get xs a b = (if a \<le> b \<and> b \<le> length xs then Some (take (b - a) (drop a xs)) else None)"

definition slice_from :: "'a list \<Rightarrow> nat \<Rightarrow> 'a list option" where
  "slice_from xs a = (if a \<le> length xs then Some (drop a xs) else None)"

text \<open>\<open>iter().position(|byte| *byte == 0)\<close>.\<close>

fun position_zero :: "u8 list \<Rightarrow> nat option" where
  "position_zero [] = None"
| "position_zero (b # bs) = (if b = 0 then Some 0 else map_option Suc (position_zero bs))"

fun be_nat :: "u8 list \<Rightarrow> nat" where
  "be_nat [] = 0"
| "be_nat (b # bs) = unat b * 256 ^ length bs + be_nat bs"

fun le_nat :: "u8 list \<Rightarrow> nat" where
  "le_nat [] = 0"
| "le_nat (b # bs) = unat b + 256 * le_nat bs"

definition from_be_bytes :: "u8 list \<Rightarrow> 'a::len word" where
  "from_be_bytes bs = of_nat (be_nat bs)"

definition from_le_bytes :: "u8 list \<Rightarrow> 'a::len word" where
  "from_le_bytes bs = of_nat (le_nat bs)"

fun nat_to_le :: "nat \<Rightarrow> nat \<Rightarrow> u8 list" where
  "nat_to_le 0 v = []"
| "nat_to_le (Suc n) v = of_nat (v mod 256) # nat_to_le n (v div 256)"

definition to_le_bytes :: "nat \<Rightarrow> 'a::len word \<Rightarrow> u8 list" where
  "to_le_bytes n w = nat_to_le n (unat w)"

definition to_be_bytes :: "nat \<Rightarrow> 'a::len word \<Rightarrow> u8 list" where
  "to_be_bytes n w = rev (nat_to_le n (unat w))"

text \<open>String literals of the source are ASCII; \<open>&str\<close> is its UTF-8 byte list.\<close>

definition str :: "string \<Rightarrow> u8 list" where
  "str s = map of_char s"

text \<open>\<open>str::split('/')\<close>.\<close>

fun split_slash :: "u8 list \<Rightarrow> u8 list list" where
  "split_slash [] = [[]]"
| "split_slash (b # bs) =
     (if b = 0x2f then [] # split_slash bs
      else (case split_slash bs of [] \<Rightarrow> [[b]] | c # cs \<Rightarrow> (b # c) # cs))"

text \<open>Continuation bytes and well-formed UTF-8 (the table \<open>str::from_utf8\<close> implements).\<close>

definition utf8_cont :: "u8 \<Rightarrow> bool" where
  "utf8_cont b \<longleftrightarrow> 0x80 \<le> b \<and> b \<le> 0xbf"

fun utf8_valid :: "u8 list \<Rightarrow> bool" where
  "utf8_valid [] = True"
| "utf8_valid (a # bs) =
     (if a \<le> 0x7f then utf8_valid bs
      else (case bs of
        [] \<Rightarrow> False
      | b # cs \<Rightarrow>
          if 0xc2 \<le> a \<and> a \<le> 0xdf then utf8_cont b \<and> utf8_valid cs
          else (case cs of
            [] \<Rightarrow> False
          | c # ds \<Rightarrow>
              if 0xe0 \<le> a \<and> a \<le> 0xef then
                utf8_cont b \<and> (a = 0xe0 \<longrightarrow> 0xa0 \<le> b) \<and> (a = 0xed \<longrightarrow> b \<le> 0x9f)
                \<and> utf8_cont c \<and> utf8_valid ds
              else (case ds of
                [] \<Rightarrow> False
              | d # es \<Rightarrow>
                  0xf0 \<le> a \<and> a \<le> 0xf4 \<and> utf8_cont b
                  \<and> (a = 0xf0 \<longrightarrow> 0x90 \<le> b) \<and> (a = 0xf4 \<longrightarrow> b \<le> 0x8f)
                  \<and> utf8_cont c \<and> utf8_cont d \<and> utf8_valid es))))"

definition from_utf8 :: "u8 list \<Rightarrow> u8 list option" where
  "from_utf8 bs = (if utf8_valid bs then Some bs else None)"

section \<open>Lemmas on results\<close>

lemma rbind_eq_Inr [simp]: "rbind m f = Inr y \<longleftrightarrow> (\<exists>x. m = Inr x \<and> f x = Inr y)"
  by (cases m) auto

lemma rbind_eq_Inl: "rbind m f = Inl e \<longleftrightarrow> m = Inl e \<or> (\<exists>x. m = Inr x \<and> f x = Inl e)"
  by (cases m) auto

lemma ok_or_eq_Inr [simp]: "ok_or e m = Inr x \<longleftrightarrow> m = Some x"
  by (cases m) auto

lemma ok_or_eq_Inl [simp]: "ok_or e m = Inl e' \<longleftrightarrow> m = None \<and> e' = e"
  by (cases m) auto

lemma result_ok_eq_Some [simp]: "result_ok m = Some x \<longleftrightarrow> m = Inr x"
  by (cases m) auto

lemma sbind_Inl [simp]: "sbind (Inl e, s) f = (Inl e, s)"
  and sbind_Inr [simp]: "sbind (Inr x, s) f = f x s"
  by (simp_all add: sbind_def)

lemma sbind_eq_Inr:
  "sbind m f = (Inr y, t) \<longleftrightarrow> (\<exists>x s. m = (Inr x, s) \<and> f x s = (Inr y, t))"
  by (auto simp: sbind_def split: prod.splits sum.splits)

lemma sbind_eq_Inl:
  "sbind m f = (Inl e, t) \<longleftrightarrow> m = (Inl e, t) \<or> (\<exists>x s. m = (Inr x, s) \<and> f x s = (Inl e, t))"
  by (auto simp: sbind_def split: prod.splits sum.splits)

section \<open>Lemmas on machine integers\<close>

lemma checked_add_Some [rust_ops]:
  fixes a b :: "'a::len word"
  shows "checked_add a b = Some c \<longleftrightarrow> unat a + unat b < 2 ^ LENGTH('a) \<and> c = a + b"
  by (auto simp: checked_add_def)

lemma checked_add_None [rust_ops]:
  fixes a b :: "'a::len word"
  shows "checked_add a b = None \<longleftrightarrow> 2 ^ LENGTH('a) \<le> unat a + unat b"
  by (auto simp: checked_add_def)

lemma checked_mul_Some [rust_ops]:
  fixes a b :: "'a::len word"
  shows "checked_mul a b = Some c \<longleftrightarrow> unat a * unat b < 2 ^ LENGTH('a) \<and> c = a * b"
  by (auto simp: checked_mul_def)

lemma checked_sub_Some [rust_ops]: "checked_sub a b = Some c \<longleftrightarrow> b \<le> a \<and> c = a - b"
  by (auto simp: checked_sub_def)

lemma unat_add_small:
  fixes a b :: "'a::len word"
  assumes "unat a + unat b < 2 ^ LENGTH('a)"
  shows "unat (a + b) = unat a + unat b"
  using assms by (simp add: unat_word_ariths)

lemma unat_mult_small:
  fixes a b :: "'a::len word"
  assumes "unat a * unat b < 2 ^ LENGTH('a)"
  shows "unat (a * b) = unat a * unat b"
  using assms by (simp add: unat_word_ariths)

lemma u64_less: "unat (w :: u64) < 2 ^ 64" and u32_less: "unat (v :: u32) < 2 ^ 32"
  using unsigned_less [of w] unsigned_less [of v] by simp_all

lemma unat_sub_le: "b \<le> a \<Longrightarrow> unat (a - b) = unat a - unat b"
  by (simp add: unat_sub)

lemma unat_saturating_add:
  fixes a b :: "'a::len word"
  shows "unat (saturating_add a b) = min (unat a + unat b) (2 ^ LENGTH('a) - 1)"
  by (auto simp: saturating_add_def unat_add_small unsigned_minus_1_eq_mask mask_eq_exp_minus_1)

lemma unat_saturating_sub: "unat (saturating_sub a b) = unat a - unat b"
  by (auto simp: saturating_sub_def unat_sub_le word_le_nat_alt)

lemmas word_order_nat = word_le_nat_alt word_less_nat_alt

lemma us_checked_add_Some [rust_ops]:
  "us_checked_add a b = Some c \<longleftrightarrow> a + b < USIZE_LIMIT \<and> c = a + b"
  by (auto simp: us_checked_add_def)

lemma us_checked_sub_Some [rust_ops]: "us_checked_sub a b = Some c \<longleftrightarrow> b \<le> a \<and> c = a - b"
  by (auto simp: us_checked_sub_def)

lemma us_checked_mul_Some [rust_ops]:
  "us_checked_mul a b = Some c \<longleftrightarrow> a * b < USIZE_LIMIT \<and> c = a * b"
  by (auto simp: us_checked_mul_def)

text \<open>Clearing the low bits of a word, as \<open>x & !(2^n - 1)\<close> does, rounds down to a multiple.\<close>

lemma and_not_mask: "x AND NOT (mask n) = push_bit n (drop_bit n (x :: 'a::len word))"
  by (rule bit_word_eqI) (auto simp: bit_simps)

lemma and_not_mask_sub: "x AND NOT (mask n) = x - take_bit n (x :: 'a::len word)"
  using bits_ident [of n x] by (simp add: and_not_mask eq_diff_eq)

lemma unat_take_bit_word: "unat (take_bit n (x :: 'a::len word)) = unat x mod 2 ^ n"
  by (metis take_bit_eq_mod unsigned_take_bit_eq)

lemma take_bit_word_le: "take_bit n (x :: 'a::len word) \<le> x"
  by (simp add: word_le_nat_alt unat_take_bit_word)

lemma unat_and_not_mask: "unat (x AND NOT (mask n) :: 'a::len word) = unat x - unat x mod 2 ^ n"
  by (simp add: and_not_mask_sub unat_sub take_bit_word_le unat_take_bit_word)

section \<open>Lemmas on byte slices\<close>

lemma slice_get_Some [slice_simps]:
  "slice_get xs a b = Some ys \<longleftrightarrow> a \<le> b \<and> b \<le> length xs \<and> ys = take (b - a) (drop a xs)"
  by (auto simp: slice_get_def)

lemma slice_get_None [slice_simps]: "slice_get xs a b = None \<longleftrightarrow> b < a \<or> length xs < b"
  by (auto simp: slice_get_def)

lemma slice_from_Some [slice_simps]: "slice_from xs a = Some ys \<longleftrightarrow> a \<le> length xs \<and> ys = drop a xs"
  by (auto simp: slice_from_def)

lemma slice_get_append:
  assumes "a = length xs" and "b = length xs + length ys"
  shows "slice_get (xs @ ys @ zs) a b = Some ys"
  using assms by (simp add: slice_get_def)

lemma position_zero_Some:
  "position_zero bs = Some n \<longleftrightarrow> n < length bs \<and> bs ! n = 0 \<and> 0 \<notin> set (take n bs)"
proof (induction bs arbitrary: n)
  case Nil
  then show ?case by simp
next
  case (Cons b bs)
  then show ?case by (cases n) auto
qed

lemma position_zero_append: "0 \<notin> set xs \<Longrightarrow> position_zero (xs @ 0 # ys) = Some (length xs)"
  by (simp add: position_zero_Some)

lemma position_zero_None: "position_zero bs = None \<longleftrightarrow> 0 \<notin> set bs"
  by (induction bs) auto

lemma length_nat_to_le [simp]: "length (nat_to_le n v) = n"
  by (induction n arbitrary: v) auto

lemma length_to_le_bytes [simp]: "length (to_le_bytes n w) = n"
  by (simp add: to_le_bytes_def)

lemma length_to_be_bytes [simp]: "length (to_be_bytes n w) = n"
  by (simp add: to_be_bytes_def)

lemma be_nat_append: "be_nat (xs @ ys) = be_nat xs * 256 ^ length ys + be_nat ys"
  by (induction xs) (auto simp: power_add algebra_simps)

lemma be_nat_rev: "be_nat (rev bs) = le_nat bs"
  by (induction bs) (auto simp: be_nat_append)

lemma le_nat_lt: "le_nat bs < 256 ^ length bs"
proof (induction bs)
  case Nil
  then show ?case by simp
next
  case (Cons b bs)
  have "unat b < 256" using unsigned_less [of b] by simp
  with Cons show ?case by simp
qed

lemma be_nat_lt: "be_nat bs < 256 ^ length bs"
  using le_nat_lt [of "rev bs"] be_nat_rev [of "rev bs"] by simp

lemma le_nat_nat_to_le: "le_nat (nat_to_le n v) = v mod 256 ^ n"
proof (induction n arbitrary: v)
  case 0
  then show ?case by simp
next
  case (Suc n)
  have "unat (of_nat (v mod 256) :: u8) = v mod 256"
    by (simp add: unat_of_nat)
  with Suc show ?case by (simp add: mod_mult2_eq)
qed

lemma from_le_to_le:
  fixes w :: "'a::len word"
  assumes "2 ^ LENGTH('a) \<le> (256::nat) ^ n"
  shows "from_le_bytes (to_le_bytes n w) = w"
proof -
  have "unat w < 256 ^ n" using assms unsigned_less [of w] by (meson less_le_trans)
  then show ?thesis by (simp add: from_le_bytes_def to_le_bytes_def le_nat_nat_to_le)
qed

lemma from_be_to_be:
  fixes w :: "'a::len word"
  assumes "2 ^ LENGTH('a) \<le> (256::nat) ^ n"
  shows "from_be_bytes (to_be_bytes n w) = w"
  using from_le_to_le [OF assms, of w]
  by (simp add: from_be_bytes_def from_le_bytes_def to_be_bytes_def to_le_bytes_def be_nat_rev)

lemma unat_from_le:
  assumes "256 ^ length bs \<le> (2::nat) ^ LENGTH('a::len)"
  shows "unat (from_le_bytes bs :: 'a word) = le_nat bs"
  using le_nat_lt [of bs] assms by (simp add: from_le_bytes_def unat_of_nat)

lemma unat_from_be:
  assumes "256 ^ length bs \<le> (2::nat) ^ LENGTH('a::len)"
  shows "unat (from_be_bytes bs :: 'a word) = be_nat bs"
  using be_nat_lt [of bs] assms by (simp add: from_be_bytes_def unat_of_nat)

lemma nat_to_le_le_nat: "nat_to_le (length bs) (le_nat bs) = bs"
proof (induction bs)
  case (Cons b bs)
  have "unat b < 256" using unsigned_less [of b] by simp
  then show ?case using Cons by simp
qed simp

lemma to_le_from_le:
  assumes "length bs = n" and "256 ^ n \<le> (2::nat) ^ LENGTH('a::len)"
  shows "to_le_bytes n (from_le_bytes bs :: 'a word) = bs"
  using assms unat_from_le [of bs, where 'a = 'a] nat_to_le_le_nat [of bs] by (simp add: to_le_bytes_def)

lemma unat_ucast_up:
  fixes x :: "'a::len word"
  assumes "LENGTH('a) \<le> LENGTH('b::len)"
  shows "unat (ucast x :: 'b word) = unat x"
proof -
  have "unat x < 2 ^ LENGTH('a)" by (rule unsigned_less)
  also have "(2::nat) ^ LENGTH('a) \<le> 2 ^ LENGTH('b)" using assms by (rule power_increasing) simp
  finally show ?thesis by (simp add: unsigned_ucast_eq take_bit_nat_eq_self)
qed

lemma split_slash_plain:
  "0x2f \<notin> set c \<Longrightarrow> split_slash (c @ rest) = (case split_slash rest of [] \<Rightarrow> [c] | d # ds \<Rightarrow> (c @ d) # ds)"
proof (induction c)
  case Nil
  show ?case by (cases rest) (auto split: list.splits)
next
  case (Cons b c)
  then show ?case by (auto split: list.splits)
qed

end
