(* ===== verification/PageMap.thy ===== *)
theory PageMap
  imports Prelude
begin

unbundle bit_operations_syntax

text \<open>
  The EFI-style page map and page allocator of \<open>src/memory.rs\<close>.

  State: \<open>PageAllocator\<close>, the descriptor buffer (a fixed-length list) and the number of active
  descriptors at its front. Addresses, page counts and sizes are 64-bit words with the checked
  and wrapping arithmetic of the source; indices into the buffer are \<open>nat\<close>. Every \<open>&mut self\<close>
  operation returns its result together with the allocator after the call, so the state an error
  leaves behind is visible. The linker symbols are a parameter (\<open>symbols\<close>), the value of each
  \<open>lla\<close>-loaded address.

  Indexing: every buffer access of the source is below \<open>descriptor_count\<close> or, when the buffer
  grows, below the length checked just before; \<open>buffer_ok\<close> (proved below for every operation) is
  the invariant behind this, so the out-of-range panics of the source are unreachable.
\<close>

section \<open>Data\<close>

definition EFI_PAGE_SHIFT :: nat where
  "EFI_PAGE_SHIFT = 12"

definition EFI_PAGE_SIZE :: u64 where
  "EFI_PAGE_SIZE = push_bit EFI_PAGE_SHIFT 1"

definition EFI_MEMORY_DESCRIPTOR_VERSION :: u32 where
  "EFI_MEMORY_DESCRIPTOR_VERSION = 1"

datatype EFI_MEMORY_TYPE =
    EfiReservedMemoryType | EfiLoaderCode | EfiLoaderData | EfiBootServicesCode
  | EfiBootServicesData | EfiRuntimeServicesCode | EfiRuntimeServicesData
  | EfiConventionalMemory | EfiUnusableMemory | EfiACPIReclaimMemory | EfiACPIMemoryNVS
  | EfiMemoryMappedIO | EfiMemoryMappedIOPortSpace | EfiPalCode | EfiPersistentMemory
  | EfiUnacceptedMemoryType | EfiMaxMemoryType

text \<open>The \<open>as UINT32\<close> cast of a memory type: its \<open>repr(u32)\<close> discriminant.\<close>

fun type_u32 :: "EFI_MEMORY_TYPE \<Rightarrow> u32" where
  "type_u32 EfiReservedMemoryType = 0"
| "type_u32 EfiLoaderCode = 1"
| "type_u32 EfiLoaderData = 2"
| "type_u32 EfiBootServicesCode = 3"
| "type_u32 EfiBootServicesData = 4"
| "type_u32 EfiRuntimeServicesCode = 5"
| "type_u32 EfiRuntimeServicesData = 6"
| "type_u32 EfiConventionalMemory = 7"
| "type_u32 EfiUnusableMemory = 8"
| "type_u32 EfiACPIReclaimMemory = 9"
| "type_u32 EfiACPIMemoryNVS = 10"
| "type_u32 EfiMemoryMappedIO = 11"
| "type_u32 EfiMemoryMappedIOPortSpace = 12"
| "type_u32 EfiPalCode = 13"
| "type_u32 EfiPersistentMemory = 14"
| "type_u32 EfiUnacceptedMemoryType = 15"
| "type_u32 EfiMaxMemoryType = 16"

datatype EFI_ALLOCATE_TYPE =
  AllocateAnyPages | AllocateMaxAddress | AllocateAddress | MaxAllocateType

datatype AllocationDirection = Low | High

record EFI_MEMORY_DESCRIPTOR =
  Type :: u32
  PhysicalStart :: u64
  VirtualStart :: u64
  NumberOfPages :: u64
  Attribute :: u64

datatype MemoryError =
  InvalidParameter | BufferTooSmall | OutOfResources | NotFound | AddressOverflow

record PageAllocator =
  descriptors :: "EFI_MEMORY_DESCRIPTOR list"
  descriptor_count :: nat

text \<open>The decoded device-tree range of \<open>src/dtb_memory.rs\<close>.\<close>

record MemoryRegion =
  base :: u64
  region_size :: u64

definition EMPTY_MEMORY_DESCRIPTOR :: EFI_MEMORY_DESCRIPTOR where
  "EMPTY_MEMORY_DESCRIPTOR =
     \<lparr>Type = 0, PhysicalStart = 0, VirtualStart = 0, NumberOfPages = 0, Attribute = 0\<rparr>"

definition EMPTY_DESCRIPTOR :: EFI_MEMORY_DESCRIPTOR where
  "EMPTY_DESCRIPTOR =
     \<lparr>Type = type_u32 EfiReservedMemoryType, PhysicalStart = 0, VirtualStart = 0,
      NumberOfPages = 0, Attribute = 0\<rparr>"

section \<open>Address arithmetic\<close>

definition pages_to_u64 :: "u64 \<Rightarrow> MemoryError + u64" where
  "pages_to_u64 pages = Inr pages"

definition pages_to_bytes :: "u64 \<Rightarrow> MemoryError + u64" where
  "pages_to_bytes pages =
     rbind (pages_to_u64 pages) (\<lambda>p. ok_or AddressOverflow (checked_mul p EFI_PAGE_SIZE))"

definition bytes_to_pages :: "u64 \<Rightarrow> u64" where
  "bytes_to_pages bytes = bytes div EFI_PAGE_SIZE"

definition is_page_aligned :: "u64 \<Rightarrow> bool" where
  "is_page_aligned address \<longleftrightarrow> (address AND (EFI_PAGE_SIZE - 1)) = 0"

definition align_down :: "u64 \<Rightarrow> u64 \<Rightarrow> u64" where
  "align_down value alignment = value AND NOT (alignment - 1)"

definition align_up :: "u64 \<Rightarrow> u64 \<Rightarrow> MemoryError + u64" where
  "align_up value alignment =
     (let mask = alignment - 1
      in ok_or AddressOverflow (map_option (\<lambda>aligned. aligned AND NOT mask) (checked_add value mask)))"

definition pages_for_size :: "u64 \<Rightarrow> MemoryError + u64" where
  "pages_for_size size_bytes =
     rbind (pages_to_u64 size_bytes) (\<lambda>size.
     rbind (align_up (max size 1) EFI_PAGE_SIZE) (\<lambda>rounded.
     Inr (bytes_to_pages rounded)))"

definition checked_end :: "u64 \<Rightarrow> u64 \<Rightarrow> MemoryError + u64" where
  "checked_end start pages =
     rbind (ok_or AddressOverflow (checked_mul pages EFI_PAGE_SIZE)) (\<lambda>bytes.
     ok_or AddressOverflow (checked_add start bytes))"

definition descriptor_end :: "EFI_MEMORY_DESCRIPTOR \<Rightarrow> MemoryError + u64" where
  "descriptor_end descriptor = checked_end (PhysicalStart descriptor) (NumberOfPages descriptor)"

definition descriptors_are_compatible :: "EFI_MEMORY_DESCRIPTOR \<Rightarrow> EFI_MEMORY_DESCRIPTOR \<Rightarrow> bool" where
  "descriptors_are_compatible left right =
     (if Type left \<noteq> Type right \<or> Attribute left \<noteq> Attribute right
         \<or> VirtualStart left \<noteq> VirtualStart right
      then False
      else (case descriptor_end left of
              Inr left_end \<Rightarrow> PhysicalStart right \<le> left_end
            | Inl _ \<Rightarrow> False))"

definition align_region_to_pages :: "MemoryRegion \<Rightarrow> bool \<Rightarrow> MemoryError + (u64 \<times> u64) option" where
  "align_region_to_pages region reserve_partial_pages =
     rbind (ok_or AddressOverflow (checked_add (base region) (region_size region))) (\<lambda>end0.
     rbind (if reserve_partial_pages then Inr (align_down (base region) EFI_PAGE_SIZE)
            else align_up (base region) EFI_PAGE_SIZE) (\<lambda>start.
     rbind (if reserve_partial_pages then align_up end0 EFI_PAGE_SIZE
            else Inr (align_down end0 EFI_PAGE_SIZE)) (\<lambda>end1.
     if end1 \<le> start then Inr None else Inr (Some (start, end1)))))"

definition linker_region :: "u64 \<Rightarrow> u64 \<Rightarrow> MemoryError + (u64 \<times> u64) option" where
  "linker_region start end0 =
     (if end0 \<le> start then Inr None
      else align_region_to_pages \<lparr>base = start, region_size = end0 - start\<rparr> True)"

section \<open>The descriptor buffer\<close>

definition active :: "PageAllocator \<Rightarrow> EFI_MEMORY_DESCRIPTOR list" where
  "active self = take (descriptor_count self) (descriptors self)"

text \<open>\<open>while cursor > index\<close>: move each descriptor from \<open>index\<close> on one slot up.\<close>

fun shift_up :: "EFI_MEMORY_DESCRIPTOR list \<Rightarrow> nat \<Rightarrow> nat \<Rightarrow> EFI_MEMORY_DESCRIPTOR list" where
  "shift_up ds cursor index =
     (if index < cursor then shift_up (ds[cursor := ds ! (cursor - 1)]) (cursor - 1) index else ds)"

declare shift_up.simps [simp del]

definition insert_descriptor ::
  "PageAllocator \<Rightarrow> nat \<Rightarrow> EFI_MEMORY_DESCRIPTOR \<Rightarrow> (MemoryError, unit, PageAllocator) outcome" where
  "insert_descriptor self index descriptor =
     (if descriptor_count self = length (descriptors self) \<or> descriptor_count self < index
      then (Inl BufferTooSmall, self)
      else (Inr (), self\<lparr>
        descriptors := (shift_up (descriptors self) (descriptor_count self) index)[index := descriptor],
        descriptor_count := descriptor_count self + 1\<rparr>))"

text \<open>\<open>while index < descriptor_count && descriptors[index].PhysicalStart <= start\<close>.\<close>

function sorted_index :: "PageAllocator \<Rightarrow> u64 \<Rightarrow> nat \<Rightarrow> nat" where
  "sorted_index self start index =
     (if index < descriptor_count self \<and> PhysicalStart (descriptors self ! index) \<le> start
      then sorted_index self start (index + 1) else index)"
  by pat_completeness auto
termination
  by (relation "measure (\<lambda>(self, start, index). descriptor_count self - index)") auto

declare sorted_index.simps [simp del]

definition insert_sorted ::
  "PageAllocator \<Rightarrow> EFI_MEMORY_DESCRIPTOR \<Rightarrow> (MemoryError, unit, PageAllocator) outcome" where
  "insert_sorted self descriptor =
     insert_descriptor self (sorted_index self (PhysicalStart descriptor) 0) descriptor"

text \<open>The growing shift of \<open>replace_descriptor\<close>: \<open>while cursor > index + 1\<close>.\<close>

fun shift_tail :: "EFI_MEMORY_DESCRIPTOR list \<Rightarrow> nat \<Rightarrow> nat \<Rightarrow> nat \<Rightarrow> EFI_MEMORY_DESCRIPTOR list" where
  "shift_tail ds cursor index growth =
     (if index + 1 < cursor
      then shift_tail (ds[cursor + growth - 1 := ds ! (cursor - 1)]) (cursor - 1) index growth
      else ds)"

declare shift_tail.simps [simp del]

text \<open>\<open>for (offset, replacement) in replacements.iter().copied().enumerate()\<close>.\<close>

fun write_at :: "EFI_MEMORY_DESCRIPTOR list \<Rightarrow> nat \<Rightarrow> EFI_MEMORY_DESCRIPTOR list \<Rightarrow> EFI_MEMORY_DESCRIPTOR list" where
  "write_at ds index [] = ds"
| "write_at ds index (r # rs) = write_at (ds[index := r]) (index + 1) rs"

definition replace_descriptor ::
  "PageAllocator \<Rightarrow> nat \<Rightarrow> EFI_MEMORY_DESCRIPTOR list \<Rightarrow> (MemoryError, unit, PageAllocator) outcome" where
  "replace_descriptor self index replacements =
     (if descriptor_count self \<le> index \<or> replacements = [] then (Inl InvalidParameter, self)
      else let new_count = descriptor_count self - 1 + length replacements in
        if length (descriptors self) < new_count then (Inl BufferTooSmall, self)
        else let ds = (if 1 < length replacements
                       then shift_tail (descriptors self) (descriptor_count self) index
                              (length replacements - 1)
                       else descriptors self)
          in (Inr (), self\<lparr>descriptors := write_at ds index replacements,
                          descriptor_count := new_count\<rparr>))"

text \<open>\<open>while cursor < descriptor_count\<close>: close the gap left by a merged descriptor.\<close>

function shift_down :: "EFI_MEMORY_DESCRIPTOR list \<Rightarrow> nat \<Rightarrow> nat \<Rightarrow> EFI_MEMORY_DESCRIPTOR list" where
  "shift_down ds cursor count =
     (if cursor < count then shift_down (ds[cursor - 1 := ds ! cursor]) (cursor + 1) count else ds)"
  by pat_completeness auto
termination
  by (relation "measure (\<lambda>(ds, cursor, count). count - cursor)") auto

declare shift_down.simps [simp del]

definition merge_descriptors ::
  "EFI_MEMORY_DESCRIPTOR \<Rightarrow> EFI_MEMORY_DESCRIPTOR \<Rightarrow> EFI_MEMORY_DESCRIPTOR" where
  "merge_descriptors current nxt =
     (let next_end = (case descriptor_end nxt of Inr e \<Rightarrow> e | Inl _ \<Rightarrow> PhysicalStart nxt)
      in current\<lparr>NumberOfPages := bytes_to_pages (next_end - PhysicalStart current)\<rparr>)"

function coalesce_loop :: "PageAllocator \<Rightarrow> nat \<Rightarrow> PageAllocator" where
  "coalesce_loop self index =
     (if index + 1 < descriptor_count self then
        let current = descriptors self ! index;
            nxt = descriptors self ! (index + 1)
        in if descriptors_are_compatible current nxt
           then coalesce_loop (self\<lparr>
             descriptors := shift_down ((descriptors self)[index := merge_descriptors current nxt])
                              (index + 2) (descriptor_count self),
             descriptor_count := descriptor_count self - 1\<rparr>) index
           else coalesce_loop self (index + 1)
      else self)"
  by pat_completeness auto
termination
  by (relation "measure (\<lambda>(self, index). descriptor_count self - index)") auto

declare coalesce_loop.simps [simp del]

definition coalesce :: "PageAllocator \<Rightarrow> PageAllocator" where
  "coalesce self = coalesce_loop self 0"

text \<open>The up to three parts of a split descriptor: what is left of it before the range, the range
  with its new type, what is left of it after the range.\<close>

definition prefix_part :: "EFI_MEMORY_DESCRIPTOR \<Rightarrow> u64 \<Rightarrow> EFI_MEMORY_DESCRIPTOR list" where
  "prefix_part descriptor Memory =
     (let prefix_pages = bytes_to_pages (Memory - PhysicalStart descriptor)
      in if prefix_pages \<noteq> 0
         then [\<lparr>Type = Type descriptor, PhysicalStart = PhysicalStart descriptor,
                VirtualStart = VirtualStart descriptor, NumberOfPages = prefix_pages,
                Attribute = Attribute descriptor\<rparr>] else [])"

definition middle_part ::
  "EFI_MEMORY_DESCRIPTOR \<Rightarrow> u64 \<Rightarrow> u64 \<Rightarrow> EFI_MEMORY_TYPE \<Rightarrow> EFI_MEMORY_DESCRIPTOR" where
  "middle_part descriptor Memory Pages MemoryType =
     \<lparr>Type = type_u32 MemoryType, PhysicalStart = Memory, VirtualStart = 0,
      NumberOfPages = Pages, Attribute = Attribute descriptor\<rparr>"

definition suffix_part :: "EFI_MEMORY_DESCRIPTOR \<Rightarrow> u64 \<Rightarrow> u64 \<Rightarrow> EFI_MEMORY_DESCRIPTOR list" where
  "suffix_part descriptor descr_end range_end =
     (let suffix_pages = bytes_to_pages (descr_end - range_end)
      in if suffix_pages \<noteq> 0
         then [\<lparr>Type = Type descriptor, PhysicalStart = range_end, VirtualStart = 0,
                NumberOfPages = suffix_pages, Attribute = Attribute descriptor\<rparr>] else [])"

definition replace_range ::
  "PageAllocator \<Rightarrow> nat \<Rightarrow> u64 \<Rightarrow> u64 \<Rightarrow> EFI_MEMORY_TYPE \<Rightarrow> (MemoryError, nat, PageAllocator) outcome" where
  "replace_range self index Memory Pages MemoryType =
     (let descriptor = descriptors self ! index in
      sbind (descriptor_end descriptor, self) (\<lambda>descr_end self.
      sbind (checked_end Memory Pages, self) (\<lambda>range_end self.
      if Memory < PhysicalStart descriptor \<or> descr_end < range_end
      then (Inl InvalidParameter, self)
      else
        let prefix = prefix_part descriptor Memory;
            middle = middle_part descriptor Memory Pages MemoryType;
            suffix = suffix_part descriptor descr_end range_end;
            next_index = index + 1 + length prefix
        in sbind (replace_descriptor self index (prefix @ [middle] @ suffix))
             (\<lambda>_ self. (Inr next_index, self)))))"

section \<open>The buffer operations on the active descriptors\<close>

lemma length_shift_up [simp]: "length (shift_up ds cursor index) = length ds"
  by (induction ds cursor index rule: shift_up.induct) (subst shift_up.simps, simp)

lemma nth_shift_up:
  "cursor < length ds \<Longrightarrow> j < length ds \<Longrightarrow>
   shift_up ds cursor index ! j = (if index < j \<and> j \<le> cursor then ds ! (j - 1) else ds ! j)"
proof (induction ds cursor index rule: shift_up.induct)
  case (1 ds cursor index)
  show ?case
  proof (cases "index < cursor")
    case True
    with 1 have "shift_up (ds[cursor := ds ! (cursor - 1)]) (cursor - 1) index ! j
        = (if index < j \<and> j \<le> cursor - 1 then (ds[cursor := ds ! (cursor - 1)]) ! (j - 1)
           else (ds[cursor := ds ! (cursor - 1)]) ! j)"
      by simp
    with True 1 show ?thesis
      by (subst shift_up.simps) (auto simp: nth_list_update)
  next
    case False
    then show ?thesis by (subst shift_up.simps) auto
  qed
qed

lemma length_shift_tail [simp]: "length (shift_tail ds cursor index growth) = length ds"
  by (induction ds cursor index growth rule: shift_tail.induct) (subst shift_tail.simps, simp)

lemma nth_shift_tail:
  "0 < growth \<Longrightarrow> cursor + growth \<le> length ds \<Longrightarrow> j < length ds \<Longrightarrow>
   shift_tail ds cursor index growth ! j
     = (if index + growth < j \<and> j < cursor + growth then ds ! (j - growth) else ds ! j)"
proof (induction ds cursor index growth rule: shift_tail.induct)
  case (1 ds cursor index growth)
  let ?ds = "ds[cursor + growth - 1 := ds ! (cursor - 1)]"
  show ?case
  proof (cases "index + 1 < cursor")
    case True
    with 1 have "shift_tail ?ds (cursor - 1) index growth ! j
        = (if index + growth < j \<and> j < cursor - 1 + growth then ?ds ! (j - growth) else ?ds ! j)"
      by simp
    with True 1 show ?thesis
      by (subst shift_tail.simps) (auto simp: nth_list_update)
  next
    case False
    then show ?thesis by (subst shift_tail.simps) auto
  qed
qed

lemma write_at_eq:
  "index + length rs \<le> length ds \<Longrightarrow>
   write_at ds index rs = take index ds @ rs @ drop (index + length rs) ds"
proof (induction rs arbitrary: ds index)
  case Nil
  then show ?case by simp
next
  case (Cons r rs)
  then show ?case
    by (simp add: take_Suc_conv_app_nth) 
qed

lemma length_write_at [simp]: "length (write_at ds index rs) = length ds"
  by (induction rs arbitrary: ds index) auto

lemma length_shift_down [simp]: "length (shift_down ds cursor count) = length ds"
  by (induction ds cursor count rule: shift_down.induct) (subst shift_down.simps, simp)

lemma nth_shift_down:
  "0 < cursor \<Longrightarrow> count \<le> length ds \<Longrightarrow> j < length ds \<Longrightarrow>
   shift_down ds cursor count ! j = (if cursor \<le> j + 1 \<and> j + 1 < count then ds ! (j + 1) else ds ! j)"
proof (induction ds cursor count rule: shift_down.induct)
  case (1 ds cursor count)
  let ?ds = "ds[cursor - 1 := ds ! cursor]"
  show ?case
  proof (cases "cursor < count")
    case True
    with 1 have "shift_down ?ds (cursor + 1) count ! j
        = (if cursor + 1 \<le> j + 1 \<and> j + 1 < count then ?ds ! (j + 1) else ?ds ! j)"
      by simp
    with True 1 show ?thesis
      by (subst shift_down.simps) (auto simp: nth_list_update)
  next
    case False
    then show ?thesis by (subst shift_down.simps) auto
  qed
qed

definition buffer_ok :: "PageAllocator \<Rightarrow> bool" where
  "buffer_ok self \<longleftrightarrow> descriptor_count self \<le> length (descriptors self)"

abbreviation capacity :: "PageAllocator \<Rightarrow> nat" where
  "capacity self \<equiv> length (descriptors self)"

lemma length_active: "buffer_ok self \<Longrightarrow> length (active self) = descriptor_count self"
  by (simp add: active_def buffer_ok_def)

lemma nth_active: "i < descriptor_count self \<Longrightarrow> active self ! i = descriptors self ! i"
  by (simp add: active_def)

lemma insert_descriptor_Inr:
  assumes "buffer_ok self" and "insert_descriptor self index d = (Inr u, self')"
  shows "active self' = take index (active self) @ d # drop index (active self)"
    and "index \<le> descriptor_count self" and "descriptor_count self < capacity self"
    and "descriptor_count self' = descriptor_count self + 1" and "capacity self' = capacity self"
proof -
  from assms have lt: "descriptor_count self < capacity self" and le: "index \<le> descriptor_count self"
    and self': "self' = self\<lparr>
        descriptors := (shift_up (descriptors self) (descriptor_count self) index)[index := d],
        descriptor_count := descriptor_count self + 1\<rparr>"
    by (auto simp: insert_descriptor_def buffer_ok_def split: if_splits)
  show "active self' = take index (active self) @ d # drop index (active self)"
  proof (rule nth_equalityI)
    show "length (active self') = length (take index (active self) @ d # drop index (active self))"
      using lt le by (simp add: self' active_def)
  next
    fix j assume "j < length (active self')"
    then have j: "j < descriptor_count self + 1" by (simp add: self' active_def)
    with lt have "j < capacity self" by simp
    with j lt le show "active self' ! j = (take index (active self) @ d # drop index (active self)) ! j"
      by (auto simp: self' active_def nth_append nth_Cons' nth_shift_up nth_list_update min_def)
  qed
  show "index \<le> descriptor_count self" "descriptor_count self < capacity self" by fact+
  show "descriptor_count self' = descriptor_count self + 1" "capacity self' = capacity self"
    by (simp_all add: self')
qed

lemma replace_descriptor_Inr:
  assumes "buffer_ok self" and "replace_descriptor self index rs = (Inr u, self')"
  shows "active self' = take index (active self) @ rs @ drop (index + 1) (active self)"
    and "index < descriptor_count self" and "rs \<noteq> []"
    and "descriptor_count self' = descriptor_count self - 1 + length rs"
    and "descriptor_count self' \<le> capacity self" and "capacity self' = capacity self"
proof -
  let ?n = "descriptor_count self - 1 + length rs"
  define ds where "ds = (if 1 < length rs
    then shift_tail (descriptors self) (descriptor_count self) index (length rs - 1)
    else descriptors self)"
  from assms have lt: "index < descriptor_count self" and ne: "rs \<noteq> []" and cap: "?n \<le> capacity self"
    and self': "self' = self\<lparr>descriptors := write_at ds index rs, descriptor_count := ?n\<rparr>"
    by (auto simp: replace_descriptor_def Let_def ds_def split: if_splits)
  have pos: "0 < length rs" using ne by simp
  have fits: "index + length rs \<le> length ds" using lt cap pos by (simp add: ds_def)
  have il: "index < length ds" using fits pos by linarith
  have tail: "ds ! j = descriptors self ! Suc (j - length rs)"
    if "index + length rs \<le> j" "j < ?n" for j
  proof -
    show ?thesis
    proof (cases "1 < length rs")
      case True
      with that lt cap show ?thesis by (auto simp: ds_def nth_shift_tail Suc_diff_le)
    next
      case False
      with pos that have "Suc (j - length rs) = j" by linarith
      with False show ?thesis by (simp add: ds_def)
    qed
  qed
  have front: "ds ! j = descriptors self ! j" if "j < index" for j
    using that lt cap pos by (auto simp: ds_def nth_shift_tail)
  show "active self' = take index (active self) @ rs @ drop (index + 1) (active self)"
  proof (rule nth_equalityI)
    show "length (active self') = length (take index (active self) @ rs @ drop (index + 1) (active self))"
      using lt pos cap assms(1) by (simp add: self' active_def buffer_ok_def ds_def)
  next
    fix j assume "j < length (active self')"
    then have j: "j < ?n" by (simp add: self' active_def)
    have "active self' ! j = (take index ds @ rs @ drop (index + length rs) ds) ! j"
      using j by (simp add: self' nth_active write_at_eq [OF fits])
    also have "\<dots> = (if j < index then ds ! j else if j < index + length rs then rs ! (j - index)
        else ds ! j)"
      using fits il by (auto simp: nth_append min_def)
    also have "\<dots> = (take index (active self) @ rs @ drop (index + 1) (active self)) ! j"
      using j lt pos assms(1) front [of j] tail [of j]
      by (auto simp: nth_append min_def active_def buffer_ok_def)
    finally show "active self' ! j = (take index (active self) @ rs @ drop (index + 1) (active self)) ! j" .
  qed
  show "index < descriptor_count self" "rs \<noteq> []" by fact+
  show "descriptor_count self' = ?n" "descriptor_count self' \<le> capacity self" "capacity self' = capacity self"
    using cap by (simp_all add: self' ds_def)
qed

lemma replace_descriptor_Inl:
  "replace_descriptor self index rs = (Inl e, self') \<Longrightarrow> self' = self"
  by (auto simp: replace_descriptor_def Let_def split: if_splits)

fun coalesce_list :: "EFI_MEMORY_DESCRIPTOR list \<Rightarrow> EFI_MEMORY_DESCRIPTOR list" where
  "coalesce_list [] = []"
| "coalesce_list [d] = [d]"
| "coalesce_list (c # n # ds) =
     (if descriptors_are_compatible c n then coalesce_list (merge_descriptors c n # ds)
      else c # coalesce_list (n # ds))"

lemma merge_step_active:
  assumes "buffer_ok self" and "index + 1 < descriptor_count self"
    and "self' = self\<lparr>descriptors := shift_down ((descriptors self)[index := m]) (index + 2) (descriptor_count self),
                     descriptor_count := descriptor_count self - 1\<rparr>"
  shows "active self' = take index (active self) @ m # drop (index + 2) (active self)"
proof (rule nth_equalityI)
  show "length (active self') = length (take index (active self) @ m # drop (index + 2) (active self))"
    using assms by (simp add: active_def buffer_ok_def)
next
  fix j assume "j < length (active self')"
  with assms have j: "j < descriptor_count self - 1" by (simp add: active_def)
  with assms have "j < capacity self" by (simp add: buffer_ok_def)
  with j assms show "active self' ! j = (take index (active self) @ m # drop (index + 2) (active self)) ! j"
    by (auto simp: active_def buffer_ok_def nth_append nth_Cons' nth_shift_down nth_list_update min_def
             simp flip: add_Suc_right intro!: arg_cong [where f = "nth (descriptors self)"])
qed

lemma coalesce_loop_active:
  "buffer_ok self \<Longrightarrow> index \<le> descriptor_count self \<Longrightarrow>
   active (coalesce_loop self index) = take index (active self) @ coalesce_list (drop index (active self))
   \<and> buffer_ok (coalesce_loop self index)
   \<and> descriptor_count (coalesce_loop self index) \<le> descriptor_count self
   \<and> capacity (coalesce_loop self index) = capacity self"
proof (induction self index rule: coalesce_loop.induct)
  case (1 self index)
  let ?ds = "active self" let ?c = "descriptors self ! index" let ?n = "descriptors self ! (index + 1)"
  show ?case
  proof (cases "index + 1 < descriptor_count self")
    case True
    with "1.prems" have d: "drop index ?ds = ?c # ?n # drop (index + 2) ?ds"
      by (simp add: Cons_nth_drop_Suc [symmetric] length_active nth_active)
    show ?thesis
    proof (cases "descriptors_are_compatible ?c ?n")
      case comp: True
      let ?s = "self\<lparr>descriptors := shift_down ((descriptors self)[index := merge_descriptors ?c ?n])
          (index + 2) (descriptor_count self), descriptor_count := descriptor_count self - 1\<rparr>"
      have a: "active ?s = take index ?ds @ merge_descriptors ?c ?n # drop (index + 2) ?ds"
        by (rule merge_step_active [OF "1.prems"(1) True refl])
      have len: "length (take index ?ds) = index"
        using True "1.prems" by (simp add: length_active)
      have ok: "buffer_ok ?s" "index \<le> descriptor_count ?s"
        using True "1.prems" by (auto simp: buffer_ok_def)
      have ih: "active (coalesce_loop ?s index)
            = take index (active ?s) @ coalesce_list (drop index (active ?s))
          \<and> buffer_ok (coalesce_loop ?s index)
          \<and> descriptor_count (coalesce_loop ?s index) \<le> descriptor_count ?s
          \<and> capacity (coalesce_loop ?s index) = capacity ?s"
        by (rule "1.IH"(1) [OF True refl refl comp ok])
      moreover have "take index (active ?s) = take index ?ds"
        "drop index (active ?s) = merge_descriptors ?c ?n # drop (index + 2) ?ds"
        unfolding a using len by simp_all
      ultimately show ?thesis
        using True comp d by (auto simp: coalesce_loop.simps [of self index] Let_def)
    next
      case False
      have ih: "active (coalesce_loop self (index + 1))
            = take (index + 1) ?ds @ coalesce_list (drop (index + 1) ?ds)
          \<and> buffer_ok (coalesce_loop self (index + 1))
          \<and> descriptor_count (coalesce_loop self (index + 1)) \<le> descriptor_count self
          \<and> capacity (coalesce_loop self (index + 1)) = capacity self"
        using "1.IH"(2) [OF True refl refl False "1.prems"(1)] True by simp
      moreover have "take (index + 1) ?ds = take index ?ds @ [?c]"
        "drop (index + 1) ?ds = ?n # drop (index + 2) ?ds"
        using True "1.prems" by (simp_all add: take_Suc_conv_app_nth length_active nth_active Cons_nth_drop_Suc [symmetric])
      ultimately show ?thesis
        using True False d by (simp add: coalesce_loop.simps [of self index] Let_def)
    qed
  next
    case False
    with "1.prems" have "length (drop index ?ds) \<le> 1" by (simp add: length_active)
    then have "coalesce_list (drop index ?ds) = drop index ?ds"
      by (cases "drop index ?ds" rule: coalesce_list.cases) auto
    with False "1.prems" show ?thesis by (simp add: coalesce_loop.simps [of self index])
  qed
qed

lemma coalesce_active:
  assumes "buffer_ok self"
  shows "active (coalesce self) = coalesce_list (active self)" and "buffer_ok (coalesce self)"
    and "descriptor_count (coalesce self) \<le> descriptor_count self"
    and "capacity (coalesce self) = capacity self"
  using coalesce_loop_active [OF assms, of 0] by (simp_all add: coalesce_def)

section \<open>Unsigned readings of the address arithmetic\<close>

lemma EFI_PAGE_SIZE_eq [simp]: "EFI_PAGE_SIZE = 4096"
  by (simp add: EFI_PAGE_SIZE_def EFI_PAGE_SHIFT_def)

lemma checked_end_Inr:
  "checked_end start pages = Inr e \<longleftrightarrow>
     unat start + unat pages * 4096 < 2 ^ 64 \<and> e = start + pages * 4096"
proof -
  have "unat pages * 4096 < 2 ^ 64 \<Longrightarrow> unat (pages * 4096) = unat pages * 4096"
    using unat_mult_small [of pages 4096] by simp
  then show ?thesis by (auto simp: checked_end_def rust_ops)
qed

lemma checked_end_unat: "checked_end start pages = Inr e \<Longrightarrow> unat e = unat start + unat pages * 4096"
  using unat_mult_small [of pages 4096] unat_add_small [of start "pages * 4096"]
  by (auto simp: checked_end_Inr)

lemma unat_bytes_to_pages: "unat (bytes_to_pages b) = unat b div 4096"
  by (simp add: bytes_to_pages_def unat_div)

lemma unat_align_down:
  "unat (align_down v (2 ^ k)) = unat v - unat v mod 2 ^ k"
  using unat_and_not_mask [of v k] by (simp add: align_down_def mask_eq_exp_minus_1)

lemma unat_align_down_page: "unat (align_down v 4096) = unat v - unat v mod 4096"
  using unat_align_down [of v 12] by simp

lemma unat_exp_word: "k < 64 \<Longrightarrow> unat ((2::u64) ^ k) = 2 ^ k"
proof -
  assume "k < 64"
  then have lt: "(2::nat) ^ k < 2 ^ 64" using power_strict_increasing [of k 64 "2::nat"] by simp
  have "unat ((2::u64) ^ k) = unat (of_nat (2 ^ k) :: u64)" by simp
  also have "\<dots> = 2 ^ k mod 2 ^ LENGTH(64)" by (rule unat_of_nat)
  also have "\<dots> = 2 ^ k" using lt by simp
  finally show ?thesis .
qed

lemma align_up_Inr:
  assumes "k < 64"
  shows "align_up v (2 ^ k) = Inr w \<longleftrightarrow>
    unat v + (2 ^ k - 1) < 2 ^ 64 \<and> w = align_down (v + (2 ^ k - 1)) (2 ^ k)"
proof -
  have "unat ((2::u64) ^ k - 1) = 2 ^ k - 1"
    using unat_exp_word [OF assms] by (metis one_le_numeral one_le_power unat_1 unat_sub word_le_nat_alt)
  then show ?thesis by (auto simp: align_up_def Let_def rust_ops align_down_def)
qed

lemma is_page_aligned_iff: "is_page_aligned a \<longleftrightarrow> 4096 dvd unat a"
proof -
  have "a AND 4095 = take_bit 12 a"
    by (simp add: take_bit_eq_mask mask_eq_exp_minus_1)
  moreover have "unat (take_bit 12 a) = unat a mod 4096"
    by (simp add: unat_take_bit_word)
  ultimately have "unat (a AND 4095) = unat a mod 4096" by simp
  moreover have "a AND 4095 = 0 \<longleftrightarrow> unat (a AND 4095) = 0" by (simp only: unat_eq_zero)
  ultimately show ?thesis by (simp add: is_page_aligned_def dvd_eq_mod_eq_0)
qed

section \<open>Descriptors as address intervals\<close>

text \<open>The half-open byte range \<open>[dstart d, dend d)\<close> of a descriptor, over unbounded \<open>nat\<close>.\<close>

definition dstart :: "EFI_MEMORY_DESCRIPTOR \<Rightarrow> nat" where
  "dstart d = unat (PhysicalStart d)"

definition dpages :: "EFI_MEMORY_DESCRIPTOR \<Rightarrow> nat" where
  "dpages d = unat (NumberOfPages d)"

definition dend :: "EFI_MEMORY_DESCRIPTOR \<Rightarrow> nat" where
  "dend d = dstart d + dpages d * 4096"

lemma descriptor_end_Inr:
  "descriptor_end d = Inr e \<longleftrightarrow> dend d < 2 ^ 64 \<and> e = PhysicalStart d + NumberOfPages d * 4096"
  by (simp add: descriptor_end_def checked_end_Inr dend_def dstart_def dpages_def)

lemma descriptor_end_unat: "descriptor_end d = Inr e \<Longrightarrow> unat e = dend d"
  by (simp add: descriptor_end_def checked_end_unat dend_def dstart_def dpages_def)

lemma descriptor_end_ok: "dend d < 2 ^ 64 \<Longrightarrow> \<exists>e. descriptor_end d = Inr e \<and> unat e = dend d"
  using descriptor_end_Inr descriptor_end_unat by blast

text \<open>
  The map invariant: every descriptor is page aligned, non-empty and ends below \<open>2 ^ 64\<close>, and the
  descriptors are in address order without overlap. \<open>type_at\<close> is the abstraction: the EFI type of
  the byte at an address, if any descriptor covers it.
\<close>

definition wf_desc :: "EFI_MEMORY_DESCRIPTOR \<Rightarrow> bool" where
  "wf_desc d \<longleftrightarrow> 4096 dvd dstart d \<and> 0 < dpages d \<and> dend d < 2 ^ 64"

definition wf_map :: "EFI_MEMORY_DESCRIPTOR list \<Rightarrow> bool" where
  "wf_map ds \<longleftrightarrow> (\<forall>d \<in> set ds. wf_desc d) \<and> sorted_wrt (\<lambda>a b. dend a \<le> dstart b) ds"

fun type_at :: "EFI_MEMORY_DESCRIPTOR list \<Rightarrow> nat \<Rightarrow> u32 option" where
  "type_at [] a = None"
| "type_at (d # ds) a = (if dstart d \<le> a \<and> a < dend d then Some (Type d) else type_at ds a)"

lemma type_at_append:
  "type_at (xs @ ys) a = (case type_at xs a of None \<Rightarrow> type_at ys a | Some t \<Rightarrow> Some t)"
  by (induction xs) auto

lemma type_at_None: "type_at ds a = None \<longleftrightarrow> (\<forall>d \<in> set ds. \<not> (dstart d \<le> a \<and> a < dend d))"
  by (induction ds) auto

lemma type_at_SomeD: "type_at ds a = Some t \<Longrightarrow> \<exists>d \<in> set ds. dstart d \<le> a \<and> a < dend d \<and> Type d = t"
  by (induction ds) (auto split: if_splits)

lemma wf_map_Nil [simp]: "wf_map []"
  by (simp add: wf_map_def)

lemma wf_map_Cons: "wf_map (d # ds) \<longleftrightarrow> wf_desc d \<and> (\<forall>x \<in> set ds. dend d \<le> dstart x) \<and> wf_map ds"
  by (auto simp: wf_map_def)

lemma wf_map_append:
  "wf_map (xs @ ys) \<longleftrightarrow> wf_map xs \<and> wf_map ys \<and> (\<forall>x \<in> set xs. \<forall>y \<in> set ys. dend x \<le> dstart y)"
  by (auto simp: wf_map_def sorted_wrt_append)

lemma wf_descD:
  assumes "wf_desc d"
  shows "dstart d < dend d" "dend d < 2 ^ 64" "4096 dvd dstart d" "4096 dvd dend d"
  using assms by (auto simp: wf_desc_def dend_def)

lemma type_at_wf:
  "wf_map ds \<Longrightarrow> d \<in> set ds \<Longrightarrow> dstart d \<le> a \<Longrightarrow> a < dend d \<Longrightarrow> type_at ds a = Some (Type d)"
proof (induction ds)
  case Nil
  then show ?case by simp
next
  case (Cons x ds)
  then show ?case by (auto simp: wf_map_Cons)
qed

lemma prefix_part_cases:
  assumes "wf_desc d" and "4096 dvd unat M" and "dstart d \<le> unat M" and "unat M \<le> dend d"
  shows "(unat M = dstart d \<and> prefix_part d M = []) \<or>
    (dstart d < unat M \<and> (\<exists>p. prefix_part d M = [p] \<and> wf_desc p \<and> dstart p = dstart d \<and> dend p = unat M
       \<and> Type p = Type d))"
proof -
  have le: "PhysicalStart d \<le> M" using assms(3) by (simp add: word_le_nat_alt dstart_def)
  have pages: "unat (bytes_to_pages (M - PhysicalStart d)) = (unat M - dstart d) div 4096"
    by (simp add: unat_bytes_to_pages unat_sub_le [OF le] dstart_def)
  have dv: "4096 dvd unat M - dstart d" using assms(1,2) by (simp add: wf_desc_def)
  show ?thesis
  proof (cases "unat M = dstart d")
    case True
    then have "bytes_to_pages (M - PhysicalStart d) = 0"
      using pages by (metis cancel_comm_monoid_add_class.diff_cancel div_0 unat_eq_zero)
    then show ?thesis using True by (simp add: prefix_part_def)
  next
    case False
    with assms(3) have lt: "dstart d < unat M" by simp
    with dv have pos: "0 < (unat M - dstart d) div 4096"
      by (meson dvd_imp_le div_greater_zero_iff zero_less_diff zero_less_numeral)
    then have "bytes_to_pages (M - PhysicalStart d) \<noteq> 0" using pages by auto
    then obtain p where p: "prefix_part d M = [p]" "Type p = Type d" "PhysicalStart p = PhysicalStart d"
        "NumberOfPages p = bytes_to_pages (M - PhysicalStart d)"
      by (simp add: prefix_part_def Let_def)
    have "dend p = unat M"
      using p pages dv lt by (simp add: dend_def dpages_def dstart_def)
    moreover have "dstart p = dstart d" "dpages p = (unat M - dstart d) div 4096"
      using p pages by (simp_all add: dstart_def dpages_def)
    ultimately show ?thesis
      using p lt pos assms by (auto simp: wf_desc_def)
  qed
qed

lemma suffix_part_cases:
  assumes "wf_desc d" and "unat de = dend d" and "4096 dvd unat re" and "unat re \<le> dend d"
  shows "(unat re = dend d \<and> suffix_part d de re = []) \<or>
    (unat re < dend d \<and> (\<exists>p. suffix_part d de re = [p] \<and> wf_desc p \<and> dstart p = unat re \<and> dend p = dend d
       \<and> Type p = Type d))"
proof -
  have le: "re \<le> de" using assms by (simp add: word_le_nat_alt)
  have pages: "unat (bytes_to_pages (de - re)) = (dend d - unat re) div 4096"
    by (simp add: unat_bytes_to_pages unat_sub_le [OF le] assms(2))
  have dv: "4096 dvd dend d - unat re" using assms(1,3) by (simp add: wf_descD)
  show ?thesis
  proof (cases "unat re = dend d")
    case True
    then have "bytes_to_pages (de - re) = 0"
      using pages by (metis cancel_comm_monoid_add_class.diff_cancel div_0 unat_eq_zero)
    then show ?thesis using True by (simp add: suffix_part_def)
  next
    case False
    with assms(4) have lt: "unat re < dend d" by simp
    with dv have pos: "0 < (dend d - unat re) div 4096"
      by (meson dvd_imp_le div_greater_zero_iff zero_less_diff zero_less_numeral)
    then have "bytes_to_pages (de - re) \<noteq> 0" using pages by auto
    then obtain p where p: "suffix_part d de re = [p]" "Type p = Type d" "PhysicalStart p = re"
        "NumberOfPages p = bytes_to_pages (de - re)"
      by (simp add: suffix_part_def Let_def)
    have "dend p = dend d"
      using p pages dv lt by (simp add: dend_def [of p] dpages_def dstart_def)
    moreover have "dstart p = unat re" "dpages p = (dend d - unat re) div 4096"
      using p pages by (simp_all add: dstart_def dpages_def)
    ultimately show ?thesis
      using p lt pos assms wf_descD [OF assms(1)] by (auto simp: wf_desc_def)
  qed
qed

lemma replace_descriptor_count:
  "replace_descriptor self index rs = (Inr u, self') \<Longrightarrow>
   index < descriptor_count self \<and> rs \<noteq> [] \<and> descriptor_count self' = descriptor_count self - 1 + length rs
   \<and> descriptor_count self' \<le> capacity self \<and> capacity self' = capacity self"
  by (auto simp: replace_descriptor_def Let_def split: if_splits)

lemma length_prefix_part: "length (prefix_part d M) \<le> 1"
  by (simp add: prefix_part_def Let_def)

lemma replace_range_count:
  assumes "replace_range self index M P t = (Inr n, self')"
  shows "index < n" "n \<le> index + 2" "descriptor_count self' \<le> capacity self" "capacity self' = capacity self"
    and "descriptor_count self \<le> descriptor_count self'"
    and "descriptor_count self' = descriptor_count self \<Longrightarrow> n = index + 1"
proof -
  from assms obtain pre m suf self'' where
      r: "replace_descriptor self index (pre @ [m] @ suf) = (Inr (), self'')"
    and n: "n = index + 1 + length pre" and s: "self' = self''" and l: "length pre \<le> 1"
    using length_prefix_part [of "descriptors self ! index" M]
    by (fastforce simp: replace_range_def Let_def sbind_eq_Inr split: if_splits)
  from replace_descriptor_count [OF r] n s l
  show "index < n" "n \<le> index + 2" "descriptor_count self' \<le> capacity self" "capacity self' = capacity self"
    "descriptor_count self \<le> descriptor_count self'"
    "descriptor_count self' = descriptor_count self \<Longrightarrow> n = index + 1"
    by auto
qed

lemma replace_range_Inl: "replace_range self index M P t = (Inl e, self') \<Longrightarrow> self' = self"
  by (auto simp: replace_range_def Let_def sbind_eq_Inl split: if_splits dest: replace_descriptor_Inl)

lemma replace_range_split:
  assumes ok: "buffer_ok self" and d: "d = descriptors self ! index" and wf: "wf_desc d"
    and M: "4096 dvd unat M" and P: "0 < unat P"
    and r: "replace_range self index M P t = (Inr n, self')"
  obtains pre m suf where
    "active self' = take index (active self) @ (pre @ [m] @ suf) @ drop (index + 1) (active self)"
    "buffer_ok self'" "index < descriptor_count self" "n = index + 1 + length pre"
    "dstart d \<le> unat M" "dend m \<le> dend d" "dstart m = unat M" "dend m = unat M + unat P * 4096"
    "Type m = type_u32 t" "wf_desc m"
    "pre = [] \<and> unat M = dstart d \<or>
      (\<exists>p. pre = [p] \<and> wf_desc p \<and> dstart p = dstart d \<and> dend p = unat M \<and> Type p = Type d)"
    "suf = [] \<and> dend m = dend d \<or>
      (\<exists>p. suf = [p] \<and> wf_desc p \<and> dstart p = dend m \<and> dend p = dend d \<and> Type p = Type d)"
proof -
  from r obtain de re where de: "descriptor_end d = Inr de" and re: "checked_end M P = Inr re"
    and ge: "PhysicalStart d \<le> M" and le: "re \<le> de"
    and rep: "replace_descriptor self index
        (prefix_part d M @ [middle_part d M P t] @ suffix_part d de re) = (Inr (), self')"
    and n: "n = index + 1 + length (prefix_part d M)"
    by (auto simp: replace_range_def Let_def sbind_eq_Inr d not_less split: if_splits)
  let ?m = "middle_part d M P t"
  have ude: "unat de = dend d" using de by (rule descriptor_end_unat)
  have ure: "unat re = unat M + unat P * 4096" using re by (rule checked_end_unat)
  have m: "dstart ?m = unat M" "dend ?m = unat M + unat P * 4096" "Type ?m = type_u32 t"
    by (simp_all add: middle_part_def dstart_def dend_def dpages_def)
  have ge': "dstart d \<le> unat M" using ge by (simp add: dstart_def word_le_nat_alt)
  have le': "dend ?m \<le> dend d" using le ude ure m by (simp add: word_le_nat_alt)
  have wfm: "wf_desc ?m"
    using m M P le' wf by (simp add: wf_desc_def middle_part_def dpages_def)
  have pre: "prefix_part d M = [] \<and> unat M = dstart d \<or> (\<exists>p. prefix_part d M = [p] \<and> wf_desc p
      \<and> dstart p = dstart d \<and> dend p = unat M \<and> Type p = Type d)"
    using prefix_part_cases [OF wf M ge'] m le' by auto
  have suf: "suffix_part d de re = [] \<and> dend ?m = dend d \<or> (\<exists>p. suffix_part d de re = [p] \<and> wf_desc p
      \<and> dstart p = dend ?m \<and> dend p = dend d \<and> Type p = Type d)"
    using suffix_part_cases [OF wf ude, of re] ure m le' M by auto
  note rd = replace_descriptor_Inr [OF ok rep]
  have ok': "buffer_ok self'" using rd(5,6) by (simp add: buffer_ok_def)
  show thesis
    by (rule that [OF rd(1) ok' rd(2) n ge' le' m(1,2,3) wfm pre suf])
qed

section \<open>Coalescing\<close>

lemma compatible_iff:
  "descriptors_are_compatible c n \<longleftrightarrow>
     Type c = Type n \<and> Attribute c = Attribute n \<and> VirtualStart c = VirtualStart n
     \<and> dend c < 2 ^ 64 \<and> dstart n \<le> dend c"
proof (cases "descriptor_end c")
  case (Inl e)
  then have "\<not> dend c < 2 ^ 64" using descriptor_end_ok [of c] by auto
  with Inl show ?thesis by (simp add: descriptors_are_compatible_def)
next
  case (Inr e)
  then have "dend c < 2 ^ 64" "unat e = dend c"
    by (simp_all add: descriptor_end_Inr descriptor_end_unat)
  with Inr show ?thesis
    by (auto simp: descriptors_are_compatible_def word_le_nat_alt dstart_def)
qed

lemma merge_descriptors_simps [simp]:
  "Type (merge_descriptors c n) = Type c" "Attribute (merge_descriptors c n) = Attribute c"
  "VirtualStart (merge_descriptors c n) = VirtualStart c" "dstart (merge_descriptors c n) = dstart c"
  by (simp_all add: merge_descriptors_def Let_def dstart_def)

lemma merge_descriptors_wf:
  assumes "wf_desc c" and "wf_desc n" and "dstart c \<le> dstart n"
  shows "wf_desc (merge_descriptors c n)" and "dend (merge_descriptors c n) = dend n"
proof -
  obtain e where e: "descriptor_end n = Inr e" and ue: "unat e = dend n"
    using assms(2) descriptor_end_ok by (auto simp: wf_desc_def)
  have lt: "dstart c < dend n" using assms wf_descD [OF assms(2)] by simp
  have "PhysicalStart c \<le> e" using lt ue by (simp add: word_le_nat_alt dstart_def)
  then have pages: "dpages (merge_descriptors c n) = (dend n - dstart c) div 4096"
    using e ue by (simp add: merge_descriptors_def Let_def dpages_def unat_bytes_to_pages unat_sub_le dstart_def)
  have dv: "4096 dvd dend n - dstart c" using wf_descD [OF assms(1)] wf_descD [OF assms(2)] by simp
  show end_eq: "dend (merge_descriptors c n) = dend n"
    using pages dv lt by (simp add: dend_def [of "merge_descriptors c n"])
  have "0 < (dend n - dstart c) div 4096"
    using dv lt by (meson dvd_imp_le div_greater_zero_iff zero_less_diff zero_less_numeral)
  then show "wf_desc (merge_descriptors c n)"
    using pages end_eq wf_descD [OF assms(1)] wf_descD [OF assms(2)] by (simp add: wf_desc_def)
qed

lemma coalesce_list_dstart: "dstart ` set (coalesce_list ds) \<subseteq> dstart ` set ds"
proof (induction ds rule: coalesce_list.induct)
  case (3 c n ds)
  then show ?case by (auto simp: image_iff)
qed auto

lemma coalesce_list_lower: "\<forall>x \<in> set ds. b \<le> dstart x \<Longrightarrow> \<forall>x \<in> set (coalesce_list ds). b \<le> dstart x"
  using coalesce_list_dstart [of ds] by fastforce

lemma coalesce_list_wf_map:
  "wf_map ds \<Longrightarrow> wf_map (coalesce_list ds) \<and> (\<forall>a. type_at (coalesce_list ds) a = type_at ds a)"
proof (induction ds rule: coalesce_list.induct)
  case (3 c n ds)
  then have wf: "wf_desc c" "wf_desc n" and le: "dend c \<le> dstart n" and rest: "wf_map ds"
    and bc: "\<forall>x \<in> set ds. dend c \<le> dstart x" and bn: "\<forall>x \<in> set ds. dend n \<le> dstart x"
    by (auto simp: wf_map_Cons)
  show ?case
  proof (cases "descriptors_are_compatible c n")
    case True
    then have adj: "dstart n = dend c" and ty: "Type n = Type c"
      using le by (auto simp: compatible_iff)
    let ?m = "merge_descriptors c n"
    have m: "wf_desc ?m" "dend ?m = dend n"
      using merge_descriptors_wf [OF wf] wf_descD [OF wf(1)] adj by auto
    have "wf_map (?m # ds)" using m bn rest by (simp add: wf_map_Cons)
    moreover have "type_at (?m # ds) a = type_at (c # n # ds) a" for a
      using m adj ty wf_descD [OF wf(1)] wf_descD [OF wf(2)] by auto
    ultimately show ?thesis using True "3.IH"(1) by simp
  next
    case False
    have "wf_map (n # ds)" using "3.prems" by (simp add: wf_map_Cons)
    moreover have "\<forall>x \<in> set (coalesce_list (n # ds)). dend c \<le> dstart x"
      using le bc by (intro coalesce_list_lower) auto
    ultimately show ?thesis using False "3.IH"(2) wf by (auto simp: wf_map_Cons)
  qed
qed auto

lemma coalesce_list_hd:
  "\<exists>h t. coalesce_list (d # ds) = h # t \<and> Type h = Type d \<and> Attribute h = Attribute d
     \<and> VirtualStart h = VirtualStart d \<and> dstart h = dstart d"
proof (induction "d # ds" arbitrary: d ds rule: coalesce_list.induct)
  case (3 c n ds)
  show ?case
  proof (cases "descriptors_are_compatible c n")
    case True
    with 3(1) [OF True] show ?thesis by simp
  next
    case False
    then show ?thesis by simp
  qed
qed simp

lemma coalesce_list_maximal:
  "successively (\<lambda>a b. \<not> descriptors_are_compatible a b) (coalesce_list ds)"
proof (induction ds rule: coalesce_list.induct)
  case (3 c n ds)
  show ?case
  proof (cases "descriptors_are_compatible c n")
    case True
    with 3(1) show ?thesis by simp
  next
    case False
    obtain h t where ht: "coalesce_list (n # ds) = h # t" "Type h = Type n" "Attribute h = Attribute n"
        "VirtualStart h = VirtualStart n" "dstart h = dstart n"
      using coalesce_list_hd by blast
    then have "\<not> descriptors_are_compatible c h" using False by (simp add: compatible_iff)
    with 3(2) [OF False] ht False show ?thesis by simp
  qed
qed auto

text \<open>The RAM phase: descriptors of one kind in start order, possibly overlapping, become a map.\<close>

definition kind :: "EFI_MEMORY_DESCRIPTOR \<Rightarrow> u32 \<times> u64 \<times> u64" where
  "kind d = (Type d, Attribute d, VirtualStart d)"

lemma kind_merge [simp]: "kind (merge_descriptors c n) = kind c"
  by (simp add: kind_def)

lemma compatible_kind: "kind c = kind n \<Longrightarrow> wf_desc c \<Longrightarrow> descriptors_are_compatible c n \<longleftrightarrow> dstart n \<le> dend c"
  by (simp add: compatible_iff kind_def wf_desc_def)

lemma coalesce_list_overlapping:
  "\<forall>d \<in> set ds. wf_desc d \<and> kind d = k \<Longrightarrow> sorted (map dstart ds) \<Longrightarrow> wf_map (coalesce_list ds)"
proof (induction ds rule: coalesce_list.induct)
  case (3 c n ds)
  then have wf: "wf_desc c" "wf_desc n" and le: "dstart c \<le> dstart n" and kd: "kind c = kind n"
    and low: "\<forall>x \<in> set ds. dstart n \<le> dstart x"
    by simp_all
  show ?case
  proof (cases "descriptors_are_compatible c n")
    case True
    have "wf_desc (merge_descriptors c n)" by (rule merge_descriptors_wf(1) [OF wf le])
    then show ?thesis using True "3.IH"(1) "3.prems" by simp
  next
    case False
    then have lt: "dend c < dstart n" using compatible_kind [OF kd wf(1)] by simp
    have "\<forall>x \<in> set (n # ds). dend c \<le> dstart x"
      using lt low by fastforce
    then have "\<forall>x \<in> set (coalesce_list (n # ds)). dend c \<le> dstart x"
      by (rule coalesce_list_lower)
    then show ?thesis using False "3.IH"(2) "3.prems" wf by (simp add: wf_map_Cons)
  qed
qed (simp_all add: wf_map_Cons)

text \<open>No byte of RAM is lost when no region ends before an earlier one does.\<close>

definition covered :: "EFI_MEMORY_DESCRIPTOR list \<Rightarrow> nat \<Rightarrow> bool" where
  "covered ds a \<longleftrightarrow> (\<exists>d \<in> set ds. dstart d \<le> a \<and> a < dend d)"

lemma covered_Cons: "covered (d # ds) a \<longleftrightarrow> dstart d \<le> a \<and> a < dend d \<or> covered ds a"
  by (simp add: covered_def)

lemma covered_type_at: "covered ds a \<longleftrightarrow> type_at ds a \<noteq> None"
  unfolding covered_def type_at_None by blast

lemma coalesce_list_covers:
  "\<forall>d \<in> set ds. wf_desc d \<and> kind d = k \<Longrightarrow> sorted (map dstart ds) \<Longrightarrow> sorted (map dend ds) \<Longrightarrow>
   covered (coalesce_list ds) a \<longleftrightarrow> covered ds a"
proof (induction ds rule: coalesce_list.induct)
  case (3 c n ds)
  then have wf: "wf_desc c" "wf_desc n" and le: "dstart c \<le> dstart n" and le2: "dend c \<le> dend n"
    and kd: "kind c = kind n"
    by simp_all
  show ?case
  proof (cases "descriptors_are_compatible c n")
    case True
    let ?m = "merge_descriptors c n"
    have m: "wf_desc ?m" "dend ?m = dend n" using merge_descriptors_wf [OF wf le] by auto
    have "covered (coalesce_list (c # n # ds)) a \<longleftrightarrow> covered (?m # ds) a"
      using True "3.IH"(1) "3.prems" m by simp
    also have "\<dots> \<longleftrightarrow> covered (c # n # ds) a"
      using True m le le2 compatible_kind [OF kd wf(1)] by (auto simp: covered_Cons)
    finally show ?thesis .
  next
    case False
    then show ?thesis using "3.IH"(2) "3.prems" by (simp add: covered_Cons)
  qed
qed simp_all

end
