(* ===== verification/Memory.thy ===== *)
theory Memory
  imports PageMap
begin

unbundle bit_operations_syntax

text \<open>
  The page allocator of \<open>src/memory.rs\<close> on top of the descriptor buffer of \<open>PageMap\<close>: allocation
  policies, \<open>AllocatePages\<close> and \<open>FreePages\<close>, the aligned allocator, carving of reserved and firmware
  ranges and the construction of the map from region lists.

  The \<open>page_store\<close> locale states what the clients of the allocator (file loading, device-tree
  cloning, kernel relocation) rely on; it is interpreted on \<open>allocate_exact_range\<close> and
  \<open>free_exact_range\<close>.
\<close>

section \<open>Allocation policies\<close>

text \<open>The loops below are the \<open>for descriptor in self.descriptors()\<close> loops with the running
  \<open>candidate\<close>.\<close>

fun any_pages_loop :: "u64 \<Rightarrow> EFI_MEMORY_DESCRIPTOR list \<Rightarrow> u64 option \<Rightarrow> MemoryError + u64 option" where
  "any_pages_loop byte_count [] candidate = Inr candidate"
| "any_pages_loop byte_count (descriptor # ds) candidate =
     (if Type descriptor \<noteq> type_u32 EfiConventionalMemory then any_pages_loop byte_count ds candidate
      else rbind (descriptor_end descriptor) (\<lambda>descr_end.
        if descr_end < saturating_add (PhysicalStart descriptor) byte_count
        then any_pages_loop byte_count ds candidate
        else let start = align_down (descr_end - byte_count) EFI_PAGE_SIZE in
          if start < PhysicalStart descriptor then any_pages_loop byte_count ds candidate
          else any_pages_loop byte_count ds
                 (Some (case candidate of None \<Rightarrow> start | Some current \<Rightarrow> max current start))))"

definition find_allocation_any_pages :: "PageAllocator \<Rightarrow> u64 \<Rightarrow> MemoryError + u64" where
  "find_allocation_any_pages self Pages =
     rbind (pages_to_bytes Pages) (\<lambda>byte_count.
     rbind (any_pages_loop byte_count (active self) None) (\<lambda>candidate.
     ok_or OutOfResources candidate))"

fun aligned_loop ::
  "u64 \<Rightarrow> u64 \<Rightarrow> AllocationDirection \<Rightarrow> EFI_MEMORY_DESCRIPTOR list \<Rightarrow> u64 option \<Rightarrow> MemoryError + u64 option" where
  "aligned_loop byte_count alignment direction [] candidate = Inr candidate"
| "aligned_loop byte_count alignment direction (descriptor # ds) candidate =
     (if Type descriptor \<noteq> type_u32 EfiConventionalMemory
      then aligned_loop byte_count alignment direction ds candidate
      else rbind (descriptor_end descriptor) (\<lambda>descr_end.
        case checked_sub descr_end byte_count of
          None \<Rightarrow> aligned_loop byte_count alignment direction ds candidate
        | Some latest_start \<Rightarrow>
            if latest_start < PhysicalStart descriptor
            then aligned_loop byte_count alignment direction ds candidate
            else rbind (case direction of
                          Low \<Rightarrow> align_up (PhysicalStart descriptor) alignment
                        | High \<Rightarrow> Inr (align_down latest_start alignment)) (\<lambda>start.
              case checked_add start byte_count of
                None \<Rightarrow> aligned_loop byte_count alignment direction ds candidate
              | Some range_end \<Rightarrow>
                  if start < PhysicalStart descriptor \<or> descr_end < range_end
                  then aligned_loop byte_count alignment direction ds candidate
                  else aligned_loop byte_count alignment direction ds
                    (Some (case (candidate, direction) of
                        (Some current, Low) \<Rightarrow> min current start
                      | (Some current, High) \<Rightarrow> max current start
                      | (None, _) \<Rightarrow> start)))))"

definition find_aligned_allocation ::
  "PageAllocator \<Rightarrow> u64 \<Rightarrow> u64 \<Rightarrow> AllocationDirection \<Rightarrow> MemoryError + u64" where
  "find_aligned_allocation self pages alignment direction =
     rbind (pages_to_bytes pages) (\<lambda>byte_count.
     rbind (aligned_loop byte_count alignment direction (active self) None) (\<lambda>candidate.
     ok_or OutOfResources candidate))"

fun max_address_loop ::
  "u64 \<Rightarrow> u64 \<Rightarrow> EFI_MEMORY_DESCRIPTOR list \<Rightarrow> u64 option \<Rightarrow> MemoryError + u64 option" where
  "max_address_loop Pages Memory [] candidate = Inr candidate"
| "max_address_loop Pages Memory (descriptor # ds) candidate =
     (if Type descriptor \<noteq> type_u32 EfiConventionalMemory then max_address_loop Pages Memory ds candidate
      else rbind (descriptor_end descriptor) (\<lambda>descr_end.
        let upper_bound = min descr_end (saturating_add Memory 1) in
        if upper_bound < saturating_add (PhysicalStart descriptor) Pages
        then max_address_loop Pages Memory ds candidate
        else let start = align_down (upper_bound - Pages) EFI_PAGE_SIZE in
          if start < PhysicalStart descriptor then max_address_loop Pages Memory ds candidate
          else max_address_loop Pages Memory ds
                 (Some (case candidate of None \<Rightarrow> start | Some current \<Rightarrow> max current start))))"

definition find_allocation_max_address :: "PageAllocator \<Rightarrow> u64 \<Rightarrow> u64 \<Rightarrow> MemoryError + u64" where
  "find_allocation_max_address self Pages Memory =
     rbind (max_address_loop Pages Memory (active self) None) (\<lambda>candidate.
     ok_or OutOfResources candidate)"

section \<open>Exact ranges\<close>

fun covering_loop :: "EFI_MEMORY_DESCRIPTOR list \<Rightarrow> nat \<Rightarrow> u64 \<Rightarrow> u64 \<Rightarrow> MemoryError + nat" where
  "covering_loop [] index start range_end = Inl NotFound"
| "covering_loop (descriptor # ds) index start range_end =
     rbind (descriptor_end descriptor) (\<lambda>descr_end.
     if PhysicalStart descriptor \<le> start \<and> range_end \<le> descr_end then Inr index
     else covering_loop ds (index + 1) start range_end)"

definition find_descriptor_covering :: "PageAllocator \<Rightarrow> u64 \<Rightarrow> u64 \<Rightarrow> MemoryError + nat" where
  "find_descriptor_covering self start range_end = covering_loop (active self) 0 start range_end"

definition allocate_exact_range ::
  "PageAllocator \<Rightarrow> u64 \<Rightarrow> u64 \<Rightarrow> EFI_MEMORY_TYPE \<Rightarrow> (MemoryError, unit, PageAllocator) outcome" where
  "allocate_exact_range self Memory Pages MemoryType =
     sbind (checked_end Memory Pages, self) (\<lambda>range_end self.
     sbind (find_descriptor_covering self Memory range_end, self) (\<lambda>index self.
     if Type (descriptors self ! index) \<noteq> type_u32 EfiConventionalMemory
     then (Inl OutOfResources, self)
     else sbind (replace_range self index Memory Pages MemoryType) (\<lambda>_ self.
       (Inr (), coalesce self))))"

definition free_exact_range ::
  "PageAllocator \<Rightarrow> u64 \<Rightarrow> u64 \<Rightarrow> (MemoryError, unit, PageAllocator) outcome" where
  "free_exact_range self Memory Pages =
     sbind (checked_end Memory Pages, self) (\<lambda>range_end self.
     sbind (find_descriptor_covering self Memory range_end, self) (\<lambda>index self.
     let descriptor_type = Type (descriptors self ! index) in
     if descriptor_type = type_u32 EfiConventionalMemory
        \<or> descriptor_type = type_u32 EfiReservedMemoryType
     then (Inl InvalidParameter, self)
     else sbind (replace_range self index Memory Pages EfiConventionalMemory) (\<lambda>_ self.
       (Inr (), coalesce self))))"

section \<open>EFI entry points\<close>

text \<open>The in/out parameter \<open>*Memory\<close> is the argument \<open>Memory\<close> and, on success, the result.\<close>

definition AllocatePages ::
  "PageAllocator \<Rightarrow> EFI_ALLOCATE_TYPE \<Rightarrow> EFI_MEMORY_TYPE \<Rightarrow> u64 \<Rightarrow> u64 \<Rightarrow> (MemoryError, u64, PageAllocator) outcome" where
  "AllocatePages self Ty MemoryType Pages Memory =
     (if Pages = 0 \<or> MemoryType = EfiMaxMemoryType \<or> Ty = MaxAllocateType
      then (Inl InvalidParameter, self)
      else
        sbind (pages_to_u64 Pages, self) (\<lambda>page_count self.
        sbind (pages_to_bytes Pages, self) (\<lambda>byte_count self.
        sbind (case Ty of
                 AllocateAnyPages \<Rightarrow> find_allocation_any_pages self page_count
               | AllocateMaxAddress \<Rightarrow> find_allocation_max_address self byte_count Memory
               | AllocateAddress \<Rightarrow>
                   if \<not> is_page_aligned Memory then Inl InvalidParameter else Inr Memory
               | MaxAllocateType \<Rightarrow> Inl InvalidParameter, self) (\<lambda>allocation_start self.
        sbind (allocate_exact_range self allocation_start page_count MemoryType) (\<lambda>_ self.
        (Inr allocation_start, self))))))"

definition allocate_pages_for_size ::
  "PageAllocator \<Rightarrow> EFI_MEMORY_TYPE \<Rightarrow> u64 \<Rightarrow> (MemoryError, u64, PageAllocator) outcome" where
  "allocate_pages_for_size self memory_type size_bytes =
     (if memory_type = EfiMaxMemoryType then (Inl InvalidParameter, self)
      else sbind (pages_for_size size_bytes, self) (\<lambda>page_count self.
        AllocatePages self AllocateAnyPages memory_type page_count 0))"

definition allocate_aligned_pages ::
  "PageAllocator \<Rightarrow> EFI_MEMORY_TYPE \<Rightarrow> u64 \<Rightarrow> u64 \<Rightarrow> AllocationDirection \<Rightarrow> (MemoryError, u64, PageAllocator) outcome" where
  "allocate_aligned_pages self memory_type pages alignment direction =
     (if pages = 0 \<or> memory_type = EfiMaxMemoryType \<or> alignment = 0 \<or> \<not> is_page_aligned alignment
      then (Inl InvalidParameter, self)
      else
        sbind (pages_to_u64 pages, self) (\<lambda>page_count self.
        sbind (find_aligned_allocation self page_count alignment direction, self)
          (\<lambda>allocation_start self.
        sbind (allocate_exact_range self allocation_start page_count memory_type) (\<lambda>_ self.
        (Inr allocation_start, self)))))"

definition allocate_aligned_pages_for_size ::
  "PageAllocator \<Rightarrow> EFI_MEMORY_TYPE \<Rightarrow> u64 \<Rightarrow> u64 \<Rightarrow> AllocationDirection \<Rightarrow> (MemoryError, u64, PageAllocator) outcome" where
  "allocate_aligned_pages_for_size self memory_type size_bytes alignment direction =
     (if memory_type = EfiMaxMemoryType then (Inl InvalidParameter, self)
      else sbind (pages_for_size size_bytes, self) (\<lambda>page_count self.
        allocate_aligned_pages self memory_type page_count alignment direction))"

definition FreePages ::
  "PageAllocator \<Rightarrow> u64 \<Rightarrow> u64 \<Rightarrow> (MemoryError, unit, PageAllocator) outcome" where
  "FreePages self Memory Pages =
     (if Pages = 0 \<or> \<not> is_page_aligned Memory then (Inl InvalidParameter, self)
      else sbind (pages_to_u64 Pages, self) (\<lambda>page_count self.
        free_exact_range self Memory page_count))"

section \<open>Building the map\<close>

definition add_memory_region ::
  "PageAllocator \<Rightarrow> MemoryRegion \<Rightarrow> (MemoryError, unit, PageAllocator) outcome" where
  "add_memory_region self region =
     sbind (align_region_to_pages region False, self) (\<lambda>aligned self.
     case aligned of
       None \<Rightarrow> (Inr (), self)
     | Some (start, range_end) \<Rightarrow>
         insert_sorted self
           \<lparr>Type = type_u32 EfiConventionalMemory, PhysicalStart = start, VirtualStart = 0,
            NumberOfPages = bytes_to_pages (range_end - start), Attribute = 0\<rparr>)"

text \<open>
  The carving loop, shared by \<open>carve_range\<close> and \<open>carve_range_for_reserved_region\<close>, which differ in
  the descriptor types they may replace. Each round either advances the index or takes at least
  one more slot of the buffer, so the loop ends for every input.
\<close>

lemma replace_range_measure:
  assumes "replace_range self index M P t = (Inr n, self')" and "index < descriptor_count self"
  shows "capacity self' - descriptor_count self' < capacity self - descriptor_count self \<or>
    capacity self' - descriptor_count self' = capacity self - descriptor_count self
    \<and> descriptor_count self' - n < descriptor_count self - index"
proof (cases "descriptor_count self' = descriptor_count self")
  case True
  with replace_range_count [OF assms(1)] assms(2) show ?thesis by auto
next
  case False
  with replace_range_count [OF assms(1)] show ?thesis by auto
qed

function carve_loop ::
  "(u32 \<Rightarrow> bool) \<Rightarrow> PageAllocator \<Rightarrow> u64 \<Rightarrow> u64 \<Rightarrow> EFI_MEMORY_TYPE \<Rightarrow> nat \<Rightarrow> (MemoryError, unit, PageAllocator) outcome" where
  "carve_loop replaceable self start range_end memory_type index =
     (if index < descriptor_count self then
        let descriptor = descriptors self ! index in
        case descriptor_end descriptor of
          Inl e \<Rightarrow> (Inl e, self)
        | Inr descr_end \<Rightarrow>
            if descr_end \<le> start
            then carve_loop replaceable self start range_end memory_type (index + 1)
            else if range_end \<le> PhysicalStart descriptor then (Inr (), self)
            else if \<not> replaceable (Type descriptor)
            then carve_loop replaceable self start range_end memory_type (index + 1)
            else
              let overlap_start = max (PhysicalStart descriptor) start;
                  overlap_end = min descr_end range_end;
                  overlap_pages = bytes_to_pages (overlap_end - overlap_start)
              in case replace_range self index overlap_start overlap_pages memory_type of
                   (Inl e, self') \<Rightarrow> (Inl e, self')
                 | (Inr index', self') \<Rightarrow>
                     carve_loop replaceable self' start range_end memory_type index'
      else (Inr (), self))"
  by pat_completeness auto
termination
  by (relation "measures [\<lambda>(_, self, _, _, _, _). capacity self - descriptor_count self,
                          \<lambda>(_, self, _, _, _, index). descriptor_count self - index]")
     (auto dest!: replace_range_measure [OF sym])

declare carve_loop.simps [simp del]

definition carve_range ::
  "PageAllocator \<Rightarrow> u64 \<Rightarrow> u64 \<Rightarrow> EFI_MEMORY_TYPE \<Rightarrow> (MemoryError, unit, PageAllocator) outcome" where
  "carve_range self start range_end memory_type =
     carve_loop (\<lambda>t. t = type_u32 EfiConventionalMemory) self start range_end memory_type 0"

definition carve_range_for_reserved_region ::
  "PageAllocator \<Rightarrow> u64 \<Rightarrow> u64 \<Rightarrow> EFI_MEMORY_TYPE \<Rightarrow> (MemoryError, unit, PageAllocator) outcome" where
  "carve_range_for_reserved_region self start range_end memory_type =
     carve_loop (\<lambda>t. t = type_u32 EfiConventionalMemory \<or> t = type_u32 EfiReservedMemoryType)
       self start range_end memory_type 0"

definition add_reserved_region_with_type ::
  "PageAllocator \<Rightarrow> MemoryRegion \<Rightarrow> EFI_MEMORY_TYPE \<Rightarrow> (MemoryError, unit, PageAllocator) outcome" where
  "add_reserved_region_with_type self region memory_type =
     sbind (align_region_to_pages region True, self) (\<lambda>aligned self.
     case aligned of
       None \<Rightarrow> (Inr (), self)
     | Some (reservation_start, reservation_end) \<Rightarrow>
         carve_range_for_reserved_region self reservation_start reservation_end memory_type)"

definition add_reserved_region ::
  "PageAllocator \<Rightarrow> MemoryRegion \<Rightarrow> (MemoryError, unit, PageAllocator) outcome" where
  "add_reserved_region self region = add_reserved_region_with_type self region EfiReservedMemoryType"

definition reserve_region_with_type ::
  "PageAllocator \<Rightarrow> MemoryRegion \<Rightarrow> EFI_MEMORY_TYPE \<Rightarrow> (MemoryError, unit, PageAllocator) outcome" where
  "reserve_region_with_type self region memory_type =
     sbind (add_reserved_region_with_type self region memory_type) (\<lambda>_ self. (Inr (), coalesce self))"

definition add_firmware_region ::
  "PageAllocator \<Rightarrow> (u64 \<times> u64) option \<Rightarrow> EFI_MEMORY_TYPE \<Rightarrow> (MemoryError, unit, PageAllocator) outcome" where
  "add_firmware_region self region memory_type =
     (case region of
        None \<Rightarrow> (Inr (), self)
      | Some (start, range_end) \<Rightarrow> carve_range self start range_end memory_type)"

text \<open>\<open>for region in \<dots> { allocator.add_\<dots>_region(*region)?; }\<close>\<close>

fun add_memory_regions ::
  "PageAllocator \<Rightarrow> MemoryRegion list \<Rightarrow> (MemoryError, unit, PageAllocator) outcome" where
  "add_memory_regions self [] = (Inr (), self)"
| "add_memory_regions self (r # rs) =
     sbind (add_memory_region self r) (\<lambda>_ self. add_memory_regions self rs)"

fun add_reserved_regions ::
  "PageAllocator \<Rightarrow> MemoryRegion list \<Rightarrow> (MemoryError, unit, PageAllocator) outcome" where
  "add_reserved_regions self [] = (Inr (), self)"
| "add_reserved_regions self (r # rs) =
     sbind (add_reserved_region self r) (\<lambda>_ self. add_reserved_regions self rs)"

text \<open>The run-time addresses of the linker symbols, one \<open>lla\<close> each.\<close>

type_synonym symbols = "string \<Rightarrow> u64"

definition firmware_code_start :: "symbols \<Rightarrow> u64" where
  "firmware_code_start lla = lla ''__firmware_code_start''"

definition firmware_code_end :: "symbols \<Rightarrow> u64" where
  "firmware_code_end lla = lla ''__firmware_code_end''"

definition firmware_data_start :: "symbols \<Rightarrow> u64" where
  "firmware_data_start lla = lla ''__firmware_data_start''"

definition firmware_data_end :: "symbols \<Rightarrow> u64" where
  "firmware_data_end lla = lla ''__firmware_data_end''"

definition firmware_heap_start :: "symbols \<Rightarrow> u64" where
  "firmware_heap_start lla = lla ''__heap_start''"

definition firmware_heap_end :: "symbols \<Rightarrow> u64" where
  "firmware_heap_end lla = lla ''__heap_end''"

definition firmware_stack_bottom :: "symbols \<Rightarrow> u64" where
  "firmware_stack_bottom lla = lla ''__stack_bottom''"

definition firmware_stack_top :: "symbols \<Rightarrow> u64" where
  "firmware_stack_top lla = lla ''__stack_top''"

definition add_linker_region ::
  "PageAllocator \<Rightarrow> u64 \<Rightarrow> u64 \<Rightarrow> EFI_MEMORY_TYPE \<Rightarrow> (MemoryError, unit, PageAllocator) outcome" where
  "add_linker_region self start range_end memory_type =
     sbind (linker_region start range_end, self) (\<lambda>region self.
     add_firmware_region self region memory_type)"

definition add_firmware_regions :: "symbols \<Rightarrow> PageAllocator \<Rightarrow> (MemoryError, unit, PageAllocator) outcome" where
  "add_firmware_regions lla self =
     sbind (add_linker_region self (firmware_code_start lla) (firmware_code_end lla) EfiBootServicesCode) (\<lambda>_ self.
     sbind (add_linker_region self (firmware_data_start lla) (firmware_data_end lla) EfiBootServicesData) (\<lambda>_ self.
     sbind (add_linker_region self (firmware_heap_start lla) (firmware_heap_end lla) EfiBootServicesData) (\<lambda>_ self.
     add_linker_region self (firmware_stack_bottom lla) (firmware_stack_top lla) EfiBootServicesData)))"

definition from_regions ::
  "symbols \<Rightarrow> MemoryRegion list \<Rightarrow> MemoryRegion list \<Rightarrow> EFI_MEMORY_DESCRIPTOR list
   \<Rightarrow> (MemoryError, unit, PageAllocator) outcome" where
  "from_regions lla memory_regions reserved_regions buffer =
     sbind (add_memory_regions \<lparr>descriptors = buffer, descriptor_count = 0\<rparr> memory_regions) (\<lambda>_ self.
     sbind (add_reserved_regions (coalesce self) reserved_regions) (\<lambda>_ self.
     sbind (add_firmware_regions lla self) (\<lambda>_ self.
     (Inr (), coalesce self))))"

section \<open>The map invariant\<close>

definition alloc_ok :: "PageAllocator \<Rightarrow> bool" where
  "alloc_ok self \<longleftrightarrow> buffer_ok self \<and> wf_map (active self)"

text \<open>The abstract map of an allocator.\<close>

definition map_type :: "PageAllocator \<Rightarrow> nat \<Rightarrow> u32 option" where
  "map_type self a = type_at (active self) a"

abbreviation page_range :: "u64 \<Rightarrow> u64 \<Rightarrow> nat set" where
  "page_range M P \<equiv> {unat M ..< unat M + unat P * 4096}"

lemma alloc_ok_coalesce:
  assumes "alloc_ok self"
  shows "alloc_ok (coalesce self)" and "map_type (coalesce self) = map_type self"
  using assms coalesce_active [of self] coalesce_list_wf_map [of "active self"]
  by (auto simp: alloc_ok_def map_type_def)

lemma wf_map_replace:
  assumes "wf_map (xs @ d # ys)" and "wf_map ps"
    and "\<forall>p \<in> set ps. dstart d \<le> dstart p \<and> dend p \<le> dend d"
  shows "wf_map (xs @ ps @ ys)"
  using assms unfolding wf_map_append wf_map_Cons by (fastforce intro: order_trans)

lemma active_split:
  "buffer_ok self \<Longrightarrow> index < descriptor_count self \<Longrightarrow>
   active self = take index (active self) @ descriptors self ! index # drop (index + 1) (active self)"
  by (metis id_take_nth_drop Suc_eq_plus1 length_active nth_active)

lemma replace_range_step:
  assumes ok: "alloc_ok self" and i: "index < descriptor_count self"
    and M: "4096 dvd unat M" and P: "0 < unat P"
    and r: "replace_range self index M P t = (Inr n, self')"
  obtains pre m suf where
    "active self' = take index (active self) @ (pre @ [m] @ suf) @ drop (index + 1) (active self)"
    "n = index + 1 + length pre" "alloc_ok self'"
    "dstart (descriptors self ! index) \<le> unat M" "unat M + unat P * 4096 \<le> dend (descriptors self ! index)"
    "type_at pre = (\<lambda>a. if dstart (descriptors self ! index) \<le> a \<and> a < unat M
        then Some (Type (descriptors self ! index)) else None)"
    "type_at [m] = (\<lambda>a. if a \<in> page_range M P then Some (type_u32 t) else None)"
    "type_at suf = (\<lambda>a. if unat M + unat P * 4096 \<le> a \<and> a < dend (descriptors self ! index)
        then Some (Type (descriptors self ! index)) else None)"
proof -
  let ?d = "descriptors self ! index"
  have wfm: "wf_map (active self)" and bok: "buffer_ok self" using ok by (auto simp: alloc_ok_def)
  have split: "active self = take index (active self) @ ?d # drop (index + 1) (active self)"
    by (rule active_split [OF bok i])
  have wfd: "wf_desc ?d" using wfm split by (metis wf_map_Cons wf_map_append)
  show thesis
  proof (rule replace_range_split [OF bok refl wfd M P r])
    fix pre m suf
    assume a: "active self' = take index (active self) @ (pre @ [m] @ suf) @ drop (index + 1) (active self)"
      and b: "buffer_ok self'" and n: "n = index + 1 + length pre"
      and lo: "dstart ?d \<le> unat M" and hi: "dend m \<le> dend ?d" and ms: "dstart m = unat M"
      and me: "dend m = unat M + unat P * 4096" and mt: "Type m = type_u32 t" and mw: "wf_desc m"
      and pre: "pre = [] \<and> unat M = dstart ?d \<or>
        (\<exists>p. pre = [p] \<and> wf_desc p \<and> dstart p = dstart ?d \<and> dend p = unat M \<and> Type p = Type ?d)"
      and suf: "suf = [] \<and> dend m = dend ?d \<or>
        (\<exists>p. suf = [p] \<and> wf_desc p \<and> dstart p = dend m \<and> dend p = dend ?d \<and> Type p = Type ?d)"
    have parts: "wf_map (pre @ [m] @ suf)"
      using pre suf mw ms me by (auto simp: wf_map_Cons wf_map_append)
    have inside: "\<forall>p \<in> set (pre @ [m] @ suf). dstart ?d \<le> dstart p \<and> dend p \<le> dend ?d"
      using pre suf lo hi ms me wf_descD(1) [OF mw] by auto
    have "wf_map (take index (active self) @ (pre @ [m] @ suf) @ drop (index + 1) (active self))"
      by (rule wf_map_replace [OF _ parts inside]) (use wfm split in simp)
    then have ok': "alloc_ok self'" using a b by (simp add: alloc_ok_def)
    have tp: "type_at pre = (\<lambda>a. if dstart ?d \<le> a \<and> a < unat M then Some (Type ?d) else None)"
      using pre by (auto simp: fun_eq_iff)
    have tm: "type_at [m] = (\<lambda>a. if a \<in> page_range M P then Some (type_u32 t) else None)"
      using ms me mt by (auto simp: fun_eq_iff)
    have ts: "type_at suf = (\<lambda>a. if unat M + unat P * 4096 \<le> a \<and> a < dend ?d then Some (Type ?d) else None)"
      using suf me by (auto simp: fun_eq_iff)
    show thesis by (rule that [OF a n ok' lo _ tp tm ts]) (use hi me in simp)
  qed
qed

lemma replace_range_map:
  assumes ok: "alloc_ok self" and i: "index < descriptor_count self"
    and M: "4096 dvd unat M" and P: "0 < unat P"
    and r: "replace_range self index M P t = (Inr n, self')"
  shows "alloc_ok self'"
    and "map_type self' = (\<lambda>a. if a \<in> page_range M P then Some (type_u32 t) else map_type self a)"
    and "\<And>a. a \<in> page_range M P \<Longrightarrow> map_type self a = Some (Type (descriptors self ! index))"
proof -
  let ?d = "descriptors self ! index"
  obtain pre m suf where
      a: "active self' = take index (active self) @ (pre @ [m] @ suf) @ drop (index + 1) (active self)"
    and ok': "alloc_ok self'" and lo: "dstart ?d \<le> unat M" and hi: "unat M + unat P * 4096 \<le> dend ?d"
    and tp: "type_at pre = (\<lambda>a. if dstart ?d \<le> a \<and> a < unat M then Some (Type ?d) else None)"
    and tm: "type_at [m] = (\<lambda>a. if a \<in> page_range M P then Some (type_u32 t) else None)"
    and ts: "type_at suf = (\<lambda>a. if unat M + unat P * 4096 \<le> a \<and> a < dend ?d then Some (Type ?d) else None)"
    by (rule replace_range_step [OF assms])
  have wfm: "wf_map (active self)" and bok: "buffer_ok self" using ok by (auto simp: alloc_ok_def)
  have split: "active self = take index (active self) @ ?d # drop (index + 1) (active self)"
    by (rule active_split [OF bok i])
  have before: "type_at (take index (active self)) a = None" if "dstart ?d \<le> a" for a
    using wfm split that unfolding type_at_None
    by (metis list.set_intros(1) not_less order_trans wf_map_append)
  have mid: "type_at (pre @ [m] @ suf) a = (if a \<in> page_range M P then Some (type_u32 t)
      else if dstart ?d \<le> a \<and> a < dend ?d then Some (Type ?d) else None)" for a
    using lo hi by (simp only: type_at_append tp tm ts) auto
  show "alloc_ok self'" by (rule ok')
  show "map_type self' = (\<lambda>a. if a \<in> page_range M P then Some (type_u32 t) else map_type self a)"
  proof
    fix a
    have "map_type self' a = (case type_at (take index (active self)) a of Some s \<Rightarrow> Some s
        | None \<Rightarrow> (case type_at (pre @ [m] @ suf) a of Some s \<Rightarrow> Some s
           | None \<Rightarrow> type_at (drop (index + 1) (active self)) a))"
      by (simp only: map_type_def a type_at_append)
    also have "\<dots> = (if a \<in> page_range M P then Some (type_u32 t)
        else case type_at (take index (active self)) a of Some s \<Rightarrow> Some s
        | None \<Rightarrow> type_at (?d # drop (index + 1) (active self)) a)"
      using before [of a] lo by (simp only: mid) (auto split: option.splits)
    also have "\<dots> = (if a \<in> page_range M P then Some (type_u32 t) else map_type self a)"
      by (metis map_type_def split type_at_append option.case_eq_if)
    finally show "map_type self' a = (if a \<in> page_range M P then Some (type_u32 t) else map_type self a)" .
  qed
  have "?d \<in> set (active self)" by (subst split) simp
  then show "\<And>a. a \<in> page_range M P \<Longrightarrow> map_type self a = Some (Type ?d)"
    using lo hi type_at_wf [OF wfm] unfolding map_type_def by auto
qed

section \<open>Exact ranges on the map\<close>

lemma covering_loop_Inr:
  "covering_loop ds k s e = Inr i \<Longrightarrow>
   k \<le> i \<and> i < k + length ds \<and> dstart (ds ! (i - k)) \<le> unat s \<and> unat e \<le> dend (ds ! (i - k))"
proof (induction ds arbitrary: k)
  case Nil
  then show ?case by simp
next
  case (Cons d ds)
  then obtain de where de: "descriptor_end d = Inr de" by auto
  show ?case
  proof (cases "PhysicalStart d \<le> s \<and> e \<le> de")
    case True
    with Cons.prems de have "i = k" by simp
    with True show ?thesis using descriptor_end_unat [OF de] by (simp add: word_le_nat_alt dstart_def)
  next
    case False
    with Cons.prems de have "covering_loop ds (k + 1) s e = Inr i" by auto
    from Cons.IH [OF this] show ?thesis by (auto simp: nth_Cons')
  qed
qed

lemma covering_loop_complete:
  "\<forall>d \<in> set ds. dend d < 2 ^ 64 \<Longrightarrow> d \<in> set ds \<Longrightarrow> dstart d \<le> unat s \<Longrightarrow> unat e \<le> dend d \<Longrightarrow>
   \<exists>i. covering_loop ds k s e = Inr i"
proof (induction ds arbitrary: k)
  case Nil
  then show ?case by simp
next
  case (Cons x ds)
  then obtain de where de: "descriptor_end x = Inr de" "unat de = dend x"
    using descriptor_end_ok [of x] by auto
  with Cons show ?case by (auto simp: word_le_nat_alt dstart_def)
qed

lemma find_descriptor_covering_Inr:
  assumes "buffer_ok self" and "find_descriptor_covering self s e = Inr i"
  shows "i < descriptor_count self" and "dstart (descriptors self ! i) \<le> unat s"
    and "unat e \<le> dend (descriptors self ! i)"
  using covering_loop_Inr [of "active self" 0 s e i] assms
  by (auto simp: find_descriptor_covering_def length_active nth_active)

lemma allocate_exact_range_Inl: "allocate_exact_range self M P t = (Inl e, self') \<Longrightarrow> self' = self"
  by (auto simp: allocate_exact_range_def sbind_eq_Inl split: if_splits dest: replace_range_Inl)

lemma free_exact_range_Inl: "free_exact_range self M P = (Inl e, self') \<Longrightarrow> self' = self"
  by (auto simp: free_exact_range_def Let_def sbind_eq_Inl split: if_splits dest: replace_range_Inl)

lemma exact_range_coalesced:
  assumes "alloc_ok self" and "i < descriptor_count self" and "4096 dvd unat M" and "0 < unat P"
    and "replace_range self i M P t = (Inr n, self')"
  shows "alloc_ok (coalesce self')"
    and "map_type (coalesce self') = (\<lambda>a. if a \<in> page_range M P then Some (type_u32 t) else map_type self a)"
  using replace_range_map [OF assms] alloc_ok_coalesce by auto

lemma allocate_exact_range_Inr:
  assumes ok: "alloc_ok self" and M: "4096 dvd unat M" and P: "0 < unat P"
    and r: "allocate_exact_range self M P t = (Inr u, self')"
  shows "alloc_ok self'"
    and "map_type self' = (\<lambda>a. if a \<in> page_range M P then Some (type_u32 t) else map_type self a)"
    and "\<And>a. a \<in> page_range M P \<Longrightarrow> map_type self a = Some (type_u32 EfiConventionalMemory)"
    and "unat M + unat P * 4096 < 2 ^ 64"
proof -
  from r obtain e i n s where e: "checked_end M P = Inr e"
    and i: "find_descriptor_covering self M e = Inr i"
    and ty: "Type (descriptors self ! i) = type_u32 EfiConventionalMemory"
    and rr: "replace_range self i M P t = (Inr n, s)" and self': "self' = coalesce s"
    by (auto simp: allocate_exact_range_def sbind_eq_Inr split: if_splits)
  have lt: "i < descriptor_count self"
    using find_descriptor_covering_Inr [OF _ i] ok by (simp add: alloc_ok_def)
  show "alloc_ok self'"
    "map_type self' = (\<lambda>a. if a \<in> page_range M P then Some (type_u32 t) else map_type self a)"
    using exact_range_coalesced [OF ok lt M P rr] self' by simp_all
  show "\<And>a. a \<in> page_range M P \<Longrightarrow> map_type self a = Some (type_u32 EfiConventionalMemory)"
    using replace_range_map(3) [OF ok lt M P rr] ty by simp
  show "unat M + unat P * 4096 < 2 ^ 64" using e by (simp add: checked_end_Inr)
qed

lemma free_exact_range_Inr:
  assumes ok: "alloc_ok self" and M: "4096 dvd unat M" and P: "0 < unat P"
    and r: "free_exact_range self M P = (Inr u, self')"
  shows "alloc_ok self'"
    and "map_type self' = (\<lambda>a. if a \<in> page_range M P then Some (type_u32 EfiConventionalMemory) else map_type self a)"
    and "\<exists>t. t \<noteq> type_u32 EfiConventionalMemory \<and> t \<noteq> type_u32 EfiReservedMemoryType
           \<and> (\<forall>a \<in> page_range M P. map_type self a = Some t)"
proof -
  from r obtain e i n s where i: "find_descriptor_covering self M e = Inr i"
    and ty: "Type (descriptors self ! i) \<noteq> type_u32 EfiConventionalMemory"
      "Type (descriptors self ! i) \<noteq> type_u32 EfiReservedMemoryType"
    and rr: "replace_range self i M P EfiConventionalMemory = (Inr n, s)" and self': "self' = coalesce s"
    by (auto simp: free_exact_range_def sbind_eq_Inr Let_def split: if_splits)
  have lt: "i < descriptor_count self"
    using find_descriptor_covering_Inr [OF _ i] ok by (simp add: alloc_ok_def)
  show "alloc_ok self'"
    "map_type self' = (\<lambda>a. if a \<in> page_range M P then Some (type_u32 EfiConventionalMemory) else map_type self a)"
    using exact_range_coalesced [OF ok lt M P rr] self' by simp_all
  show "\<exists>t. t \<noteq> type_u32 EfiConventionalMemory \<and> t \<noteq> type_u32 EfiReservedMemoryType
           \<and> (\<forall>a \<in> page_range M P. map_type self a = Some t)"
    using replace_range_map(3) [OF ok lt M P rr] ty by blast
qed

section \<open>Normal maps and completeness of exact allocation\<close>

text \<open>
  Descriptors made by this module all have attribute and virtual address 0, and every public
  operation ends in \<open>coalesce\<close>, so touching descriptors differ in type: a \<open>normal\<close> map. In a normal
  map a range of one type lies in one descriptor, so a range the map shows free can be allocated.
\<close>

definition plain :: "EFI_MEMORY_DESCRIPTOR \<Rightarrow> bool" where
  "plain d \<longleftrightarrow> VirtualStart d = 0 \<and> Attribute d = 0"

definition normal :: "PageAllocator \<Rightarrow> bool" where
  "normal self \<longleftrightarrow> alloc_ok self \<and> (\<forall>d \<in> set (active self). plain d)
     \<and> successively (\<lambda>a b. \<not> descriptors_are_compatible a b) (active self)"

lemma coalesce_list_plain: "\<forall>d \<in> set ds. plain d \<Longrightarrow> \<forall>d \<in> set (coalesce_list ds). plain d"
  by (induction ds rule: coalesce_list.induct) (auto simp: plain_def)

lemma normal_coalesce:
  assumes "alloc_ok self" and "\<forall>d \<in> set (active self). plain d"
  shows "normal (coalesce self)"
  using alloc_ok_coalesce(1) [OF assms(1)] coalesce_list_plain [OF assms(2)] assms(1)
    coalesce_list_maximal [of "active self"]
  by (simp add: normal_def coalesce_active(1) alloc_ok_def)

lemma replace_range_plain:
  assumes "buffer_ok self" and "replace_range self index M P t = (Inr n, self')"
    and "\<forall>d \<in> set (active self). plain d"
  shows "\<forall>d \<in> set (active self'). plain d"
proof -
  from assms(2) obtain de re u where
    rd: "replace_descriptor self index (prefix_part (descriptors self ! index) M @
        [middle_part (descriptors self ! index) M P t] @ suffix_part (descriptors self ! index) de re) = (Inr u, self')"
    by (auto simp: replace_range_def Let_def sbind_eq_Inr split: if_splits)
  note a = replace_descriptor_Inr [OF assms(1) rd]
  have "plain (descriptors self ! index)"
    using assms(1,3) a(2) by (metis length_active nth_active nth_mem)
  then show ?thesis using assms(3) unfolding a(1)
    by (auto simp: prefix_part_def middle_part_def suffix_part_def plain_def Let_def
        dest: in_set_takeD in_set_dropD)
qed

lemma allocate_exact_range_normal:
  assumes "normal self" and M: "4096 dvd unat M" and P: "0 < unat P"
    and "allocate_exact_range self M P t = (Inr u, self')"
  shows "normal self'"
proof -
  from assms obtain e i n s where i: "find_descriptor_covering self M e = Inr i"
    and rr: "replace_range self i M P t = (Inr n, s)" and self': "self' = coalesce s"
    by (auto simp: allocate_exact_range_def sbind_eq_Inr split: if_splits)
  have ok: "alloc_ok self" "buffer_ok self" "\<forall>d \<in> set (active self). plain d"
    using assms(1) by (auto simp: normal_def alloc_ok_def)
  have "i < descriptor_count self" by (rule find_descriptor_covering_Inr [OF ok(2) i])
  from replace_range_map(1) [OF ok(1) this M P rr] replace_range_plain [OF ok(2) rr ok(3)]
  show ?thesis unfolding self' by (rule normal_coalesce)
qed

lemma free_exact_range_normal:
  assumes "normal self" and M: "4096 dvd unat M" and P: "0 < unat P"
    and "free_exact_range self M P = (Inr u, self')"
  shows "normal self'"
proof -
  from assms obtain e i n s where i: "find_descriptor_covering self M e = Inr i"
    and rr: "replace_range self i M P EfiConventionalMemory = (Inr n, s)" and self': "self' = coalesce s"
    by (auto simp: free_exact_range_def sbind_eq_Inr Let_def split: if_splits)
  have ok: "alloc_ok self" "buffer_ok self" "\<forall>d \<in> set (active self). plain d"
    using assms(1) by (auto simp: normal_def alloc_ok_def)
  have "i < descriptor_count self" by (rule find_descriptor_covering_Inr [OF ok(2) i])
  from replace_range_map(1) [OF ok(1) this M P rr] replace_range_plain [OF ok(2) rr ok(3)]
  show ?thesis unfolding self' by (rule normal_coalesce)
qed

lemma type_at_lower: "wf_map ds \<Longrightarrow> type_at ds a = Some t \<Longrightarrow> ds \<noteq> [] \<and> dstart (hd ds) \<le> a"
  by (cases ds) (auto simp: wf_map_Cons split: if_splits dest!: type_at_SomeD,
    (use wf_descD(1) in fastforce)+)

lemma normal_one_descriptor:
  assumes "wf_map ds" and "\<forall>d \<in> set ds. plain d"
    and "successively (\<lambda>a b. \<not> descriptors_are_compatible a b) ds"
    and "s < e" and "\<forall>a \<in> {s ..< e}. type_at ds a = Some t"
  shows "\<exists>d \<in> set ds. dstart d \<le> s \<and> e \<le> dend d \<and> Type d = t"
  using assms
proof (induction ds)
  case Nil
  then show ?case by auto
next
  case (Cons d ds)
  have hs: "type_at (d # ds) s = Some t" using Cons.prems by simp
  have ds: "dstart d \<le> s" using type_at_lower [OF Cons.prems(1) hs] by simp
  have wf: "wf_desc d" "wf_map ds" using Cons.prems(1) by (auto simp: wf_map_Cons)
  show ?case
  proof (cases "dend d \<le> s")
    case True
    then have "\<forall>a \<in> {s ..< e}. type_at ds a = Some t" using Cons.prems(5) by fastforce
    then show ?thesis using Cons by (auto simp: wf_map_Cons successively_Cons)
  next
    case False
    with hs ds have ty: "Type d = t" by simp
    have "e \<le> dend d"
    proof (rule ccontr)
      assume lt: "\<not> e \<le> dend d"
      then have "type_at (d # ds) (dend d) = Some t" using Cons.prems(5) False by (meson atLeastLessThan_iff leI less_imp_le)
      then have "type_at ds (dend d) = Some t" by simp
      from type_at_lower [OF wf(2) this] obtain n ns where n: "ds = n # ns" "dstart n \<le> dend d"
        by (cases ds) auto
      moreover have "dend d \<le> dstart n" "wf_desc n" using Cons.prems(1) n by (auto simp: wf_map_Cons)
      moreover have "Type n = t"
        using \<open>type_at ds (dend d) = Some t\<close> calculation wf_descD(1) [of n] by simp
      ultimately have "descriptors_are_compatible d n"
        using Cons.prems(2) ty wf(1) by (simp add: compatible_iff plain_def wf_desc_def)
      then show False using Cons.prems(3) n by simp
    qed
    then show ?thesis using ds ty by auto
  qed
qed

lemma replace_range_fits:
  assumes ok: "buffer_ok self" and i: "index < descriptor_count self"
    and room: "descriptor_count self + 2 \<le> capacity self"
    and e: "checked_end M P = Inr e"
    and d: "wf_desc (descriptors self ! index)" "dstart (descriptors self ! index) \<le> unat M"
      "unat e \<le> dend (descriptors self ! index)"
  shows "\<exists>n self'. replace_range self index M P t = (Inr n, self')"
proof -
  obtain de where de: "descriptor_end (descriptors self ! index) = Inr de" "unat de = dend (descriptors self ! index)"
    using descriptor_end_ok d(1) by (auto simp: wf_desc_def)
  have "length (suffix_part (descriptors self ! index) de e) \<le> 1"
    by (simp add: suffix_part_def Let_def)
  then show ?thesis
    using i room d(2,3) de e length_prefix_part [of "descriptors self ! index" M]
    by (auto simp: replace_range_def Let_def word_less_nat_alt dstart_def replace_descriptor_def)
qed

lemma allocate_exact_range_complete:
  assumes n: "normal self" and room: "descriptor_count self + 2 \<le> capacity self"
    and P: "0 < unat P" and lim: "unat M + unat P * 4096 < 2 ^ 64"
    and free: "\<forall>a \<in> page_range M P. map_type self a = Some (type_u32 EfiConventionalMemory)"
  shows "\<exists>self'. allocate_exact_range self M P t = (Inr (), self')"
proof -
  have ok: "buffer_ok self" "wf_map (active self)" using n by (auto simp: normal_def alloc_ok_def)
  obtain e where e: "checked_end M P = Inr e" using lim by (simp add: checked_end_Inr)
  obtain d where d: "d \<in> set (active self)" "dstart d \<le> unat M" "unat e \<le> dend d"
    using normal_one_descriptor [of "active self" "unat M" "unat M + unat P * 4096" "type_u32 EfiConventionalMemory"] n P free
      checked_end_unat [OF e]
    by (auto simp: normal_def alloc_ok_def map_type_def)
  obtain i where i: "find_descriptor_covering self M e = Inr i"
    using covering_loop_complete [of "active self" d M e 0] d ok(2)
    by (auto simp: find_descriptor_covering_def wf_map_def wf_desc_def)
  note c = find_descriptor_covering_Inr [OF ok(1) i]
  have m: "descriptors self ! i \<in> set (active self)" using c(1) ok(1) by (metis length_active nth_active nth_mem)
  then have "map_type self (unat M) = Some (Type (descriptors self ! i))"
    using type_at_wf [OF ok(2) m c(2)] c(3) checked_end_unat [OF e] P by (simp add: map_type_def)
  then have ty: "Type (descriptors self ! i) = type_u32 EfiConventionalMemory" using free P by simp
  obtain k s where "replace_range self i M P t = (Inr k, s)"
    using replace_range_fits [OF ok(1) c(1) room e _ c(2,3), of t] m ok(2) by (auto simp: wf_map_def)
  then show ?thesis using e i ty by (simp add: allocate_exact_range_def)
qed

section \<open>Carving\<close>

text \<open>What carving does to the type of one byte: replaceable types become the new type.\<close>

definition carved :: "(u32 \<Rightarrow> bool) \<Rightarrow> u64 \<Rightarrow> u64 \<Rightarrow> EFI_MEMORY_TYPE \<Rightarrow> nat \<Rightarrow> u32 option \<Rightarrow> u32 option" where
  "carved replaceable start range_end t a old =
     (case old of None \<Rightarrow> None
      | Some s \<Rightarrow> Some (if unat start \<le> a \<and> a < unat range_end \<and> replaceable s then type_u32 t else s))"

text \<open>The abstract result of the loop from \<open>index\<close> on: descriptors below \<open>index\<close> stay.\<close>

definition carved_from :: "(u32 \<Rightarrow> bool) \<Rightarrow> u64 \<Rightarrow> u64 \<Rightarrow> EFI_MEMORY_TYPE \<Rightarrow>
    EFI_MEMORY_DESCRIPTOR list \<Rightarrow> EFI_MEMORY_DESCRIPTOR list \<Rightarrow> nat \<Rightarrow> u32 option" where
  "carved_from replaceable start range_end t done rest a =
     (case type_at done a of Some s \<Rightarrow> Some s
      | None \<Rightarrow> carved replaceable start range_end t a (type_at rest a))"

lemma carved_None [simp]: "carved rp s e t a None = None"
  by (simp add: carved_def)

lemma carved_outside: "\<not> (unat s \<le> a \<and> a < unat e) \<Longrightarrow> carved rp s e t a old = old"
  by (cases old) (auto simp: carved_def)

lemma carved_from_outside:
  "\<not> (unat s \<le> a \<and> a < unat e) \<Longrightarrow> carved_from rp s e t xs ys a = type_at (xs @ ys) a"
  by (simp add: carved_from_def carved_outside type_at_append split: option.splits)

lemma carved_from_skip:
  assumes "\<not> rp (Type d) \<or> dend d \<le> unat s"
  shows "carved_from rp s e t (xs @ [d]) ys a = carved_from rp s e t xs (d # ys) a"
  using assms by (auto simp: carved_from_def type_at_append carved_def split: option.splits)

lemma carved_from_stop:
  assumes "\<forall>x \<in> set ys. unat e \<le> dstart x"
  shows "carved_from rp s e t xs ys a = type_at (xs @ ys) a"
proof -
  have "type_at ys a = None \<or> unat e \<le> a"
    using assms by (metis not_None_eq type_at_SomeD order_trans)
  then show ?thesis by (auto simp: carved_from_def type_at_append carved_outside split: option.splits)
qed

lemma carved_from_replaced:
  assumes tp: "type_at pre = (\<lambda>a. if dstart d \<le> a \<and> a < M then Some (Type d) else None)"
    and tm: "type_at [m] = (\<lambda>a. if a \<in> {M ..< N} then Some (type_u32 t) else None)"
    and ts: "type_at suf = (\<lambda>a. if N \<le> a \<and> a < dend d then Some (Type d) else None)"
    and M: "M = max (dstart d) (unat s)" and N: "N = min (dend d) (unat e)" and rp: "rp (Type d)"
    and ne: "M < N"
  shows "carved_from rp s e t (xs @ pre @ [m]) (suf @ ys) a = carved_from rp s e t xs (d # ys) a"
proof (cases "unat s \<le> a \<and> a < unat e")
  case True
  then have "type_at pre a = None" "type_at suf a = None"
    "type_at [m] a = (if dstart d \<le> a \<and> a < dend d then Some (type_u32 t) else None)"
    unfolding tp ts tm using M N by auto
  with True rp show ?thesis
    by (auto simp: carved_from_def type_at_append carved_def split: option.splits)
next
  case False
  have "type_at (pre @ [m] @ suf) a = (if dstart d \<le> a \<and> a < dend d then Some (Type d) else None)"
    unfolding type_at_append tp tm ts using False M N ne by auto
  then have "type_at (xs @ (pre @ [m] @ suf) @ ys) a = type_at (xs @ [d] @ ys) a"
    by (simp only: type_at_append) (simp split: option.splits)
  then show ?thesis using False by (simp add: carved_from_outside)
qed

lemma bytes_to_pages_range:
  assumes "M \<le> N" and "4096 dvd unat M" and "4096 dvd unat N"
  shows "unat M + unat (bytes_to_pages (N - M)) * 4096 = unat N"
proof -
  have "4096 dvd (unat N - unat M)" using assms(2,3) by (rule dvd_diff_nat [rotated])
  then have "unat (bytes_to_pages (N - M)) * 4096 = unat N - unat M"
    using assms(1) by (simp add: unat_bytes_to_pages unat_sub_le)
  then show ?thesis using assms(1) by (simp add: word_le_nat_alt)
qed

text \<open>One round that replaces a descriptor, and the loop.\<close>

lemma carve_replace_step:
  assumes ok: "alloc_ok self" and i: "index < descriptor_count self"
    and d: "d = descriptors self ! index" and de: "descriptor_end d = Inr de"
    and al: "4096 dvd unat s" "4096 dvd unat e" "s < e" and ov: "\<not> de \<le> s" "\<not> e \<le> PhysicalStart d"
    and rp: "rp (Type d)" and M: "M = max (PhysicalStart d) s" and N: "N = min de e"
    and rr: "replace_range self index M (bytes_to_pages (N - M)) t = (Inr n, self')"
  shows "alloc_ok self'" and "n \<le> descriptor_count self'"
    and "carved_from rp s e t (take n (active self')) (drop n (active self')) a
       = carved_from rp s e t (take index (active self)) (drop index (active self)) a"
proof -
  have bok: "buffer_ok self" "wf_map (active self)" using ok by (auto simp: alloc_ok_def)
  have dm: "drop index (active self) = d # drop (index + 1) (active self)"
    using bok i d by (metis Cons_nth_drop_Suc Suc_eq_plus1 length_active nth_active)
  then have wfd: "wf_desc d" using bok(2) by (metis append_take_drop_id wf_map_Cons wf_map_append)
  note ude = descriptor_end_unat [OF de]
  have ltw: "M < N" using ov al(3) wf_descD(1) [OF wfd] ude unfolding M N
    by (auto simp: word_less_nat_alt dstart_def not_le)
  have uM: "unat M = max (dstart d) (unat s)" "unat N = min (dend d) (unat e)"
    unfolding M N using ude by (auto simp: dstart_def max_def min_def word_le_nat_alt)
  have alM: "4096 dvd unat M" "4096 dvd unat N"
    using al wf_descD(3,4) [OF wfd] unfolding uM by (auto simp: max_def min_def)
  note rng = bytes_to_pages_range [OF less_imp_le [OF ltw] alM]
  have P: "0 < unat (bytes_to_pages (N - M))" using rng ltw by (cases "unat (bytes_to_pages (N - M))") (auto simp: word_less_nat_alt)
  obtain pre m suf where
      a: "active self' = take index (active self) @ (pre @ [m] @ suf) @ drop (index + 1) (active self)"
    and n: "n = index + 1 + length pre" and ok': "alloc_ok self'"
    and tp: "type_at pre = (\<lambda>a. if dstart d \<le> a \<and> a < unat M then Some (Type d) else None)"
    and tm: "type_at [m] = (\<lambda>a. if a \<in> {unat M ..< unat N} then Some (type_u32 t) else None)"
    and ts: "type_at suf = (\<lambda>a. if unat N \<le> a \<and> a < dend d then Some (Type d) else None)"
    by (rule replace_range_step [OF ok i alM(1) P rr, folded d, unfolded rng])
  have len: "length (take index (active self)) = index" using bok i by (simp add: length_active)
  have tk: "take n (active self') = take index (active self) @ pre @ [m]"
    and dr: "drop n (active self') = suf @ drop (index + 1) (active self)"
    unfolding a n using len by simp_all
  show "alloc_ok self'" by (rule ok')
  have "n \<le> length (active self')" unfolding a n using len by simp
  then show "n \<le> descriptor_count self'" using ok' by (simp add: alloc_ok_def length_active)
  show "carved_from rp s e t (take n (active self')) (drop n (active self')) a
       = carved_from rp s e t (take index (active self)) (drop index (active self)) a"
    unfolding tk dr dm
    by (rule carved_from_replaced [where rp = rp, OF tp tm ts uM rp]) (use ltw in \<open>simp add: word_less_nat_alt\<close>)
qed

lemma carve_loop_map:
  assumes "carve_loop rp self s e t index = (r, self')"
    and "alloc_ok self" and "index \<le> descriptor_count self"
    and al: "4096 dvd unat s" "4096 dvd unat e" "s < e"
  shows "alloc_ok self' \<and> (r = Inr () \<longrightarrow>
    map_type self' = carved_from rp s e t (take index (active self)) (drop index (active self)))"
  using assms
proof (induction rp self s e t index rule: carve_loop.induct)
  case (1 rp self s e t index)
  let ?d = "descriptors self ! index"
  have bok: "buffer_ok self" "wf_map (active self)" using "1.prems"(2) by (auto simp: alloc_ok_def)
  show ?case
  proof (cases "index < descriptor_count self")
    case False
    with "1.prems" bok show ?thesis
      by (auto simp: carve_loop.simps length_active carved_from_stop map_type_def fun_eq_iff)
  next
    case i: True
    have dm: "drop index (active self) = ?d # drop (index + 1) (active self)"
      using bok i by (metis Cons_nth_drop_Suc Suc_eq_plus1 length_active nth_active)
    have tk: "take (index + 1) (active self) = take index (active self) @ [?d]"
      using bok i by (simp add: take_Suc_conv_app_nth length_active nth_active)
    have wfd: "wf_map (drop index (active self))" using bok(2) by (metis append_take_drop_id wf_map_append)
    then obtain de where de: "descriptor_end ?d = Inr de" "unat de = dend ?d"
      using descriptor_end_ok by (auto simp: dm wf_map_Cons wf_desc_def)
    have skip: ?thesis
      if "carve_loop rp self s e t (index + 1) = (r, self')" and "\<not> rp (Type ?d) \<or> de \<le> s"
        and "carve_loop rp self s e t (index + 1) = (r, self') \<Longrightarrow> alloc_ok self' \<and> (r = Inr () \<longrightarrow>
          map_type self' = carved_from rp s e t (take (index + 1) (active self)) (drop (index + 1) (active self)))"
      using that de(2) carved_from_skip [of rp ?d s] by (simp add: tk [simplified] dm word_le_nat_alt fun_eq_iff)
    consider (before) "de \<le> s" | (after) "\<not> de \<le> s" "e \<le> PhysicalStart ?d"
      | (other) "\<not> de \<le> s" "\<not> e \<le> PhysicalStart ?d" "\<not> rp (Type ?d)"
      | (overlap) "\<not> de \<le> s" "\<not> e \<le> PhysicalStart ?d" "rp (Type ?d)" by blast
    then show ?thesis
    proof cases
      case before
      then show ?thesis
        using skip "1.IH"(1) [OF i refl de(1)] "1.prems" i de(1) by (simp add: carve_loop.simps [of _ self])
    next
      case after
      then have "\<forall>x \<in> set (drop index (active self)). unat e \<le> dstart x"
        using wfd wf_descD(1) [of ?d] by (fastforce simp: dm wf_map_Cons dstart_def word_le_nat_alt)
      then show ?thesis using after "1.prems" i de(1)
        by (auto simp: carve_loop.simps [of _ self] carved_from_stop map_type_def fun_eq_iff)
    next
      case other
      then show ?thesis
        using skip "1.IH"(2) [OF i refl de(1)] "1.prems" i de(1) by (simp add: carve_loop.simps [of _ self])
    next
      case overlap
      let ?M = "max (PhysicalStart ?d) s" and ?N = "min de e"
      obtain q self'' where rr: "replace_range self index ?M (bytes_to_pages (?N - ?M)) t = (q, self'')"
        by fastforce
      show ?thesis
      proof (cases q)
        case (Inl err)
        with rr have "self'' = self" by (auto dest: replace_range_Inl)
        with "1.prems" rr overlap i de(1) Inl show ?thesis
          by (auto simp: carve_loop.simps [of _ self] Let_def)
      next
        case (Inr n)
        note st = carve_replace_step [where rp = rp, OF "1.prems"(2) i refl de(1) "1.prems"(4-6) overlap refl refl rr [unfolded Inr]]
        have "carve_loop rp self'' s e t n = (r, self')"
          using "1.prems"(1) rr overlap i de(1) Inr by (simp add: carve_loop.simps [of _ self] Let_def)
        with "1.IH"(3) [OF i refl de(1) overlap(1,2) _ refl refl refl rr [symmetric] Inr] overlap(3) "1.prems"(4-6) st
        show ?thesis by (simp add: fun_eq_iff)
      qed
    qed
  qed
qed

lemma carve_loop_invariant:
  assumes step: "\<And>self index M P t q self'. I self \<Longrightarrow> replace_range self index M P t = (q, self') \<Longrightarrow> I self'"
  shows "carve_loop rp self s e t index = (r, self') \<Longrightarrow> I self \<Longrightarrow> I self'"
proof (induction rp self s e t index rule: carve_loop.induct)
  case (1 rp self s e t index)
  let ?d = "descriptors self ! index"
  show ?case
  proof (cases "index < descriptor_count self")
    case False
    with "1.prems" show ?thesis by (simp add: carve_loop.simps)
  next
    case i: True
    show ?thesis
    proof (cases "descriptor_end ?d")
      case (Inl err)
      with "1.prems" i show ?thesis by (simp add: carve_loop.simps [of _ self])
    next
      case (Inr de)
      let ?M = "max (PhysicalStart ?d) s" and ?N = "min de e"
      obtain q self'' where rr: "replace_range self index ?M (bytes_to_pages (?N - ?M)) t = (q, self'')"
        by fastforce
      show ?thesis
        using "1.prems" i Inr rr "1.IH"(1,2) [OF i refl Inr] "1.IH"(3) [OF i refl Inr _ _ _ refl refl refl rr [symmetric]]
          step [OF "1.prems"(2) rr]
        by (simp add: carve_loop.simps [of rp self s e t index] Let_def split: if_splits sum.splits)
    qed
  qed
qed

lemma carve_loop_plain:
  assumes "carve_loop rp self s e t index = (r, self')" and "buffer_ok self"
    and "\<forall>d \<in> set (active self). plain d"
  shows "buffer_ok self' \<and> (\<forall>d \<in> set (active self'). plain d)"
proof (rule carve_loop_invariant [OF _ assms(1), where I = "\<lambda>s. buffer_ok s \<and> (\<forall>d \<in> set (active s). plain d)"])
  fix self index M P t q self'
  assume I: "buffer_ok self \<and> (\<forall>d \<in> set (active self). plain d)"
    and rr: "replace_range self index M P t = (q, self')"
  show "buffer_ok self' \<and> (\<forall>d \<in> set (active self'). plain d)"
  proof (cases q)
    case (Inl err)
    with rr I show ?thesis by (auto dest: replace_range_Inl)
  next
    case (Inr n)
    with rr I replace_range_plain [of self index M P t n self'] replace_range_count(3,4) [of self index M P t n self']
    show ?thesis by (simp add: buffer_ok_def)
  qed
qed (use assms in simp)

lemma align_up_page_Inr:
  "align_up v 4096 = Inr w \<Longrightarrow> unat w = unat v + 4095 - (unat v + 4095) mod 4096"
  using align_up_Inr [of 12 v w] unat_align_down_page [of "v + 4095"] unat_add_small [of v 4095]
  by auto

lemma round_up_nat: "(x::nat) \<le> x + 4095 - (x + 4095) mod 4096" "4096 dvd (x + 4095 - (x + 4095) mod 4096)"
  using mod_less_divisor [of 4096 "x + 4095"] by (simp_all add: minus_mod_eq_mult_div)

lemma align_region_to_pages_Some:
  assumes "align_region_to_pages r b = Inr (Some (s, e))"
  shows "s < e" and "4096 dvd unat s" and "4096 dvd unat e"
    and "b \<Longrightarrow> unat s \<le> unat (base r) \<and> unat (base r) + unat (region_size r) \<le> unat e"
    and "\<not> b \<Longrightarrow> unat (base r) \<le> unat s \<and> unat e \<le> unat (base r) + unat (region_size r)"
proof -
  from assms obtain e0 where e0: "checked_add (base r) (region_size r) = Some e0" and lt: "s < e"
    and s: "(if b then Inr (align_down (base r) 4096) else align_up (base r) 4096) = Inr s"
    and e: "(if b then align_up e0 4096 else Inr (align_down e0 4096)) = Inr e"
    by (auto simp: align_region_to_pages_def split: if_splits)
  have ue: "unat e0 = unat (base r) + unat (region_size r)"
    using e0 by (auto simp: rust_ops unat_add_small)
  show "s < e" by (rule lt)
  show "4096 dvd unat s" "4096 dvd unat e"
    using s e align_up_page_Inr round_up_nat(2)
    by (auto simp: unat_align_down_page minus_mod_eq_mult_div split: if_splits)
  show "b \<Longrightarrow> unat s \<le> unat (base r) \<and> unat (base r) + unat (region_size r) \<le> unat e"
    using s e ue by (auto simp: unat_align_down_page round_up_nat(1) dest!: align_up_page_Inr)
  show "\<not> b \<Longrightarrow> unat (base r) \<le> unat s \<and> unat e \<le> unat (base r) + unat (region_size r)"
    using s e ue by (auto simp: unat_align_down_page round_up_nat(1) dest!: align_up_page_Inr)
qed

lemma align_region_to_pages_None:
  assumes "align_region_to_pages r True = Inr None"
  shows "region_size r = 0"
proof -
  from assms obtain e0 e where e0: "checked_add (base r) (region_size r) = Some e0"
    and e: "align_up e0 4096 = Inr e" and le: "e \<le> align_down (base r) 4096"
    by (auto simp: align_region_to_pages_def split: if_splits)
  have "unat (base r) + unat (region_size r) = unat e0" using e0 by (auto simp: rust_ops unat_add_small)
  also have "\<dots> \<le> unat e" using align_up_page_Inr [OF e] by (simp add: round_up_nat(1))
  also have "\<dots> \<le> unat (base r)" using le by (simp add: word_le_nat_alt unat_align_down_page)
  finally show ?thesis by (simp add: unat_eq_0)
qed

text \<open>The whole pages of a region: rounded inwards for RAM, outwards for reservations.\<close>

definition region_pages :: "bool \<Rightarrow> MemoryRegion \<Rightarrow> nat \<Rightarrow> bool" where
  "region_pages outwards r a =
     (case align_region_to_pages r outwards of Inr (Some (s, e)) \<Rightarrow> unat s \<le> a \<and> a < unat e | _ \<Rightarrow> False)"

lemma region_pages_outwards:
  assumes "align_region_to_pages r True = Inr q" and "unat (base r) \<le> a" and "a < unat (base r) + unat (region_size r)"
  shows "region_pages True r a"
proof (cases q)
  case None
  with assms align_region_to_pages_None [of r] show ?thesis by simp
next
  case (Some p)
  with assms align_region_to_pages_Some(4) [of r True "fst p" "snd p"] show ?thesis
    by (cases p) (auto simp: region_pages_def)
qed

lemma region_pages_inwards:
  "region_pages False r a \<Longrightarrow> unat (base r) \<le> a \<and> a < unat (base r) + unat (region_size r)"
  using align_region_to_pages_Some(5) [of r False]
  by (fastforce simp: region_pages_def split: sum.splits option.splits)

lemma carved_from_zero: "carved_from rp s e t [] ds a = carved rp s e t a (type_at ds a)"
  by (simp add: carved_from_def)

definition reservable :: "u32 \<Rightarrow> bool" where
  "reservable t \<longleftrightarrow> t = type_u32 EfiConventionalMemory \<or> t = type_u32 EfiReservedMemoryType"

text \<open>Effect of one reservation on the type of a byte.\<close>

definition retyped :: "(u32 \<Rightarrow> bool) \<Rightarrow> (nat \<Rightarrow> bool) \<Rightarrow> u32 \<Rightarrow> (nat \<Rightarrow> u32 option) \<Rightarrow> nat \<Rightarrow> u32 option" where
  "retyped rp rg t m a = map_option (\<lambda>s. if rg a \<and> rp s then t else s) (m a)"

lemma carve_loop_zero:
  assumes "carve_loop rp self s e t 0 = (r, self')" and "alloc_ok self"
    and "\<forall>d \<in> set (active self). plain d" and "4096 dvd unat s" "4096 dvd unat e" "s < e"
  shows "alloc_ok self'" and "\<forall>d \<in> set (active self'). plain d"
    and "r = Inr () \<Longrightarrow> map_type self' = retyped rp (\<lambda>a. unat s \<le> a \<and> a < unat e) (type_u32 t) (map_type self)"
  using carve_loop_map [OF assms(1,2) _ assms(4-6)] carve_loop_plain [OF assms(1) _ assms(3)] assms(2)
  by (auto simp: carved_from_zero carved_def retyped_def map_type_def fun_eq_iff alloc_ok_def
      split: option.splits)

lemma add_reserved_region_with_type_map:
  assumes r: "add_reserved_region_with_type self r t = (q, self')" and ok: "alloc_ok self"
    and pl: "\<forall>d \<in> set (active self). plain d"
  shows "alloc_ok self'" and "\<forall>d \<in> set (active self'). plain d"
    and "q = Inr () \<Longrightarrow> map_type self' = retyped reservable (region_pages True r) (type_u32 t) (map_type self)
          \<and> (\<exists>x. align_region_to_pages r True = Inr x)"
proof -
  consider (err) e where "align_region_to_pages r True = Inl e"
    | (empty) "align_region_to_pages r True = Inr None"
    | (range) s e where "align_region_to_pages r True = Inr (Some (s, e))"
    by (cases "align_region_to_pages r True") (auto, metis not_None_eq surj_pair)
  then have "alloc_ok self' \<and> (\<forall>d \<in> set (active self'). plain d) \<and>
    (q = Inr () \<longrightarrow> map_type self' = retyped reservable (region_pages True r) (type_u32 t) (map_type self)
          \<and> (\<exists>x. align_region_to_pages r True = Inr x))"
  proof cases
    case err
    with assms show ?thesis by (auto simp: add_reserved_region_with_type_def)
  next
    case empty
    with assms show ?thesis
      by (auto simp: add_reserved_region_with_type_def region_pages_def retyped_def fun_eq_iff option.map_ident)
  next
    case range
    note al = align_region_to_pages_Some(1-3) [OF range]
    have "carve_loop reservable self s e t 0 = (q, self')"
      using r range by (simp add: add_reserved_region_with_type_def carve_range_for_reserved_region_def
        reservable_def [abs_def])
    from carve_loop_zero [OF this ok pl al(2,3,1)] range show ?thesis by (simp add: region_pages_def [abs_def])
  qed
  then show "alloc_ok self'" and "\<forall>d \<in> set (active self'). plain d"
    and "q = Inr () \<Longrightarrow> map_type self' = retyped reservable (region_pages True r) (type_u32 t) (map_type self)
          \<and> (\<exists>x. align_region_to_pages r True = Inr x)" by simp_all
qed

section \<open>The RAM phase\<close>

lemma sorted_index_bounds:
  assumes "i \<le> descriptor_count self"
  shows "i \<le> sorted_index self s i" and "sorted_index self s i \<le> descriptor_count self"
    and "\<forall>j. i \<le> j \<and> j < sorted_index self s i \<longrightarrow> PhysicalStart (descriptors self ! j) \<le> s"
    and "sorted_index self s i < descriptor_count self \<longrightarrow>
           s < PhysicalStart (descriptors self ! sorted_index self s i)"
  using assms
proof (induction self s i rule: sorted_index.induct)
  case (1 self s i)
  let ?c = "i < descriptor_count self \<and> PhysicalStart (descriptors self ! i) \<le> s"
  have eq: "sorted_index self s i = (if ?c then sorted_index self s (i + 1) else i)"
    by (rule sorted_index.simps)
  { case 1 with "1.IH"(1) show ?case by (auto simp: eq) }
  { case 2 with "1.IH"(2) show ?case by (auto simp: eq) }
  { case 3 with "1.IH"(3) show ?case by (auto simp: eq) (metis Suc_leI le_neq_implies_less) }
  { case 4 with "1.IH"(4) show ?case by (auto simp: eq) }
qed

lemma insert_sorted_Inr:
  assumes ok: "buffer_ok self" and srt: "sorted (map dstart (active self))"
    and ins: "insert_sorted self d = (Inr u, self')"
  shows "buffer_ok self'" and "sorted (map dstart (active self'))"
    and "set (active self') = insert d (set (active self))"
proof -
  let ?i = "sorted_index self (PhysicalStart d) 0"
  have r: "insert_descriptor self ?i d = (Inr u, self')" using ins by (simp add: insert_sorted_def)
  note a = insert_descriptor_Inr [OF ok r]
  note b = sorted_index_bounds [of 0 self "PhysicalStart d", simplified]
  have below: "\<forall>x \<in> set (take ?i (active self)). dstart x \<le> dstart d"
    using b(2,3) ok by (auto simp: in_set_conv_nth length_active nth_active dstart_def word_le_nat_alt)
  have above: "\<forall>x \<in> set (drop ?i (active self)). dstart d \<le> dstart x"
  proof
    fix x assume x: "x \<in> set (drop ?i (active self))"
    then have lt: "?i < descriptor_count self" using length_active [OF ok] by (cases "descriptor_count self \<le> ?i") auto
    have sd: "sorted (map dstart (drop ?i (active self)))" using srt by (simp add: drop_map [symmetric] sorted_wrt_drop)
    have hd: "drop ?i (active self) = descriptors self ! ?i # drop (Suc ?i) (active self)"
      using lt ok by (metis Cons_nth_drop_Suc length_active nth_active)
    have "dstart d \<le> dstart (descriptors self ! ?i)" using b(4) lt by (simp add: dstart_def word_less_nat_alt)
    then show "dstart d \<le> dstart x" using x sd unfolding hd by auto
  qed
  have "sorted (map dstart (take ?i (active self)))" "sorted (map dstart (drop ?i (active self)))"
    using srt by (simp_all add: take_map [symmetric] drop_map [symmetric] sorted_wrt_take sorted_wrt_drop)
  then show "sorted (map dstart (active self'))"
    using below above unfolding a(1) by (force simp: sorted_append)
  show "set (active self') = insert d (set (active self))"
    unfolding a(1) by (metis Un_insert_right append_take_drop_id list.simps(15) set_append)
  show "buffer_ok self'" using a by (simp add: buffer_ok_def)
qed

definition ram_descriptor :: "u64 \<Rightarrow> u64 \<Rightarrow> EFI_MEMORY_DESCRIPTOR" where
  "ram_descriptor s e = \<lparr>Type = type_u32 EfiConventionalMemory, PhysicalStart = s, VirtualStart = 0,
     NumberOfPages = bytes_to_pages (e - s), Attribute = 0\<rparr>"

definition ram_kind :: "u32 \<times> u64 \<times> u64" where
  "ram_kind = (type_u32 EfiConventionalMemory, 0, 0)"

definition ram_phase :: "MemoryRegion set \<Rightarrow> PageAllocator \<Rightarrow> bool" where
  "ram_phase R self \<longleftrightarrow> buffer_ok self \<and> sorted (map dstart (active self))
     \<and> set (active self) = {ram_descriptor s e | s e. \<exists>r \<in> R. align_region_to_pages r False = Inr (Some (s, e))}"

lemma ram_descriptor_range:
  assumes "align_region_to_pages r False = Inr (Some (s, e))"
  shows "wf_desc (ram_descriptor s e)" and "kind (ram_descriptor s e) = ram_kind"
    and "dstart (ram_descriptor s e) = unat s" and "dend (ram_descriptor s e) = unat e"
proof -
  note al = align_region_to_pages_Some [OF assms]
  have rng: "unat s + unat (bytes_to_pages (e - s)) * 4096 = unat e"
    using bytes_to_pages_range [of s e] al by simp
  show ds: "dstart (ram_descriptor s e) = unat s" and de: "dend (ram_descriptor s e) = unat e"
    using rng by (simp_all add: dend_def dstart_def dpages_def ram_descriptor_def)
  have "unat e < 2 ^ 64" using unsigned_less [of e] by simp
  moreover have "0 < dpages (ram_descriptor s e)"
    using ds de al(1) by (cases "dpages (ram_descriptor s e)") (auto simp: dend_def word_less_nat_alt)
  ultimately show "wf_desc (ram_descriptor s e)" using ds de al by (simp add: wf_desc_def)
  show "kind (ram_descriptor s e) = ram_kind" by (simp add: kind_def ram_kind_def ram_descriptor_def)
qed

lemma add_memory_region_phase:
  assumes ph: "ram_phase R self" and r: "add_memory_region self r = (Inr u, self')"
  shows "ram_phase (insert r R) self' \<and> (\<exists>q. align_region_to_pages r False = Inr q)"
proof -
  from r obtain q where q: "align_region_to_pages r False = Inr q"
    and c: "(case q of None \<Rightarrow> (Inr (), self)
       | Some (s, e) \<Rightarrow> insert_sorted self (ram_descriptor s e)) = (Inr u, self')"
    by (auto simp: add_memory_region_def sbind_eq_Inr ram_descriptor_def split: option.splits)
  show ?thesis
  proof (cases q)
    case None
    with q c ph show ?thesis by (auto simp: ram_phase_def)
  next
    case (Some p)
    then obtain s e where p: "q = Some (s, e)" by (cases p) auto
    with c have ins: "insert_sorted self (ram_descriptor s e) = (Inr u, self')" by simp
    from insert_sorted_Inr [OF _ _ ins] ph q p show ?thesis by (auto simp: ram_phase_def)
  qed
qed

lemma add_memory_regions_phase:
  "ram_phase R self \<Longrightarrow> add_memory_regions self rs = (Inr u, self') \<Longrightarrow>
   ram_phase (R \<union> set rs) self' \<and> (\<forall>r \<in> set rs. \<exists>q. align_region_to_pages r False = Inr q)"
proof (induction rs arbitrary: R self)
  case Nil
  then show ?case by simp
next
  case (Cons r rs)
  then obtain s1 where s1: "add_memory_region self r = (Inr (), s1)" "add_memory_regions s1 rs = (Inr u, self')"
    by (auto simp: sbind_eq_Inr)
  from add_memory_region_phase [OF Cons.prems(1) s1(1)] Cons.IH [OF _ s1(2), of "insert r R"] show ?case
    by simp
qed

lemma ram_phase_descs:
  assumes "ram_phase R self"
  shows "\<forall>d \<in> set (active self). wf_desc d \<and> kind d = ram_kind"
  using assms ram_descriptor_range by (auto simp: ram_phase_def)

lemma region_pages_iff:
  "region_pages b r a \<longleftrightarrow> (\<exists>s e. align_region_to_pages r b = Inr (Some (s, e)) \<and> unat s \<le> a \<and> a < unat e)"
  by (auto simp: region_pages_def split: sum.splits option.splits)

lemma ram_phase_covered:
  assumes "ram_phase R self"
  shows "covered (active self) a \<longleftrightarrow> (\<exists>r \<in> R. region_pages False r a)"
proof -
  have "covered (active self) a \<longleftrightarrow>
    (\<exists>s e. (\<exists>r \<in> R. align_region_to_pages r False = Inr (Some (s, e))) \<and> unat s \<le> a \<and> a < unat e)"
    using assms ram_descriptor_range(3,4) unfolding ram_phase_def covered_def by fastforce
  also have "\<dots> \<longleftrightarrow> (\<exists>r \<in> R. region_pages False r a)"
    unfolding region_pages_iff by blast
  finally show ?thesis .
qed

text \<open>RAM regions are not nested: their whole-page parts are ordered alike by start and by end. \<close>

definition unnested :: "MemoryRegion set \<Rightarrow> bool" where
  "unnested R \<longleftrightarrow> (\<forall>r \<in> R. \<forall>r' \<in> R. \<forall>s e s' e'.
     align_region_to_pages r False = Inr (Some (s, e)) \<longrightarrow>
     align_region_to_pages r' False = Inr (Some (s', e')) \<longrightarrow> s \<le> s' \<longrightarrow> e \<le> e')"

lemma ram_phase_unnested:
  assumes "ram_phase R self" and "unnested R"
    and "x \<in> set (active self)" and "y \<in> set (active self)" and "dstart x \<le> dstart y"
  shows "dend x \<le> dend y"
proof -
  obtain s e r where x: "x = ram_descriptor s e" "r \<in> R" "align_region_to_pages r False = Inr (Some (s, e))"
    using assms(1,3) by (auto simp: ram_phase_def)
  obtain s' e' r' where y: "y = ram_descriptor s' e'" "r' \<in> R" "align_region_to_pages r' False = Inr (Some (s', e'))"
    using assms(1,4) by (auto simp: ram_phase_def)
  have "s \<le> s'" using assms(5) x y ram_descriptor_range(3) by (simp add: word_le_nat_alt)
  then have "e \<le> e'" using assms(2) x y unfolding unnested_def by blast
  then show ?thesis using x y ram_descriptor_range(4) by (simp add: word_le_nat_alt)
qed

lemma ram_phase_coalesce:
  assumes "ram_phase R self"
  shows "alloc_ok (coalesce self)" and "\<forall>d \<in> set (active (coalesce self)). kind d = ram_kind"
    and "map_type (coalesce self) a \<noteq> None \<Longrightarrow> map_type (coalesce self) a = Some (type_u32 EfiConventionalMemory)"
    and "unnested R \<Longrightarrow> map_type (coalesce self) a \<noteq> None \<longleftrightarrow> (\<exists>r \<in> R. region_pages False r a)"
proof -
  note ds = ram_phase_descs [OF assms]
  have ok: "buffer_ok self" and srt: "sorted (map dstart (active self))" using assms by (auto simp: ram_phase_def)
  have kind: "kind d = ram_kind" if "d \<in> set (coalesce_list xs)" "\<forall>d \<in> set xs. kind d = ram_kind" for d xs
    using that by (induction xs rule: coalesce_list.induct) (auto split: if_splits)
  show "alloc_ok (coalesce self)"
    using coalesce_list_overlapping [OF ds srt] coalesce_active [OF ok] by (simp add: alloc_ok_def)
  show k: "\<forall>d \<in> set (active (coalesce self)). kind d = ram_kind"
    using kind ds coalesce_active(1) [OF ok] by auto
  show "map_type (coalesce self) a \<noteq> None \<Longrightarrow> map_type (coalesce self) a = Some (type_u32 EfiConventionalMemory)"
    using k type_at_SomeD [of "active (coalesce self)" a]
    by (fastforce simp: kind_def ram_kind_def map_type_def)
  assume un: "unnested R"
  have "dend x \<le> dend y" if "x \<in> set (active self)" "y \<in> set (active self)" "dstart x \<le> dstart y" for x y
    using ram_phase_unnested [OF assms un that] .
  then have "sorted (map dend (active self))"
    using srt unfolding sorted_map
    by (auto intro: sorted_wrt_mono_rel [of "active self" "\<lambda>x y. dstart x \<le> dstart y"])
  then show "map_type (coalesce self) a \<noteq> None \<longleftrightarrow> (\<exists>r \<in> R. region_pages False r a)"
    using coalesce_list_covers [OF ds srt] ram_phase_covered [OF assms] coalesce_active(1) [OF ok]
    by (simp add: map_type_def covered_type_at)
qed

section \<open>Reserved and firmware ranges, the finished map\<close>

lemma retyped_retyped:
  "rp t \<Longrightarrow> retyped rp f t (retyped rp g t m) = retyped rp (\<lambda>a. f a \<or> g a) t m"
  by (auto simp: retyped_def fun_eq_iff option.map_comp intro: option.map_cong)

lemma add_reserved_regions_map:
  "add_reserved_regions self rs = (Inr u, self') \<Longrightarrow> alloc_ok self \<Longrightarrow> \<forall>d \<in> set (active self). plain d \<Longrightarrow>
   alloc_ok self' \<and> (\<forall>d \<in> set (active self'). plain d)
   \<and> map_type self' = retyped reservable (\<lambda>a. \<exists>r \<in> set rs. region_pages True r a) 0 (map_type self)
   \<and> (\<forall>r \<in> set rs. \<exists>q. align_region_to_pages r True = Inr q)"
proof (induction rs arbitrary: self)
  case Nil
  then show ?case by (auto simp: retyped_def fun_eq_iff option.map_ident)
next
  case (Cons r rs)
  then obtain s1 where s1: "add_reserved_region self r = (Inr (), s1)" "add_reserved_regions s1 rs = (Inr u, self')"
    by (auto simp: sbind_eq_Inr)
  note a = add_reserved_region_with_type_map [OF s1(1) [unfolded add_reserved_region_def] Cons.prems(2,3)]
  have "reservable 0" by (simp add: reservable_def)
  from a(3) Cons.IH [OF s1(2) a(1,2)] retyped_retyped [of reservable, OF this] show ?case
    by (auto simp: disj_commute)
qed

definition conventional :: "u32 \<Rightarrow> bool" where
  "conventional t \<longleftrightarrow> t = type_u32 EfiConventionalMemory"

text \<open>The pages a linker-symbol pair occupies.\<close>

definition linker_pages :: "u64 \<Rightarrow> u64 \<Rightarrow> nat \<Rightarrow> bool" where
  "linker_pages s e a \<longleftrightarrow> s < e \<and> region_pages True \<lparr>base = s, region_size = e - s\<rparr> a"

lemma add_linker_region_map:
  assumes r: "add_linker_region self s e t = (q, self')" and ok: "alloc_ok self"
    and pl: "\<forall>d \<in> set (active self). plain d"
  shows "alloc_ok self' \<and> (\<forall>d \<in> set (active self'). plain d)
    \<and> (q = Inr () \<longrightarrow> map_type self' = retyped conventional (linker_pages s e) (type_u32 t) (map_type self))"
proof -
  consider (err) x where "linker_region s e = Inl x" | (none) "linker_region s e = Inr None"
    | (some) a b where "linker_region s e = Inr (Some (a, b))"
    by (cases "linker_region s e") (auto, metis not_None_eq surj_pair)
  then show ?thesis
  proof cases
    case err
    with assms show ?thesis by (auto simp: add_linker_region_def)
  next
    case none
    then have "\<not> linker_pages s e a" for a
      by (auto simp: linker_pages_def linker_region_def region_pages_def split: if_splits)
    with none assms show ?thesis
      by (auto simp: add_linker_region_def add_firmware_region_def retyped_def fun_eq_iff option.map_ident)
  next
    case some
    then have ar: "align_region_to_pages \<lparr>base = s, region_size = e - s\<rparr> True = Inr (Some (a, b))" and lt: "s < e"
      by (auto simp: linker_region_def split: if_splits)
    note al = align_region_to_pages_Some(1-3) [OF ar]
    have "carve_loop conventional self a b t 0 = (q, self')"
      using r some by (simp add: add_linker_region_def add_firmware_region_def carve_range_def conventional_def [abs_def])
    from carve_loop_zero [OF this ok pl al(2,3,1)] ar lt show ?thesis
      by (simp add: region_pages_def linker_pages_def [abs_def])
  qed
qed

text \<open>The type the finished map must give to a byte of RAM.\<close>

definition firmware_type :: "symbols \<Rightarrow> (nat \<Rightarrow> bool) \<Rightarrow> nat \<Rightarrow> u32" where
  "firmware_type lla reserved a =
     (if reserved a then type_u32 EfiReservedMemoryType
      else if linker_pages (firmware_code_start lla) (firmware_code_end lla) a then type_u32 EfiBootServicesCode
      else if linker_pages (firmware_data_start lla) (firmware_data_end lla) a
         \<or> linker_pages (firmware_heap_start lla) (firmware_heap_end lla) a
         \<or> linker_pages (firmware_stack_bottom lla) (firmware_stack_top lla) a
      then type_u32 EfiBootServicesData else type_u32 EfiConventionalMemory)"

lemma add_firmware_regions_map:
  assumes r: "add_firmware_regions lla self = (Inr u, self')" and ok: "alloc_ok self"
    and pl: "\<forall>d \<in> set (active self). plain d"
    and m: "map_type self = retyped reservable res (type_u32 EfiReservedMemoryType) m0"
    and m0: "\<And>a. m0 a \<noteq> None \<Longrightarrow> m0 a = Some (type_u32 EfiConventionalMemory)"
  shows "alloc_ok self' \<and> (\<forall>d \<in> set (active self'). plain d)
    \<and> map_type self' a = map_option (\<lambda>_. firmware_type lla res a) (m0 a)"
proof -
  from r obtain s1 s2 s3 where
    s1: "add_linker_region self (firmware_code_start lla) (firmware_code_end lla) EfiBootServicesCode = (Inr (), s1)" and
    s2: "add_linker_region s1 (firmware_data_start lla) (firmware_data_end lla) EfiBootServicesData = (Inr (), s2)" and
    s3: "add_linker_region s2 (firmware_heap_start lla) (firmware_heap_end lla) EfiBootServicesData = (Inr (), s3)" and
    s4: "add_linker_region s3 (firmware_stack_bottom lla) (firmware_stack_top lla) EfiBootServicesData = (Inr (), self')"
    by (auto simp: add_firmware_regions_def sbind_eq_Inr)
  note a1 = add_linker_region_map [OF s1 ok pl]
  note a2 = add_linker_region_map [OF s2 a1 [THEN conjunct1] a1 [THEN conjunct2, THEN conjunct1]]
  note a3 = add_linker_region_map [OF s3 a2 [THEN conjunct1] a2 [THEN conjunct2, THEN conjunct1]]
  note a4 = add_linker_region_map [OF s4 a3 [THEN conjunct1] a3 [THEN conjunct2, THEN conjunct1]]
  show ?thesis using a1 a2 a3 a4 m0 [of a]
    by (cases "m0 a") (simp_all add: m retyped_def firmware_type_def conventional_def reservable_def)
qed

lemma from_regions_map:
  assumes r: "from_regions lla ms rs buffer = (Inr u, self')"
  shows "normal self'"
    and "map_type self' a \<noteq> None \<Longrightarrow> map_type self' a = Some (firmware_type lla (\<lambda>a. \<exists>r \<in> set rs. region_pages True r a) a)"
    and "unnested (set ms) \<Longrightarrow> map_type self' a \<noteq> None \<longleftrightarrow> (\<exists>r \<in> set ms. region_pages False r a)"
    and "\<forall>r \<in> set rs. \<exists>q. align_region_to_pages r True = Inr q"
proof -
  from r obtain s1 s2 s3 where
    s1: "add_memory_regions \<lparr>descriptors = buffer, descriptor_count = 0\<rparr> ms = (Inr (), s1)" and
    s2: "add_reserved_regions (coalesce s1) rs = (Inr (), s2)" and
    s3: "add_firmware_regions lla s2 = (Inr (), s3)" and self': "self' = coalesce s3"
    by (auto simp: from_regions_def sbind_eq_Inr)
  have "ram_phase {} \<lparr>descriptors = buffer, descriptor_count = 0\<rparr>"
    by (simp add: ram_phase_def buffer_ok_def active_def)
  from add_memory_regions_phase [OF this s1] have ph: "ram_phase (set ms) s1" by simp
  note c = ram_phase_coalesce [OF ph]
  have pl: "\<forall>d \<in> set (active (coalesce s1)). plain d"
    using c(2) by (auto simp: kind_def ram_kind_def plain_def)
  note b = add_reserved_regions_map [OF s2 c(1) pl]
  let ?res = "\<lambda>a. \<exists>r \<in> set rs. region_pages True r a"
  note f = add_firmware_regions_map [OF s3, of ?res "map_type (coalesce s1)"]
  have f: "alloc_ok s3" "\<forall>d \<in> set (active s3). plain d"
    "map_type s3 a = map_option (\<lambda>_. firmware_type lla ?res a) (map_type (coalesce s1) a)" for a
    using f [of a] b c(3) by simp_all
  show "normal self'" unfolding self' by (rule normal_coalesce [OF f(1,2)])
  have m: "map_type self' a = map_option (\<lambda>_. firmware_type lla ?res a) (map_type (coalesce s1) a)"
    using alloc_ok_coalesce(2) [OF f(1)] f(3) self' by simp
  show "map_type self' a \<noteq> None \<Longrightarrow> map_type self' a = Some (firmware_type lla ?res a)"
    using m by auto
  show "unnested (set ms) \<Longrightarrow> map_type self' a \<noteq> None \<longleftrightarrow> (\<exists>r \<in> set ms. region_pages False r a)"
    using m c(4) by auto
  show "\<forall>r \<in> set rs. \<exists>q. align_region_to_pages r True = Inr q" using b by simp
qed

end
