(* ===== verification/Allocation.thy ===== *)
theory Allocation
  imports Memory
begin

unbundle bit_operations_syntax

text \<open>
  Correctness of the allocation policies of \<open>src/memory.rs\<close>.

  The three search loops share one shape: each descriptor offers at most one start address, and the
  best offer wins. \<open>candidate_search\<close> states that shape once; it is interpreted for \<open>max\<close> (any-pages,
  max-address and high aligned searches) and \<open>min\<close> (low aligned search). \<open>page_store\<close> is the
  contract of the exact-range operations, interpreted on \<open>allocate_exact_range\<close> and
  \<open>free_exact_range\<close>.
\<close>

section \<open>Searching for the best candidate\<close>

fun best_loop ::
  "('d \<Rightarrow> 'e + 'a option) \<Rightarrow> ('a \<Rightarrow> 'a \<Rightarrow> 'a) \<Rightarrow> 'd list \<Rightarrow> 'a option \<Rightarrow> 'e + 'a option" where
  "best_loop offer pick [] c = Inr c"
| "best_loop offer pick (d # ds) c =
     rbind (offer d) (\<lambda>q. best_loop offer pick ds
       (case q of None \<Rightarrow> c | Some s \<Rightarrow> Some (case c of None \<Rightarrow> s | Some current \<Rightarrow> pick current s)))"

locale candidate_search =
  fixes pick :: "'a \<Rightarrow> 'a \<Rightarrow> 'a" and better :: "'a \<Rightarrow> 'a \<Rightarrow> bool"
  assumes pick_one: "pick a b = a \<or> pick a b = b"
    and pick_better: "better (pick a b) a" "better (pick a b) b"
    and better_refl: "better a a"
    and better_trans: "better a b \<Longrightarrow> better b c \<Longrightarrow> better a c"
begin

lemma best_loop_Inr:
  "best_loop offer pick ds c = Inr r \<Longrightarrow>
     (\<forall>d \<in> set ds. \<exists>q. offer d = Inr q)
   \<and> (r = None \<longleftrightarrow> c = None \<and> (\<forall>d \<in> set ds. offer d = Inr None))
   \<and> (\<forall>x. r = Some x \<longrightarrow> (c = Some x \<or> (\<exists>d \<in> set ds. offer d = Inr (Some x)))
       \<and> (\<forall>y. c = Some y \<longrightarrow> better x y) \<and> (\<forall>d \<in> set ds. \<forall>y. offer d = Inr (Some y) \<longrightarrow> better x y))"
proof (induction ds arbitrary: c)
  case Nil
  then show ?case by (auto simp: better_refl)
next
  case (Cons d ds)
  then obtain q where q: "offer d = Inr q" by auto
  define c' where "c' = (case q of None \<Rightarrow> c
    | Some s \<Rightarrow> Some (case c of None \<Rightarrow> s | Some current \<Rightarrow> pick current s))"
  from Cons.prems q have "best_loop offer pick ds c' = Inr r" by (simp add: c'_def)
  note ih = Cons.IH [OF this]
  have none: "c' = None \<longleftrightarrow> c = None \<and> q = None" by (auto simp: c'_def split: option.splits)
  have from': "c = Some x \<or> q = Some x" if "c' = Some x" for x
    using that pick_one by (auto simp: c'_def split: option.splits) metis
  have le: "\<exists>y. c' = Some y \<and> better y x" if "c = Some x \<or> q = Some x" for x
    using that pick_better better_refl by (auto simp: c'_def split: option.splits)
  have all: "\<forall>d' \<in> set (d # ds). \<exists>q. offer d' = Inr q" using ih q by simp
  have empty: "r = None \<longleftrightarrow> c = None \<and> (\<forall>d' \<in> set (d # ds). offer d' = Inr None)"
    using ih none q by auto
  have origin: "c = Some x \<or> (\<exists>d' \<in> set (d # ds). offer d' = Inr (Some x))" if "r = Some x" for x
    using ih from' q that by auto
  have kept: "better x y" if "r = Some x" "c = Some y \<or> q = Some y" for x y
    using ih le [OF that(2)] that(1) better_trans by blast
  then have "better x y" if "r = Some x" "d' \<in> set (d # ds)" "offer d' = Inr (Some y)" for x y d'
    using ih q that by auto
  with all empty origin kept show ?case by blast
qed

lemma best_loop_ok: "\<forall>d \<in> set ds. \<exists>q. offer d = Inr q \<Longrightarrow> \<exists>r. best_loop offer pick ds c = Inr r"
  by (induction ds arbitrary: c) auto

end

interpretation highest: candidate_search "max :: u64 \<Rightarrow> u64 \<Rightarrow> u64" "\<lambda>x y. y \<le> x"
  by unfold_locales (auto simp: max_def)

interpretation lowest: candidate_search "min :: u64 \<Rightarrow> u64 \<Rightarrow> u64" "\<lambda>x y. x \<le> y"
  by unfold_locales (auto simp: min_def)

text \<open>The offers of the three loops.\<close>

definition any_offer :: "u64 \<Rightarrow> EFI_MEMORY_DESCRIPTOR \<Rightarrow> MemoryError + u64 option" where
  "any_offer byte_count d =
     (if Type d \<noteq> type_u32 EfiConventionalMemory then Inr None
      else rbind (descriptor_end d) (\<lambda>de.
        if de < saturating_add (PhysicalStart d) byte_count then Inr None
        else let start = align_down (de - byte_count) EFI_PAGE_SIZE in
          Inr (if start < PhysicalStart d then None else Some start)))"

definition max_offer :: "u64 \<Rightarrow> u64 \<Rightarrow> EFI_MEMORY_DESCRIPTOR \<Rightarrow> MemoryError + u64 option" where
  "max_offer bytes limit d =
     (if Type d \<noteq> type_u32 EfiConventionalMemory then Inr None
      else rbind (descriptor_end d) (\<lambda>de.
        let upper_bound = min de (saturating_add limit 1) in
        if upper_bound < saturating_add (PhysicalStart d) bytes then Inr None
        else let start = align_down (upper_bound - bytes) EFI_PAGE_SIZE in
          Inr (if start < PhysicalStart d then None else Some start)))"

definition aligned_offer ::
  "u64 \<Rightarrow> u64 \<Rightarrow> AllocationDirection \<Rightarrow> EFI_MEMORY_DESCRIPTOR \<Rightarrow> MemoryError + u64 option" where
  "aligned_offer byte_count alignment direction d =
     (if Type d \<noteq> type_u32 EfiConventionalMemory then Inr None
      else rbind (descriptor_end d) (\<lambda>de.
        case checked_sub de byte_count of None \<Rightarrow> Inr None
        | Some latest \<Rightarrow>
            if latest < PhysicalStart d then Inr None
            else rbind (case direction of Low \<Rightarrow> align_up (PhysicalStart d) alignment
                          | High \<Rightarrow> Inr (align_down latest alignment)) (\<lambda>start.
              Inr (case checked_add start byte_count of None \<Rightarrow> None
                | Some re \<Rightarrow> if start < PhysicalStart d \<or> de < re then None else Some start))))"

lemma any_pages_loop_best: "any_pages_loop bc ds c = best_loop (any_offer bc) max ds c"
proof (induction ds arbitrary: c)
  case (Cons d ds)
  then show ?case by (cases "descriptor_end d") (auto simp: any_offer_def Let_def)
qed simp

lemma max_address_loop_best: "max_address_loop b m ds c = best_loop (max_offer b m) max ds c"
proof (induction ds arbitrary: c)
  case (Cons d ds)
  then show ?case by (cases "descriptor_end d") (auto simp: max_offer_def Let_def)
qed simp

lemma aligned_loop_best:
  "aligned_loop bc al dir ds c
   = best_loop (aligned_offer bc al dir) (case dir of Low \<Rightarrow> min | High \<Rightarrow> max) ds c"
proof (induction ds arbitrary: c)
  case (Cons d ds)
  show ?case
  proof (cases "descriptor_end d")
    case (Inr de)
    with Cons show ?thesis
      by (cases dir; cases "align_up (PhysicalStart d) al")
        (auto simp: aligned_offer_def split: option.splits)
  qed (use Cons in \<open>auto simp: aligned_offer_def\<close>)
qed simp

section \<open>What each descriptor offers\<close>

lemma wf_dend_limit: "wf_desc d \<Longrightarrow> dend d \<le> 2 ^ 64 - 4096"
proof -
  assume wf: "wf_desc d"
  then obtain k where k: "dend d = 4096 * k" using wf_descD(4) by (metis dvdE)
  with wf_descD(2) [OF wf] have "k < 2 ^ 52" by simp
  with k show ?thesis by simp
qed

lemma any_offer_spec:
  assumes wf: "wf_desc d" and al: "4096 dvd unat bc"
  shows "\<exists>q. any_offer bc d = Inr q \<and>
    (q = None \<longleftrightarrow> \<not> (Type d = type_u32 EfiConventionalMemory \<and> dstart d + unat bc \<le> dend d)) \<and>
    (\<forall>x. q = Some x \<longrightarrow> unat x = dend d - unat bc)"
proof (cases "Type d = type_u32 EfiConventionalMemory")
  case True
  obtain de where de: "descriptor_end d = Inr de" "unat de = dend d"
    using descriptor_end_ok wf by (auto simp: wf_desc_def)
  have lim: "dend d < 2 ^ 64 - 1" using wf_dend_limit [OF wf] by simp
  have sat: "de < saturating_add (PhysicalStart d) bc \<longleftrightarrow> \<not> dstart d + unat bc \<le> dend d"
    using lim de(2) by (auto simp: word_less_nat_alt unat_saturating_add dstart_def)
  show ?thesis
  proof (cases "dstart d + unat bc \<le> dend d")
    case False
    then show ?thesis using True de sat by (simp add: any_offer_def)
  next
    case fit: True
    then have le: "bc \<le> de" using de(2) by (simp add: word_le_nat_alt)
    have "4096 dvd (dend d - unat bc)" using wf_descD(4) [OF wf] al by simp
    then have us: "unat (align_down (de - bc) 4096) = dend d - unat bc"
      using le de(2) by (simp add: unat_align_down_page unat_sub_le mod_eq_0_iff_dvd [symmetric])
    then have "\<not> align_down (de - bc) 4096 < PhysicalStart d"
      using fit by (simp add: word_less_nat_alt dstart_def)
    then show ?thesis using True de sat fit us by (simp add: any_offer_def)
  qed
qed (simp add: any_offer_def)

lemma any_offer_ok: "wf_desc d \<Longrightarrow> 4096 dvd unat bc \<Longrightarrow> \<exists>q. any_offer bc d = Inr q"
  using any_offer_spec by blast

lemma any_offer_Some:
  assumes "wf_desc d" and "4096 dvd unat bc" and "any_offer bc d = Inr (Some x)"
  shows "Type d = type_u32 EfiConventionalMemory" and "dstart d + unat bc \<le> dend d" and "unat x = dend d - unat bc"
  using any_offer_spec [OF assms(1,2)] assms(3) by auto

lemma any_offer_fits:
  assumes "wf_desc d" and "4096 dvd unat bc"
    and "Type d = type_u32 EfiConventionalMemory" and "dstart d + unat bc \<le> dend d"
  obtains x where "any_offer bc d = Inr (Some x)" and "unat x = dend d - unat bc"
  using any_offer_spec [OF assms(1,2)] assms(3,4) by (metis option.exhaust)

text \<open>The highest page-aligned start in \<open>d\<close> for \<open>bytes\<close> bytes ending at or below \<open>limit + 1\<close>.\<close>

lemma max_offer_spec:
  assumes wf: "wf_desc d" and al: "4096 dvd unat b"
  shows "\<exists>q. max_offer b m d = Inr q \<and>
    (\<forall>x. q = Some x \<longrightarrow> Type d = type_u32 EfiConventionalMemory \<and> 4096 dvd unat x
       \<and> dstart d \<le> unat x \<and> unat x + unat b \<le> dend d \<and> unat x + unat b \<le> unat m + 1) \<and>
    (\<forall>y. Type d = type_u32 EfiConventionalMemory \<longrightarrow> 4096 dvd y \<longrightarrow> dstart d \<le> y \<longrightarrow> y + unat b \<le> dend d
       \<longrightarrow> y + unat b \<le> unat m + 1 \<longrightarrow> (\<exists>x. q = Some x \<and> y \<le> unat x))"
proof (cases "Type d = type_u32 EfiConventionalMemory")
  case True
  obtain de where de: "descriptor_end d = Inr de" "unat de = dend d"
    using descriptor_end_ok wf by (auto simp: wf_desc_def)
  have lim: "dend d < 2 ^ 64 - 1" using wf_dend_limit [OF wf] by simp
  define ub where "ub = min de (saturating_add m 1)"
  have uub: "unat ub = min (dend d) (unat m + 1)"
    using lim de(2) unsigned_less [of m]
    by (auto simp: ub_def min_def word_le_nat_alt unat_saturating_add)
  have sat: "ub < saturating_add (PhysicalStart d) b \<longleftrightarrow> \<not> dstart d + unat b \<le> unat ub"
    using lim uub by (auto simp: word_less_nat_alt unat_saturating_add dstart_def)
  have eq: "max_offer b m d = (if ub < saturating_add (PhysicalStart d) b then Inr None
      else Inr (if align_down (ub - b) 4096 < PhysicalStart d then None else Some (align_down (ub - b) 4096)))"
    using True de by (simp add: max_offer_def ub_def Let_def)
  show ?thesis
  proof (cases "dstart d + unat b \<le> unat ub")
    case False
    then have "max_offer b m d = Inr None" using eq sat by simp
    moreover have "\<not> (dstart d \<le> y \<and> y + unat b \<le> dend d \<and> y + unat b \<le> unat m + 1)" for y
      using False uub by auto
    ultimately show ?thesis by auto
  next
    case fit: True
    then have us: "unat (align_down (ub - b) 4096) = (unat ub - unat b) - (unat ub - unat b) mod 4096"
      by (simp add: unat_align_down_page unat_sub_le word_le_nat_alt)
    define s where "s = unat (align_down (ub - b) 4096)"
    have s: "4096 dvd s" "s \<le> unat ub - unat b" using us by (auto simp: s_def minus_mod_eq_mult_div)
    have top: "y \<le> s" if "4096 dvd y" "y + unat b \<le> unat ub" for y
    proof -
      have "y div 4096 * 4096 \<le> (unat ub - unat b) div 4096 * 4096" using that(2) by (intro mult_right_mono div_le_mono) auto
      then show ?thesis using that(1) us by (simp add: s_def minus_mod_eq_div_mult)
    qed
    have "dstart d \<le> s" using top [of "dstart d"] fit wf_descD(3) [OF wf] by simp
    then have "max_offer b m d = Inr (Some (align_down (ub - b) 4096))"
      using eq sat fit by (simp add: word_less_nat_alt dstart_def s_def)
    moreover have "s + unat b \<le> dend d" "s + unat b \<le> unat m + 1"
      using s(2) fit uub by linarith+
    moreover have "y \<le> s" if "4096 dvd y" "y + unat b \<le> dend d" "y + unat b \<le> unat m + 1" for y
      using top [of y] that uub by simp
    ultimately show ?thesis using True s(1) \<open>dstart d \<le> s\<close> by (intro exI [of _ "Some (align_down (ub - b) 4096)"]) (simp add: s_def)
  qed
qed (simp add: max_offer_def)

section \<open>Free ranges of the abstract map\<close>

definition free_at :: "PageAllocator \<Rightarrow> nat \<Rightarrow> nat \<Rightarrow> bool" where
  "free_at self x bytes \<longleftrightarrow> (\<forall>a \<in> {x ..< x + bytes}. map_type self a = Some (type_u32 EfiConventionalMemory))"

lemma free_at_descriptor:
  assumes "alloc_ok self" and "d \<in> set (active self)" and "Type d = type_u32 EfiConventionalMemory"
    and "dstart d \<le> x" and "x + b \<le> dend d"
  shows "free_at self x b"
  using assms type_at_wf [of "active self" d] by (auto simp: free_at_def map_type_def alloc_ok_def)

lemma free_at_one_descriptor:
  assumes "normal self" and "0 < b" and "free_at self x b"
  obtains d where "d \<in> set (active self)" "Type d = type_u32 EfiConventionalMemory" "dstart d \<le> x" "x + b \<le> dend d"
  using normal_one_descriptor [of "active self" x "x + b" "type_u32 EfiConventionalMemory"] assms
  by (auto simp: normal_def alloc_ok_def free_at_def map_type_def)

lemma normal_wf: "normal self \<Longrightarrow> d \<in> set (active self) \<Longrightarrow> wf_desc d"
  by (auto simp: normal_def alloc_ok_def wf_map_def)

lemma pages_to_bytes_Inr:
  "pages_to_bytes P = Inr b \<longleftrightarrow> unat P * 4096 < 2 ^ 64 \<and> b = P * 4096"
  by (auto simp: pages_to_bytes_def pages_to_u64_def rust_ops)

lemma pages_to_bytes_unat: "pages_to_bytes P = Inr b \<Longrightarrow> unat b = unat P * 4096"
  using unat_mult_small [of P 4096] by (auto simp: pages_to_bytes_Inr)

lemma find_allocation_any_pages_Inr:
  assumes n: "normal self" and P: "0 < unat P" and f: "find_allocation_any_pages self P = Inr m"
  shows "free_at self (unat m) (unat P * 4096)" and "4096 dvd unat m"
    and "\<And>x. free_at self x (unat P * 4096) \<Longrightarrow> x \<le> unat m"
proof -
  from f obtain b where b: "pages_to_bytes P = Inr b"
    and l: "best_loop (any_offer b) max (active self) None = Inr (Some m)"
    by (auto simp: find_allocation_any_pages_def any_pages_loop_best)
  note ub = pages_to_bytes_unat [OF b]
  note r = highest.best_loop_Inr [OF l]
  have al: "4096 dvd unat b" using ub by simp
  note wf = normal_wf [OF n]
  obtain d where d: "d \<in> set (active self)" "any_offer b d = Inr (Some m)" using r by auto
  have dm: "Type d = type_u32 EfiConventionalMemory" "dstart d + unat P * 4096 \<le> dend d"
      "unat m = dend d - unat P * 4096"
    using any_offer_Some [OF wf [OF d(1)] al d(2)] ub by simp_all
  show "free_at self (unat m) (unat P * 4096)"
    using free_at_descriptor [OF _ d(1) dm(1)] dm n by (auto simp: normal_def)
  show "4096 dvd unat m" using dm wf_descD(4) [OF normal_wf [OF n d(1)]] by simp
  fix x assume "free_at self x (unat P * 4096)"
  then obtain d' where d': "d' \<in> set (active self)" "Type d' = type_u32 EfiConventionalMemory"
      "dstart d' \<le> x" "x + unat P * 4096 \<le> dend d'"
    using free_at_one_descriptor [OF n, of "unat P * 4096" x] P by auto
  then obtain y where y: "any_offer b d' = Inr (Some y)" "unat y = dend d' - unat P * 4096"
    using any_offer_fits [OF wf [OF d'(1)] al] ub by auto
  then have "y \<le> m" using r d'(1) by blast
  then show "x \<le> unat m" using y d'(4) by (simp add: word_le_nat_alt)
qed

lemma find_allocation_any_pages_Inl:
  assumes n: "normal self" and P: "0 < unat P"
  shows "find_allocation_any_pages self P = Inl e \<longleftrightarrow>
    (if 2 ^ 64 \<le> unat P * 4096 then e = AddressOverflow
     else e = OutOfResources \<and> (\<nexists>x. free_at self x (unat P * 4096)))"
proof (cases "2 ^ 64 \<le> unat P * 4096")
  case True
  then have "pages_to_bytes P = Inl AddressOverflow"
    by (simp add: pages_to_bytes_def pages_to_u64_def checked_mul_def)
  with True show ?thesis by (auto simp: find_allocation_any_pages_def)
next
  case False
  then obtain b where b: "pages_to_bytes P = Inr b" by (simp add: pages_to_bytes_Inr)
  note ub = pages_to_bytes_unat [OF b]
  have al: "4096 dvd unat b" using ub by simp
  note wf = normal_wf [OF n]
  obtain c where c: "best_loop (any_offer b) max (active self) None = Inr c"
    using highest.best_loop_ok [of "active self" "any_offer b" None] any_offer_ok [OF wf al] by auto
  have "\<not> free_at self x (unat P * 4096)" if "c = None" for x
  proof
    assume "free_at self x (unat P * 4096)"
    then obtain d where d: "d \<in> set (active self)" "Type d = type_u32 EfiConventionalMemory"
        "dstart d \<le> x" "x + unat P * 4096 \<le> dend d"
      using free_at_one_descriptor [OF n, of "unat P * 4096" x] P by auto
    then obtain y where "any_offer b d = Inr (Some y)"
      using any_offer_fits [OF wf [OF d(1)] al] ub by auto
    then show False using highest.best_loop_Inr [OF c] that d(1) by auto
  qed
  moreover have "free_at self (unat x) (unat P * 4096)" if "c = Some x" for x
    using find_allocation_any_pages_Inr(1) [OF n P, of x] b c that
    by (simp add: find_allocation_any_pages_def any_pages_loop_best)
  ultimately show ?thesis using False b c
    by (cases c) (auto simp: find_allocation_any_pages_def any_pages_loop_best)
qed

lemma find_allocation_max_address_Inr:
  assumes n: "normal self" and P: "0 < unat P" and b: "pages_to_bytes P = Inr b"
    and f: "find_allocation_max_address self b limit = Inr m"
  shows "free_at self (unat m) (unat P * 4096)" and "4096 dvd unat m"
    and "unat m + unat P * 4096 \<le> unat limit + 1"
    and "\<And>x. 4096 dvd x \<Longrightarrow> x + unat P * 4096 \<le> unat limit + 1 \<Longrightarrow> free_at self x (unat P * 4096) \<Longrightarrow> x \<le> unat m"
proof -
  from f have l: "best_loop (max_offer b limit) max (active self) None = Inr (Some m)"
    by (auto simp: find_allocation_max_address_def max_address_loop_best)
  note ub = pages_to_bytes_unat [OF b]
  have al: "4096 dvd unat b" using ub by simp
  note r = highest.best_loop_Inr [OF l]
  obtain d where d: "d \<in> set (active self)" "max_offer b limit d = Inr (Some m)" using r by auto
  have dm: "Type d = type_u32 EfiConventionalMemory" "4096 dvd unat m" "dstart d \<le> unat m"
      "unat m + unat P * 4096 \<le> dend d" "unat m + unat P * 4096 \<le> unat limit + 1"
    using max_offer_spec [OF normal_wf [OF n d(1)] al, of limit] d(2) ub by auto
  show "free_at self (unat m) (unat P * 4096)" and "4096 dvd unat m"
    and "unat m + unat P * 4096 \<le> unat limit + 1"
    using free_at_descriptor [OF _ d(1) dm(1,3,4)] dm n by (auto simp: normal_def)
  fix x assume x: "4096 dvd x" "x + unat P * 4096 \<le> unat limit + 1" "free_at self x (unat P * 4096)"
  obtain d' where d': "d' \<in> set (active self)" "Type d' = type_u32 EfiConventionalMemory"
      "dstart d' \<le> x" "x + unat P * 4096 \<le> dend d'"
    using free_at_one_descriptor [OF n _ x(3)] P by auto
  then obtain y where y: "max_offer b limit d' = Inr (Some y)" "x \<le> unat y"
    using max_offer_spec [OF normal_wf [OF n d'(1)] al, of limit] x ub by auto
  then have "y \<le> m" using r d'(1) by blast
  then show "x \<le> unat m" using y(2) by (simp add: word_le_nat_alt)
qed

lemma max_offer_ok: "wf_desc d \<Longrightarrow> 4096 dvd unat b \<Longrightarrow> \<exists>q. max_offer b m d = Inr q"
  by (drule (1) max_offer_spec [of _ _ m]) (elim exE conjE, rule exI)

lemma find_allocation_max_address_ok:
  assumes n: "normal self" and P: "0 < unat P" and b: "pages_to_bytes P = Inr b"
    and x: "4096 dvd x" "x + unat P * 4096 \<le> unat limit + 1" "free_at self x (unat P * 4096)"
  shows "\<exists>m. find_allocation_max_address self b limit = Inr m"
proof -
  note ub = pages_to_bytes_unat [OF b]
  have al: "4096 dvd unat b" using ub by simp
  obtain c where c: "best_loop (max_offer b limit) max (active self) None = Inr c"
    using highest.best_loop_ok [of "active self" "max_offer b limit" None]
      max_offer_ok [OF normal_wf [OF n] al] by auto
  obtain d where d: "d \<in> set (active self)" "Type d = type_u32 EfiConventionalMemory"
      "dstart d \<le> x" "x + unat P * 4096 \<le> dend d"
    using free_at_one_descriptor [OF n _ x(3)] P by auto
  then obtain y where "max_offer b limit d = Inr (Some y)"
    using max_offer_spec [OF normal_wf [OF n d(1)] al, of limit] x ub by auto
  then have "c \<noteq> None" using highest.best_loop_Inr [OF c] d(1) by auto
  with c show ?thesis by (auto simp: find_allocation_max_address_def max_address_loop_best)
qed

section \<open>Aligned searches\<close>

lemma round_down_greatest:
  fixes y v k :: nat
  assumes "k dvd y" and "y \<le> v"
  shows "y \<le> v - v mod k"
proof -
  have "y div k * k \<le> v div k * k" using assms(2) by (intro mult_right_mono div_le_mono) auto
  then show ?thesis using assms(1) by (simp add: minus_mod_eq_div_mult)
qed

lemma round_up_least:
  fixes y v k :: nat
  assumes "k dvd y" and "v \<le> y" and "0 < k"
  shows "v + (k - 1) - (v + (k - 1)) mod k \<le> y"
proof -
  have "(v + (k - 1)) div k * k \<le> (y + (k - 1)) div k * k" using assms(2) by (intro mult_right_mono div_le_mono) auto
  also have "(y + (k - 1)) div k = y div k + (k - 1) div k" using assms(1) by (rule div_plus_div_distrib_dvd_left)
  also have "(k - 1) div k = 0" using assms(3) by simp
  finally show ?thesis using assms(1) by (simp add: minus_mod_eq_div_mult)
qed

lemma align_up_unat:
  assumes "k < 64" and "align_up v (2 ^ k) = Inr w"
  shows "unat w = unat v + (2 ^ k - 1) - (unat v + (2 ^ k - 1)) mod 2 ^ k"
proof -
  have "unat ((2::u64) ^ k - 1) = 2 ^ k - 1"
    using unat_exp_word [OF assms(1)] by (metis one_le_numeral one_le_power unat_1 unat_sub word_le_nat_alt)
  then show ?thesis
    using assms align_up_Inr [OF assms(1), of v w] unat_add_small [of v "2 ^ k - 1"] by (auto simp: unat_align_down)
qed

lemma round_up_ge: "0 < k \<Longrightarrow> (v::nat) \<le> v + (k - 1) - (v + (k - 1)) mod k"
  using mod_less_divisor [of k "v + (k - 1)"] by linarith

definition offer_range :: "EFI_MEMORY_DESCRIPTOR \<Rightarrow> nat \<Rightarrow> nat \<Rightarrow> nat \<Rightarrow> bool" where
  "offer_range d bytes alignment x \<longleftrightarrow> Type d = type_u32 EfiConventionalMemory \<and> alignment dvd x
     \<and> dstart d \<le> x \<and> x + bytes \<le> dend d"

lemma aligned_offer_spec:
  assumes wf: "wf_desc d" and k: "k < 64" and q: "aligned_offer bc (2 ^ k) dir d = Inr q"
  shows "q = Some x \<Longrightarrow> offer_range d (unat bc) (2 ^ k) (unat x)"
    and "offer_range d (unat bc) (2 ^ k) y \<Longrightarrow>
          \<exists>x. q = Some x \<and> (case dir of Low \<Rightarrow> unat x \<le> y | High \<Rightarrow> y \<le> unat x)"
proof -
  obtain de where de: "descriptor_end d = Inr de" "unat de = dend d"
    using descriptor_end_ok wf by (auto simp: wf_desc_def)
  define start where "start = (case dir of Low \<Rightarrow> align_up (PhysicalStart d) (2 ^ k)
      | High \<Rightarrow> Inr (align_down (de - bc) (2 ^ k)))"
  have al: "2 ^ k dvd unat s" if "start = Inr s" for s
    using that align_up_unat [OF k] by (cases dir) (auto simp: start_def unat_align_down minus_mod_eq_mult_div)
  have fits: "\<exists>s. start = Inr s \<and> q = (if unat s + unat bc < 2 ^ 64 \<and> dstart d \<le> unat s \<and> unat s + unat bc \<le> dend d
         then Some s else None)"
    if "Type d = type_u32 EfiConventionalMemory" "dstart d + unat bc \<le> dend d"
  proof -
    have "bc \<le> de" "\<not> de - bc < PhysicalStart d"
      using that(2) de(2) by (auto simp: word_less_nat_alt unat_sub_le dstart_def word_le_nat_alt)
    then have "aligned_offer bc (2 ^ k) dir d = rbind start (\<lambda>s. Inr (case checked_add s bc of None \<Rightarrow> None
        | Some re \<Rightarrow> if s < PhysicalStart d \<or> de < re then None else Some s))"
      using that(1) de(1) by (simp add: aligned_offer_def checked_sub_def start_def)
    then obtain s where s: "start = Inr s" and qs: "q = (case checked_add s bc of None \<Rightarrow> None
        | Some re \<Rightarrow> if s < PhysicalStart d \<or> de < re then None else Some s)"
      using q by (cases start) auto
    have "q = (if unat s + unat bc < 2 ^ 64 \<and> dstart d \<le> unat s \<and> unat s + unat bc \<le> dend d then Some s else None)"
      using qs de(2) by (cases "unat s + unat bc < 2 ^ 64")
        (simp_all add: checked_add_def dstart_def word_less_nat_alt unat_add_small not_less)
    then show ?thesis using s by blast
  qed
  have misfit: "q = None" if "\<not> (Type d = type_u32 EfiConventionalMemory \<and> dstart d + unat bc \<le> dend d)"
    using q that de
    by (auto simp: aligned_offer_def checked_sub_def word_less_nat_alt unat_sub_le word_le_nat_alt dstart_def
        split: if_splits)
  show "q = Some x \<Longrightarrow> offer_range d (unat bc) (2 ^ k) (unat x)"
    using fits misfit al by (fastforce simp: offer_range_def split: if_splits)
  assume y: "offer_range d (unat bc) (2 ^ k) y"
  then have ty: "Type d = type_u32 EfiConventionalMemory" and fy: "dstart d + unat bc \<le> dend d"
    by (auto simp: offer_range_def)
  obtain s where s: "start = Inr s" and qs: "q = (if unat s + unat bc < 2 ^ 64 \<and> dstart d \<le> unat s \<and> unat s + unat bc \<le> dend d
         then Some s else None)" using fits [OF ty fy] by blast
  have cmp: "case dir of Low \<Rightarrow> dstart d \<le> unat s \<and> unat s \<le> y | High \<Rightarrow> y \<le> unat s \<and> unat s + unat bc \<le> dend d"
  proof (cases dir)
    case Low
    with s show ?thesis using align_up_unat [OF k, of "PhysicalStart d" s] y
        round_up_least [of "2 ^ k" y "dstart d"] round_up_ge [of "2 ^ k" "dstart d"]
      by (simp add: start_def offer_range_def dstart_def)
  next
    case High
    have "bc \<le> de" using fy de(2) by (simp add: word_le_nat_alt)
    with High s show ?thesis using y round_down_greatest [of "2 ^ k" y "dend d - unat bc"] de(2)
      by (auto simp: start_def offer_range_def unat_align_down unat_sub_le)
  qed
  have "dstart d \<le> unat s \<and> unat s + unat bc \<le> dend d"
    using cmp y by (cases dir) (auto simp: offer_range_def)
  then show "\<exists>x. q = Some x \<and> (case dir of Low \<Rightarrow> unat x \<le> y | High \<Rightarrow> y \<le> unat x)"
    using qs cmp wf_descD(2) [OF wf] by (cases dir) auto
qed

lemma find_aligned_allocation_Inr:
  assumes n: "normal self" and P: "0 < unat P" and k: "k < 64"
    and f: "find_aligned_allocation self P (2 ^ k) dir = Inr m"
  shows "free_at self (unat m) (unat P * 4096)" and "2 ^ k dvd unat m"
    and "\<And>x. 2 ^ k dvd x \<Longrightarrow> free_at self x (unat P * 4096) \<Longrightarrow>
            (case dir of Low \<Rightarrow> unat m \<le> x | High \<Rightarrow> x \<le> unat m)"
proof -
  from f obtain b where b: "pages_to_bytes P = Inr b"
    and l: "best_loop (aligned_offer b (2 ^ k) dir) (case dir of Low \<Rightarrow> min | High \<Rightarrow> max) (active self) None = Inr (Some m)"
    by (auto simp: find_aligned_allocation_def aligned_loop_best)
  note ub = pages_to_bytes_unat [OF b]
  have r: "(\<exists>d \<in> set (active self). aligned_offer b (2 ^ k) dir d = Inr (Some m)) \<and>
    (\<forall>d \<in> set (active self). (\<exists>q. aligned_offer b (2 ^ k) dir d = Inr q) \<and>
      (\<forall>y. aligned_offer b (2 ^ k) dir d = Inr (Some y) \<longrightarrow> (case dir of Low \<Rightarrow> m \<le> y | High \<Rightarrow> y \<le> m)))"
    using l lowest.best_loop_Inr [of "aligned_offer b (2 ^ k) dir" "active self" None "Some m"]
      highest.best_loop_Inr [of "aligned_offer b (2 ^ k) dir" "active self" None "Some m"]
    by (cases dir) simp_all
  obtain d where d: "d \<in> set (active self)" "aligned_offer b (2 ^ k) dir d = Inr (Some m)" using r by auto
  have dm: "offer_range d (unat P * 4096) (2 ^ k) (unat m)"
    using aligned_offer_spec(1) [OF normal_wf [OF n d(1)] k d(2) refl] ub by simp
  show "free_at self (unat m) (unat P * 4096)" and "2 ^ k dvd unat m"
    using free_at_descriptor [OF _ d(1)] dm n by (auto simp: normal_def offer_range_def)
  fix x assume x: "2 ^ k dvd x" "free_at self x (unat P * 4096)"
  obtain d' where d': "d' \<in> set (active self)" "offer_range d' (unat b) (2 ^ k) x"
    using free_at_one_descriptor [OF n _ x(2)] P x(1) ub by (auto simp: offer_range_def)
  obtain q where q: "aligned_offer b (2 ^ k) dir d' = Inr q" using r d'(1) by blast
  obtain y where y: "q = Some y" "case dir of Low \<Rightarrow> unat y \<le> x | High \<Rightarrow> x \<le> unat y"
    using aligned_offer_spec(2) [OF normal_wf [OF n d'(1)] k q d'(2)] by blast
  then show "case dir of Low \<Rightarrow> unat m \<le> x | High \<Rightarrow> x \<le> unat m"
    using r d'(1) q by (cases dir) (auto simp: word_le_nat_alt intro: order_trans)
qed

section \<open>The contract of the exact-range operations\<close>

type_synonym page_span = "u64 \<times> u64"

text \<open>Claims made one after the other, stopping at the first failure.\<close>

fun claim_all :: "('s \<Rightarrow> 'r \<Rightarrow> 'k \<Rightarrow> ('e, unit, 's) outcome) \<Rightarrow> 's \<Rightarrow> ('r \<times> 'k) list \<Rightarrow> ('e, unit, 's) outcome" where
  "claim_all claim s [] = (Inr (), s)"
| "claim_all claim s ((r, k) # rs) = sbind (claim s r k) (\<lambda>_ s. claim_all claim s rs)"

locale page_store =
  fixes inv :: "'s \<Rightarrow> bool" and type_of :: "'s \<Rightarrow> nat \<Rightarrow> 't option"
    and valid :: "'r \<Rightarrow> bool" and bytes :: "'r \<Rightarrow> nat set" and tag :: "'k \<Rightarrow> 't" and free :: 't
    and claim :: "'s \<Rightarrow> 'r \<Rightarrow> 'k \<Rightarrow> ('e, unit, 's) outcome"
    and release :: "'s \<Rightarrow> 'r \<Rightarrow> ('e, unit, 's) outcome"
  assumes bytes_nonempty: "valid r \<Longrightarrow> bytes r \<noteq> {}"
    and claim_inv: "inv s \<Longrightarrow> valid r \<Longrightarrow> claim s r k = (Inr u, s') \<Longrightarrow> inv s'"
    and claim_effect: "inv s \<Longrightarrow> valid r \<Longrightarrow> claim s r k = (Inr u, s') \<Longrightarrow>
          type_of s' = (\<lambda>a. if a \<in> bytes r then Some (tag k) else type_of s a)"
    and claim_free: "inv s \<Longrightarrow> valid r \<Longrightarrow> claim s r k = (Inr u, s') \<Longrightarrow> a \<in> bytes r \<Longrightarrow> type_of s a = Some free"
    and release_effect: "inv s \<Longrightarrow> valid r \<Longrightarrow> release s r = (Inr u, s') \<Longrightarrow>
          type_of s' = (\<lambda>a. if a \<in> bytes r then Some free else type_of s a)"
    and release_held: "inv s \<Longrightarrow> valid r \<Longrightarrow> release s r = (Inr u, s') \<Longrightarrow> a \<in> bytes r \<Longrightarrow>
          type_of s a \<noteq> Some free \<and> type_of s a \<noteq> None"
begin

lemma claim_release:
  assumes "inv s" and "valid r" and "claim s r k = (Inr u, s1)" and "release s1 r = (Inr u', s2)"
  shows "type_of s2 = type_of s"
proof
  fix a
  show "type_of s2 a = type_of s a"
    using release_effect [OF claim_inv [OF assms(1-3)] assms(2,4)] claim_effect [OF assms(1-3)]
      claim_free [OF assms(1-3), of a] by simp
qed

lemma no_double_claim:
  assumes "inv s" and "valid r" and "claim s r k = (Inr u, s1)" and "tag k \<noteq> free"
    and "valid r'" and "claim s1 r' k' = (Inr u', s2)"
  shows "bytes r \<inter> bytes r' = {}"
  using claim_free [OF claim_inv [OF assms(1-3)] assms(5,6)] claim_effect [OF assms(1-3)] assms(4)
  by fastforce

lemma claim_all_keeps_claimed:
  "claim_all claim s rs = (Inr u, s') \<Longrightarrow> inv s \<Longrightarrow> \<forall>(r, k) \<in> set rs. valid r \<Longrightarrow>
   type_of s a \<noteq> Some free \<Longrightarrow> type_of s' a = type_of s a \<and> (\<forall>(r, k) \<in> set rs. a \<notin> bytes r)"
proof (induction rs arbitrary: s)
  case (Cons p rs)
  obtain r k where p: "p = (r, k)" by (cases p)
  from Cons.prems p obtain s1 where c: "claim s r k = (Inr (), s1)" "claim_all claim s1 rs = (Inr u, s')"
    by (auto simp: sbind_eq_Inr)
  have v: "valid r" using Cons.prems p by simp
  have a: "a \<notin> bytes r" using claim_free [OF Cons.prems(2) v c(1)] Cons.prems(4) by blast
  then have "type_of s1 a = type_of s a" using claim_effect [OF Cons.prems(2) v c(1)] by simp
  with Cons.IH [OF c(2) claim_inv [OF Cons.prems(2) v c(1)]] Cons.prems a p show ?case by auto
qed simp

lemma claim_all_disjoint:
  "claim_all claim s rs = (Inr u, s') \<Longrightarrow> inv s \<Longrightarrow> \<forall>(r, k) \<in> set rs. valid r \<and> tag k \<noteq> free \<Longrightarrow>
   sorted_wrt (\<lambda>p q. bytes (fst p) \<inter> bytes (fst q) = {}) rs
   \<and> (\<forall>(r, k) \<in> set rs. \<forall>a \<in> bytes r. type_of s' a = Some (tag k))"
proof (induction rs arbitrary: s)
  case (Cons p rs)
  obtain r k where p: "p = (r, k)" by (cases p)
  from Cons.prems p obtain s1 where c: "claim s r k = (Inr (), s1)" "claim_all claim s1 rs = (Inr u, s')"
    by (auto simp: sbind_eq_Inr)
  have v: "valid r" "tag k \<noteq> free" using Cons.prems p by auto
  note i1 = claim_inv [OF Cons.prems(2) v(1) c(1)]
  have vs: "\<forall>(r, k) \<in> set rs. valid r" using Cons.prems(3) by auto
  have "type_of s' a = Some (tag k) \<and> (\<forall>(r', k') \<in> set rs. a \<notin> bytes r')" if "a \<in> bytes r" for a
    using claim_all_keeps_claimed [OF c(2) i1 vs, of a] claim_effect [OF Cons.prems(2) v(1) c(1)] that v(2)
    by simp
  with Cons.IH [OF c(2) i1] Cons.prems p show ?case by fastforce
qed simp

lemma release_unclaimed:
  assumes "inv s" and "valid r" and "a \<in> bytes r" and "type_of s a = Some free \<or> type_of s a = None"
  shows "\<exists>e s'. release s r = (Inl e, s')"
  using release_held [OF assms(1,2), of _ _ a] assms(3,4)
  by (cases "release s r") (metis old.sum.exhaust)

end

definition valid_span :: "page_span \<Rightarrow> bool" where
  "valid_span r \<longleftrightarrow> 4096 dvd unat (fst r) \<and> snd r \<noteq> 0"

definition span_bytes :: "page_span \<Rightarrow> nat set" where
  "span_bytes r = page_range (fst r) (snd r)"

definition claim_span :: "PageAllocator \<Rightarrow> page_span \<Rightarrow> EFI_MEMORY_TYPE \<Rightarrow> (MemoryError, unit, PageAllocator) outcome" where
  "claim_span self r t = allocate_exact_range self (fst r) (snd r) t"

definition release_span :: "PageAllocator \<Rightarrow> page_span \<Rightarrow> (MemoryError, unit, PageAllocator) outcome" where
  "release_span self r = free_exact_range self (fst r) (snd r)"

lemma valid_spanD: "valid_span r \<Longrightarrow> 4096 dvd unat (fst r) \<and> 0 < unat (snd r)"
  by (auto simp: valid_span_def unat_gt_0)

interpretation pages: page_store normal map_type valid_span span_bytes type_u32
  "type_u32 EfiConventionalMemory" claim_span release_span
proof (unfold_locales, goal_cases)
  case (1 r)
  then show ?case by (auto simp: span_bytes_def dest: valid_spanD)
next
  case (2 s r k u s')
  then show ?case using allocate_exact_range_normal by (auto simp: claim_span_def dest: valid_spanD)
next
  case (3 s r k u s')
  then show ?case using allocate_exact_range_Inr(2) [of s "fst r" "snd r" k u s']
    by (auto simp: claim_span_def span_bytes_def normal_def dest: valid_spanD)
next
  case (4 s r k u s' a)
  then show ?case using allocate_exact_range_Inr(3) [of s "fst r" "snd r" k u s' a]
    by (auto simp: claim_span_def span_bytes_def normal_def dest: valid_spanD)
next
  case (5 s r u s')
  then show ?case using free_exact_range_Inr(2) [of s "fst r" "snd r" u s']
    by (auto simp: release_span_def span_bytes_def normal_def dest: valid_spanD)
next
  case (6 s r u s' a)
  then show ?case using free_exact_range_Inr(3) [of s "fst r" "snd r" u s']
    by (fastforce simp: release_span_def span_bytes_def normal_def dest: valid_spanD)
qed

section \<open>Normal maps are canonical\<close>

definition normal_list :: "EFI_MEMORY_DESCRIPTOR list \<Rightarrow> bool" where
  "normal_list ds \<longleftrightarrow> wf_map ds \<and> (\<forall>d \<in> set ds. plain d)
     \<and> successively (\<lambda>a b. \<not> descriptors_are_compatible a b) ds"

lemma normal_list_active: "normal self \<Longrightarrow> normal_list (active self)"
  by (simp add: normal_def normal_list_def alloc_ok_def)

lemma normal_list_Cons: "normal_list (d # ds) \<Longrightarrow> normal_list ds \<and> wf_desc d \<and> plain d"
  by (auto simp: normal_list_def wf_map_Cons successively_Cons)

lemma descriptor_eqI:
  assumes "plain d" "plain e" "Type d = Type e" "dstart d = dstart e" "dend d = dend e"
  shows "d = e"
proof -
  have "NumberOfPages d = NumberOfPages e" "PhysicalStart d = PhysicalStart e"
    using assms(4,5) by (auto simp: dend_def dstart_def dpages_def word_unat_eq_iff)
  with assms show ?thesis by (simp add: plain_def)
qed

lemma head_type_at: "wf_map (d # ds) \<Longrightarrow> a < dend d \<Longrightarrow> type_at (d # ds) a = (if dstart d \<le> a then Some (Type d) else None)"
  by (auto simp: wf_map_Cons type_at_None dest: wf_descD(1))

lemma normal_head_le:
  assumes "normal_list (d # ds)" and "normal_list (e # es)" and "type_at (d # ds) = type_at (e # es)"
  shows "dstart e \<le> dstart d" and "dstart d = dstart e \<Longrightarrow> dend d \<le> dend e \<and> Type d = Type e"
proof -
  have wd: "wf_map (d # ds)" "wf_map (e # es)" using assms(1,2) by (auto simp: normal_list_def)
  have lt: "dstart d < dend d" "dstart e < dend e" using wd by (auto simp: wf_map_Cons dest: wf_descD(1))
  have td: "type_at (e # es) a = Some (Type d)" if "a \<in> {dstart d ..< dend d}" for a
    using head_type_at [OF wd(1), of a] that unfolding assms(3) by simp
  show "dstart e \<le> dstart d"
    using type_at_lower [OF wd(2) td [of "dstart d"]] lt by simp
  assume eq: "dstart d = dstart e"
  obtain x where x: "x \<in> set (e # es)" "dstart x \<le> dstart d" "dend d \<le> dend x" "Type x = Type d"
    using normal_one_descriptor [of "e # es" "dstart d" "dend d" "Type d"] assms(2) lt(1) td
    by (auto simp: normal_list_def)
  have "x = e"
  proof (rule ccontr)
    assume "x \<noteq> e"
    then have "dend e \<le> dstart x" using x(1) wd(2) by (auto simp: wf_map_Cons)
    then show False using x(2) eq lt(2) by simp
  qed
  with x show "dend d \<le> dend e \<and> Type d = Type e" by simp
qed

lemma normal_list_canonical:
  "normal_list ds \<Longrightarrow> normal_list es \<Longrightarrow> type_at ds = type_at es \<Longrightarrow> ds = es"
proof (induction ds arbitrary: es)
  case Nil
  show ?case
  proof (cases es)
    case (Cons e es')
    with Nil have "wf_map (e # es')" "dstart e < dend e"
      by (auto simp: normal_list_def wf_map_Cons dest: wf_descD(1))
    then have "type_at es (dstart e) = Some (Type e)" using Cons by simp
    with Nil(3) show ?thesis by (metis option.distinct(1) type_at.simps(1))
  qed simp
next
  case (Cons d ds)
  show ?case
  proof (cases es)
    case Nil
    have "dstart d < dend d" using Cons.prems(1) by (auto dest!: normal_list_Cons wf_descD(1))
    then have "type_at (d # ds) (dstart d) = Some (Type d)" by simp
    with Cons.prems(3) Nil show ?thesis by (metis option.distinct(1) type_at.simps(1))
  next
    case es: (Cons e es')
    note n = Cons.prems(1) Cons.prems(2) [unfolded es] Cons.prems(3) [unfolded es]
    have st: "dstart d = dstart e"
      using normal_head_le(1) [OF n] normal_head_le(1) [OF n(2,1) n(3) [symmetric]] by simp
    have "d = e"
      using normal_head_le(2) [OF n st] normal_head_le(2) [OF n(2,1) n(3) [symmetric] st [symmetric]]
        normal_list_Cons [OF n(1)] normal_list_Cons [OF n(2)] st by (intro descriptor_eqI) auto
    moreover have "type_at ds a = type_at es' a" for a
    proof (cases "a < dend d")
      case True
      have "type_at xs a = None" if "normal_list (d # xs)" for xs
        using that True unfolding type_at_None
        by (auto simp: normal_list_def wf_map_Cons)
      then show ?thesis using n \<open>d = e\<close> by simp
    next
      case False
      then show ?thesis using fun_cong [OF n(3), of a] \<open>d = e\<close> by simp
    qed
    ultimately show ?thesis using Cons.IH [of es'] n normal_list_Cons es by (auto simp: fun_eq_iff)
  qed
qed

lemma normal_canonical: "normal s \<Longrightarrow> normal s' \<Longrightarrow> map_type s = map_type s' \<Longrightarrow> active s = active s'"
  using normal_list_canonical [OF normal_list_active normal_list_active] by (simp add: map_type_def [abs_def])

section \<open>Completeness of freeing\<close>

lemma free_exact_range_complete:
  assumes n: "normal self" and room: "descriptor_count self + 2 \<le> capacity self"
    and P: "0 < unat P" and lim: "unat M + unat P * 4096 < 2 ^ 64"
    and t: "t \<noteq> type_u32 EfiConventionalMemory" "t \<noteq> type_u32 EfiReservedMemoryType"
    and held: "\<forall>a \<in> page_range M P. map_type self a = Some t"
  shows "\<exists>self'. free_exact_range self M P = (Inr (), self')"
proof -
  have ok: "buffer_ok self" "wf_map (active self)" using n by (auto simp: normal_def alloc_ok_def)
  obtain e where e: "checked_end M P = Inr e" using lim by (simp add: checked_end_Inr)
  obtain d where d: "d \<in> set (active self)" "dstart d \<le> unat M" "unat e \<le> dend d"
    using normal_one_descriptor [of "active self" "unat M" "unat M + unat P * 4096" t] n P held
      checked_end_unat [OF e]
    by (auto simp: normal_def alloc_ok_def map_type_def)
  obtain i where i: "find_descriptor_covering self M e = Inr i"
    using covering_loop_complete [of "active self" d M e 0] d ok(2)
    by (auto simp: find_descriptor_covering_def wf_map_def wf_desc_def)
  note c = find_descriptor_covering_Inr [OF ok(1) i]
  have m: "descriptors self ! i \<in> set (active self)" using c(1) ok(1) by (metis length_active nth_active nth_mem)
  then have "map_type self (unat M) = Some (Type (descriptors self ! i))"
    using type_at_wf [OF ok(2) m c(2)] c(3) checked_end_unat [OF e] P by (simp add: map_type_def)
  then have ty: "Type (descriptors self ! i) = t" using held P by simp
  obtain k s where "replace_range self i M P EfiConventionalMemory = (Inr k, s)"
    using replace_range_fits [OF ok(1) c(1) room e _ c(2,3), of EfiConventionalMemory] m ok(2)
    by (auto simp: wf_map_def)
  then show ?thesis using e i ty t by (simp add: free_exact_range_def Let_def)
qed

section \<open>The EFI entry points\<close>

lemma AllocatePages_Inl: "AllocatePages self Ty t P M = (Inl e, self') \<Longrightarrow> self' = self"
  by (cases Ty; auto simp: AllocatePages_def sbind_eq_Inl split: if_splits dest: allocate_exact_range_Inl)

lemma FreePages_Inl: "FreePages self M P = (Inl e, self') \<Longrightarrow> self' = self"
  by (auto simp: FreePages_def sbind_eq_Inl split: if_splits dest: free_exact_range_Inl)

lemma AllocatePages_Inr:
  assumes "AllocatePages self Ty t P M = (Inr m, self')"
  shows "P \<noteq> 0" and "t \<noteq> EfiMaxMemoryType" and "Ty \<noteq> MaxAllocateType"
    and "allocate_exact_range self m P t = (Inr (), self')"
    and "Ty = AllocateAnyPages \<Longrightarrow> find_allocation_any_pages self P = Inr m"
    and "Ty = AllocateMaxAddress \<Longrightarrow> \<exists>b. pages_to_bytes P = Inr b \<and> find_allocation_max_address self b M = Inr m"
    and "Ty = AllocateAddress \<Longrightarrow> m = M \<and> 4096 dvd unat M"
  using assms
  by (cases Ty; auto simp: AllocatePages_def pages_to_u64_def sbind_eq_Inr is_page_aligned_iff
      split: if_splits)+

lemma AllocatePages_aligned:
  assumes "normal self" and "AllocatePages self Ty t P M = (Inr m, self')"
  shows "4096 dvd unat m" and "0 < unat P"
proof -
  note a = AllocatePages_Inr [OF assms(2)]
  show P: "0 < unat P" using a(1) by (simp add: unat_gt_0)
  show "4096 dvd unat m"
    using find_allocation_any_pages_Inr(2) [OF assms(1) P a(5)]
      find_allocation_max_address_Inr(2) [OF assms(1) P] a(3,6,7) by (cases Ty) auto
qed

text \<open>Every successful allocation, whatever the policy.\<close>

lemma AllocatePages_effect:
  assumes "normal self" and "AllocatePages self Ty t P M = (Inr m, self')"
  shows "normal self'" and "free_at self (unat m) (unat P * 4096)" and "unat m + unat P * 4096 < 2 ^ 64"
    and "map_type self' = (\<lambda>a. if a \<in> page_range m P then Some (type_u32 t) else map_type self a)"
proof -
  note al = AllocatePages_aligned [OF assms]
  note r = AllocatePages_Inr(4) [OF assms(2)]
  have ok: "alloc_ok self" using assms(1) by (simp add: normal_def)
  show "normal self'" by (rule allocate_exact_range_normal [OF assms(1) al r])
  show "map_type self' = (\<lambda>a. if a \<in> page_range m P then Some (type_u32 t) else map_type self a)"
    "unat m + unat P * 4096 < 2 ^ 64" "free_at self (unat m) (unat P * 4096)"
    using allocate_exact_range_Inr [OF ok al r] by (simp_all add: free_at_def)
qed

lemma FreePages_effect:
  assumes "normal self" and "FreePages self M P = (Inr u, self')"
  shows "normal self'" and "4096 dvd unat M" and "P \<noteq> 0"
    and "map_type self' = (\<lambda>a. if a \<in> page_range M P then Some (type_u32 EfiConventionalMemory) else map_type self a)"
    and "\<exists>t. t \<noteq> type_u32 EfiConventionalMemory \<and> t \<noteq> type_u32 EfiReservedMemoryType
           \<and> (\<forall>a \<in> page_range M P. map_type self a = Some t)"
proof -
  have r: "free_exact_range self M P = (Inr (), self')" and al: "4096 dvd unat M" and P0: "P \<noteq> 0"
    using assms(2) by (auto simp: FreePages_def pages_to_u64_def is_page_aligned_iff split: if_splits)
  then have P: "0 < unat P" by (simp add: unat_gt_0)
  have ok: "alloc_ok self" using assms(1) by (simp add: normal_def)
  show "4096 dvd unat M" "P \<noteq> 0" by (rule al, rule P0)
  show "normal self'" by (rule free_exact_range_normal [OF assms(1) al P r])
  show "map_type self' = (\<lambda>a. if a \<in> page_range M P then Some (type_u32 EfiConventionalMemory) else map_type self a)"
    "\<exists>t. t \<noteq> type_u32 EfiConventionalMemory \<and> t \<noteq> type_u32 EfiReservedMemoryType
           \<and> (\<forall>a \<in> page_range M P. map_type self a = Some t)"
    by (rule free_exact_range_Inr(2) [OF ok al P r], rule free_exact_range_Inr(3) [OF ok al P r])
qed

lemma align_down_page_multiple:
  assumes "4096 dvd unat al" and "al \<noteq> 0"
  shows "4096 dvd unat (align_down v al)"
proof -
  have "unat al \<noteq> 0" using assms(2) by (simp add: unat_eq_0)
  then have "unat (al - 1) = unat al - 1" by (simp add: unat_minus_one assms(2))
  also have "\<dots> mod 4096 = 4095"
  proof -
    obtain k where k: "unat al = 4096 * k" using assms(1) by (metis dvdE)
    with \<open>unat al \<noteq> 0\<close> have "unat al - 1 = 4095 + 4096 * (k - 1)" by (cases k) auto
    then show ?thesis by simp
  qed
  finally have "unat (take_bit 12 (al - 1)) = unat (4095 :: u64)"
    by (simp add: unat_take_bit_word)
  then have m: "take_bit 12 (al - 1) = (mask 12 :: u64)"
    by (simp add: word_unat_eq_iff mask_eq_exp_minus_1)
  have "take_bit 12 (v AND NOT (al - 1)) = 0"
  proof (rule bit_word_eqI)
    fix n assume "n < LENGTH(64)"
    then have "n < 12 \<Longrightarrow> bit (al - 1) n"
      using arg_cong [OF m, of "\<lambda>w. bit w n"] by (simp add: bit_simps)
    then show "bit (take_bit 12 (v AND NOT (al - 1))) n = bit (0 :: u64) n"
      by (auto simp: bit_simps)
  qed
  then have "unat (align_down v al) mod 4096 = 0"
    using unat_take_bit_word [of 12 "align_down v al"] by (simp add: align_down_def)
  then show ?thesis by (simp add: mod_eq_0_iff_dvd)
qed

lemma align_up_page_multiple:
  assumes "4096 dvd unat al" and "al \<noteq> 0" and "align_up v al = Inr w"
  shows "4096 dvd unat w"
  using align_down_page_multiple [OF assms(1,2)] assms(3)
  by (auto simp: align_up_def Let_def align_down_def)

lemma aligned_offer_page:
  assumes "aligned_offer bc al dir d = Inr (Some x)" and "4096 dvd unat al" and "al \<noteq> 0"
  shows "4096 dvd unat x"
proof -
  from assms(1) obtain de where de: "descriptor_end d = Inr de" "Type d = type_u32 EfiConventionalMemory"
    by (auto simp: aligned_offer_def split: if_splits)
  with assms(1) obtain latest where la: "checked_sub de bc = Some latest"
    by (cases "checked_sub de bc") (auto simp: aligned_offer_def)
  with assms(1) de obtain start where st: "(case dir of Low \<Rightarrow> align_up (PhysicalStart d) al | High \<Rightarrow> Inr (align_down latest al)) = Inr start"
    and x: "(case checked_add start bc of None \<Rightarrow> None
       | Some re \<Rightarrow> if start < PhysicalStart d \<or> de < re then None else Some start) = Some x"
    by (auto simp: aligned_offer_def split: if_splits)
  have "start = x" using x by (auto split: option.split_asm if_splits)
  with st show ?thesis
    using align_up_page_multiple [OF assms(2,3)] align_down_page_multiple [OF assms(2,3)]
    by (cases dir) auto
qed

lemma find_aligned_allocation_page:
  assumes "find_aligned_allocation self P al dir = Inr m" and "4096 dvd unat al" and "al \<noteq> 0"
  shows "4096 dvd unat m"
proof -
  from assms(1) obtain b where
    l: "best_loop (aligned_offer b al dir) (case dir of Low \<Rightarrow> min | High \<Rightarrow> max) (active self) None = Inr (Some m)"
    by (auto simp: find_aligned_allocation_def aligned_loop_best)
  then have "\<exists>d. aligned_offer b al dir d = Inr (Some m)"
    using lowest.best_loop_Inr [of "aligned_offer b al dir" "active self" None "Some m"]
      highest.best_loop_Inr [of "aligned_offer b al dir" "active self" None "Some m"]
    by (cases dir) auto
  then show ?thesis using aligned_offer_page assms(2,3) by blast
qed

lemma allocate_aligned_pages_Inr:
  assumes "allocate_aligned_pages self t P al dir = (Inr m, self')"
  shows "0 < unat P" and "4096 dvd unat m" and "find_aligned_allocation self P al dir = Inr m"
    and "allocate_exact_range self m P t = (Inr (), self')" and "t \<noteq> EfiMaxMemoryType"
proof -
  have *: "P \<noteq> 0" "al \<noteq> 0" "4096 dvd unat al" "find_aligned_allocation self P al dir = Inr m"
    "allocate_exact_range self m P t = (Inr (), self')" "t \<noteq> EfiMaxMemoryType"
    using assms by (auto simp: allocate_aligned_pages_def pages_to_u64_def sbind_eq_Inr is_page_aligned_iff
        split: if_splits)
  show "0 < unat P" "4096 dvd unat m" "find_aligned_allocation self P al dir = Inr m"
    "allocate_exact_range self m P t = (Inr (), self')" "t \<noteq> EfiMaxMemoryType"
    using * find_aligned_allocation_page [OF *(4,3,2)] by (simp_all add: unat_gt_0)
qed

lemma allocate_aligned_pages_Inl: "allocate_aligned_pages self t P al dir = (Inl e, self') \<Longrightarrow> self' = self"
  by (auto simp: allocate_aligned_pages_def sbind_eq_Inl split: if_splits dest: allocate_exact_range_Inl)

lemma pages_for_size_Inr:
  assumes "pages_for_size n = Inr p"
  shows "unat n \<le> unat p * 4096" and "unat p * 4096 < unat n + 4096 \<or> n = 0 \<and> p = 1" and "p \<noteq> 0"
proof -
  from assms obtain r where r: "align_up (max n 1) 4096 = Inr r" and p: "p = bytes_to_pages r"
    by (auto simp: pages_for_size_def pages_to_u64_def)
  define v where "v = max (unat n) 1"
  have uv: "unat (max n 1) = v" by (auto simp: v_def max_def word_le_nat_alt)
  have ur: "unat r = v + 4095 - (v + 4095) mod 4096" using align_up_page_Inr [OF r] uv by simp
  then have up: "unat p * 4096 = v + 4095 - (v + 4095) mod 4096"
    using p round_up_nat(2) [of v] by (simp add: unat_bytes_to_pages)
  then have lo: "v \<le> unat p * 4096" and hi: "unat p * 4096 < v + 4096"
    using round_up_nat(1) [of v] by auto
  show "unat n \<le> unat p * 4096" using lo by (simp add: v_def)
  show p0: "p \<noteq> 0"
  proof
    assume "p = 0"
    then show False using lo by (simp add: v_def)
  qed
  show "unat p * 4096 < unat n + 4096 \<or> n = 0 \<and> p = 1"
  proof (cases "n = 0")
    case True
    then have "unat p * 4096 < 4097" using hi by (simp add: v_def)
    then have "unat p = 1" using p0 by (simp add: unat_eq_0 [symmetric])
    then show ?thesis using True by (metis unsigned_1 word_unat_eq_iff)
  next
    case False
    then have "1 \<le> unat n" by (simp add: unat_gt_0 Suc_leI)
    then show ?thesis using hi by (simp add: v_def max_def)
  qed
qed

section \<open>Sequences of calls\<close>

text \<open>
  One call of a client, with any arguments and any outcome. The relation covers every operation the
  rest of the firmware calls on a finished map except \<open>reserve_region_with_type\<close>, which runs once
  while the map is built.
\<close>

inductive alloc_step :: "PageAllocator \<Rightarrow> PageAllocator \<Rightarrow> bool" where
  step_allocate: "AllocatePages self Ty t P M = (r, self') \<Longrightarrow> alloc_step self self'"
| step_for_size: "allocate_pages_for_size self t n = (r, self') \<Longrightarrow> alloc_step self self'"
| step_aligned: "allocate_aligned_pages self t P al dir = (r, self') \<Longrightarrow> alloc_step self self'"
| step_aligned_for_size: "allocate_aligned_pages_for_size self t n al dir = (r, self') \<Longrightarrow> alloc_step self self'"
| step_free: "FreePages self M P = (r', self') \<Longrightarrow> alloc_step self self'"

text \<open>What one call can do to the map: nothing, claim a free range, or give a held range back.\<close>

definition claims :: "PageAllocator \<Rightarrow> PageAllocator \<Rightarrow> bool" where
  "claims self self' \<longleftrightarrow> (\<exists>m P t. 4096 dvd unat m \<and> 0 < unat P \<and> t \<noteq> EfiMaxMemoryType
     \<and> free_at self (unat m) (unat P * 4096)
     \<and> map_type self' = (\<lambda>a. if a \<in> page_range m P then Some (type_u32 t) else map_type self a))"

definition releases :: "PageAllocator \<Rightarrow> PageAllocator \<Rightarrow> bool" where
  "releases self self' \<longleftrightarrow> (\<exists>m P s. 4096 dvd unat m \<and> 0 < unat P
     \<and> s \<noteq> type_u32 EfiConventionalMemory \<and> s \<noteq> type_u32 EfiReservedMemoryType
     \<and> (\<forall>a \<in> page_range m P. map_type self a = Some s)
     \<and> map_type self' = (\<lambda>a. if a \<in> page_range m P then Some (type_u32 EfiConventionalMemory) else map_type self a))"

lemma claims_exact:
  assumes "normal self" and "4096 dvd unat m" and "0 < unat P" and "t \<noteq> EfiMaxMemoryType"
    and "allocate_exact_range self m P t = (Inr (), self')"
  shows "normal self' \<and> claims self self'"
proof -
  have ok: "alloc_ok self" using assms(1) by (simp add: normal_def)
  note e = allocate_exact_range_Inr [OF ok assms(2,3,5)]
  have "free_at self (unat m) (unat P * 4096)" using e(3) by (simp add: free_at_def)
  then show ?thesis
    using allocate_exact_range_normal [OF assms(1,2,3,5)] e(2) assms(2-4) unfolding claims_def by blast
qed

lemma AllocatePages_step:
  assumes "normal self" and "AllocatePages self Ty t P M = (r, self')"
  shows "normal self' \<and> (self' = self \<or> claims self self')"
proof (cases r)
  case (Inl e)
  then show ?thesis using assms AllocatePages_Inl by blast
next
  case (Inr m)
  with assms have i: "AllocatePages self Ty t P M = (Inr m, self')" by simp
  show ?thesis
    using claims_exact [OF assms(1) AllocatePages_aligned [OF assms(1) i] AllocatePages_Inr(2,4) [OF i]] by simp
qed

lemma allocate_aligned_pages_step:
  assumes "normal self" and "allocate_aligned_pages self t P al dir = (r, self')"
  shows "normal self' \<and> (self' = self \<or> claims self self')"
proof (cases r)
  case (Inl e)
  then show ?thesis using assms allocate_aligned_pages_Inl by blast
next
  case (Inr m)
  with assms have i: "allocate_aligned_pages self t P al dir = (Inr m, self')" by simp
  note a = allocate_aligned_pages_Inr [OF i]
  show ?thesis using claims_exact [OF assms(1) a(2,1,5,4)] by simp
qed

lemma for_size_cases:
  "allocate_pages_for_size self t n = (r, self') \<Longrightarrow>
     self' = self \<or> (\<exists>P. AllocatePages self AllocateAnyPages t P 0 = (r, self'))"
  "allocate_aligned_pages_for_size self t n al dir = (r', self') \<Longrightarrow>
     self' = self \<or> (\<exists>P. allocate_aligned_pages self t P al dir = (r', self'))"
  by (cases "pages_for_size n"; auto simp: allocate_pages_for_size_def allocate_aligned_pages_for_size_def
      split: if_splits)+

lemma alloc_step_effect:
  assumes "alloc_step self self'" and "normal self"
  shows "normal self' \<and> (self' = self \<or> claims self self' \<or> releases self self')"
  using assms
proof (cases rule: alloc_step.cases)
  case (step_free M P r)
  show ?thesis
  proof (cases r)
    case (Inl e)
    with step_free assms(2) show ?thesis by (auto dest: FreePages_Inl)
  next
    case (Inr u)
    with step_free have f: "FreePages self M P = (Inr u, self')" by simp
    note e = FreePages_effect [OF assms(2) f]
    obtain s where s: "s \<noteq> type_u32 EfiConventionalMemory" "s \<noteq> type_u32 EfiReservedMemoryType"
        "\<forall>a \<in> page_range M P. map_type self a = Some s" using e(5) by blast
    have "0 < unat P" using e(3) by (simp add: unat_gt_0)
    then have "releases self self'"
      unfolding releases_def by (intro exI [of _ M] exI [of _ P] exI [of _ s] conjI e(2,4) s)
    with e(1) show ?thesis by simp
  qed
next
  case (step_allocate Ty t P M r)
  then show ?thesis using AllocatePages_step [OF assms(2)] by blast
next
  case (step_for_size t n r)
  then show ?thesis using AllocatePages_step [OF assms(2)] for_size_cases(1) assms(2) by metis
next
  case (step_aligned t P al dir r)
  then show ?thesis using allocate_aligned_pages_step [OF assms(2)] by blast
next
  case (step_aligned_for_size t n al dir r)
  then show ?thesis using allocate_aligned_pages_step [OF assms(2)] for_size_cases(2) assms(2) by metis
qed

lemma claims_dom: "claims self self' \<Longrightarrow> dom (map_type self') = dom (map_type self)"
  by (fastforce simp: claims_def free_at_def split: if_splits)

lemma releases_dom: "releases self self' \<Longrightarrow> dom (map_type self') = dom (map_type self)"
  by (fastforce simp: releases_def split: if_splits)

lemma alloc_steps_invariant:
  assumes "alloc_step\<^sup>*\<^sup>* self self'" and "normal self"
  shows "normal self' \<and> dom (map_type self') = dom (map_type self)
    \<and> (\<forall>a. map_type self a = Some (type_u32 EfiReservedMemoryType) \<longrightarrow>
           map_type self' a = Some (type_u32 EfiReservedMemoryType))"
  using assms
proof (induction rule: rtranclp_induct)
  case (step s1 s2)
  then have n: "normal s1" by simp
  note e = alloc_step_effect [OF step.hyps(2) n]
  have "map_type s2 a = Some (type_u32 EfiReservedMemoryType)"
    if "map_type s1 a = Some (type_u32 EfiReservedMemoryType)" for a
    using e that by (auto simp: claims_def releases_def free_at_def)
  moreover have "dom (map_type s2) = dom (map_type s1)" using e claims_dom releases_dom by metis
  ultimately show ?case using step e by simp
qed simp

end
