(* ===== verification/AllocationSpec.thy ===== *)
theory AllocationSpec
  imports Allocation
begin

text \<open>
  What the page allocator promises its clients, stated over the abstract map \<open>map_type\<close>: the results
  of the allocation policies, freeing, sequences of calls and the map built from a device tree's
  region lists. The proofs rest on the lemmas of \<open>PageMap\<close>, \<open>Memory\<close> and \<open>Allocation\<close>.
\<close>

section \<open>A concrete map\<close>

definition sample_descriptor :: "EFI_MEMORY_TYPE \<Rightarrow> u64 \<Rightarrow> u64 \<Rightarrow> EFI_MEMORY_DESCRIPTOR" where
  "sample_descriptor t start pages =
     \<lparr>Type = type_u32 t, PhysicalStart = start, VirtualStart = 0, NumberOfPages = pages, Attribute = 0\<rparr>"

definition sample_allocator :: PageAllocator where
  "sample_allocator =
     \<lparr>descriptors = [sample_descriptor EfiConventionalMemory 0x80000000 16,
                     sample_descriptor EfiReservedMemoryType 0x80010000 4,
                     EMPTY_DESCRIPTOR, EMPTY_DESCRIPTOR, EMPTY_DESCRIPTOR],
      descriptor_count = 2\<rparr>"

lemma sample_active:
  "active sample_allocator = [sample_descriptor EfiConventionalMemory 0x80000000 16,
                     sample_descriptor EfiReservedMemoryType 0x80010000 4]"
  by (simp add: active_def sample_allocator_def)

lemma sample_ends:
  "dstart (sample_descriptor t s p) = unat s" "dend (sample_descriptor t s p) = unat s + unat p * 4096"
  "Type (sample_descriptor t s p) = type_u32 t"
  by (simp_all add: sample_descriptor_def dstart_def dend_def dpages_def)

lemma sample_normal: "normal sample_allocator"
  unfolding normal_def alloc_ok_def sample_active
  by (simp add: buffer_ok_def sample_allocator_def wf_map_Cons wf_desc_def sample_ends plain_def dpages_def
      compatible_iff) (simp add: sample_descriptor_def)

lemma sample_type:
  "map_type sample_allocator a =
     (if 0x80000000 \<le> a \<and> a < 0x80010000 then Some 7 else if 0x80010000 \<le> a \<and> a < 0x80014000 then Some 0 else None)"
  unfolding map_type_def sample_active by (simp add: sample_ends)


text \<open>Evaluation of the operations on concrete maps.\<close>

lemmas run_simps = AllocatePages_def FreePages_def allocate_aligned_pages_def find_aligned_allocation_def
  find_allocation_any_pages_def find_allocation_max_address_def pages_to_bytes_def pages_to_u64_def
  is_page_aligned_def checked_mul_def checked_add_def checked_sub_def saturating_add_def align_down_def
  align_up_def descriptor_end_def checked_end_def active_def sample_allocator_def sample_descriptor_def
  allocate_exact_range_def free_exact_range_def find_descriptor_covering_def replace_range_def Let_def
  prefix_part_def suffix_part_def middle_part_def bytes_to_pages_def replace_descriptor_def
  shift_tail.simps shift_up.simps coalesce_def coalesce_loop.simps shift_down.simps EMPTY_DESCRIPTOR_def
  descriptors_are_compatible_def merge_descriptors_def

lemmas build_simps = run_simps from_regions_def add_memory_region_def align_region_to_pages_def
  insert_sorted_def sorted_index.simps insert_descriptor_def add_reserved_region_def
  add_reserved_region_with_type_def carve_range_for_reserved_region_def carve_range_def carve_loop.simps
  add_firmware_regions_def add_linker_region_def linker_region_def add_firmware_region_def
  firmware_code_start_def firmware_code_end_def firmware_data_start_def firmware_data_end_def
  firmware_heap_start_def firmware_heap_end_def firmware_stack_bottom_def firmware_stack_top_def

lemma Inr_outcomeE: "fst p = Inr x \<Longrightarrow> \<exists>s. p = (Inr x, s)"
  by (cases p) auto

section \<open>Allocation\<close>

text \<open>
  C1: \<open>AllocatePages\<close> with \<open>AllocateAnyPages\<close>: the range returned was entirely conventional memory,
  is page aligned, is the highest one that fits (no free range of that size starts higher), and the
  map after the call differs from the map before exactly by giving that range the requested type; the
  map stays well formed.
\<close>
theorem AllocatePages_any_correct:
  assumes "normal self" and "AllocatePages self AllocateAnyPages t P M = (Inr m, self')"
  shows "normal self' \<and> 4096 dvd unat m \<and> free_at self (unat m) (unat P * 4096)
    \<and> (\<forall>x. free_at self x (unat P * 4096) \<longrightarrow> x \<le> unat m)
    \<and> map_type self' = (\<lambda>a. if a \<in> page_range m P then Some (type_u32 t) else map_type self a)"
  using AllocatePages_effect [OF assms] AllocatePages_aligned [OF assms]
    find_allocation_any_pages_Inr(3) [OF assms(1) _ AllocatePages_Inr(5) [OF assms(2)]] by simp

theorem AllocatePages_any_correct_witness:
  "\<exists>self'. AllocatePages sample_allocator AllocateAnyPages EfiLoaderData 2 0 = (Inr 0x8000e000, self')
     \<and> normal self' \<and> map_type self' 0x8000ffff = Some 2 \<and> map_type self' 0x8000dfff = Some 7"
proof -
  obtain self' where r: "AllocatePages sample_allocator AllocateAnyPages EfiLoaderData 2 0 = (Inr 0x8000e000, self')"
    using Inr_outcomeE [of "AllocatePages sample_allocator AllocateAnyPages EfiLoaderData 2 0" "0x8000e000"]
    by (simp add: run_simps)
  show ?thesis using AllocatePages_any_correct [OF sample_normal r] r by (simp add: sample_type)
qed

text \<open>
  C11: \<open>AllocatePages\<close> with \<open>AllocateMaxAddress\<close>: the range returned was conventional, its last byte is
  at or below the address passed in, no page-aligned free range of that size below the limit
  starts higher, and only that range changes type.
\<close>
theorem AllocatePages_max_address_correct:
  assumes "normal self" and "AllocatePages self AllocateMaxAddress t P M = (Inr m, self')"
  shows "normal self' \<and> 4096 dvd unat m \<and> unat m + unat P * 4096 \<le> unat M + 1
    \<and> free_at self (unat m) (unat P * 4096)
    \<and> (\<forall>x. 4096 dvd x \<longrightarrow> x + unat P * 4096 \<le> unat M + 1 \<longrightarrow> free_at self x (unat P * 4096) \<longrightarrow> x \<le> unat m)
    \<and> map_type self' = (\<lambda>a. if a \<in> page_range m P then Some (type_u32 t) else map_type self a)"
proof -
  obtain b where b: "pages_to_bytes P = Inr b" "find_allocation_max_address self b M = Inr m"
    using AllocatePages_Inr(6) [OF assms(2)] by auto
  show ?thesis
    using AllocatePages_effect [OF assms] AllocatePages_aligned [OF assms]
      find_allocation_max_address_Inr [OF assms(1) _ b] by simp
qed

theorem AllocatePages_max_address_correct_witness:
  "\<exists>self'. AllocatePages sample_allocator AllocateMaxAddress EfiLoaderData 2 0x80008000 = (Inr 0x80006000, self')
     \<and> normal self' \<and> map_type self' 0x80006000 = Some 2 \<and> map_type self' 0x80008000 = Some 7"
proof -
  obtain self' where r: "AllocatePages sample_allocator AllocateMaxAddress EfiLoaderData 2 0x80008000 = (Inr 0x80006000, self')"
    using Inr_outcomeE [of "AllocatePages sample_allocator AllocateMaxAddress EfiLoaderData 2 0x80008000" "0x80006000"]
    by (simp add: run_simps)
  show ?thesis using AllocatePages_max_address_correct [OF sample_normal r] r by (simp add: sample_type)
qed

text \<open>
  C9: \<open>AllocatePages\<close> with \<open>AllocateAddress\<close> succeeds exactly when the address is page aligned and
  every byte of the range is conventional memory, provided the descriptor buffer has two spare
  slots for the split; it then returns the address passed in.
\<close>
theorem AllocatePages_address_iff:
  assumes n: "normal self" and room: "descriptor_count self + 2 \<le> capacity self"
    and P: "P \<noteq> 0" and t: "t \<noteq> EfiMaxMemoryType" and lim: "unat M + unat P * 4096 < 2 ^ 64"
  shows "(\<exists>self'. AllocatePages self AllocateAddress t P M = (Inr M, self'))
    \<longleftrightarrow> 4096 dvd unat M \<and> free_at self (unat M) (unat P * 4096)"
proof
  assume "\<exists>self'. AllocatePages self AllocateAddress t P M = (Inr M, self')"
  then obtain self' where r: "AllocatePages self AllocateAddress t P M = (Inr M, self')" by auto
  show "4096 dvd unat M \<and> free_at self (unat M) (unat P * 4096)"
    using AllocatePages_Inr(7) [OF r] AllocatePages_effect(2) [OF n r] by simp
next
  assume a: "4096 dvd unat M \<and> free_at self (unat M) (unat P * 4096)"
  obtain self' where "allocate_exact_range self M P t = (Inr (), self')"
    using allocate_exact_range_complete [OF n room _ lim, of t] a P by (auto simp: free_at_def unat_gt_0)
  moreover obtain b where "pages_to_bytes P = Inr b" using lim by (simp add: pages_to_bytes_Inr)
  ultimately show "\<exists>self'. AllocatePages self AllocateAddress t P M = (Inr M, self')"
    using P t a by (simp add: AllocatePages_def pages_to_u64_def is_page_aligned_iff)
qed

theorem AllocatePages_address_iff_witness:
  "\<exists>self'. AllocatePages sample_allocator AllocateAddress EfiLoaderCode 3 0x80002000 = (Inr 0x80002000, self')"
  using AllocatePages_address_iff [OF sample_normal, where P = 3 and t = EfiLoaderCode and M = "0x80002000"]
  by (simp add: free_at_def sample_type) (simp add: sample_allocator_def)

text \<open>
  C7: \<open>AllocatePages\<close> with \<open>AllocateAnyPages\<close> finds memory whenever there is any: if some range of
  the requested size is free and the buffer has two spare slots, the call succeeds, so
  \<open>OutOfResources\<close> is reported only when no free range fits.
\<close>
theorem AllocatePages_any_complete:
  assumes n: "normal self" and room: "descriptor_count self + 2 \<le> capacity self"
    and P: "P \<noteq> 0" and t: "t \<noteq> EfiMaxMemoryType" and lim: "unat P * 4096 < 2 ^ 64"
    and free: "free_at self x (unat P * 4096)"
  shows "\<exists>m self'. AllocatePages self AllocateAnyPages t P M = (Inr m, self')"
proof -
  have P0: "0 < unat P" using P by (simp add: unat_gt_0)
  obtain m where m: "find_allocation_any_pages self P = Inr m"
    using find_allocation_any_pages_Inl [OF n P0] free lim by (cases "find_allocation_any_pages self P") auto
  note f = find_allocation_any_pages_Inr [OF n P0 m]
  obtain d where "d \<in> set (active self)" "unat m + unat P * 4096 \<le> dend d"
    using free_at_one_descriptor [OF n _ f(1)] P0 by auto
  then have "unat m + unat P * 4096 < 2 ^ 64" using wf_descD(2) [OF normal_wf [OF n]] le_less_trans by blast
  from allocate_exact_range_complete [OF n room P0 this, of t] f(1)
  obtain self' where "allocate_exact_range self m P t = (Inr (), self')" by (auto simp: free_at_def)
  moreover obtain b where "pages_to_bytes P = Inr b" using lim by (simp add: pages_to_bytes_Inr)
  ultimately show ?thesis using P t m by (simp add: AllocatePages_def pages_to_u64_def)
qed

theorem AllocatePages_any_complete_witness:
  "\<exists>m self'. AllocatePages sample_allocator AllocateAnyPages EfiLoaderCode 16 0 = (Inr m, self')"
  by (rule AllocatePages_any_complete [OF sample_normal, where x = "0x80000000"])
    (simp_all add: free_at_def sample_type, simp add: sample_allocator_def)

text \<open>
  C10: Freeing what was allocated undoes the allocation exactly: after \<open>AllocatePages\<close> with any policy
  and any type other than conventional and reserved, \<open>FreePages\<close> on the returned range succeeds and
  the active descriptors are again the very list from before, splits and merges included. The
  buffer needs two spare slots for the intermediate split.
\<close>
theorem AllocatePages_FreePages_roundtrip:
  assumes n: "normal self" and a: "AllocatePages self Ty t P M = (Inr m, self1)"
    and t: "t \<noteq> EfiConventionalMemory" "t \<noteq> EfiReservedMemoryType"
    and room: "descriptor_count self1 + 2 \<le> capacity self1"
  shows "\<exists>self2. FreePages self1 m P = (Inr (), self2) \<and> active self2 = active self \<and> normal self2"
proof -
  note e = AllocatePages_effect [OF n a]
  note al = AllocatePages_aligned [OF n a]
  have tt: "type_u32 t \<noteq> type_u32 EfiConventionalMemory" "type_u32 t \<noteq> type_u32 EfiReservedMemoryType"
    using t by (cases t; simp)+
  obtain self2 where "free_exact_range self1 m P = (Inr (), self2)"
    using free_exact_range_complete [OF e(1) room al(2) e(3) tt] e(4) by auto
  then have f: "FreePages self1 m P = (Inr (), self2)"
    using al AllocatePages_Inr(1) [OF a] by (simp add: FreePages_def pages_to_u64_def is_page_aligned_iff)
  note fe = FreePages_effect [OF e(1) f]
  have "map_type self2 = map_type self"
    using fe(4) e(4) e(2) by (auto simp: fun_eq_iff free_at_def)
  then show ?thesis using f fe(1) normal_canonical [OF fe(1) n] by blast
qed

theorem AllocatePages_FreePages_roundtrip_witness:
  "\<exists>self1 self2. AllocatePages sample_allocator AllocateAddress EfiLoaderData 16 0x80000000 = (Inr 0x80000000, self1)
     \<and> FreePages self1 0x80000000 16 = (Inr (), self2) \<and> active self2 = active sample_allocator"
proof -
  obtain self1 where r: "AllocatePages sample_allocator AllocateAddress EfiLoaderData 16 0x80000000 = (Inr 0x80000000, self1)"
    and c: "descriptor_count self1 = 2" "capacity self1 = 5"
    by (simp add: run_simps)
  then show ?thesis using AllocatePages_FreePages_roundtrip [OF sample_normal r] by auto
qed

text \<open>
  C10: \<open>FreePages\<close> frees only memory that was allocated: when it succeeds, every byte of the range had
  one and the same type, neither conventional nor reserved, and the map after the call differs only
  by making the range conventional.
\<close>
theorem FreePages_correct:
  assumes "normal self" and "FreePages self M P = (Inr u, self')"
  shows "normal self' \<and> (\<exists>t. t \<noteq> type_u32 EfiConventionalMemory \<and> t \<noteq> type_u32 EfiReservedMemoryType
           \<and> (\<forall>a \<in> page_range M P. map_type self a = Some t))
    \<and> map_type self' = (\<lambda>a. if a \<in> page_range M P then Some (type_u32 EfiConventionalMemory) else map_type self a)"
  using FreePages_effect [OF assms] by simp

definition sample_held :: PageAllocator where
  "sample_held = \<lparr>descriptors = [sample_descriptor EfiLoaderData 0x80000000 16,
      EMPTY_DESCRIPTOR, EMPTY_DESCRIPTOR, EMPTY_DESCRIPTOR], descriptor_count = 1\<rparr>"

lemma sample_held_normal: "normal sample_held"
  unfolding normal_def alloc_ok_def
  by (simp add: buffer_ok_def sample_held_def active_def wf_map_Cons wf_desc_def sample_ends plain_def dpages_def)
    (simp add: sample_descriptor_def)

theorem FreePages_correct_witness:
  "\<exists>self'. FreePages sample_held 0x80002000 4 = (Inr (), self') \<and> normal self' \<and> map_type self' 0x80005fff = Some 7"
proof -
  obtain self' where r: "FreePages sample_held 0x80002000 4 = (Inr (), self')"
    using Inr_outcomeE [of "FreePages sample_held 0x80002000 4" "()"] by (simp add: run_simps sample_held_def)
  show ?thesis using FreePages_correct [OF sample_held_normal r] r by simp
qed

text \<open>
  C9: \<open>allocate_aligned_pages\<close> with a power-of-two alignment returns an aligned free range; searching
  from low addresses it is the lowest such range, from high addresses the highest.
\<close>
theorem allocate_aligned_pages_correct:
  assumes n: "normal self" and k: "12 \<le> k" "k < 64"
    and a: "allocate_aligned_pages self t P (2 ^ k) dir = (Inr m, self')"
  shows "normal self' \<and> 2 ^ k dvd unat m \<and> free_at self (unat m) (unat P * 4096)
    \<and> (\<forall>x. 2 ^ k dvd x \<longrightarrow> free_at self x (unat P * 4096) \<longrightarrow>
          (case dir of Low \<Rightarrow> unat m \<le> x | High \<Rightarrow> x \<le> unat m))
    \<and> map_type self' = (\<lambda>a. if a \<in> page_range m P then Some (type_u32 t) else map_type self a)"
proof -
  note i = allocate_aligned_pages_Inr [OF a]
  note f = find_aligned_allocation_Inr [OF n i(1) k(2) i(3)]
  have ok: "alloc_ok self" using n by (simp add: normal_def)
  show ?thesis
    using f allocate_exact_range_normal [OF n i(2,1,4)] allocate_exact_range_Inr(2) [OF ok i(2,1,4)] by simp
qed

theorem allocate_aligned_pages_correct_witness:
  "\<exists>self'. allocate_aligned_pages sample_allocator EfiLoaderCode 1 (2 ^ 15) High = (Inr 0x80008000, self')
     \<and> normal self' \<and> map_type self' 0x80008fff = Some 1"
proof -
  obtain self' where r: "allocate_aligned_pages sample_allocator EfiLoaderCode 1 (2 ^ 15) High = (Inr 0x80008000, self')"
    using Inr_outcomeE [of "allocate_aligned_pages sample_allocator EfiLoaderCode 1 (2 ^ 15) High" "0x80008000"]
    by (simp add: run_simps)
  show ?thesis using allocate_aligned_pages_correct [OF sample_normal _ _ r] r by simp
qed

text \<open>
  The documentation of \<open>allocate_aligned_pages\<close> asks for a non-zero multiple of 4 KiB, but masking
  with \<open>alignment - 1\<close> needs a power of two: for an alignment of 12 KiB the call returns an address
  that is not a multiple of 12 KiB although the free memory has one.
\<close>
theorem allocate_aligned_pages_not_power_of_two:
  "fst (allocate_aligned_pages sample_allocator EfiLoaderCode 1 0x3000 Low) = Inr 0x80000000
   \<and> \<not> 0x3000 dvd (0x80000000 :: nat) \<and> 0x3000 dvd (0x80001000 :: nat) \<and> free_at sample_allocator 0x80001000 4096"
proof (intro conjI)
  show "fst (allocate_aligned_pages sample_allocator EfiLoaderCode 1 0x3000 Low) = Inr 0x80000000"
    by (simp add: run_simps)
  show "free_at sample_allocator 0x80001000 4096" by (simp add: free_at_def sample_type)
qed simp_all

text \<open>
  C14: \<open>pages_for_size\<close> is the smallest number of 4 KiB pages that holds the size, and at least one page.
\<close>
theorem pages_for_size_least:
  assumes "pages_for_size n = Inr p"
  shows "unat p = max 1 ((unat n + 4095) div 4096)"
proof (cases "n = 0")
  case True
  then show ?thesis using pages_for_size_Inr [OF assms] by (auto simp: unat_eq_0)
next
  case False
  then have n: "1 \<le> unat n" by (simp add: unat_gt_0 Suc_leI)
  have "unat p = (unat n + 4095) div 4096"
    using pages_for_size_Inr [OF assms] False by (intro div_nat_eqI [symmetric]) auto
  moreover have "1 \<le> (unat n + 4095) div 4096" using n by simp
  ultimately show ?thesis by simp
qed

theorem pages_for_size_least_witness: "pages_for_size 4097 = Inr 2 \<and> unat (2 :: u64) = max 1 ((unat (4097 :: u64) + 4095) div 4096)"
proof -
  have r: "pages_for_size 4097 = Inr 2" by (simp add: pages_for_size_def run_simps)
  show ?thesis using pages_for_size_least [OF r] r by blast
qed

section \<open>Sequences of calls\<close>

text \<open>A client that makes several allocations in a row and collects the ranges.\<close>

fun allocate_all :: "PageAllocator \<Rightarrow> (EFI_ALLOCATE_TYPE \<times> EFI_MEMORY_TYPE \<times> u64 \<times> u64) list
    \<Rightarrow> (MemoryError, (page_span \<times> EFI_MEMORY_TYPE) list, PageAllocator) outcome" where
  "allocate_all self [] = (Inr [], self)"
| "allocate_all self ((Ty, t, P, M) # rs) =
     sbind (AllocatePages self Ty t P M) (\<lambda>m self.
     sbind (allocate_all self rs) (\<lambda>ms self. (Inr (((m, P), t) # ms), self)))"

lemma allocate_all_claims:
  "allocate_all self rs = (Inr ms, self') \<Longrightarrow> normal self \<Longrightarrow>
   claim_all claim_span self ms = (Inr (), self') \<and> (\<forall>(r, t) \<in> set ms. valid_span r)
   \<and> snd ` set ms \<subseteq> (\<lambda>(Ty, t, P, M). t) ` set rs"
proof (induction rs arbitrary: self ms)
  case (Cons q rs)
  obtain Ty t P M where q: "q = (Ty, t, P, M)" by (cases q)
  from Cons.prems q obtain m s1 ms' where a: "AllocatePages self Ty t P M = (Inr m, s1)"
    and r: "allocate_all s1 rs = (Inr ms', self')" and ms: "ms = ((m, P), t) # ms'"
    by (auto simp: sbind_eq_Inr)
  have "claim_span self (m, P) t = (Inr (), s1)"
    using AllocatePages_Inr(4) [OF a] by (simp add: claim_span_def)
  moreover have "valid_span (m, P)"
    using AllocatePages_aligned [OF Cons.prems(2) a] AllocatePages_Inr(1) [OF a] by (simp add: valid_span_def)
  ultimately show ?case
    using Cons.IH [OF r AllocatePages_effect(1) [OF Cons.prems(2) a]] ms q by auto
qed simp

text \<open>
  C9: Ranges handed out by successive \<open>AllocatePages\<close> calls never overlap, whatever the policies and
  sizes (as long as none is allocated as conventional memory), and at the end every byte of each
  range has the type it was allocated with: kernel image, device tree and initrd buffers are
  disjoint.
\<close>
theorem allocations_disjoint:
  assumes n: "normal self" and a: "allocate_all self rs = (Inr ms, self')"
    and t: "\<forall>(Ty, t, P, M) \<in> set rs. t \<noteq> EfiConventionalMemory"
  shows "sorted_wrt (\<lambda>p q. span_bytes (fst p) \<inter> span_bytes (fst q) = {}) ms
    \<and> (\<forall>(r, t) \<in> set ms. \<forall>a \<in> span_bytes r. map_type self' a = Some (type_u32 t))"
proof -
  note c = allocate_all_claims [OF a n]
  have tag: "type_u32 t \<noteq> type_u32 EfiConventionalMemory" if "t \<noteq> EfiConventionalMemory" for t
    using that by (cases t) simp_all
  have "valid_span r \<and> type_u32 k \<noteq> type_u32 EfiConventionalMemory" if "(r, k) \<in> set ms" for r k
  proof -
    have "k \<in> snd ` set ms" using that by force
    then have "k \<in> (\<lambda>(Ty, t, P, M). t) ` set rs" using c by blast
    then have "k \<noteq> EfiConventionalMemory" using t by auto
    then show ?thesis using c that tag by auto
  qed
  then have "\<forall>(r, t) \<in> set ms. valid_span r \<and> type_u32 t \<noteq> type_u32 EfiConventionalMemory" by auto
  from pages.claim_all_disjoint [OF _ n this, of "()" self'] c show ?thesis by simp
qed

theorem allocations_disjoint_witness:
  "\<exists>self'. allocate_all sample_allocator [(AllocateAnyPages, EfiLoaderCode, 3, 0), (AllocateMaxAddress, EfiLoaderData, 2, 0x80008000)]
      = (Inr [((0x8000d000, 3), EfiLoaderCode), ((0x80006000, 2), EfiLoaderData)], self')
    \<and> span_bytes (0x8000d000, 3) \<inter> span_bytes (0x80006000, 2) = {}
    \<and> map_type self' 0x8000d000 = Some 1"
proof -
  let ?rs = "[(AllocateAnyPages, EfiLoaderCode, 3, 0), (AllocateMaxAddress, EfiLoaderData, 2, 0x80008000)]"
  let ?ms = "[((0x8000d000, 3), EfiLoaderCode), ((0x80006000, 2), EfiLoaderData)]"
  obtain self' where r: "allocate_all sample_allocator ?rs = (Inr ?ms, self')"
    using Inr_outcomeE [of "allocate_all sample_allocator ?rs" ?ms] by (simp add: run_simps)
  have "\<forall>(Ty, t, P, M) \<in> set ?rs. t \<noteq> EfiConventionalMemory" by simp
  from allocations_disjoint [OF sample_normal r this]
  have "span_bytes (0x8000d000, 3) \<inter> span_bytes (0x80006000, 2) = {}"
    "\<forall>a \<in> span_bytes (0x8000d000, 3). map_type self' a = Some 1"
    unfolding sorted_wrt.simps list.set by simp_all
  then show ?thesis using r by (auto simp: span_bytes_def)
qed

text \<open>
  C2: Whatever calls are made on a well-formed map, in whatever order and with whatever arguments and
  outcomes, the map stays well formed (aligned, sorted, non-overlapping, coalesced descriptors), no
  byte is ever added to or lost from it, and a reserved byte stays reserved.
\<close>
theorem alloc_run_invariant:
  assumes "alloc_step\<^sup>*\<^sup>* self self'" and "normal self"
  shows "normal self' \<and> dom (map_type self') = dom (map_type self)
    \<and> (\<forall>a. map_type self a = Some (type_u32 EfiReservedMemoryType) \<longrightarrow>
           map_type self' a = Some (type_u32 EfiReservedMemoryType))"
  using alloc_steps_invariant [OF assms] .

theorem alloc_run_invariant_witness:
  "\<exists>self'. alloc_step\<^sup>*\<^sup>* sample_allocator self' \<and> self' \<noteq> sample_allocator \<and> normal self'
     \<and> map_type self' 0x80010000 = Some 0"
proof -
  obtain self' where r: "AllocatePages sample_allocator AllocateAnyPages EfiLoaderData 16 0 = (Inr 0x80000000, self')"
    and t: "Type (descriptors self' ! 0) = 2"
    by (simp add: run_simps)
  have "self' \<noteq> sample_allocator" using t by (auto simp: sample_allocator_def sample_descriptor_def)
  moreover have st: "alloc_step\<^sup>*\<^sup>* sample_allocator self'" using r by (blast intro: step_allocate)
  ultimately show ?thesis using alloc_run_invariant [OF st sample_normal] by (auto simp: sample_type)
qed

section \<open>The finished map\<close>

text \<open>
  C6: The map \<open>from_regions\<close> builds is exact: a byte is described iff it lies in the whole pages of
  some RAM region; it is reserved iff it also lies in a page touched by a reserved region, otherwise
  boot-services code or data iff it lies in a page of the firmware image, heap or stack, otherwise
  conventional. RAM regions must not be nested in one another.
\<close>
theorem from_regions_exact:
  assumes "from_regions lla ms rs buffer = (Inr u, self')" and "unnested (set ms)"
  shows "normal self' \<and> map_type self' a =
    (if \<exists>r \<in> set ms. region_pages False r a
     then Some (firmware_type lla (\<lambda>a. \<exists>r \<in> set rs. region_pages True r a) a) else None)"
  using from_regions_map(1) [OF assms(1)] from_regions_map(2,3) [OF assms(1), of a] assms(2)
  by (cases "map_type self' a") simp_all

definition sample_symbols :: symbols where
  "sample_symbols name =
     (if name = ''__firmware_code_start'' then 0x80200000 else if name = ''__firmware_code_end'' then 0x80201800 else 0)"

definition sample_ram :: "MemoryRegion list" where
  "sample_ram = [\<lparr>base = 0x80200000, region_size = 0x8000\<rparr>]"

definition sample_reserved :: "MemoryRegion list" where
  "sample_reserved = [\<lparr>base = 0x80205800, region_size = 0x100\<rparr>]"

definition sample_buffer :: "EFI_MEMORY_DESCRIPTOR list" where
  "sample_buffer = [EMPTY_DESCRIPTOR, EMPTY_DESCRIPTOR, EMPTY_DESCRIPTOR, EMPTY_DESCRIPTOR, EMPTY_DESCRIPTOR]"

lemma sample_symbol_values:
  "firmware_code_start sample_symbols = 0x80200000" "firmware_code_end sample_symbols = 0x80201800"
  "firmware_data_start sample_symbols = 0" "firmware_data_end sample_symbols = 0"
  "firmware_heap_start sample_symbols = 0" "firmware_heap_end sample_symbols = 0"
  "firmware_stack_bottom sample_symbols = 0" "firmware_stack_top sample_symbols = 0"
  by (simp_all add: build_simps sample_symbols_def)

text \<open>The build, phase by phase.\<close>

definition sample_after :: "EFI_MEMORY_DESCRIPTOR list \<Rightarrow> PageAllocator" where
  "sample_after ds = \<lparr>descriptors = ds @ drop (length ds) sample_buffer, descriptor_count = length ds\<rparr>"

lemmas sample_phase_simps = build_simps sample_after_def sample_buffer_def sample_ram_def sample_reserved_def

lemma sample_ram_phase:
  "add_memory_regions (sample_after []) sample_ram =
     (Inr (), sample_after [sample_descriptor EfiConventionalMemory 0x80200000 8])"
  by (simp add: sample_phase_simps)

lemma sample_ram_coalesced:
  "coalesce (sample_after [sample_descriptor EfiConventionalMemory 0x80200000 8])
     = sample_after [sample_descriptor EfiConventionalMemory 0x80200000 8]"
  by (simp add: sample_phase_simps)

lemma sample_reserved_phase:
  "add_reserved_regions (sample_after [sample_descriptor EfiConventionalMemory 0x80200000 8]) sample_reserved =
     (Inr (), sample_after [sample_descriptor EfiConventionalMemory 0x80200000 5,
       sample_descriptor EfiReservedMemoryType 0x80205000 1, sample_descriptor EfiConventionalMemory 0x80206000 2])"
  by (simp add: sample_phase_simps)

lemma sample_firmware_phase:
  "add_linker_region (sample_after [sample_descriptor EfiConventionalMemory 0x80200000 5,
       sample_descriptor EfiReservedMemoryType 0x80205000 1, sample_descriptor EfiConventionalMemory 0x80206000 2])
     0x80200000 0x80201800 EfiBootServicesCode
   = (Inr (), sample_after [sample_descriptor EfiBootServicesCode 0x80200000 2,
       sample_descriptor EfiConventionalMemory 0x80202000 3,
       sample_descriptor EfiReservedMemoryType 0x80205000 1, sample_descriptor EfiConventionalMemory 0x80206000 2])"
  by (simp add: sample_phase_simps)

lemma sample_build:
  "\<exists>self'. from_regions sample_symbols sample_ram sample_reserved sample_buffer = (Inr (), self')"
proof -
  have "\<lparr>descriptors = sample_buffer, descriptor_count = 0\<rparr> = sample_after []" by (simp add: sample_after_def)
  moreover have "add_linker_region s 0 0 t = (Inr (), s)" for s t
    by (simp add: add_linker_region_def linker_region_def add_firmware_region_def)
  ultimately show ?thesis
    by (simp add: from_regions_def add_firmware_regions_def sample_symbol_values sample_ram_phase
        sample_ram_coalesced sample_reserved_phase sample_firmware_phase)
qed

lemma sample_unnested: "unnested (set sample_ram)"
  by (simp add: unnested_def sample_ram_def)

theorem from_regions_exact_witness:
  "\<exists>self'. from_regions sample_symbols sample_ram sample_reserved sample_buffer = (Inr (), self')
     \<and> map_type self' 0x80201fff = Some 3 \<and> map_type self' 0x80205000 = Some 0 \<and> map_type self' 0x80207fff = Some 7"
proof -
  obtain self' where r: "from_regions sample_symbols sample_ram sample_reserved sample_buffer = (Inr (), self')"
    using sample_build by blast
  note e = from_regions_exact [OF r sample_unnested]
  show ?thesis using r e [of "0x80201fff"] e [of "0x80205000"] e [of "0x80207fff"]
    by (simp add: region_pages_def align_region_to_pages_def run_simps sample_ram_def sample_reserved_def
        firmware_type_def linker_pages_def sample_symbol_values)
qed

text \<open>
  C7: Memory the device tree reserves is never handed out: on a map built by \<open>from_regions\<close>, after any
  sequence of allocator calls, a byte of a reserved region is either outside RAM or still of
  type \<open>EfiReservedMemoryType\<close>.
\<close>
theorem reserved_never_allocated:
  assumes b: "from_regions lla ms rs buffer = (Inr u, self)" and run: "alloc_step\<^sup>*\<^sup>* self self'"
    and r: "r \<in> set rs" and a: "unat (base r) \<le> a" "a < unat (base r) + unat (region_size r)"
  shows "map_type self' a = None \<or> map_type self' a = Some (type_u32 EfiReservedMemoryType)"
proof -
  note f = from_regions_map [OF b]
  note inv = alloc_steps_invariant [OF run f(1)]
  have "\<exists>r \<in> set rs. region_pages True r a" using f(4) r region_pages_outwards [OF _ a] by blast
  then have "map_type self a = None \<or> map_type self a = Some (type_u32 EfiReservedMemoryType)"
    using f(2) [of a] by (cases "map_type self a") (auto simp: firmware_type_def)
  then show ?thesis using inv by (metis domIff)
qed

theorem reserved_never_allocated_witness:
  "\<exists>self. from_regions sample_symbols sample_ram sample_reserved sample_buffer = (Inr (), self)
     \<and> (map_type self 0x80205810 = None \<or> map_type self 0x80205810 = Some 0)"
proof -
  obtain self where s: "from_regions sample_symbols sample_ram sample_reserved sample_buffer = (Inr (), self)"
    using sample_build by blast
  show ?thesis
    using reserved_never_allocated [OF s rtranclp.rtrancl_refl, of "\<lparr>base = 0x80205800, region_size = 0x100\<rparr>" "0x80205810"] s
    by (simp add: sample_reserved_def)
qed

text \<open>
  C11: \<open>coalesce\<close>, which merges in place by shifting the buffer down, implements the functional merge
  of the descriptor list, keeps the buffer within its capacity, does not change the type of any byte
  of a well-formed map, and leaves no two neighbouring descriptors that could still be merged.
\<close>
theorem coalesce_refines:
  assumes "alloc_ok self"
  shows "active (coalesce self) = coalesce_list (active self) \<and> alloc_ok (coalesce self)
    \<and> map_type (coalesce self) = map_type self \<and> descriptor_count (coalesce self) \<le> descriptor_count self
    \<and> successively (\<lambda>a b. \<not> descriptors_are_compatible a b) (active (coalesce self))"
  using alloc_ok_coalesce [OF assms] coalesce_active [of self] coalesce_list_maximal [of "active self"] assms
  by (auto simp: alloc_ok_def)

theorem coalesce_refines_witness: "descriptor_count (coalesce sample_allocator) \<le> 2"
  using coalesce_refines [of sample_allocator] sample_normal
  by (simp add: normal_def) (simp add: sample_allocator_def)

text \<open>
  Reserving a region (\<open>reserve_region_with_type\<close>, used for the device-tree blob) re-types exactly the
  conventional and reserved bytes of the pages it touches; other types, such as boot-services memory,
  are left alone, and the descriptor list stays well formed.
\<close>
theorem reserve_region_with_type_correct:
  assumes n: "normal self" and r: "reserve_region_with_type self r t = (Inr u, self')"
  shows "normal self' \<and> map_type self' a =
    (case map_type self a of None \<Rightarrow> None
     | Some s \<Rightarrow> Some (if region_pages True r a \<and> reservable s then type_u32 t else s))"
proof -
  obtain s1 where s1: "add_reserved_region_with_type self r t = (Inr (), s1)" and c: "self' = coalesce s1"
    using r by (auto simp: reserve_region_with_type_def sbind_eq_Inr)
  note m = add_reserved_region_with_type_map [OF s1]
  have "alloc_ok self" "\<forall>d \<in> set (active self). plain d" using n by (auto simp: normal_def)
  note m = m [OF this]
  show ?thesis unfolding c
    using normal_coalesce [OF m(1,2)] alloc_ok_coalesce(2) [OF m(1)] m(3)
    by (auto simp: retyped_def split: option.splits)
qed

theorem reserve_region_with_type_correct_witness:
  "\<exists>self'. reserve_region_with_type sample_allocator \<lparr>base = 0x80001800, region_size = 0x100\<rparr> EfiACPIReclaimMemory = (Inr (), self')
     \<and> map_type self' 0x80001000 = Some 9"
proof -
  let ?r = "\<lparr>base = 0x80001800, region_size = 0x100\<rparr>"
  obtain self' where r: "reserve_region_with_type sample_allocator ?r EfiACPIReclaimMemory = (Inr (), self')"
    using Inr_outcomeE [of "reserve_region_with_type sample_allocator ?r EfiACPIReclaimMemory" "()"]
    by (simp add: reserve_region_with_type_def build_simps)
  have "region_pages True ?r 0x80001000" by (simp add: region_pages_def build_simps)
  then show ?thesis using reserve_region_with_type_correct [OF sample_normal r, of "0x80001000"] r
    by (simp add: sample_type reservable_def)
qed

text \<open>
  A RAM region nested in an earlier one makes \<open>coalesce\<close> lose memory: merging takes the end of the
  second descriptor, so the 16-page region at \<open>0x80000000\<close> followed by a one-page region inside it
  becomes a two-page map.
\<close>
theorem coalesce_nested_loses_ram:
  "coalesce \<lparr>descriptors = [sample_descriptor EfiConventionalMemory 0x80000000 16,
       sample_descriptor EfiConventionalMemory 0x80001000 1], descriptor_count = 2\<rparr>
   = \<lparr>descriptors = [sample_descriptor EfiConventionalMemory 0x80000000 2,
       sample_descriptor EfiConventionalMemory 0x80001000 1], descriptor_count = 1\<rparr>"
  by (simp add: run_simps)

end
