(* ===== verification/DtbRead.thy ===== *)
theory DtbRead
  imports Prelude
begin

unbundle bit_operations_syntax

text \<open>
  The flattened device-tree reader of \<open>src/dtb_read.rs\<close>.

  A validated blob is the record \<open>Fdt\<close> with its three sections as byte lists. Physical memory is a
  function from addresses to bytes, the argument of \<open>from_ptr\<close>. Offsets are \<open>nat\<close>: every section is a
  slice of a blob of at most \<open>2 ^ 32\<close> bytes, so the unchecked sums of the source stay far below
  \<open>2 ^ 64\<close>; the checked sums keep their bound. \<open>for_each_child\<close> takes the visitor as a function that
  returns whether to go on together with the state its closure captured.

  Every function is total: the token loops end because each token read lies inside the section and
  the offset grows. \<open>DtbTree\<close> proves the readers correct on every blob that is the encoding of a tree.
\<close>

section \<open>Constants and data\<close>

definition FDT_HEADER_SIZE :: nat where
  "FDT_HEADER_SIZE = 4 * 10"

definition FDT_MAGIC :: u32 where
  "FDT_MAGIC = 0xd00dfeed"

definition FDT_BEGIN_NODE :: u32 where
  "FDT_BEGIN_NODE = 1"

definition FDT_END_NODE :: u32 where
  "FDT_END_NODE = 2"

definition FDT_PROP :: u32 where
  "FDT_PROP = 3"

definition FDT_NOP :: u32 where
  "FDT_NOP = 4"

definition FDT_END :: u32 where
  "FDT_END = 9"

lemmas fdt_tokens = FDT_BEGIN_NODE_def FDT_END_NODE_def FDT_PROP_def FDT_NOP_def FDT_END_def

datatype FdtError =
  NullPointer | MisalignedPointer | BadMagic | Truncated | UnsupportedVersion | InvalidHeader

text \<open>The header fields as stored, in big-endian byte order.\<close>

record FdtHeader =
  magic :: u32
  totalsize :: u32
  off_dt_struct :: u32
  off_dt_strings :: u32
  off_mem_rsvmap :: u32
  version :: u32
  last_comp_version :: u32
  boot_cpuid_phys :: u32
  size_dt_strings :: u32
  size_dt_struct :: u32

text \<open>\<open>u32::from_be\<close> and \<open>to_be\<close> on the little-endian target.\<close>

definition from_be :: "u32 \<Rightarrow> u32" where
  "from_be w = from_be_bytes (to_le_bytes 4 w)"

definition to_be :: "u32 \<Rightarrow> u32" where
  "to_be w = from_le_bytes (to_be_bytes 4 w)"

definition header_magic :: "FdtHeader \<Rightarrow> u32" where
  "header_magic self = from_be (magic self)"

definition header_total_size :: "FdtHeader \<Rightarrow> u32" where
  "header_total_size self = from_be (totalsize self)"

definition set_total_size :: "FdtHeader \<Rightarrow> u32 \<Rightarrow> FdtHeader" where
  "set_total_size self sz = self\<lparr>totalsize := to_be sz\<rparr>"

definition header_off_dt_struct :: "FdtHeader \<Rightarrow> u32" where
  "header_off_dt_struct self = from_be (off_dt_struct self)"

definition header_off_dt_strings :: "FdtHeader \<Rightarrow> u32" where
  "header_off_dt_strings self = from_be (off_dt_strings self)"

definition header_off_mem_rsvmap :: "FdtHeader \<Rightarrow> u32" where
  "header_off_mem_rsvmap self = from_be (off_mem_rsvmap self)"

definition header_version :: "FdtHeader \<Rightarrow> u32" where
  "header_version self = from_be (version self)"

definition header_last_comp_version :: "FdtHeader \<Rightarrow> u32" where
  "header_last_comp_version self = from_be (last_comp_version self)"

definition header_boot_cpuid_phys :: "FdtHeader \<Rightarrow> u32" where
  "header_boot_cpuid_phys self = from_be (boot_cpuid_phys self)"

definition header_size_dt_strings :: "FdtHeader \<Rightarrow> u32" where
  "header_size_dt_strings self = from_be (size_dt_strings self)"

definition header_size_dt_struct :: "FdtHeader \<Rightarrow> u32" where
  "header_size_dt_struct self = from_be (size_dt_struct self)"

definition set_off_dt_strings :: "FdtHeader \<Rightarrow> u32 \<Rightarrow> FdtHeader" where
  "set_off_dt_strings self offset = self\<lparr>off_dt_strings := to_be offset\<rparr>"

definition set_size_dt_struct :: "FdtHeader \<Rightarrow> u32 \<Rightarrow> FdtHeader" where
  "set_size_dt_struct self sz = self\<lparr>size_dt_struct := to_be sz\<rparr>"

definition set_size_dt_strings :: "FdtHeader \<Rightarrow> u32 \<Rightarrow> FdtHeader" where
  "set_size_dt_strings self sz = self\<lparr>size_dt_strings := to_be sz\<rparr>"

record FdtNode =
  node_name :: "u8 list"
  begin_offset :: nat
  end_offset :: nat

record FdtReserveEntry =
  entry_address :: u64
  entry_size :: u64

record Fdt =
  fdt_base :: u64
  total_size :: nat
  reserve_map :: "u8 list"
  struct_block :: "u8 list"
  strings :: "u8 list"

section \<open>Decoding\<close>

text \<open>\<open>(value + 3) & !3\<close>; \<open>align4_word\<close> below relates it to the masked form.\<close>

definition align4 :: "nat \<Rightarrow> nat" where
  "align4 value = (value + 3) - (value + 3) mod 4"

definition read_be_u32_from_slice :: "u8 list \<Rightarrow> nat \<Rightarrow> u32 option" where
  "read_be_u32_from_slice bytes offset = map_option from_be_bytes (slice_get bytes offset (offset + 4))"

definition read_be_u64_from_slice :: "u8 list \<Rightarrow> nat \<Rightarrow> u64 option" where
  "read_be_u64_from_slice bytes offset = map_option from_be_bytes (slice_get bytes offset (offset + 8))"

text \<open>\<open>while index < cells\<close>.\<close>

function read_cells_loop :: "u8 list \<Rightarrow> nat \<Rightarrow> nat \<Rightarrow> u64 \<Rightarrow> u64" where
  "read_cells_loop bytes cells index value =
     (if index < cells then
        let offset = index * 4;
            cell = ucast (case read_be_u32_from_slice bytes offset of Some w \<Rightarrow> w | None \<Rightarrow> 0) :: u64
        in read_cells_loop bytes cells (index + 1) (push_bit 32 value OR cell)
      else value)"
  by pat_completeness auto
termination
  by (relation "measure (\<lambda>(bytes, cells, index, value). cells - index)") auto

declare read_cells_loop.simps [simp del]

definition read_cells :: "u8 list \<Rightarrow> nat \<Rightarrow> u64" where
  "read_cells bytes cells = read_cells_loop bytes cells 0 0"

definition read_bytes :: "(u64 \<Rightarrow> u8) \<Rightarrow> u64 \<Rightarrow> nat \<Rightarrow> u8 list" where
  "read_bytes mem ptr n = map (\<lambda>i. mem (ptr + of_nat i)) [0..<n]"

definition read_be_u32 :: "(u64 \<Rightarrow> u8) \<Rightarrow> u64 \<Rightarrow> nat \<Rightarrow> u32 option" where
  "read_be_u32 mem ptr_raw offset = Some (from_be_bytes (read_bytes mem (ptr_raw + of_nat offset) 4))"

definition validate_dtb_pointer :: "u64 \<Rightarrow> FdtError + unit" where
  "validate_dtb_pointer ptr_raw =
     (if ptr_raw = 0 then Inl NullPointer
      else if ptr_raw AND 7 \<noteq> 0 then Inl MisalignedPointer else Inr ())"

definition from_ptr :: "(u64 \<Rightarrow> u8) \<Rightarrow> u64 \<Rightarrow> FdtError + Fdt" where
  "from_ptr mem ptr_raw =
     rbind (validate_dtb_pointer ptr_raw) (\<lambda>_.
     rbind (ok_or Truncated (read_be_u32 mem ptr_raw 0)) (\<lambda>magic.
     if magic \<noteq> FDT_MAGIC then Inl BadMagic else
     rbind (ok_or Truncated (read_be_u32 mem ptr_raw 4)) (\<lambda>total_size.
     rbind (ok_or Truncated (read_be_u32 mem ptr_raw 8)) (\<lambda>off_dt_struct.
     rbind (ok_or Truncated (read_be_u32 mem ptr_raw 12)) (\<lambda>off_dt_strings.
     rbind (ok_or Truncated (read_be_u32 mem ptr_raw 16)) (\<lambda>off_mem_rsvmap.
     rbind (ok_or Truncated (read_be_u32 mem ptr_raw 20)) (\<lambda>version.
     rbind (ok_or Truncated (read_be_u32 mem ptr_raw 32)) (\<lambda>size_dt_strings.
     rbind (ok_or Truncated (read_be_u32 mem ptr_raw 36)) (\<lambda>size_dt_struct.
     if version < 17 then Inl UnsupportedVersion else
     if unat total_size < FDT_HEADER_SIZE then Inl InvalidHeader else
     rbind (ok_or InvalidHeader (us_checked_add (unat off_dt_struct) (unat size_dt_struct))) (\<lambda>struct_end.
     rbind (ok_or InvalidHeader (us_checked_add (unat off_dt_strings) (unat size_dt_strings))) (\<lambda>strings_end.
     if unat total_size < unat off_mem_rsvmap then Inl Truncated else
     if unat off_dt_struct < FDT_HEADER_SIZE \<or> unat total_size < struct_end
        \<or> unat off_dt_strings < FDT_HEADER_SIZE \<or> unat total_size < strings_end
     then Inl InvalidHeader
     else let blob = read_bytes mem ptr_raw (unat total_size) in
       Inr \<lparr>fdt_base = ptr_raw, total_size = unat total_size,
            reserve_map = drop (unat off_mem_rsvmap) blob,
            struct_block = take (struct_end - unat off_dt_struct) (drop (unat off_dt_struct) blob),
            strings = take (strings_end - unat off_dt_strings) (drop (unat off_dt_strings) blob)\<rparr>)))))))))))"

section \<open>Tokens, strings and records\<close>

definition read_token :: "Fdt \<Rightarrow> nat \<Rightarrow> u32 option" where
  "read_token self offset = read_be_u32_from_slice (struct_block self) offset"

definition string_at :: "Fdt \<Rightarrow> nat \<Rightarrow> u8 list option" where
  "string_at self offset =
     do { bytes \<leftarrow> slice_from (strings self) offset;
          n \<leftarrow> position_zero bytes;
          from_utf8 (take n bytes) }"

definition read_c_string :: "u8 list \<Rightarrow> nat \<Rightarrow> (u8 list \<times> nat) option" where
  "read_c_string bytes offset =
     do { rest \<leftarrow> slice_from bytes offset;
          n \<leftarrow> position_zero rest;
          name \<leftarrow> from_utf8 (take n rest);
          Some (name, offset + n + 1) }"

definition after_begin_node :: "Fdt \<Rightarrow> nat \<Rightarrow> nat option" where
  "after_begin_node self begin_off =
     do { token \<leftarrow> read_token self begin_off;
          if token \<noteq> FDT_BEGIN_NODE then None
          else do {
            name_offset \<leftarrow> us_checked_add begin_off 4;
            (_, next_offset) \<leftarrow> read_c_string (struct_block self) name_offset;
            Some (align4 next_offset) } }"

definition after_property :: "Fdt \<Rightarrow> nat \<Rightarrow> nat option" where
  "after_property self property_offset =
     do { len \<leftarrow> read_token self (property_offset + 4);
          value_offset \<leftarrow> us_checked_add property_offset 12;
          value_end \<leftarrow> us_checked_add value_offset (unat len);
          _ \<leftarrow> slice_get (struct_block self) value_offset value_end;
          Some (align4 value_end) }"

section \<open>Progress of the token loops\<close>

lemma align4_bounds: "v \<le> align4 v" "align4 v < v + 4" "4 dvd align4 v"
  by (auto simp: align4_def minus_mod_eq_mult_div)

lemma read_token_bound: "read_token self offset = Some t \<Longrightarrow> offset + 4 \<le> length (struct_block self)"
  by (auto simp: read_token_def read_be_u32_from_slice_def slice_simps)

lemma after_begin_node_gt:
  assumes "after_begin_node self offset = Some n"
  shows "offset < n"
proof -
  from assms obtain k where "n = align4 (offset + 4 + k + 1)"
    by (auto simp: after_begin_node_def read_c_string_def rust_ops bind_eq_Some_conv split: if_splits)
  then show ?thesis using align4_bounds(1) [of "offset + 4 + k + 1"] by simp
qed

lemma after_property_gt:
  assumes "after_property self offset = Some n"
  shows "offset < n"
proof -
  from assms obtain k where "n = align4 (offset + 12 + k)"
    by (auto simp: after_property_def rust_ops bind_eq_Some_conv)
  then show ?thesis using align4_bounds(1) [of "offset + 12 + k"] by simp
qed

section \<open>Nodes\<close>

text \<open>The \<open>loop\<close> of \<open>node_end_offset\<close>.\<close>

function node_end_loop :: "Fdt \<Rightarrow> nat \<Rightarrow> nat \<Rightarrow> nat option" where
  "node_end_loop self depth offset =
     (case read_token self offset of
        None \<Rightarrow> None
      | Some token \<Rightarrow>
          if token = FDT_BEGIN_NODE then
            (case us_checked_add depth 1 of
               None \<Rightarrow> None
             | Some depth' \<Rightarrow>
                 (case after_begin_node self offset of
                    None \<Rightarrow> None
                  | Some next_offset \<Rightarrow> node_end_loop self depth' next_offset))
          else if token = FDT_END_NODE then
            (case us_checked_sub depth 1 of
               None \<Rightarrow> None
             | Some depth' \<Rightarrow>
                 if depth' = 0 then Some offset
                 else (case us_checked_add offset 4 of
                         None \<Rightarrow> None
                       | Some next_offset \<Rightarrow> node_end_loop self depth' next_offset))
          else if token = FDT_PROP then
            (case after_property self offset of
               None \<Rightarrow> None
             | Some next_offset \<Rightarrow> node_end_loop self depth next_offset)
          else if token = FDT_NOP then
            (case us_checked_add offset 4 of
               None \<Rightarrow> None
             | Some next_offset \<Rightarrow> node_end_loop self depth next_offset)
          else None)"
  by pat_completeness auto
termination
  by (relation "measure (\<lambda>(self, depth, offset). length (struct_block self) - offset)")
     (auto dest!: read_token_bound after_begin_node_gt after_property_gt simp: rust_ops)

declare node_end_loop.simps [simp del]

definition node_end_offset :: "Fdt \<Rightarrow> nat \<Rightarrow> nat option" where
  "node_end_offset self begin_off = node_end_loop self 0 begin_off"

definition node_at_offset :: "Fdt \<Rightarrow> nat \<Rightarrow> FdtNode option" where
  "node_at_offset self offset =
     do { token \<leftarrow> read_token self offset;
          if token \<noteq> FDT_BEGIN_NODE then None
          else do {
            name_offset \<leftarrow> us_checked_add offset 4;
            (name, _) \<leftarrow> read_c_string (struct_block self) name_offset;
            end_off \<leftarrow> node_end_offset self offset;
            Some \<lparr>node_name = name, begin_offset = offset, end_offset = end_off\<rparr> } }"

definition root_node :: "Fdt \<Rightarrow> FdtNode option" where
  "root_node self = node_at_offset self 0"

lemma node_end_loop_step:
  assumes "node_end_loop self depth offset = Some e"
  shows "e = offset \<and> read_token self e = Some FDT_END_NODE
    \<or> (\<exists>depth' n. offset < n \<and> offset + 4 \<le> length (struct_block self) \<and> node_end_loop self depth' n = Some e)"
proof -
  obtain token where t: "read_token self offset = Some token"
    using assms by (subst (asm) node_end_loop.simps) (auto split: option.split_asm)
  note b = read_token_bound [OF t]
  consider "token = FDT_BEGIN_NODE" | "token = FDT_END_NODE" | "token = FDT_PROP" | "token = FDT_NOP"
    using assms t by (subst (asm) node_end_loop.simps) (auto split: if_splits)
  then show ?thesis
  proof cases
    case 1
    with assms t obtain d' n where "after_begin_node self offset = Some n" "node_end_loop self d' n = Some e"
      by (subst (asm) node_end_loop.simps) (auto split: option.split_asm)
    then show ?thesis using after_begin_node_gt b by blast
  next
    case 2
    with assms t have "e = offset \<or> node_end_loop self (depth - 1) (offset + 4) = Some e"
      by (subst (asm) node_end_loop.simps)
        (auto simp: fdt_tokens us_checked_sub_def us_checked_add_def split: if_splits)
    then show ?thesis using b t 2 by (metis less_add_same_cancel1 zero_less_numeral)
  next
    case 3
    with assms t obtain n where "after_property self offset = Some n" "node_end_loop self depth n = Some e"
      by (subst (asm) node_end_loop.simps) (auto simp: fdt_tokens split: option.split_asm)
    then show ?thesis using after_property_gt b by blast
  next
    case 4
    with assms t have "node_end_loop self depth (offset + 4) = Some e"
      by (subst (asm) node_end_loop.simps) (auto simp: fdt_tokens us_checked_add_def split: if_splits)
    then show ?thesis using b by (metis less_add_same_cancel1 zero_less_numeral)
  qed
qed

lemma node_end_loop_end:
  "node_end_loop self depth offset = Some e \<Longrightarrow> offset \<le> e \<and> read_token self e = Some FDT_END_NODE"
proof (induction "length (struct_block self) - offset" arbitrary: depth offset rule: less_induct)
  case less
  from node_end_loop_step [OF less.prems] show ?case
  proof
    assume "\<exists>depth' n. offset < n \<and> offset + 4 \<le> length (struct_block self) \<and> node_end_loop self depth' n = Some e"
    then obtain depth' n where n: "offset < n" "offset + 4 \<le> length (struct_block self)"
      "node_end_loop self depth' n = Some e" by blast
    then have "n \<le> e \<and> read_token self e = Some FDT_END_NODE" using less.hyps [of n depth'] by simp
    then show ?thesis using n(1) by simp
  qed auto
qed

lemma node_at_offset_bounds:
  assumes "node_at_offset self offset = Some node"
  shows "begin_offset node = offset" and "offset \<le> end_offset node"
    and "end_offset node + 4 \<le> length (struct_block self)"
    and "read_token self (end_offset node) = Some FDT_END_NODE"
    and "read_token self offset = Some FDT_BEGIN_NODE"
proof -
  from assms obtain e nm where n: "node = \<lparr>node_name = nm, begin_offset = offset, end_offset = e\<rparr>"
    and e: "node_end_loop self 0 offset = Some e" and t: "read_token self offset = Some FDT_BEGIN_NODE"
    by (auto simp: node_at_offset_def node_end_offset_def bind_eq_Some_conv split: if_splits)
  show "begin_offset node = offset" "offset \<le> end_offset node" "read_token self (end_offset node) = Some FDT_END_NODE"
    "read_token self offset = Some FDT_BEGIN_NODE" "end_offset node + 4 \<le> length (struct_block self)"
    using node_end_loop_end [OF e] read_token_bound n t by auto
qed

section \<open>Traversal and properties\<close>

text \<open>\<open>while offset < parent.end_offset\<close> with the visitor's captured state.\<close>

function child_loop ::
  "Fdt \<Rightarrow> nat \<Rightarrow> (FdtNode \<Rightarrow> 's \<Rightarrow> bool \<times> 's) \<Rightarrow> nat \<Rightarrow> 's \<Rightarrow> 's" where
  "child_loop self end_off visit offset s =
     (if offset < end_off then
        (case read_token self offset of
           None \<Rightarrow> s
         | Some token \<Rightarrow>
             if token = FDT_PROP then
               (case after_property self offset of
                  None \<Rightarrow> s
                | Some next_offset \<Rightarrow> child_loop self end_off visit next_offset s)
             else if token = FDT_NOP then child_loop self end_off visit (offset + 4) s
             else if token = FDT_BEGIN_NODE then
               (case node_at_offset self offset of
                  None \<Rightarrow> s
                | Some child \<Rightarrow>
                    (case visit child s of
                       (False, s') \<Rightarrow> s'
                     | (True, s') \<Rightarrow>
                         (case us_checked_add (end_offset child) 4 of
                            None \<Rightarrow> s'
                          | Some next_offset \<Rightarrow> child_loop self end_off visit next_offset s')))
             else s)
      else s)"
  by pat_completeness auto
termination
  by (relation "measure (\<lambda>(self, end_off, visit, offset, s). end_off - offset)")
     (auto dest!: after_property_gt node_at_offset_bounds(2) simp: rust_ops)

declare child_loop.simps [simp del]

definition for_each_child ::
  "Fdt \<Rightarrow> FdtNode \<Rightarrow> (FdtNode \<Rightarrow> 's \<Rightarrow> bool \<times> 's) \<Rightarrow> 's \<Rightarrow> 's" where
  "for_each_child self parent visit s =
     (case after_begin_node self (begin_offset parent) of
        None \<Rightarrow> s
      | Some offset \<Rightarrow> child_loop self (end_offset parent) visit offset s)"

definition find_child :: "Fdt \<Rightarrow> FdtNode \<Rightarrow> u8 list \<Rightarrow> FdtNode option" where
  "find_child self parent name =
     for_each_child self parent
       (\<lambda>child result. if node_name child = name then (False, Some child) else (True, result)) None"

text \<open>The walk over the components of \<open>path.split('/')\<close>.\<close>

fun walk_components :: "Fdt \<Rightarrow> FdtNode \<Rightarrow> u8 list list \<Rightarrow> FdtNode option" where
  "walk_components self node [] = Some node"
| "walk_components self node (component # cs) =
     (if component = [] then None
      else (case find_child self node component of
              None \<Rightarrow> None
            | Some child \<Rightarrow> walk_components self child cs))"

definition find_node :: "Fdt \<Rightarrow> u8 list \<Rightarrow> FdtNode option" where
  "find_node self path =
     (if path = str ''/'' then root_node self
      else (case split_slash path of
        [] \<Rightarrow> None
      | first # components \<Rightarrow>
          if first \<noteq> [] then None
          else do { node \<leftarrow> root_node self; walk_components self node components }))"

function property_loop :: "Fdt \<Rightarrow> nat \<Rightarrow> u8 list \<Rightarrow> nat \<Rightarrow> u8 list option" where
  "property_loop self end_off property_name offset =
     (if offset < end_off then
        (case read_token self offset of
           None \<Rightarrow> None
         | Some token \<Rightarrow>
             if token = FDT_PROP then
               (case read_token self (offset + 4) of None \<Rightarrow> None | Some value_length \<Rightarrow>
               (case read_token self (offset + 8) of None \<Rightarrow> None | Some name_offset \<Rightarrow>
                let value_offset = offset + 12 in
               (case us_checked_add value_offset (unat value_length) of None \<Rightarrow> None | Some value_end \<Rightarrow>
               (case string_at self (unat name_offset) of None \<Rightarrow> None | Some name \<Rightarrow>
                if name = property_name then slice_get (struct_block self) value_offset value_end
                else property_loop self end_off property_name (align4 value_end)))))
             else if token = FDT_NOP then property_loop self end_off property_name (offset + 4)
             else None)
      else None)"
  by pat_completeness auto
termination
  by (relation "measure (\<lambda>(self, end_off, property_name, offset). end_off - offset)")
     (auto simp: rust_ops align4_def intro!: diff_less_mono2 elim: order.strict_trans1)

declare property_loop.simps [simp del]

definition get_property :: "Fdt \<Rightarrow> FdtNode \<Rightarrow> u8 list \<Rightarrow> u8 list option" where
  "get_property self node property_name =
     do { offset \<leftarrow> after_begin_node self (begin_offset node);
          property_loop self (end_offset node) property_name offset }"

definition get_property_u32 :: "Fdt \<Rightarrow> FdtNode \<Rightarrow> u8 list \<Rightarrow> u32 option" where
  "get_property_u32 self node property_name =
     do { property \<leftarrow> get_property self node property_name; read_be_u32_from_slice property 0 }"

definition get_property_u64 :: "Fdt \<Rightarrow> FdtNode \<Rightarrow> u8 list \<Rightarrow> u64 option" where
  "get_property_u64 self node property_name =
     do { property \<leftarrow> get_property self node property_name; read_be_u64_from_slice property 0 }"

definition get_property_string :: "Fdt \<Rightarrow> FdtNode \<Rightarrow> u8 list \<Rightarrow> u8 list option" where
  "get_property_string self node property_name =
     do { property \<leftarrow> get_property self node property_name;
          n \<leftarrow> position_zero property;
          from_utf8 (take n property) }"

definition base_ptr :: "Fdt \<Rightarrow> u64" where
  "base_ptr self = fdt_base self"

definition total_size_bytes :: "Fdt \<Rightarrow> nat" where
  "total_size_bytes self = total_size self"

definition reserve_entry :: "Fdt \<Rightarrow> nat \<Rightarrow> FdtReserveEntry option" where
  "reserve_entry self index =
     do { offset \<leftarrow> us_checked_mul index 16;
          address \<leftarrow> read_be_u64_from_slice (reserve_map self) offset;
          sz \<leftarrow> read_be_u64_from_slice (reserve_map self) (offset + 8);
          if address = 0 \<and> sz = 0 then None
          else Some \<lparr>entry_address = address, entry_size = sz\<rparr> }"

end
