(* ===== verification/Block.thy ===== *)
theory Block
  imports Prelude
begin

text \<open>
  The block-device interface of \<open>src/virtio.rs\<close> (\<open>trait BlockDevice\<close>) and the image-file device of the
  host tests (\<open>src/bin/gpt_test.rs\<close>).

  A device is the record of its sector count and of its answers to read requests: the logical block
  address and the length of the caller's buffer determine the bytes or the error. The parsers take a
  device as a parameter. The locale \<open>block_device\<close> states what their soundness relies on: a successful
  read fills the buffer with the contents of the disk at that address. \<open>reliable_device\<close> adds that reads
  of sectors the disk has succeed. Both are interpreted for the image-file device, on every image that
  device opens.
\<close>

definition VIRTIO_SECTOR_SIZE :: nat where
  "VIRTIO_SECTOR_SIZE = 512"

lemma VIRTIO_SECTOR_SIZE_eq [simp]: "VIRTIO_SECTOR_SIZE = 512"
  by (simp add: VIRTIO_SECTOR_SIZE_def)

datatype VirtioError =
    NotBlockDevice | QueueTooSmall | MissingVersion1 | FeatureNegotiationFailed | QueueCreationFailed
  | InvalidBufferLength | RequestTimeout | UnexpectedUsedId u32 | BlockRequestFailed u8 | IoFailure

record BlockDevice =
  sector_count :: u64
  read_blocks :: "u64 \<Rightarrow> nat \<Rightarrow> VirtioError + u8 list"

section \<open>Disks\<close>

text \<open>The bytes of a disk from a sector on.\<close>

definition disk_bytes :: "u8 list \<Rightarrow> nat \<Rightarrow> nat \<Rightarrow> u8 list" where
  "disk_bytes disk sector n = take n (drop (sector * 512) disk)"

text \<open>The host device: whole sectors inside the image file, everything else is an error.\<close>

definition file_read_blocks :: "u8 list \<Rightarrow> u64 \<Rightarrow> nat \<Rightarrow> VirtioError + u8 list" where
  "file_read_blocks file sector n =
     (if n = 0 \<or> n mod VIRTIO_SECTOR_SIZE \<noteq> 0 then Inl InvalidBufferLength
      else rbind (ok_or IoFailure (checked_mul sector (of_nat VIRTIO_SECTOR_SIZE))) (\<lambda>offset.
        rbind (ok_or IoFailure (checked_add offset (of_nat n))) (\<lambda>end_off.
        let image_len = (of_nat (length file div VIRTIO_SECTOR_SIZE) :: u64) * of_nat VIRTIO_SECTOR_SIZE in
        if image_len < end_off then Inl IoFailure
        else Inr (take n (drop (unat offset) file)))))"

definition FileBlockDevice :: "u8 list \<Rightarrow> BlockDevice" where
  "FileBlockDevice file =
     \<lparr>sector_count = of_nat (length file div VIRTIO_SECTOR_SIZE), read_blocks = file_read_blocks file\<rparr>"

text \<open>An image the host device opens: a non-empty whole number of sectors; file lengths are below \<open>2 ^ 63\<close>.\<close>

definition image_ok :: "u8 list \<Rightarrow> bool" where
  "image_ok file \<longleftrightarrow> file \<noteq> [] \<and> 512 dvd length file \<and> length file < 2 ^ 63"

section \<open>The contract\<close>

locale block_device =
  fixes dev :: BlockDevice and disk :: "u8 list"
  assumes disk_size: "length disk = unat (sector_count dev) * 512"
    and read_sound: "n < 2 ^ 64 \<Longrightarrow> read_blocks dev s n = Inr bs \<Longrightarrow>
          unat s * 512 + n \<le> length disk \<and> bs = disk_bytes disk (unat s) n"
begin

lemma read_length: "n < 2 ^ 64 \<Longrightarrow> read_blocks dev s n = Inr bs \<Longrightarrow> length bs = n"
  using read_sound [of n s bs] by (auto simp: disk_bytes_def)

lemma read_beyond:
  assumes "unat (sector_count dev) \<le> unat s" and "0 < n" and "n < 2 ^ 64"
  shows "\<exists>e. read_blocks dev s n = Inl e"
proof (cases "read_blocks dev s n")
  case (Inr bs)
  have "unat (sector_count dev) * 512 \<le> unat s * 512" using assms(1) by simp
  then show ?thesis using read_sound [OF assms(3) Inr] disk_size assms(2) by linarith
qed simp

end

locale reliable_device = block_device +
  assumes read_ok: "0 < k \<Longrightarrow> k * 512 < 2 ^ 64 \<Longrightarrow> unat s + k \<le> unat (sector_count dev) \<Longrightarrow>
          read_blocks dev s (k * 512) = Inr (disk_bytes disk (unat s) (k * 512))"
begin

lemma read_sector: "s < sector_count dev \<Longrightarrow> read_blocks dev s 512 = Inr (disk_bytes disk (unat s) 512)"
  using read_ok [of 1 s] by (simp add: word_less_nat_alt)

end

section \<open>The image-file device\<close>

lemma file_read_Inr:
  assumes ok: "image_ok file" and n: "n < 2 ^ 64"
  shows "file_read_blocks file s n = Inr bs \<longleftrightarrow>
    0 < n \<and> 512 dvd n \<and> unat s * 512 + n \<le> length file \<and> bs = disk_bytes file (unat s) n"
proof -
  have dv: "512 * (length file div 512) = length file" using ok by (simp add: image_ok_def)
  have un: "unat (of_nat n :: u64) = n" using n by (simp add: unat_of_nat)
  have lim: "length file < 2 ^ 63" using ok by (simp add: image_ok_def)
  have "unat (of_nat (length file div 512) :: u64) = length file div 512"
    using lim by (simp add: unat_of_nat)
  then have ul: "unat (of_nat (length file div 512) * 512 :: u64) = length file"
    using unat_mult_small [of "of_nat (length file div 512) :: u64" 512] dv lim by (simp add: mult.commute)
  show ?thesis
  proof (cases "unat s * 512 + n < 2 ^ 64")
    case fits: True
    have us: "unat (s * 512) = unat s * 512" using fits unat_mult_small [of s 512] by simp
    then have "unat (s * 512 + of_nat n) = unat s * 512 + n"
      using fits un unat_add_small [of "s * 512" "of_nat n"] by simp
    then show ?thesis using fits us un ul
      by (auto simp: file_read_blocks_def Let_def word_less_nat_alt disk_bytes_def checked_mul_def
          checked_add_def dvd_eq_mod_eq_0)
  next
    case False
    then have "\<not> unat s * 512 + n \<le> length file" using lim by auto
    moreover have "unat (s * 512) = unat s * 512" if "unat s * 512 < 2 ^ 64"
      using that unat_mult_small [of s 512] by simp
    then have "file_read_blocks file s n \<noteq> Inr bs"
      using False un by (auto simp: file_read_blocks_def checked_mul_def checked_add_def)
    ultimately show ?thesis by auto
  qed
qed

lemma file_sectors:
  assumes "image_ok file"
  shows "length file = unat (sector_count (FileBlockDevice file)) * 512"
proof -
  have "length file div 512 < 2 ^ 64" using assms by (auto simp: image_ok_def)
  then have "unat (of_nat (length file div 512) :: u64) = length file div 512" by (simp add: unat_of_nat)
  then show ?thesis using assms by (simp add: FileBlockDevice_def image_ok_def)
qed

lemma FileBlockDevice_reliable:
  assumes ok: "image_ok file"
  shows "reliable_device (FileBlockDevice file) file"
proof
  show "length file = unat (sector_count (FileBlockDevice file)) * 512" by (rule file_sectors [OF ok])
  fix n bs and s :: u64
  assume "n < 2 ^ 64" and "read_blocks (FileBlockDevice file) s n = Inr bs"
  then show "unat s * 512 + n \<le> length file \<and> bs = disk_bytes file (unat s) n"
    using file_read_Inr [OF ok, of n s bs] by (simp add: FileBlockDevice_def)
next
  fix k :: nat and s :: u64
  assume "0 < k" and k: "k * 512 < 2 ^ 64" and "unat s + k \<le> unat (sector_count (FileBlockDevice file))"
  moreover have "unat s * 512 + k * 512 \<le> length file"
    using calculation(3) file_sectors [OF ok] by (metis add_mult_distrib mult_le_mono1)
  ultimately show "read_blocks (FileBlockDevice file) s (k * 512) = Inr (disk_bytes file (unat s) (k * 512))"
    using file_read_Inr [OF ok k, of s] by (simp add: FileBlockDevice_def)
qed

text \<open>The images the host device opens, as a type, and the device on each of them.\<close>

typedef disk_image = "{file :: u8 list. image_ok file}"
  morphisms image_file Image
  by (rule exI [of _ "replicate 512 0"]) (simp add: image_ok_def)

interpretation file_device: reliable_device "FileBlockDevice (image_file img)" "image_file img"
  for img :: disk_image
  using FileBlockDevice_reliable image_file by blast

end
