(* ===== verification/Filesystem.thy ===== *)
theory Filesystem
  imports Block Memory
begin

text \<open>
  The filesystem-independent file metadata of \<open>src/filesystem.rs\<close>: file types, metadata snapshots and files
  loaded into pages. Physical memory is a function from addresses to bytes.
\<close>

type_synonym memory = "u64 \<Rightarrow> u8"

datatype FileType = File | Directory

record FileInfo =
  info_file_type :: FileType
  info_size_bytes :: nat

definition FileInfo_new :: "FileType \<Rightarrow> nat \<Rightarrow> FileInfo" where
  "FileInfo_new ty n = \<lparr>info_file_type = ty, info_size_bytes = n\<rparr>"

record LoadedFile =
  physical_start :: u64
  page_count :: nat
  size_bytes :: nat

definition LoadedFile_new :: "u64 \<Rightarrow> nat \<Rightarrow> nat \<Rightarrow> LoadedFile" where
  "LoadedFile_new start pages n = \<lparr>physical_start = start, page_count = pages, size_bytes = n\<rparr>"

definition loaded_bytes :: "memory \<Rightarrow> LoadedFile \<Rightarrow> u8 list" where
  "loaded_bytes mem self = map (\<lambda>i. mem (physical_start self + of_nat i)) [0..<size_bytes self]"

text \<open>Writing a byte list to memory at an address.\<close>

definition write_memory :: "memory \<Rightarrow> u64 \<Rightarrow> u8 list \<Rightarrow> memory" where
  "write_memory mem start bs = (\<lambda>a. if unat (a - start) < length bs then bs ! unat (a - start) else mem a)"

lemma read_write_memory:
  assumes "length bs \<le> 2 ^ 64"
  shows "map (\<lambda>i. write_memory mem start bs (start + of_nat i)) [0..<length bs] = bs"
  using assms by (intro nth_equalityI) (simp_all add: write_memory_def unat_of_nat)

end
