(* ===== verification/DtbWrite.thy ===== *)
theory DtbWrite
  imports DtbRead Filesystem
begin

unbundle bit_operations_syntax

text \<open>
  The device-tree editor of \<open>src/dtb_write.rs\<close>.

  A \<open>Dtb\<close> is a pointer and a size; the blob itself lies in physical memory, a function from addresses to
  bytes that every operation takes and returns. Operations that fail return the memory as they left it.
  The reader's \<open>from_ptr\<close> gives the transient views. Offsets are \<open>nat\<close>; the one difference of the source that
  may underflow, the number of bytes moved by \<open>splice_struct_placeholder\<close>, wraps at 64 bits. Slices over the
  whole blob are read from memory directly: the strings block they index lies inside the blob because every
  caller has validated the header before (\<open>from_ptr\<close>), and \<open>DtbEdit\<close> shows that the editor keeps it so.
\<close>

section \<open>Data\<close>

definition MAX_PROPERTY_STRING_LEN :: nat where
  "MAX_PROPERTY_STRING_LEN = 256"

datatype DtbError =
    InvalidCloneSize | SizeOverflow | DtbBufferTooSmall | DtbInvalidPath | NodeNotFound | BadStructure
  | DtbAllocError MemoryError | DtbFdtError FdtError

record PropertyLocation =
  property_offset :: nat
  total_length :: nat

record Dtb =
  dtb_pointer :: u64
  dtb_size :: nat

primrec from_fdt_error :: "FdtError + 'a \<Rightarrow> DtbError + 'a" where
  "from_fdt_error (Inl e) = Inl (DtbFdtError e)"
| "from_fdt_error (Inr x) = Inr x"

text \<open>A value that reads memory only, as an operation on memory.\<close>

definition pure_op :: "'e + 'a \<Rightarrow> 's \<Rightarrow> ('e, 'a, 's) outcome" where
  "pure_op r s = (r, s)"

section \<open>Memory and the header\<close>

definition us_wrapping_sub :: "nat \<Rightarrow> nat \<Rightarrow> nat" where
  "us_wrapping_sub a b = (if b \<le> a then a - b else a + USIZE_LIMIT - b)"

text \<open>\<open>ptr::copy\<close>: the ranges may overlap.\<close>

definition copy_memory :: "memory \<Rightarrow> u64 \<Rightarrow> u64 \<Rightarrow> nat \<Rightarrow> memory" where
  "copy_memory mem src dst n = (\<lambda>a. if unat (a - dst) < n then mem (src + (a - dst)) else mem a)"

definition checked_add_signed :: "u32 \<Rightarrow> int \<Rightarrow> u32 option" where
  "checked_add_signed w d =
     (if 0 \<le> uint w + d \<and> uint w + d < 2 ^ 32 then Some (word_of_int (uint w + d)) else None)"

text \<open>The header as the little-endian target reads the ten words at the start of the blob.\<close>

definition header_word :: "memory \<Rightarrow> u64 \<Rightarrow> nat \<Rightarrow> u32" where
  "header_word mem p i = from_le_bytes (read_bytes mem (p + of_nat (4 * i)) 4)"

definition dtb_header :: "memory \<Rightarrow> Dtb \<Rightarrow> FdtHeader" where
  "dtb_header mem self = (let w = header_word mem (dtb_pointer self) in
     \<lparr>magic = w 0, totalsize = w 1, off_dt_struct = w 2, off_dt_strings = w 3, off_mem_rsvmap = w 4, version = w 5,
      last_comp_version = w 6, boot_cpuid_phys = w 7, size_dt_strings = w 8, size_dt_struct = w 9\<rparr>)"

definition header_bytes :: "FdtHeader \<Rightarrow> u8 list" where
  "header_bytes h = concat (map (to_le_bytes 4)
     [magic h, totalsize h, off_dt_struct h, off_dt_strings h, off_mem_rsvmap h, version h, last_comp_version h,
      boot_cpuid_phys h, size_dt_strings h, size_dt_struct h])"

definition store_header :: "memory \<Rightarrow> Dtb \<Rightarrow> FdtHeader \<Rightarrow> memory" where
  "store_header mem self h = write_memory mem (dtb_pointer self) (header_bytes h)"

definition dtb_bytes :: "memory \<Rightarrow> Dtb \<Rightarrow> u8 list" where
  "dtb_bytes mem self = read_bytes mem (dtb_pointer self) (unat (header_total_size (dtb_header mem self)))"

definition structure_end_offset :: "memory \<Rightarrow> Dtb \<Rightarrow> nat" where
  "structure_end_offset mem self =
     unat (header_off_dt_struct (dtb_header mem self)) + unat (header_size_dt_struct (dtb_header mem self))"

definition structure_offset_in_blob :: "memory \<Rightarrow> Dtb \<Rightarrow> nat \<Rightarrow> nat" where
  "structure_offset_in_blob mem self offset = unat (header_off_dt_struct (dtb_header mem self)) + offset"

definition used_blob_end_offset :: "memory \<Rightarrow> Dtb \<Rightarrow> nat" where
  "used_blob_end_offset mem self =
     unat (header_off_dt_strings (dtb_header mem self)) + unat (header_size_dt_strings (dtb_header mem self))"

definition ensure_range :: "Dtb \<Rightarrow> nat \<Rightarrow> nat \<Rightarrow> DtbError + unit" where
  "ensure_range self offset len =
     rbind (ok_or SizeOverflow (us_checked_add offset len)) (\<lambda>end_off.
     if dtb_size self < end_off then Inl DtbBufferTooSmall else Inr ())"

definition property_record_length :: "nat \<Rightarrow> DtbError + nat" where
  "property_record_length value_length = ok_or SizeOverflow (us_checked_add 12 (align4 value_length))"

section \<open>Construction\<close>

definition Dtb_from_ptr :: "memory \<Rightarrow> u64 \<Rightarrow> DtbError + Dtb" where
  "Dtb_from_ptr mem pointer =
     rbind (from_fdt_error (from_ptr mem pointer)) (\<lambda>fdt.
     Inr \<lparr>dtb_pointer = pointer, dtb_size = total_size_bytes fdt\<rparr>)"

text \<open>\<open>clone\<close> changes the allocator and memory.\<close>

definition dtb_clone :: "Dtb \<Rightarrow> nat \<Rightarrow> PageAllocator \<times> memory \<Rightarrow> (DtbError, Dtb, PageAllocator \<times> memory) outcome" where
  "dtb_clone self new_size s =
     (let (allocator, mem) = s;
          header_size = unat (header_total_size (dtb_header mem self)) in
      if new_size \<le> header_size then (Inl InvalidCloneSize, s) else
      let page_size = unat EFI_PAGE_SIZE; pages = (new_size + page_size - 1) div page_size in
      case us_checked_mul pages page_size of
        None \<Rightarrow> (Inl SizeOverflow, s)
      | Some allocated_size \<Rightarrow>
          if 2 ^ 32 \<le> allocated_size then (Inl SizeOverflow, s) else
          (case AllocatePages allocator AllocateAnyPages EfiACPIReclaimMemory (of_nat pages) 0 of
             (Inl e, allocator) \<Rightarrow> (Inl (DtbAllocError e), allocator, mem)
           | (Inr start, allocator) \<Rightarrow>
               let cloned = \<lparr>dtb_pointer = start, dtb_size = allocated_size\<rparr>;
                   mem = write_memory mem start (read_bytes mem (dtb_pointer self) header_size);
                   mem = write_memory mem (start + of_nat header_size) (replicate (allocated_size - header_size) 0);
                   mem = store_header mem cloned (set_total_size (dtb_header mem cloned) (of_nat allocated_size))
               in (Inr cloned, allocator, mem)))"

definition fdt_view :: "memory \<Rightarrow> Dtb \<Rightarrow> DtbError + Fdt" where
  "fdt_view mem self = from_fdt_error (from_ptr mem (dtb_pointer self))"

section \<open>Writing\<close>

definition insert_bytes :: "memory \<Rightarrow> Dtb \<Rightarrow> nat \<Rightarrow> u8 list \<Rightarrow> (DtbError, nat, memory) outcome" where
  "insert_bytes mem self offset bs =
     (case us_checked_add offset (length bs) of
        None \<Rightarrow> (Inl SizeOverflow, mem)
      | Some end_off \<Rightarrow>
          if dtb_size self < end_off then (Inl DtbBufferTooSmall, mem)
          else (Inr end_off, write_memory mem (dtb_pointer self + of_nat offset) bs))"

definition insert_u32 :: "memory \<Rightarrow> Dtb \<Rightarrow> nat \<Rightarrow> u32 \<Rightarrow> (DtbError, nat, memory) outcome" where
  "insert_u32 mem self offset v = insert_bytes mem self offset (to_be_bytes 4 v)"

definition zero_property_padding :: "memory \<Rightarrow> Dtb \<Rightarrow> nat \<Rightarrow> nat \<Rightarrow> (DtbError, unit, memory) outcome" where
  "zero_property_padding mem self prop_offset value_length =
     (let padding = align4 value_length - value_length in
      if padding = 0 then (Inr (), mem) else
      let padding_offset = prop_offset + 12 + value_length in
      case ensure_range self padding_offset padding of
        Inl e \<Rightarrow> (Inl e, mem)
      | Inr _ \<Rightarrow> (Inr (), write_memory mem (dtb_pointer self + of_nat padding_offset) (replicate padding 0)))"

text \<open>The header update that ends a splice: the structure size is stored before the offset of the strings is
  checked.\<close>

definition resize_struct :: "memory \<Rightarrow> Dtb \<Rightarrow> int \<Rightarrow> (DtbError, unit, memory) outcome" where
  "resize_struct mem self delta =
     (if \<not> (- (2 ^ 31) \<le> delta \<and> delta < 2 ^ 31) then (Inl SizeOverflow, mem) else
      case checked_add_signed (header_size_dt_struct (dtb_header mem self)) delta of
        None \<Rightarrow> (Inl SizeOverflow, mem)
      | Some sz \<Rightarrow>
          let mem = store_header mem self (set_size_dt_struct (dtb_header mem self) sz) in
          (case checked_add_signed (header_off_dt_strings (dtb_header mem self)) delta of
             None \<Rightarrow> (Inl SizeOverflow, mem)
           | Some off \<Rightarrow> (Inr (), store_header mem self (set_off_dt_strings (dtb_header mem self) off))))"

definition splice_struct_placeholder :: "memory \<Rightarrow> Dtb \<Rightarrow> nat \<Rightarrow> nat \<Rightarrow> nat \<Rightarrow> (DtbError, unit, memory) outcome" where
  "splice_struct_placeholder mem self offset old_len new_len =
     (let used_end = used_blob_end_offset mem self;
          struct_start = unat (header_off_dt_struct (dtb_header mem self));
          struct_end = structure_end_offset mem self in
      if offset < struct_start \<or> struct_end < offset then (Inl BadStructure, mem) else
      case us_checked_add offset old_len of
        None \<Rightarrow> (Inl SizeOverflow, mem)
      | Some old_end \<Rightarrow>
          if struct_end < old_end then (Inl BadStructure, mem) else
          (case Option.bind (us_checked_sub used_end old_len) (\<lambda>v. us_checked_add v new_len) of
             None \<Rightarrow> (Inl SizeOverflow, mem)
           | Some resulting_used_end \<Rightarrow>
               if dtb_size self < resulting_used_end then (Inl DtbBufferTooSmall, mem) else
               let p = dtb_pointer self;
                   mem = copy_memory mem (p + of_nat (offset + old_len)) (p + of_nat (offset + new_len))
                           (us_wrapping_sub used_end (offset + old_len));
                   mem = write_memory mem (p + of_nat offset) (replicate new_len 0)
               in resize_struct mem self (int new_len - int old_len)))"

definition splice_struct :: "memory \<Rightarrow> Dtb \<Rightarrow> nat \<Rightarrow> nat \<Rightarrow> u8 list \<Rightarrow> (DtbError, unit, memory) outcome" where
  "splice_struct mem self offset old_len new_bytes =
     sbind (splice_struct_placeholder mem self offset old_len (length new_bytes)) (\<lambda>_ mem.
     (Inr (), write_memory mem (dtb_pointer self + of_nat offset) new_bytes))"

section \<open>The strings block\<close>

text \<open>\<open>while cursor < strings_start + strings_size\<close>: the first zero byte or the limit.\<close>

function zero_cursor :: "memory \<Rightarrow> u64 \<Rightarrow> nat \<Rightarrow> nat \<Rightarrow> nat" where
  "zero_cursor mem p limit cursor =
     (if cursor < limit then
        if mem (p + of_nat cursor) = 0 then cursor else zero_cursor mem p limit (cursor + 1)
      else cursor)"
  by pat_completeness auto
termination
  by (relation "measure (\<lambda>(_, _, limit, cursor). limit - cursor)") auto

declare zero_cursor.simps [simp del]

lemma zero_cursor_ge: "cursor \<le> zero_cursor mem p limit cursor"
proof (induction mem p limit cursor rule: zero_cursor.induct)
  case (1 mem p limit cursor)
  then show ?case by (subst zero_cursor.simps) auto
qed

text \<open>The search for an existing string: its offset, or \<open>None\<close> when the block is exhausted.\<close>

function strings_loop :: "memory \<Rightarrow> u64 \<Rightarrow> nat \<Rightarrow> nat \<Rightarrow> u8 list \<Rightarrow> nat \<Rightarrow> DtbError + nat option" where
  "strings_loop mem p strings_start strings_size name offset =
     (if offset < strings_size then
        let absolute_offset = strings_start + offset;
            cursor = zero_cursor mem p (strings_start + strings_size) absolute_offset in
        if cursor = strings_start + strings_size then Inl BadStructure
        else (case from_utf8 (read_bytes mem (p + of_nat absolute_offset) (cursor - absolute_offset)) of
                None \<Rightarrow> Inl BadStructure
              | Some existing \<Rightarrow>
                  if existing = name then Inr (Some offset)
                  else strings_loop mem p strings_start strings_size name (cursor - strings_start + 1))
      else Inr None)"
  by pat_completeness auto
termination
proof (relation "measure (\<lambda>(_, _, _, strings_size, _, offset). strings_size - offset)", goal_cases)
  case (2 mem p start size name offset absolute cursor existing)
  have "start + offset \<le> cursor" using 2(2,3) zero_cursor_ge by blast
  then show ?case using 2(1) by auto
qed simp

declare strings_loop.simps [simp del]

definition find_or_add_string :: "memory \<Rightarrow> Dtb \<Rightarrow> u8 list \<Rightarrow> (DtbError, u32, memory) outcome" where
  "find_or_add_string mem self name =
     (let strings_start = unat (header_off_dt_strings (dtb_header mem self));
          strings_size = unat (header_size_dt_strings (dtb_header mem self)) in
      case strings_loop mem (dtb_pointer self) strings_start strings_size name 0 of
        Inl e \<Rightarrow> (Inl e, mem)
      | Inr (Some offset) \<Rightarrow> (if offset < 2 ^ 32 then Inr (of_nat offset) else Inl SizeOverflow, mem)
      | Inr None \<Rightarrow>
          (case us_checked_add (length name) 1 of
             None \<Rightarrow> (Inl SizeOverflow, mem)
           | Some append_length \<Rightarrow>
               let absolute_offset = used_blob_end_offset mem self in
               (case ensure_range self absolute_offset append_length of
                  Inl e \<Rightarrow> (Inl e, mem)
                | Inr _ \<Rightarrow>
                    sbind (insert_bytes mem self absolute_offset name) (\<lambda>_ mem.
                    sbind (insert_bytes mem self (absolute_offset + length name) [0]) (\<lambda>_ mem.
                    if 2 ^ 32 \<le> strings_size + append_length then (Inl SizeOverflow, mem)
                    else (if strings_size < 2 ^ 32 then Inr (of_nat strings_size) else Inl SizeOverflow,
                          store_header mem self
                            (set_size_dt_strings (dtb_header mem self) (of_nat (strings_size + append_length)))))))))"

section \<open>Nodes and properties\<close>

definition find_node_location :: "memory \<Rightarrow> Dtb \<Rightarrow> u8 list \<Rightarrow> DtbError + nat \<times> nat" where
  "find_node_location mem self path =
     (if path = str ''/'' then
        rbind (fdt_view mem self) (\<lambda>fdt.
        rbind (ok_or BadStructure (root_node fdt)) (\<lambda>root.
        Inr (begin_offset root, end_offset root)))
      else (case split_slash path of
              [] \<Rightarrow> Inl DtbInvalidPath
            | first # components \<Rightarrow>
                if first \<noteq> [] then Inl DtbInvalidPath
                else if [] \<in> set components then Inl DtbInvalidPath
                else rbind (fdt_view mem self) (\<lambda>fdt.
                     rbind (ok_or NodeNotFound (find_node fdt path)) (\<lambda>node.
                     Inr (begin_offset node, end_offset node)))))"

function direct_property_loop :: "Fdt \<Rightarrow> nat \<Rightarrow> u8 list \<Rightarrow> nat \<Rightarrow> DtbError + (nat \<times> nat) option" where
  "direct_property_loop fdt end_off property_name offset =
     (if offset < end_off then
        (case read_token fdt offset of
           None \<Rightarrow> Inl BadStructure
         | Some token \<Rightarrow>
             if token = FDT_PROP then
               rbind (ok_or BadStructure (read_token fdt (offset + 4))) (\<lambda>value_length.
               rbind (ok_or BadStructure (read_token fdt (offset + 8))) (\<lambda>name_offset.
               case property_record_length (unat value_length) of Inl e \<Rightarrow> Inl e | Inr len \<Rightarrow>
               rbind (ok_or BadStructure (string_at fdt (unat name_offset))) (\<lambda>name.
               if name = property_name then Inr (Some (offset, len))
               else direct_property_loop fdt end_off property_name (offset + len))))
             else if token = FDT_NOP then direct_property_loop fdt end_off property_name (offset + 4)
             else if token = FDT_BEGIN_NODE \<or> token = FDT_END_NODE then Inr None
             else Inl BadStructure)
      else Inr None)"
  by pat_completeness auto
termination
  by (relation "measure (\<lambda>(_, end_off, _, offset). end_off - offset)")
     (auto simp: property_record_length_def rust_ops)

declare direct_property_loop.simps [simp del]

definition find_direct_property :: "memory \<Rightarrow> Dtb \<Rightarrow> nat \<times> nat \<Rightarrow> u8 list \<Rightarrow> DtbError + PropertyLocation option" where
  "find_direct_property mem self node property_name =
     rbind (fdt_view mem self) (\<lambda>fdt.
     rbind (ok_or BadStructure (after_begin_node fdt (fst node))) (\<lambda>offset.
     rbind (direct_property_loop fdt (snd node) property_name offset) (\<lambda>found.
     Inr (map_option (\<lambda>(offset, len). \<lparr>property_offset = structure_offset_in_blob mem self offset, total_length = len\<rparr>)
            found))))"

function insertion_loop :: "Fdt \<Rightarrow> nat \<Rightarrow> nat \<Rightarrow> DtbError + nat" where
  "insertion_loop fdt end_off offset =
     (if offset < end_off then
        (case read_token fdt offset of
           None \<Rightarrow> Inl BadStructure
         | Some token \<Rightarrow>
             if token = FDT_PROP then
               (case after_property fdt offset of
                  None \<Rightarrow> Inl BadStructure
                | Some next_offset \<Rightarrow> insertion_loop fdt end_off next_offset)
             else if token = FDT_NOP then insertion_loop fdt end_off (offset + 4)
             else if token = FDT_BEGIN_NODE \<or> token = FDT_END_NODE then Inr offset
             else Inl BadStructure)
      else Inr end_off)"
  by pat_completeness auto
termination
  by (relation "measure (\<lambda>(_, end_off, offset). end_off - offset)") (auto dest!: after_property_gt)

declare insertion_loop.simps [simp del]

definition property_insertion_offset :: "memory \<Rightarrow> Dtb \<Rightarrow> nat \<times> nat \<Rightarrow> DtbError + nat" where
  "property_insertion_offset mem self node =
     rbind (fdt_view mem self) (\<lambda>fdt.
     rbind (ok_or BadStructure (after_begin_node fdt (fst node))) (\<lambda>offset.
     if offset = snd node then Inr (structure_offset_in_blob mem self (snd node))
     else rbind (insertion_loop fdt (snd node) offset) (\<lambda>offset. Inr (structure_offset_in_blob mem self offset))))"

definition prepare_property_record :: "memory \<Rightarrow> Dtb \<Rightarrow> nat \<times> nat \<Rightarrow> u8 list \<Rightarrow> nat \<Rightarrow> (DtbError, nat, memory) outcome" where
  "prepare_property_record mem self node property_name value_length =
     (case find_direct_property mem self node property_name of
        Inl e \<Rightarrow> (Inl e, mem)
      | Inr (Some existing) \<Rightarrow>
          sbind (pure_op (property_record_length value_length) mem) (\<lambda>record_length mem.
          sbind (splice_struct_placeholder mem self (property_offset existing) (total_length existing) record_length)
            (\<lambda>_ mem. (Inr (property_offset existing), mem)))
      | Inr None \<Rightarrow>
          sbind (pure_op (property_insertion_offset mem self node) mem) (\<lambda>insertion_offset mem.
          sbind (pure_op (property_record_length value_length) mem) (\<lambda>record_length mem.
          sbind (splice_struct_placeholder mem self insertion_offset 0 record_length)
            (\<lambda>_ mem. (Inr insertion_offset, mem)))))"

definition set_property_bytes :: "memory \<Rightarrow> Dtb \<Rightarrow> u8 list \<Rightarrow> u8 list \<Rightarrow> u8 list \<Rightarrow> (DtbError, unit, memory) outcome" where
  "set_property_bytes mem self node_path property_name v =
     sbind (pure_op (find_node_location mem self node_path) mem) (\<lambda>node mem.
     sbind (find_or_add_string mem self property_name) (\<lambda>name_offset mem.
     sbind (prepare_property_record mem self node property_name (length v)) (\<lambda>record_offset mem.
     sbind (insert_u32 mem self record_offset FDT_PROP) (\<lambda>_ mem.
     if 2 ^ 32 \<le> length v then (Inl SizeOverflow, mem) else
     sbind (insert_u32 mem self (record_offset + 4) (of_nat (length v))) (\<lambda>_ mem.
     sbind (insert_u32 mem self (record_offset + 8) name_offset) (\<lambda>_ mem.
     sbind (insert_bytes mem self (record_offset + 12) v) (\<lambda>_ mem.
     zero_property_padding mem self record_offset (length v))))))))"

definition set_property_u32 :: "memory \<Rightarrow> Dtb \<Rightarrow> u8 list \<Rightarrow> u8 list \<Rightarrow> u32 \<Rightarrow> (DtbError, unit, memory) outcome" where
  "set_property_u32 mem self node_path property_name v =
     set_property_bytes mem self node_path property_name (to_be_bytes 4 v)"

definition set_property_u64 :: "memory \<Rightarrow> Dtb \<Rightarrow> u8 list \<Rightarrow> u8 list \<Rightarrow> u64 \<Rightarrow> (DtbError, unit, memory) outcome" where
  "set_property_u64 mem self node_path property_name v =
     set_property_bytes mem self node_path property_name (to_be_bytes 8 v)"

definition set_property_string :: "memory \<Rightarrow> Dtb \<Rightarrow> u8 list \<Rightarrow> u8 list \<Rightarrow> u8 list \<Rightarrow> (DtbError, unit, memory) outcome" where
  "set_property_string mem self node_path property_name v =
     (case us_checked_add (length v) 1 of
        None \<Rightarrow> (Inl SizeOverflow, mem)
      | Some property_len \<Rightarrow>
          if MAX_PROPERTY_STRING_LEN < property_len then (Inl DtbBufferTooSmall, mem)
          else set_property_bytes mem self node_path property_name (v @ [0]))"

text \<open>The encoding of an empty node, in a stack buffer of 267 bytes.\<close>

definition empty_node_bytes :: "u8 list \<Rightarrow> u8 list" where
  "empty_node_bytes name =
     (let end_token_offset = align4 (4 + length name + 1) in
      to_be_bytes 4 FDT_BEGIN_NODE @ name @ replicate (end_token_offset - (4 + length name)) 0 @ to_be_bytes 4 FDT_END_NODE)"

definition insert_child_node :: "memory \<Rightarrow> Dtb \<Rightarrow> nat \<Rightarrow> u8 list \<Rightarrow> (DtbError, nat \<times> nat, memory) outcome" where
  "insert_child_node mem self parent_end_offset name =
     (if USIZE_LIMIT \<le> 4 + length name + 1 + 3 + 4 then (Inl SizeOverflow, mem)
      else if 4 + 256 + 4 + 3 < 4 + length name + 1 + 3 + 4 then (Inl DtbBufferTooSmall, mem)
      else
        sbind (splice_struct mem self (structure_offset_in_blob mem self parent_end_offset) 0 (empty_node_bytes name)) (\<lambda>_ mem.
        sbind (pure_op (fdt_view mem self) mem) (\<lambda>fdt mem.
        sbind (pure_op (ok_or BadStructure (node_at_offset fdt parent_end_offset)) mem) (\<lambda>inserted mem.
        (Inr (begin_offset inserted, end_offset inserted), mem)))))"

fun create_components :: "memory \<Rightarrow> Dtb \<Rightarrow> nat \<times> nat \<Rightarrow> u8 list list \<Rightarrow> (DtbError, unit, memory) outcome" where
  "create_components mem self parent [] = (Inr (), mem)"
| "create_components mem self parent (component # components) =
     (if component = [] then (Inl DtbInvalidPath, mem) else
      sbind (pure_op (fdt_view mem self) mem) (\<lambda>fdt mem.
      sbind (pure_op (ok_or BadStructure (node_at_offset fdt (fst parent))) mem) (\<lambda>parent_node mem.
      case find_child fdt parent_node component of
        Some child \<Rightarrow> create_components mem self (begin_offset child, end_offset child) components
      | None \<Rightarrow>
          sbind (insert_child_node mem self (snd parent) component) (\<lambda>child mem.
          create_components mem self child components))))"

definition create_node :: "memory \<Rightarrow> Dtb \<Rightarrow> u8 list \<Rightarrow> (DtbError, unit, memory) outcome" where
  "create_node mem self path =
     (case split_slash path of
        [] \<Rightarrow> (Inl DtbInvalidPath, mem)
      | first # components \<Rightarrow>
          if first \<noteq> [] then (Inl DtbInvalidPath, mem) else
          sbind (pure_op (fdt_view mem self) mem) (\<lambda>fdt mem.
          sbind (pure_op (ok_or BadStructure (root_node fdt)) mem) (\<lambda>root mem.
          create_components mem self (begin_offset root, end_offset root) components)))"

end
