(* ===== verification/DtbTree.thy ===== *)
theory DtbTree
  imports DtbRead
begin

unbundle bit_operations_syntax

text \<open>
  The reader of \<open>DtbRead\<close> on well-formed blobs.

  A device tree is a \<open>dt_item\<close>: properties, no-op padding and nested nodes in the order they are
  stored. \<open>flatten\<close> is the structure-block encoding of the flattened device-tree format. The lemmas
  show that the reader, run on a block that contains the encoding of a node at a four-byte-aligned
  offset, finds its end, its name, its properties and its direct children.
\<close>

section \<open>Trees and their encoding\<close>

datatype dt_item =
    PropItem (prop_name_offset: nat) (prop_value: "u8 list")
  | NopItem
  | NodeItem (item_name: "u8 list") (node_items: "dt_item list")

definition be32 :: "u32 \<Rightarrow> u8 list" where
  "be32 w = to_be_bytes 4 w"

definition pad4 :: "nat \<Rightarrow> u8 list" where
  "pad4 n = replicate (align4 n - n) 0"

fun flatten :: "dt_item \<Rightarrow> u8 list" where
  "flatten (PropItem name_offset v) =
     be32 FDT_PROP @ be32 (of_nat (length v)) @ be32 (of_nat name_offset) @ v @ pad4 (length v)"
| "flatten NopItem = be32 FDT_NOP"
| "flatten (NodeItem name items) =
     be32 FDT_BEGIN_NODE @ (name @ [0] @ pad4 (length name + 1)) @ concat (map flatten items) @ be32 FDT_END_NODE"

abbreviation flatten_all :: "dt_item list \<Rightarrow> u8 list" where
  "flatten_all items \<equiv> concat (map flatten items)"

text \<open>Names are NUL-free UTF-8, lengths and string offsets fit their 32-bit cells, and every property
  name is a string of the strings block.\<close>

fun valid_item :: "Fdt \<Rightarrow> dt_item \<Rightarrow> bool" where
  "valid_item fdt (PropItem name_offset v) \<longleftrightarrow>
     name_offset < 2 ^ 32 \<and> length v < 2 ^ 32 \<and> string_at fdt name_offset \<noteq> None"
| "valid_item fdt NopItem \<longleftrightarrow> True"
| "valid_item fdt (NodeItem name items) \<longleftrightarrow>
     0 \<notin> set name \<and> utf8_valid name \<and> (\<forall>i \<in> set items. valid_item fdt i)"

text \<open>\<open>x\<close> is stored at offset \<open>k\<close> of the structure block.\<close>

definition at_offset :: "Fdt \<Rightarrow> nat \<Rightarrow> u8 list \<Rightarrow> bool" where
  "at_offset fdt k x \<longleftrightarrow> k + length x \<le> length (struct_block fdt)
     \<and> take (length x) (drop k (struct_block fdt)) = x"

section \<open>Layout lemmas\<close>

lemma length_be32 [simp]: "length (be32 w) = 4"
  by (simp add: be32_def)

lemma align4_dvd: "4 dvd k \<Longrightarrow> align4 (k + n) = k + align4 n"
proof -
  assume "4 dvd k"
  then have "(k + (n + 3)) mod 4 = (n + 3) mod 4" by (metis dvd_imp_mod_0 mod_add_left_eq add_0)
  then show ?thesis
    using mod_less_eq_dividend [of "n + 3" 4] by (simp add: align4_def add.assoc)
qed

lemma length_pad4: "n + length (pad4 n) = align4 n"
  using align4_bounds(1) [of n] by (simp add: pad4_def)

lemma flatten_dvd: "4 dvd length (flatten i)"
proof (induction i)
  case (PropItem n v)
  have "length (flatten (PropItem n v)) = 12 + (length v + length (pad4 (length v)))" by simp
  then show ?case using align4_bounds(3) [of "length v"] by (simp add: length_pad4)
next
  case NopItem
  then show ?case by simp
next
  case (NodeItem name items)
  have "4 dvd length (flatten_all items)" using NodeItem by (induction items) auto
  moreover have "length (flatten (NodeItem name items))
      = 8 + (length name + 1 + length (pad4 (length name + 1))) + length (flatten_all items)" by simp
  ultimately show ?case using align4_bounds(3) [of "length name + 1"] by (simp only: length_pad4) simp
qed

lemma flatten_all_dvd: "4 dvd length (flatten_all items)"
  using flatten_dvd by (induction items) auto

lemma at_offset_append:
  "at_offset fdt k (x @ y) \<longleftrightarrow> at_offset fdt k x \<and> at_offset fdt (k + length x) y"
proof -
  have "take (length x + length y) z = x @ y \<longleftrightarrow> take (length x) z = x \<and> take (length y) (drop (length x) z) = y"
    if "length x + length y \<le> length z" for z :: "u8 list"
    using that by (auto simp: take_add append_eq_append_conv)
  then show ?thesis unfolding at_offset_def
    by (auto simp: add.commute add.left_commute)
qed

lemma at_offset_slice:
  "at_offset fdt k x \<Longrightarrow> slice_get (struct_block fdt) k (k + length x) = Some x"
  by (simp add: at_offset_def slice_get_def)

lemma at_offset_token: "at_offset fdt k (be32 w) \<Longrightarrow> read_token fdt k = Some w"
proof -
  assume "at_offset fdt k (be32 w)"
  from at_offset_slice [OF this] show ?thesis
    using from_be_to_be [of 4 w] by (simp add: read_token_def read_be_u32_from_slice_def be32_def)
qed

lemma at_offset_c_string:
  assumes "at_offset fdt k (name @ [0])" and "0 \<notin> set name" and "utf8_valid name"
  shows "read_c_string (struct_block fdt) k = Some (name, k + length name + 1)"
proof -
  obtain rest where r: "drop k (struct_block fdt) = name @ 0 # rest"
    using assms(1) unfolding at_offset_def
    by (metis append.assoc append_Cons append_Nil append_take_drop_id)
  have "k \<le> length (struct_block fdt)" using assms(1) by (simp add: at_offset_def)
  then show ?thesis using r assms(2,3)
    by (simp add: read_c_string_def slice_from_def position_zero_append from_utf8_def)
qed

lemma after_begin_node_at:
  assumes k: "4 dvd k" "k + 4 < 2 ^ 64" and a: "at_offset fdt k (be32 FDT_BEGIN_NODE @ (name @ [0] @ pad4 (length name + 1)))"
    and n: "0 \<notin> set name" "utf8_valid name"
  shows "after_begin_node fdt k = Some (k + 4 + align4 (length name + 1))"
proof -
  have t: "read_token fdt k = Some FDT_BEGIN_NODE" and "at_offset fdt (k + 4) ((name @ [0]) @ pad4 (length name + 1))"
    using a at_offset_append [of fdt k "be32 FDT_BEGIN_NODE"] by (auto simp: at_offset_token)
  then have s: "at_offset fdt (k + 4) (name @ [0])" using at_offset_append by blast
  have "align4 (k + 4 + (length name + 1)) = k + 4 + align4 (length name + 1)"
    using k(1) by (intro align4_dvd) simp
  then show ?thesis
    using t k(2) at_offset_c_string [OF s n] by (simp add: after_begin_node_def us_checked_add_def add.assoc)
qed

lemma after_property_at:
  assumes k: "4 dvd k" "k + 12 + length v < 2 ^ 64" and a: "at_offset fdt k (flatten (PropItem n v))"
    and v: "length v < 2 ^ 32"
  shows "after_property fdt k = Some (k + length (flatten (PropItem n v)))"
proof -
  have t: "read_token fdt (k + 4) = Some (of_nat (length v))" and s: "at_offset fdt (k + 12) v"
    using a by (auto simp: at_offset_append at_offset_token add.assoc)
  have u: "unat (of_nat (length v) :: u32) = length v" using v by (simp add: unat_of_nat)
  have "align4 (k + 12 + length v) = k + 12 + align4 (length v)"
    using k(1) by (intro align4_dvd) simp
  then show ?thesis
    using t k(2) at_offset_slice [OF s] u length_pad4 [of "length v"]
    by (simp add: after_property_def us_checked_add_def add.assoc)
qed

section \<open>The end of a node\<close>

text \<open>Blobs are at most \<open>2 ^ 32\<close> bytes long, as their sizes are 32-bit fields.\<close>

definition block_ok :: "Fdt \<Rightarrow> bool" where
  "block_ok fdt \<longleftrightarrow> length (struct_block fdt) < 2 ^ 32"

lemma at_offset_lt: "block_ok fdt \<Longrightarrow> at_offset fdt k x \<Longrightarrow> k + length x < 2 ^ 32"
  by (simp add: at_offset_def block_ok_def)

definition skips :: "Fdt \<Rightarrow> dt_item \<Rightarrow> bool" where
  "skips fdt i \<longleftrightarrow> (\<forall>d k. 0 < d \<longrightarrow> 4 dvd k \<longrightarrow> d + length (flatten i) < 2 ^ 64 \<longrightarrow> at_offset fdt k (flatten i) \<longrightarrow>
     node_end_loop fdt d k = node_end_loop fdt d (k + length (flatten i)))"

lemma skips_all:
  assumes "\<forall>i \<in> set items. skips fdt i"
  shows "0 < d \<Longrightarrow> 4 dvd k \<Longrightarrow> d + length (flatten_all items) < 2 ^ 64 \<Longrightarrow> at_offset fdt k (flatten_all items) \<Longrightarrow>
    node_end_loop fdt d k = node_end_loop fdt d (k + length (flatten_all items))"
  using assms
proof (induction items arbitrary: k)
  case Nil
  then show ?case by simp
next
  case (Cons i items)
  have a: "at_offset fdt k (flatten i)" "at_offset fdt (k + length (flatten i)) (flatten_all items)"
    using Cons.prems(4) by (auto simp: at_offset_append)
  have "node_end_loop fdt d k = node_end_loop fdt d (k + length (flatten i))"
    using Cons.prems a unfolding skips_def by auto
  also have "\<dots> = node_end_loop fdt d (k + length (flatten i) + length (flatten_all items))"
    using Cons.prems a flatten_dvd [of i] by (intro Cons.IH) auto
  finally show ?case by (simp add: add.assoc)
qed

lemma flatten_node_parts:
  assumes "at_offset fdt k (flatten (NodeItem name items))"
  defines "h \<equiv> 4 + align4 (length name + 1)"
  shows "at_offset fdt k (be32 FDT_BEGIN_NODE @ (name @ [0] @ pad4 (length name + 1)))"
    and "at_offset fdt (k + h) (flatten_all items)"
    and "at_offset fdt (k + h + length (flatten_all items)) (be32 FDT_END_NODE)"
    and "length (flatten (NodeItem name items)) = h + length (flatten_all items) + 4"
    and "4 dvd h"
proof -
  have hl: "length (be32 FDT_BEGIN_NODE @ (name @ [0] @ pad4 (length name + 1))) = h"
    using length_pad4 [of "length name + 1"] by (simp add: h_def)
  have *: "flatten (NodeItem name items)
      = (be32 FDT_BEGIN_NODE @ (name @ [0] @ pad4 (length name + 1))) @ flatten_all items @ be32 FDT_END_NODE"
    by simp
  from assms(1) show "at_offset fdt k (be32 FDT_BEGIN_NODE @ (name @ [0] @ pad4 (length name + 1)))"
    "at_offset fdt (k + h) (flatten_all items)"
    "at_offset fdt (k + h + length (flatten_all items)) (be32 FDT_END_NODE)"
    unfolding * at_offset_append [of _ _ "be32 FDT_BEGIN_NODE @ (name @ [0] @ pad4 (length name + 1))"]
      at_offset_append [of _ _ "flatten_all items"] hl by blast+
  show "length (flatten (NodeItem name items)) = h + length (flatten_all items) + 4"
    unfolding * length_append [of "be32 FDT_BEGIN_NODE @ (name @ [0] @ pad4 (length name + 1))"] hl by simp
  show "4 dvd h" using align4_bounds(3) by (simp add: h_def)
qed

lemma valid_skips:
  assumes "block_ok fdt"
  shows "valid_item fdt i \<Longrightarrow> skips fdt i"
proof (induction i)
  case (PropItem n v)
  show ?case unfolding skips_def
  proof (intro allI impI)
    fix d k :: nat
    assume k: "4 dvd k" and a: "at_offset fdt k (flatten (PropItem n v))"
    have "read_token fdt k = Some FDT_PROP" using a by (simp add: at_offset_append at_offset_token)
    moreover have "after_property fdt k = Some (k + length (flatten (PropItem n v)))"
      using k a PropItem at_offset_lt [OF assms a] by (intro after_property_at) auto
    ultimately show "node_end_loop fdt d k = node_end_loop fdt d (k + length (flatten (PropItem n v)))"
      by (subst node_end_loop.simps) (simp add: fdt_tokens del: flatten.simps)
  qed
next
  case NopItem
  show ?case unfolding skips_def
  proof (intro allI impI)
    fix d k :: nat
    assume "at_offset fdt k (flatten NopItem)"
    then have "read_token fdt k = Some FDT_NOP" "k + 4 < 2 ^ 32"
      using at_offset_lt [OF assms, of k "be32 FDT_NOP"] by (auto simp: at_offset_token)
    then show "node_end_loop fdt d k = node_end_loop fdt d (k + length (flatten NopItem))"
      by (subst node_end_loop.simps) (simp add: fdt_tokens us_checked_add_def)
  qed
next
  case (NodeItem name items)
  show ?case unfolding skips_def
  proof (intro allI impI)
    fix d k :: nat
    assume d: "0 < d" "d + length (flatten (NodeItem name items)) < 2 ^ 64"
      and k: "4 dvd k" and a: "at_offset fdt k (flatten (NodeItem name items))"
    define h where "h = 4 + align4 (length name + 1)"
    note p = flatten_node_parts [OF a, folded h_def]
    have lt: "k + h + length (flatten_all items) + 4 < 2 ^ 32"
      using at_offset_lt [OF assms p(3)] by simp
    have b: "read_token fdt k = Some FDT_BEGIN_NODE" using p(1) by (simp add: at_offset_append at_offset_token)
    have ab: "after_begin_node fdt k = Some (k + h)"
      using after_begin_node_at [OF k _ p(1)] NodeItem.prems lt by (simp add: h_def add.assoc)
    have e: "read_token fdt (k + h + length (flatten_all items)) = Some FDT_END_NODE"
      using p(3) by (rule at_offset_token)
    have "node_end_loop fdt d k = node_end_loop fdt (d + 1) (k + h)"
      using b ab d p(4) by (subst node_end_loop.simps) (simp add: fdt_tokens us_checked_add_def)
    also have "\<dots> = node_end_loop fdt (d + 1) (k + h + length (flatten_all items))"
      using NodeItem k p d by (intro skips_all) auto
    also have "\<dots> = node_end_loop fdt d (k + length (flatten (NodeItem name items)))"
      using e lt d(1) unfolding p(4)
      by (subst node_end_loop.simps) (simp add: fdt_tokens us_checked_add_def us_checked_sub_def add.assoc)
    finally show "node_end_loop fdt d k = node_end_loop fdt d (k + length (flatten (NodeItem name items)))" .
  qed
qed

definition node_view :: "nat \<Rightarrow> dt_item \<Rightarrow> FdtNode" where
  "node_view k i = \<lparr>node_name = item_name i, begin_offset = k, end_offset = k + length (flatten i) - 4\<rparr>"

lemma node_at_offset_flatten:
  assumes ok: "block_ok fdt" and v: "valid_item fdt (NodeItem name items)"
    and k: "4 dvd k" and a: "at_offset fdt k (flatten (NodeItem name items))"
  shows "node_at_offset fdt k = Some (node_view k (NodeItem name items))"
proof -
  define h where "h = 4 + align4 (length name + 1)"
  note p = flatten_node_parts [OF a, folded h_def]
  have lt: "k + h + length (flatten_all items) + 4 < 2 ^ 32"
    using at_offset_lt [OF ok p(3)] by simp
  have b: "read_token fdt k = Some FDT_BEGIN_NODE" using p(1) by (simp add: at_offset_append at_offset_token)
  have ab: "after_begin_node fdt k = Some (k + h)"
    using after_begin_node_at [OF k _ p(1)] v lt by (simp add: h_def add.assoc)
  have e: "read_token fdt (k + h + length (flatten_all items)) = Some FDT_END_NODE"
    using p(3) by (rule at_offset_token)
  have "node_end_loop fdt 0 k = node_end_loop fdt 1 (k + h)"
    using b ab by (subst node_end_loop.simps) (simp add: fdt_tokens us_checked_add_def)
  also have "\<dots> = node_end_loop fdt 1 (k + h + length (flatten_all items))"
    using valid_skips [OF ok] v k p lt by (intro skips_all) auto
  also have "\<dots> = Some (k + h + length (flatten_all items))"
    using e by (subst node_end_loop.simps) (simp add: fdt_tokens us_checked_sub_def)
  finally have ne: "node_end_offset fdt k = Some (k + h + length (flatten_all items))"
    by (simp add: node_end_offset_def)
  have "at_offset fdt (k + 4) ((name @ [0]) @ pad4 (length name + 1))"
    using p(1) at_offset_append [of fdt k "be32 FDT_BEGIN_NODE"] by simp
  then have "at_offset fdt (k + 4) (name @ [0])" using at_offset_append by blast
  then show ?thesis using b ne lt at_offset_c_string [of fdt "k + 4" name] v p(4)
    by (simp add: node_at_offset_def us_checked_add_def node_view_def)
qed

section \<open>Children and properties\<close>

text \<open>The direct children of a node, with the offsets they are stored at.\<close>

fun child_views :: "nat \<Rightarrow> dt_item list \<Rightarrow> FdtNode list" where
  "child_views k [] = []"
| "child_views k (i # items) =
     (case i of NodeItem _ _ \<Rightarrow> [node_view k i] | _ \<Rightarrow> []) @ child_views (k + length (flatten i)) items"

text \<open>Visiting a list in order until the visitor returns \<open>false\<close>.\<close>

fun visit_list :: "('n \<Rightarrow> 's \<Rightarrow> bool \<times> 's) \<Rightarrow> 'n list \<Rightarrow> 's \<Rightarrow> 's" where
  "visit_list visit [] s = s"
| "visit_list visit (c # cs) s =
     (case visit c s of (False, s') \<Rightarrow> s' | (True, s') \<Rightarrow> visit_list visit cs s')"

text \<open>The value of a property: the first one of that name among the properties before the first
  subnode.\<close>

fun lookup_prop :: "Fdt \<Rightarrow> u8 list \<Rightarrow> dt_item list \<Rightarrow> u8 list option" where
  "lookup_prop fdt name [] = None"
| "lookup_prop fdt name (PropItem n v # items) =
     (if string_at fdt n = Some name then Some v else lookup_prop fdt name items)"
| "lookup_prop fdt name (NopItem # items) = lookup_prop fdt name items"
| "lookup_prop fdt name (NodeItem _ _ # items) = None"

definition content_offset :: "nat \<Rightarrow> u8 list \<Rightarrow> nat" where
  "content_offset k name = k + (4 + align4 (length name + 1))"

lemma flatten_pos: "4 \<le> length (flatten i)"
  by (cases i) simp_all

lemma child_loop_items:
  assumes ok: "block_ok fdt"
  shows "at_offset fdt k (flatten_all items) \<Longrightarrow> 4 dvd k \<Longrightarrow> \<forall>i \<in> set items. valid_item fdt i \<Longrightarrow>
    e = k + length (flatten_all items) \<Longrightarrow>
    child_loop fdt e visit k s = visit_list visit (child_views k items) s"
proof (induction items arbitrary: k s)
  case Nil
  then show ?case by (simp add: child_loop.simps)
next
  case (Cons i items)
  have a: "at_offset fdt k (flatten i)" "at_offset fdt (k + length (flatten i)) (flatten_all items)"
    using Cons.prems(1) by (auto simp: at_offset_append)
  have lt: "k < e" using Cons.prems(4) flatten_pos [of i] by auto
  have ih: "child_loop fdt e visit (k + length (flatten i)) s' = visit_list visit (child_views (k + length (flatten i)) items) s'" for s'
    using Cons.prems a flatten_dvd [of i] by (intro Cons.IH) auto
  note lim = at_offset_lt [OF ok a(1)]
  show ?case
  proof (cases i)
    case (PropItem n v)
    have t: "read_token fdt k = Some FDT_PROP" using a(1) PropItem by (simp add: at_offset_append at_offset_token)
    have "after_property fdt k = Some (k + length (flatten i))"
      unfolding PropItem using Cons.prems a(1) lim by (intro after_property_at) (auto simp: PropItem)
    then show ?thesis using lt t ih PropItem by (subst child_loop.simps) (simp add: fdt_tokens)
  next
    case NopItem
    have t: "read_token fdt k = Some FDT_NOP" using a(1) NopItem by (simp add: at_offset_token)
    then show ?thesis using lt ih NopItem by (subst child_loop.simps) (simp add: fdt_tokens)
  next
    case (NodeItem name its)
    have t: "read_token fdt k = Some FDT_BEGIN_NODE" using a(1) NodeItem by (simp add: at_offset_append at_offset_token)
    have n: "node_at_offset fdt k = Some (node_view k i)"
      unfolding NodeItem using Cons.prems a(1) by (intro node_at_offset_flatten [OF ok]) (auto simp: NodeItem)
    have "us_checked_add (end_offset (node_view k i)) 4 = Some (k + length (flatten i))"
      using lim flatten_pos [of i] by (simp add: us_checked_add_def node_view_def)
    then show ?thesis using lt t n ih NodeItem
      by (subst child_loop.simps) (auto simp: fdt_tokens split: prod.splits bool.splits)
  qed
qed

lemma property_loop_items:
  assumes ok: "block_ok fdt"
  shows "at_offset fdt k (flatten_all items) \<Longrightarrow> 4 dvd k \<Longrightarrow> \<forall>i \<in> set items. valid_item fdt i \<Longrightarrow>
    e = k + length (flatten_all items) \<Longrightarrow> property_loop fdt e name k = lookup_prop fdt name items"
proof (induction items arbitrary: k)
  case Nil
  then show ?case by (simp add: property_loop.simps)
next
  case (Cons i items)
  have a: "at_offset fdt k (flatten i)" "at_offset fdt (k + length (flatten i)) (flatten_all items)"
    using Cons.prems(1) by (auto simp: at_offset_append)
  have lt: "k < e" using Cons.prems(4) flatten_pos [of i] by auto
  have ih: "property_loop fdt e name (k + length (flatten i)) = lookup_prop fdt name items"
    using Cons.prems a flatten_dvd [of i] by (intro Cons.IH) auto
  note lim = at_offset_lt [OF ok a(1)]
  show ?case
  proof (cases i)
    case (PropItem n v)
    have t: "read_token fdt k = Some FDT_PROP" "read_token fdt (k + 4) = Some (of_nat (length v))"
        "read_token fdt (k + 8) = Some (of_nat n)" and sl: "at_offset fdt (k + 12) v"
      using a(1) PropItem by (auto simp: at_offset_append at_offset_token add.assoc)
    have u: "unat (of_nat (length v) :: u32) = length v" "unat (of_nat n :: u32) = n"
      using Cons.prems(3) PropItem by (simp_all add: unat_of_nat)
    have al: "align4 (k + 12 + length v) = k + length (flatten i)"
      using align4_dvd [of "k + 12" "length v"] Cons.prems(2) length_pad4 [of "length v"] PropItem by simp
    obtain nm where nm: "string_at fdt n = Some nm" using Cons.prems(3) PropItem by auto
    have ca: "us_checked_add (k + 12) (length v) = Some (k + 12 + length v)"
      using lim PropItem by (simp add: us_checked_add_def)
    show ?thesis using lt t u nm ca al ih at_offset_slice [OF sl] PropItem
      by (subst property_loop.simps) (simp add: fdt_tokens)
  next
    case NopItem
    have t: "read_token fdt k = Some FDT_NOP" using a(1) NopItem by (simp add: at_offset_token)
    then show ?thesis using lt ih NopItem by (subst property_loop.simps) (simp add: fdt_tokens)
  next
    case (NodeItem nm its)
    have t: "read_token fdt k = Some FDT_BEGIN_NODE" using a(1) NodeItem by (simp add: at_offset_append at_offset_token)
    then show ?thesis using lt NodeItem by (subst property_loop.simps) (simp add: fdt_tokens)
  qed
qed

lemma node_content:
  assumes ok: "block_ok fdt" and v: "valid_item fdt (NodeItem name items)"
    and k: "4 dvd k" and a: "at_offset fdt k (flatten (NodeItem name items))"
  shows "after_begin_node fdt k = Some (content_offset k name)"
    and "at_offset fdt (content_offset k name) (flatten_all items)" and "4 dvd content_offset k name"
    and "end_offset (node_view k (NodeItem name items)) = content_offset k name + length (flatten_all items)"
proof -
  note p = flatten_node_parts [OF a]
  have lt: "k + 4 < 2 ^ 64" using at_offset_lt [OF ok a] by simp
  show "after_begin_node fdt k = Some (content_offset k name)"
    using after_begin_node_at [OF k lt p(1)] v by (simp add: content_offset_def add.assoc)
  show "at_offset fdt (content_offset k name) (flatten_all items)" "4 dvd content_offset k name"
    using p(2,5) k by (simp_all add: content_offset_def)
  show "end_offset (node_view k (NodeItem name items)) = content_offset k name + length (flatten_all items)"
    using p(4) by (simp add: node_view_def content_offset_def)
qed

lemma for_each_child_flatten:
  assumes "block_ok fdt" and "valid_item fdt (NodeItem name items)"
    and "4 dvd k" and "at_offset fdt k (flatten (NodeItem name items))"
  shows "for_each_child fdt (node_view k (NodeItem name items)) visit s
    = visit_list visit (child_views (content_offset k name) items) s"
  using child_loop_items [OF assms(1) node_content(2,3) [OF assms] _ node_content(4) [OF assms]] assms(2)
    node_content(1) [OF assms] by (simp add: for_each_child_def) (simp add: node_view_def)

lemma get_property_flatten:
  assumes "block_ok fdt" and "valid_item fdt (NodeItem name items)"
    and "4 dvd k" and "at_offset fdt k (flatten (NodeItem name items))"
  shows "get_property fdt (node_view k (NodeItem name items)) p = lookup_prop fdt p items"
  using property_loop_items [OF assms(1) node_content(2,3) [OF assms] _ node_content(4) [OF assms]] assms(2)
    node_content(1) [OF assms] by (simp add: get_property_def) (simp add: node_view_def)

section \<open>Finding nodes\<close>

lemma visit_list_find:
  "visit_list (\<lambda>c result. if node_name c = name then (False, Some c) else (True, result)) cs r
   = (case find (\<lambda>c. node_name c = name) cs of None \<Rightarrow> r | Some c \<Rightarrow> Some c)"
  by (induction cs) auto

text \<open>The first direct child of a name, with its offset, and the node a list of names leads to.\<close>

fun find_sub :: "nat \<Rightarrow> dt_item list \<Rightarrow> u8 list \<Rightarrow> (nat \<times> dt_item) option" where
  "find_sub k [] name = None"
| "find_sub k (i # items) name =
     (case i of
        NodeItem nm its \<Rightarrow>
          if nm = name then Some (k, i) else find_sub (k + length (flatten i)) items name
      | _ \<Rightarrow> find_sub (k + length (flatten i)) items name)"

fun resolve :: "nat \<Rightarrow> dt_item \<Rightarrow> u8 list list \<Rightarrow> (nat \<times> dt_item) option" where
  "resolve k i [] = Some (k, i)"
| "resolve k i (c # cs) =
     (case find_sub (content_offset k (item_name i)) (node_items i) c of
        None \<Rightarrow> None
      | Some (k', i') \<Rightarrow> resolve k' i' cs)"

lemma find_child_views:
  "find (\<lambda>c. node_name c = name) (child_views k items)
   = map_option (\<lambda>(k', i). node_view k' i) (find_sub k items name)"
proof (induction items arbitrary: k)
  case (Cons i items)
  then show ?case by (cases i) (auto simp: node_view_def)
qed simp

lemma find_child_flatten:
  assumes "block_ok fdt" and "valid_item fdt (NodeItem nm items)"
    and "4 dvd k" and "at_offset fdt k (flatten (NodeItem nm items))"
  shows "find_child fdt (node_view k (NodeItem nm items)) name
    = map_option (\<lambda>(k', i). node_view k' i) (find_sub (content_offset k nm) items name)"
  unfolding find_child_def for_each_child_flatten [OF assms] visit_list_find find_child_views [symmetric]
  by (simp split: option.splits)

lemma find_sub_at:
  "find_sub k items name = Some (k', i) \<Longrightarrow> at_offset fdt k (flatten_all items) \<Longrightarrow> 4 dvd k \<Longrightarrow>
   \<forall>x \<in> set items. valid_item fdt x \<Longrightarrow>
   at_offset fdt k' (flatten i) \<and> 4 dvd k' \<and> valid_item fdt i \<and> (\<exists>its. i = NodeItem name its)"
proof (induction items arbitrary: k)
  case (Cons x items)
  have a: "at_offset fdt k (flatten x)" "at_offset fdt (k + length (flatten x)) (flatten_all items)"
    using Cons.prems(2) by (auto simp: at_offset_append)
  have ih: "find_sub (k + length (flatten x)) items name = Some (k', i) \<Longrightarrow> ?case"
    using Cons.prems a(2) flatten_dvd [of x] by (intro Cons.IH [of "k + length (flatten x)"]) auto
  show ?case using Cons.prems a(1) ih by (cases x) (auto split: if_splits)
qed simp

lemma walk_components_flatten:
  assumes ok: "block_ok fdt"
  shows "valid_item fdt (NodeItem nm items) \<Longrightarrow> 4 dvd k \<Longrightarrow> at_offset fdt k (flatten (NodeItem nm items)) \<Longrightarrow>
    [] \<notin> set cs \<Longrightarrow>
    walk_components fdt (node_view k (NodeItem nm items)) cs
    = map_option (\<lambda>(k', i). node_view k' i) (resolve k (NodeItem nm items) cs)"
proof (induction cs arbitrary: k nm items)
  case (Cons c cs)
  note n = node_content [OF ok Cons.prems(1-3)]
  show ?case
  proof (cases "find_sub (content_offset k nm) items c")
    case None
    then show ?thesis using Cons.prems find_child_flatten [OF ok Cons.prems(1-3)] by simp
  next
    case (Some p)
    obtain k' i where p: "p = (k', i)" by (cases p)
    note s = find_sub_at [OF Some [unfolded p] n(2,3)]
    then obtain its where i: "i = NodeItem c its" using Cons.prems(1) by auto
    have "walk_components fdt (node_view k' (NodeItem c its)) cs
        = map_option (\<lambda>(k', i). node_view k' i) (resolve k' (NodeItem c its) cs)"
      using s Cons.prems i by (intro Cons.IH) auto
    then show ?thesis using Some p i Cons.prems find_child_flatten [OF ok Cons.prems(1-3)] by auto
  qed
qed simp

definition path_of :: "u8 list list \<Rightarrow> u8 list" where
  "path_of cs = concat (map (\<lambda>c. 0x2f # c) cs)"

lemma split_slash_path:
  "cs \<noteq> [] \<Longrightarrow> \<forall>c \<in> set cs. 0x2f \<notin> set c \<Longrightarrow> split_slash (path_of cs) = [] # cs"
proof (induction cs)
  case (Cons c cs)
  show ?case
  proof (cases cs)
    case Nil
    then show ?thesis using Cons.prems split_slash_plain [of c "[]"] by (simp add: path_of_def)
  next
    case (Cons d ds)
    then have "split_slash (path_of cs) = [] # cs" using Cons.IH Cons.prems by auto
    then show ?thesis using Cons.prems split_slash_plain [of c "path_of cs"] by (simp add: path_of_def)
  qed
qed simp

section \<open>Correctness of the reader\<close>

definition sample_tree :: dt_item where
  "sample_tree = NodeItem [] [PropItem 0 [0, 0, 0, 2], NopItem,
     NodeItem (str ''chosen'') [PropItem 5 (str ''ok'' @ [0])]]"

definition sample_fdt :: Fdt where
  "sample_fdt = \<lparr>fdt_base = 0x1000, total_size = 1000, reserve_map = [], struct_block = flatten sample_tree,
     strings = str ''cell'' @ [0] @ str ''name'' @ [0]\<rparr>"

lemma sample_string_at: "string_at sample_fdt 0 = Some (str ''cell'')" "string_at sample_fdt 5 = Some (str ''name'')"
  by (simp_all add: string_at_def sample_fdt_def slice_from_def str_def from_utf8_def)

lemma sample_flatten_length: "length (flatten sample_tree) = 64"
  by (simp add: sample_tree_def pad4_def align4_def str_def)

lemma sample_ok: "block_ok sample_fdt"
  using sample_flatten_length by (simp add: block_ok_def sample_fdt_def)

lemma sample_at: "at_offset sample_fdt 0 (flatten sample_tree)"
  by (simp add: at_offset_def sample_fdt_def)

lemma sample_valid: "valid_item sample_fdt sample_tree"
  by (simp add: sample_tree_def sample_string_at str_def)

text \<open>
  On every structure block that contains the encoding of a node at an aligned offset,
  \<open>node_at_offset\<close> returns the node's name and the offset of the \<open>FDT_END_NODE\<close> token that matches its
  \<open>FDT_BEGIN_NODE\<close>, however deeply nodes are nested inside.
\<close>
theorem node_at_offset_correct:
  assumes "block_ok fdt" and "valid_item fdt (NodeItem name items)"
    and "4 dvd k" and "at_offset fdt k (flatten (NodeItem name items))"
  shows "node_at_offset fdt k = Some \<lparr>node_name = name, begin_offset = k,
           end_offset = k + length (flatten (NodeItem name items)) - 4\<rparr>"
  using node_at_offset_flatten [OF assms] by (simp add: node_view_def)

theorem node_at_offset_correct_witness:
  "node_at_offset sample_fdt 0 = Some \<lparr>node_name = [], begin_offset = 0, end_offset = 60\<rparr>"
  using node_at_offset_correct [of sample_fdt "[]" _ 0, OF sample_ok _ _ sample_at [unfolded sample_tree_def]]
    sample_valid sample_flatten_length by (simp add: sample_tree_def)

text \<open>
  C12: \<open>get_property\<close> on an encoded node returns the value of the first property of that name among the
  properties that precede the first subnode, and nothing else: properties of subnodes are never
  returned.
\<close>
theorem get_property_correct:
  assumes "block_ok fdt" and "valid_item fdt (NodeItem name items)"
    and "4 dvd k" and "at_offset fdt k (flatten (NodeItem name items))"
    and "node_at_offset fdt k = Some node"
  shows "get_property fdt node p = lookup_prop fdt p items"
  using get_property_flatten [OF assms(1-4)] node_at_offset_flatten [OF assms(1-4)] assms(5) by simp

theorem get_property_correct_witness:
  "\<exists>node. node_at_offset sample_fdt 0 = Some node \<and> get_property sample_fdt node (str ''cell'') = Some [0, 0, 0, 2]
     \<and> get_property sample_fdt node (str ''name'') = None"
proof -
  note w = sample_ok sample_valid [unfolded sample_tree_def] dvd_0_right sample_at [unfolded sample_tree_def]
  obtain node where n: "node_at_offset sample_fdt 0 = Some node" using node_at_offset_flatten [OF w] by blast
  show ?thesis
    using n get_property_correct [OF w n, of "str ''cell''"] get_property_correct [OF w n, of "str ''name''"]
    by (auto simp: sample_string_at str_def)
qed

text \<open>
  C14: \<open>for_each_child\<close> calls the visitor on exactly the direct children of an encoded node, in order,
  and stops at the first call that returns \<open>false\<close>.
\<close>
theorem for_each_child_correct:
  assumes "block_ok fdt" and "valid_item fdt (NodeItem name items)"
    and "4 dvd k" and "at_offset fdt k (flatten (NodeItem name items))"
    and "node_at_offset fdt k = Some node"
  shows "for_each_child fdt node visit s = visit_list visit (child_views (content_offset k name) items) s"
  using for_each_child_flatten [OF assms(1-4)] node_at_offset_flatten [OF assms(1-4)] assms(5) by simp

theorem for_each_child_correct_witness:
  "\<exists>node. node_at_offset sample_fdt 0 = Some node
     \<and> for_each_child sample_fdt node (\<lambda>c names. (True, names @ [node_name c])) [] = [str ''chosen'']"
proof -
  note w = sample_ok sample_valid [unfolded sample_tree_def] dvd_0_right sample_at [unfolded sample_tree_def]
  obtain node where n: "node_at_offset sample_fdt 0 = Some node" using node_at_offset_flatten [OF w] by blast
  show ?thesis using n for_each_child_correct [OF w n, of "\<lambda>c names. (True, names @ [node_name c])" "[]"]
    by (simp add: node_view_def)
qed

lemma find_node_flatten:
  assumes ok: "block_ok fdt" and v: "valid_item fdt (NodeItem name items)"
    and a: "at_offset fdt 0 (flatten (NodeItem name items))"
    and cs: "cs \<noteq> []" "\<forall>c \<in> set cs. c \<noteq> [] \<and> 0x2f \<notin> set c"
  shows "find_node fdt (path_of cs) = map_option (\<lambda>(k, i). node_view k i) (resolve 0 (NodeItem name items) cs)"
proof -
  have "path_of cs \<noteq> str ''/''" using cs by (cases cs) (auto simp: path_of_def str_def)
  moreover have "split_slash (path_of cs) = [] # cs" using cs by (intro split_slash_path) auto
  moreover have "[] \<notin> set cs" using cs by auto
  ultimately show ?thesis
    using node_at_offset_flatten [OF ok v _ a] walk_components_flatten [OF ok v _ a]
    by (simp add: find_node_def root_node_def)
qed

text \<open>
  C13: \<open>find_node\<close> resolves an absolute path: from the root it follows, for each component, the first
  direct child of that name, and fails when there is none.
\<close>
theorem find_node_correct:
  assumes ok: "block_ok fdt" and v: "valid_item fdt (NodeItem name items)"
    and a: "at_offset fdt 0 (flatten (NodeItem name items))"
    and cs: "cs \<noteq> []" "\<forall>c \<in> set cs. c \<noteq> [] \<and> 0x2f \<notin> set c"
  shows "find_node fdt (path_of cs) = map_option (\<lambda>(k, i). node_view k i) (resolve 0 (NodeItem name items) cs)"
  using find_node_flatten [OF assms] .

theorem find_node_correct_witness:
  "map_option node_name (find_node sample_fdt (str ''/chosen'')) = Some (str ''chosen'')"
proof -
  have p: "path_of [str ''chosen''] = str ''/chosen''" by (simp add: path_of_def str_def)
  show ?thesis
    using find_node_correct [OF sample_ok sample_valid [unfolded sample_tree_def] sample_at [unfolded sample_tree_def],
        of "[str ''chosen'']"]
    unfolding p by (simp add: str_def node_view_def)
qed

section \<open>Untrusted blobs\<close>

lemma property_loop_slice:
  "property_loop self e name offset = Some v \<Longrightarrow> \<exists>a. slice_get (struct_block self) a (a + length v) = Some v"
proof (induction self e name offset rule: property_loop.induct)
  case (1 self e name offset)
  obtain token where lt: "offset < e" and t: "read_token self offset = Some token"
    using "1.prems" by (subst (asm) property_loop.simps) (auto split: if_splits option.split_asm)
  consider (property) "token = FDT_PROP" | (nop) "token = FDT_NOP"
    using "1.prems" t by (subst (asm) property_loop.simps) (auto split: if_splits)
  then show ?case
  proof cases
    case property
    obtain l n w nm where "read_token self (offset + 4) = Some l" "read_token self (offset + 8) = Some n"
      "us_checked_add (offset + 12) (unat l) = Some w" "string_at self (unat n) = Some nm"
      using "1.prems" t property lt
      by (subst (asm) property_loop.simps) (auto simp: Let_def split: option.split_asm)
    note r = this
    have "(if nm = name then slice_get (struct_block self) (offset + 12) w
        else property_loop self e name (align4 w)) = Some v"
      using "1.prems" t property lt r by (subst (asm) property_loop.simps) simp
    then show ?thesis
      using "1.IH"(1) [OF lt t property r(1,2) refl r(3,4)] by (auto simp: slice_simps split: if_splits intro!: exI [of _ "offset + 12"])
  next
    case nop
    then show ?thesis using "1.prems" t lt "1.IH"(2) [OF lt t]
      by (subst (asm) property_loop.simps) (auto simp: fdt_tokens)
  qed
qed

text \<open>
  On an arbitrary, possibly malformed blob the reader stays inside the structure block: a node it
  returns begins at a \<open>FDT_BEGIN_NODE\<close> token and ends at a \<open>FDT_END_NODE\<close> token after it, both inside the
  block, and a property value is a slice of the block.
\<close>
theorem reader_stays_inside:
  assumes "node_at_offset fdt k = Some node"
  shows "begin_offset node = k \<and> k \<le> end_offset node \<and> end_offset node + 4 \<le> length (struct_block fdt)
    \<and> read_token fdt k = Some FDT_BEGIN_NODE \<and> read_token fdt (end_offset node) = Some FDT_END_NODE
    \<and> (\<forall>p v. get_property fdt node p = Some v \<longrightarrow> (\<exists>a. slice_get (struct_block fdt) a (a + length v) = Some v))"
  using node_at_offset_bounds [OF assms] property_loop_slice
  by (auto simp: get_property_def bind_eq_Some_conv)

theorem reader_stays_inside_witness:
  "\<exists>node. node_at_offset sample_fdt 0 = Some node \<and> end_offset node + 4 \<le> 64"
proof -
  note w = sample_ok sample_valid [unfolded sample_tree_def] dvd_0_right sample_at [unfolded sample_tree_def]
  obtain node where n: "node_at_offset sample_fdt 0 = Some node" using node_at_offset_flatten [OF w] by blast
  have "length (struct_block sample_fdt) = 64" using sample_flatten_length by (simp add: sample_fdt_def)
  then show ?thesis using n reader_stays_inside [OF n] by auto
qed

lemma ptr_aligned: "(p :: u64) AND 7 = 0 \<longleftrightarrow> 8 dvd unat p"
proof -
  have "p AND 7 = take_bit 3 p" by (simp add: take_bit_eq_mask mask_eq_exp_minus_1)
  moreover have "unat (take_bit 3 p) = unat p mod 8" by (simp add: unat_take_bit_word)
  ultimately have "unat (p AND 7) = unat p mod 8" by simp
  then show ?thesis by (metis mod_eq_0_iff_dvd unat_0 word_unat_eq_iff)
qed

lemma length_read_bytes [simp]: "length (read_bytes mem p n) = n"
  by (simp add: read_bytes_def)

lemma from_ptr_shape:
  assumes "from_ptr mem p = Inr fdt"
  shows "p \<noteq> 0 \<and> 8 dvd unat p \<and> read_be_u32 mem p 0 = Some FDT_MAGIC \<and> fdt_base fdt = p
    \<and> 40 \<le> total_size fdt \<and> total_size fdt < 2 ^ 32 \<and> block_ok fdt
    \<and> (\<exists>a \<le> total_size fdt. reserve_map fdt = drop a (read_bytes mem p (total_size fdt)))
    \<and> (\<exists>a \<ge> 40. slice_get (read_bytes mem p (total_size fdt)) a (a + length (struct_block fdt)) = Some (struct_block fdt))
    \<and> (\<exists>a \<ge> 40. slice_get (read_bytes mem p (total_size fdt)) a (a + length (strings fdt)) = Some (strings fdt))"
proof -
  from assms obtain ts os og om zs zg :: u32 where
    p: "p \<noteq> 0" "p AND 7 = 0" and magic: "read_be_u32 mem p 0 = Some FDT_MAGIC"
    and ts: "40 \<le> unat ts" and lim: "unat om \<le> unat ts" "40 \<le> unat os" "unat os + unat zs \<le> unat ts"
      "40 \<le> unat og" "unat og + unat zg \<le> unat ts"
    and fdt: "fdt = \<lparr>fdt_base = p, total_size = unat ts,
            reserve_map = drop (unat om) (read_bytes mem p (unat ts)),
            struct_block = take (unat zs) (drop (unat os) (read_bytes mem p (unat ts))),
            strings = take (unat zg) (drop (unat og) (read_bytes mem p (unat ts)))\<rparr>"
    by (auto simp: from_ptr_def validate_dtb_pointer_def read_be_u32_def FDT_HEADER_SIZE_def rust_ops Let_def
        not_less split: if_splits)
  have "unat ts < 2 ^ 32" using unsigned_less [of ts] by simp
  moreover have "\<exists>a \<le> total_size fdt. reserve_map fdt = drop a (read_bytes mem p (total_size fdt))"
    unfolding fdt using lim by (intro exI [of _ "unat om"]) simp
  moreover have "\<exists>a \<ge> 40. slice_get (read_bytes mem p (total_size fdt)) a (a + length (struct_block fdt)) = Some (struct_block fdt)"
    unfolding fdt using lim by (intro exI [of _ "unat os"]) (simp add: slice_get_def)
  moreover have "\<exists>a \<ge> 40. slice_get (read_bytes mem p (total_size fdt)) a (a + length (strings fdt)) = Some (strings fdt)"
    unfolding fdt using lim by (intro exI [of _ "unat og"]) (simp add: slice_get_def)
  ultimately show ?thesis using p magic ts lim by (simp add: fdt ptr_aligned block_ok_def)
qed

definition sample_header :: "u8 list" where
  "sample_header = [0xd0, 0x0d, 0xfe, 0xed, 0, 0, 0, 40, 0, 0, 0, 40, 0, 0, 0, 40, 0, 0, 0, 40, 0, 0, 0, 17,
     0, 0, 0, 16, 0, 0, 0, 0, 0, 0, 0, 0, 0, 0, 0, 0]"

definition sample_memory :: "u64 \<Rightarrow> u8" where
  "sample_memory a = (if unat a - 0x1000 < 40 then sample_header ! (unat a - 0x1000) else 0)"



section \<open>Byte order\<close>

lemma from_be_to_be_word [simp]: "from_be (to_be w) = w"
proof -
  have "to_le_bytes 4 (from_le_bytes (to_be_bytes 4 w) :: u32) = to_be_bytes 4 w"
    by (intro to_le_from_le) simp_all
  then show ?thesis using from_be_to_be [of 4 w] by (simp add: from_be_def to_be_def)
qed

text \<open>
  The header accessors read back what the setters stored, for every value, and a setter leaves
  the other fields alone.
\<close>
theorem header_roundtrip:
  "header_total_size (set_total_size h n) = n \<and> header_off_dt_strings (set_off_dt_strings h n) = n
   \<and> header_size_dt_struct (set_size_dt_struct h n) = n \<and> header_size_dt_strings (set_size_dt_strings h n) = n
   \<and> header_magic (set_total_size h n) = header_magic h
   \<and> header_off_dt_struct (set_size_dt_struct (set_off_dt_strings h n) m) = header_off_dt_struct h"
  by (simp add: header_total_size_def set_total_size_def header_off_dt_strings_def set_off_dt_strings_def
      header_size_dt_struct_def set_size_dt_struct_def header_size_dt_strings_def set_size_dt_strings_def
      header_magic_def header_off_dt_struct_def)

text \<open>\<open>align4\<close> is the masked form of the source on 64-bit values.\<close>

lemma align4_word:
  assumes "unat v + 3 < 2 ^ 64"
  shows "unat ((v + 3) AND NOT 3 :: u64) = align4 (unat v)"
proof -
  have "unat ((v + 3) AND NOT (mask 2)) = unat (v + 3) - unat (v + 3) mod 2 ^ 2"
    by (rule unat_and_not_mask)
  moreover have "unat (v + 3) = unat v + 3" using assms unat_add_small [of v 3] by simp
  ultimately show ?thesis by (simp add: align4_def mask_eq_exp_minus_1)
qed

section \<open>Cells\<close>

lemma be_nat_4: "be_nat [a, b, c, d] = ((unat a * 256 + unat b) * 256 + unat c) * 256 + unat d"
  by simp

lemma read_cells_value:
  assumes "cells \<le> 2" and "length bytes = 4 * cells"
  shows "unat (read_cells bytes cells) = be_nat bytes"
proof -
  have word: "read_be_u32_from_slice bytes o' = Some (from_be_bytes (take 4 (drop o' bytes)))"
    if "o' + 4 \<le> length bytes" for o' using that by (simp add: read_be_u32_from_slice_def slice_get_def)
  have u: "unat (from_be_bytes xs :: u32) = be_nat xs" "be_nat xs < 2 ^ 32" if "length xs = 4" for xs
    using that be_nat_lt [of xs] unat_from_be [of xs, where 'a = 32] by simp_all
  consider "cells = 0" | "cells = 1" | "cells = 2" using assms(1) by linarith
  then show ?thesis
  proof cases
    case 1
    then show ?thesis using assms(2) by (simp add: read_cells_def read_cells_loop.simps)
  next
    case 2
    then have "read_cells bytes cells = ucast (from_be_bytes bytes :: u32)"
      using assms(2) word [of 0] by (simp add: read_cells_def read_cells_loop.simps Let_def)
    then show ?thesis using u [of bytes] assms(2) 2 by (simp add: unat_ucast_up)
  next
    case 3
    let ?x = "take 4 bytes" and ?y = "drop 4 bytes"
    have ly: "length ?x = 4" "length ?y = 4" using assms(2) 3 by simp_all
    have r: "read_cells bytes cells = push_bit 32 (ucast (from_be_bytes ?x :: u32)) OR ucast (from_be_bytes ?y :: u32)"
      using assms(2) word [of 0] word [of 4] 3 ly
      by (simp add: read_cells_def read_cells_loop.simps Let_def)
    have "push_bit 32 (ucast (from_be_bytes ?x :: u32) :: u64) OR ucast (from_be_bytes ?y :: u32)
        = push_bit 32 (ucast (from_be_bytes ?x :: u32)) + ucast (from_be_bytes ?y :: u32)"
      by (rule disjunctive_add_eq_or [symmetric]) (auto simp: bit_eq_iff bit_simps dest: bit_imp_le_length)
    then have "unat (read_cells bytes cells) = be_nat ?x * 2 ^ 32 + be_nat ?y"
      using u [OF ly(1)] u [OF ly(2)] r
      by (simp add: unat_word_ariths push_bit_eq_mult unat_ucast_up)
    also have "\<dots> = be_nat (?x @ ?y)" using be_nat_append [of ?x ?y] ly by simp
    finally show ?thesis by simp
  qed
qed

text \<open>
  C21: \<open>read_cells\<close> on one or two cells is the big-endian value of the bytes, and on no cells it is zero,
  so address and size cells up to 64 bits decode exactly.
\<close>
theorem read_cells_correct:
  assumes "cells \<le> 2" and "length bytes = 4 * cells"
  shows "unat (read_cells bytes cells) = be_nat bytes"
  using read_cells_value [OF assms] .

theorem read_cells_correct_witness: "unat (read_cells [0, 0, 0, 1, 0x80, 0, 0, 0] 2) = 0x180000000"
  using read_cells_correct [of 2 "[0, 0, 0, 1, 0x80, 0, 0, 0]"] by simp

end
