(* ===== verification/DtbEdit.thy ===== *)
theory DtbEdit
  imports DtbWrite DtbTree
begin

unbundle bit_operations_syntax

text \<open>
  The device-tree editor on the bytes of a blob and on the tree they encode.

  \<open>rep\<close> reads a blob as its header and the bytes behind it; every write of the editor is a list operation on
  them and leaves the memory outside the blob alone (\<open>frame\<close>). \<open>holds\<close> says that the blob consists of a reserve
  map, a structure block and a strings block in this order, with unused space at the end. On such blobs a splice
  replaces bytes of the structure block, and setting a property or creating a node is the corresponding update of
  the encoded tree.
\<close>

section \<open>Bytes of a blob\<close>

definition blob :: "memory \<Rightarrow> Dtb \<Rightarrow> u8 list" where
  "blob mem dtb = read_bytes mem (dtb_pointer dtb) (dtb_size dtb)"

definition fits :: "Dtb \<Rightarrow> bool" where
  "fits dtb \<longleftrightarrow> unat (dtb_pointer dtb) + dtb_size dtb \<le> 2 ^ 64 \<and> dtb_size dtb < 2 ^ 31"

text \<open>Nothing outside the blob changes.\<close>

definition frame :: "Dtb \<Rightarrow> memory \<Rightarrow> memory \<Rightarrow> bool" where
  "frame dtb mem mem' \<longleftrightarrow> (\<forall>a. dtb_size dtb \<le> unat (a - dtb_pointer dtb) \<longrightarrow> mem' a = mem a)"

lemma frame_refl [simp]: "frame dtb mem mem"
  by (simp add: frame_def)

lemma frame_trans: "frame dtb m1 m2 \<Longrightarrow> frame dtb m2 m3 \<Longrightarrow> frame dtb m1 m3"
  by (simp add: frame_def)

lemma length_blob [simp]: "length (blob mem dtb) = dtb_size dtb"
  by (simp add: blob_def)

lemma read_bytes_sub:
  "k + n \<le> N \<Longrightarrow> read_bytes mem (p + of_nat k) n = take n (drop k (read_bytes mem p N))"
  by (intro nth_equalityI) (simp_all add: read_bytes_def add.assoc)

lemma unat_offset: "k < 2 ^ 64 \<Longrightarrow> unat (p + of_nat k - p :: u64) = k"
  by (simp add: unat_of_nat)

lemma unat_offset_sub:
  assumes "i < 2 ^ 64" "k < 2 ^ 64"
  shows "unat ((p + of_nat i) - (p + of_nat k) :: u64) = (if k \<le> i then i - k else i + 2 ^ 64 - k)"
proof -
  have e: "(p + of_nat i) - (p + of_nat k) = of_nat i - (of_nat k :: u64)" by simp
  show ?thesis
  proof (cases "k \<le> i")
    case True
    have "unat (of_nat (i - k) :: u64) = i - k" using assms by (simp add: unat_of_nat)
    then show ?thesis using True unfolding e of_nat_diff [OF True] by simp
  next
    case False
    have "of_nat (i + 2 ^ 64 - k) = (of_nat (i + 2 ^ 64) - of_nat k :: u64)"
      using False assms by (intro of_nat_diff) simp
    also have "\<dots> = of_nat i - of_nat k" by (simp add: word_eq_iff_unsigned)
    finally have f: "of_nat i - of_nat k = (of_nat (i + 2 ^ 64 - k) :: u64)" by simp
    have "unat (of_nat (i + 2 ^ 64 - k) :: u64) = i + 2 ^ 64 - k" using False by (simp add: unat_of_nat)
    then show ?thesis using False unfolding e f by simp
  qed
qed

lemma write_memory_blob:
  assumes "off + length bs \<le> n" and "n \<le> 2 ^ 64" and "off < 2 ^ 64"
  shows "read_bytes (write_memory mem (p + of_nat off) bs) p n
    = take off (read_bytes mem p n) @ bs @ drop (off + length bs) (read_bytes mem p n)"
proof (rule nth_equalityI)
  fix i
  assume "i < length (read_bytes (write_memory mem (p + of_nat off) bs) p n)"
  then have i: "i < n" "i < 2 ^ 64" using assms by simp_all
  show "read_bytes (write_memory mem (p + of_nat off) bs) p n ! i
    = (take off (read_bytes mem p n) @ bs @ drop (off + length bs) (read_bytes mem p n)) ! i"
    using i assms unat_offset_sub [OF i(2) assms(3), of p]
    by (auto simp: write_memory_def read_bytes_def nth_append)
qed (use assms in simp)

lemma copy_memory_blob:
  assumes "src + n \<le> N" and "dst + n \<le> N" and "N \<le> 2 ^ 64" "dst < 2 ^ 64"
  shows "read_bytes (copy_memory mem (p + of_nat src) (p + of_nat dst) n) p N
    = take dst (read_bytes mem p N) @ take n (drop src (read_bytes mem p N)) @ drop (dst + n) (read_bytes mem p N)"
proof (rule nth_equalityI)
  fix i
  assume "i < length (read_bytes (copy_memory mem (p + of_nat src) (p + of_nat dst) n) p N)"
  then have i: "i < N" "i < 2 ^ 64" using assms by simp_all
  have "src + i = i - dst + (dst + src)" if "dst \<le> i" using that by simp
  have a: "p + of_nat src + ((p + of_nat i) - (p + of_nat dst)) = (p + of_nat (src + (i - dst)) :: u64)" if "dst \<le> i"
    using that by (simp add: of_nat_diff)
  show "read_bytes (copy_memory mem (p + of_nat src) (p + of_nat dst) n) p N ! i
    = (take dst (read_bytes mem p N) @ take n (drop src (read_bytes mem p N)) @ drop (dst + n) (read_bytes mem p N)) ! i"
    using i assms unat_offset_sub [OF i(2) assms(4), of p] a
    by (auto simp: copy_memory_def read_bytes_def nth_append algebra_simps)
qed (use assms in simp)

lemma outside_offset:
  assumes "off + n \<le> dtb_size dtb" and "fits dtb" and "dtb_size dtb \<le> unat (a - dtb_pointer dtb)"
  shows "\<not> unat (a - (dtb_pointer dtb + of_nat off)) < n"
proof -
  define x where "x = a - dtb_pointer dtb"
  have "of_nat off \<le> x" using assms by (simp add: word_le_nat_alt x_def unat_of_nat fits_def)
  then have "unat (x - of_nat off) = unat x - off" using assms by (simp add: unat_sub unat_of_nat fits_def)
  moreover have "a - (dtb_pointer dtb + of_nat off) = x - of_nat off" by (simp add: x_def algebra_simps)
  ultimately have "unat (a - (dtb_pointer dtb + of_nat off)) = unat x - off" by argo
  then show ?thesis using assms(1,3) by (simp add: x_def)
qed

lemma write_memory_frame:
  "off + length bs \<le> dtb_size dtb \<Longrightarrow> fits dtb \<Longrightarrow> frame dtb mem (write_memory mem (dtb_pointer dtb + of_nat off) bs)"
  using outside_offset by (simp add: frame_def write_memory_def)

lemma copy_memory_frame:
  "dst + n \<le> dtb_size dtb \<Longrightarrow> fits dtb \<Longrightarrow> frame dtb mem (copy_memory mem src (dtb_pointer dtb + of_nat dst) n)"
  using outside_offset by (simp add: frame_def copy_memory_def)

section \<open>Header and body\<close>

definition rep :: "memory \<Rightarrow> Dtb \<Rightarrow> FdtHeader \<Rightarrow> u8 list \<Rightarrow> bool" where
  "rep mem dtb h body \<longleftrightarrow> blob mem dtb = header_bytes h @ body \<and> fits dtb"

lemma length_header_bytes [simp]: "length (header_bytes h) = 40"
  by (simp add: header_bytes_def)

lemma rep_size: "rep mem dtb h body \<Longrightarrow> dtb_size dtb = 40 + length body"
  using length_blob [of mem dtb] by (simp add: rep_def)

lemma rep_fits: "rep mem dtb h body \<Longrightarrow> fits dtb"
  by (simp add: rep_def)

lemma header_words:
  "map (\<lambda>i. take 4 (drop (4 * i) (header_bytes h @ body))) [0..<10] = map (to_le_bytes 4)
     [magic h, totalsize h, off_dt_struct h, off_dt_strings h, off_mem_rsvmap h, version h, last_comp_version h,
      boot_cpuid_phys h, size_dt_strings h, size_dt_struct h]"
  by (simp add: header_bytes_def upt_rec)

lemma rep_words:
  assumes "rep mem dtb h body"
  shows "map (\<lambda>i. read_bytes mem (dtb_pointer dtb + of_nat (4 * i)) 4) [0..<10] = map (to_le_bytes 4)
     [magic h, totalsize h, off_dt_struct h, off_dt_strings h, off_mem_rsvmap h, version h, last_comp_version h,
      boot_cpuid_phys h, size_dt_strings h, size_dt_struct h]"
proof -
  have "read_bytes mem (dtb_pointer dtb + of_nat (4 * i)) 4 = take 4 (drop (4 * i) (header_bytes h @ body))" if "i < 10" for i
    using read_bytes_sub [of "4 * i" 4 "dtb_size dtb" mem "dtb_pointer dtb"] that assms rep_size [OF assms]
    by (simp add: rep_def blob_def)
  then show ?thesis unfolding header_words [of h body, symmetric] by simp
qed

lemma le4: "from_le_bytes (to_le_bytes 4 (w :: u32)) = w"
  using from_le_to_le [of 4 w] by simp

lemma rep_header:
  assumes "rep mem dtb h body"
  shows "dtb_header mem dtb = h"
  using rep_words [OF assms] by (simp add: dtb_header_def header_word_def upt_rec Let_def le4)

lemma rep_be_words:
  assumes "rep mem dtb h body"
  shows "read_be_u32 mem (dtb_pointer dtb) 0 = Some (header_magic h)"
    "read_be_u32 mem (dtb_pointer dtb) 4 = Some (header_total_size h)"
    "read_be_u32 mem (dtb_pointer dtb) 8 = Some (header_off_dt_struct h)"
    "read_be_u32 mem (dtb_pointer dtb) 12 = Some (header_off_dt_strings h)"
    "read_be_u32 mem (dtb_pointer dtb) 16 = Some (header_off_mem_rsvmap h)"
    "read_be_u32 mem (dtb_pointer dtb) 20 = Some (header_version h)"
    "read_be_u32 mem (dtb_pointer dtb) 32 = Some (header_size_dt_strings h)"
    "read_be_u32 mem (dtb_pointer dtb) 36 = Some (header_size_dt_struct h)"
  using rep_words [OF assms]
  by (simp_all add: read_be_u32_def upt_rec header_magic_def header_total_size_def header_off_dt_struct_def
    header_off_dt_strings_def header_off_mem_rsvmap_def header_version_def header_size_dt_strings_def
    header_size_dt_struct_def from_be_def)

lemma rep_store:
  assumes "rep mem dtb h body"
  shows "rep (store_header mem dtb h') dtb h' body" and "frame dtb mem (store_header mem dtb h')"
  using write_memory_blob [of 0 "header_bytes h'" "dtb_size dtb" mem "dtb_pointer dtb"]
    write_memory_frame [of 0 "header_bytes h'" dtb mem] rep_size [OF assms] assms
  by (simp_all add: rep_def blob_def store_header_def fits_def)

lemma rep_write:
  assumes "rep mem dtb h body" and "off + length bs \<le> length body"
  shows "rep (write_memory mem (dtb_pointer dtb + of_nat (40 + off)) bs) dtb h (take off body @ bs @ drop (off + length bs) body)"
    and "frame dtb mem (write_memory mem (dtb_pointer dtb + of_nat (40 + off)) bs)"
  using write_memory_blob [of "40 + off" bs "dtb_size dtb" mem "dtb_pointer dtb"]
    write_memory_frame [of "40 + off" bs dtb mem] rep_size [OF assms(1)] assms
  by (simp_all add: rep_def blob_def fits_def del: of_nat_add)

lemma rep_copy:
  assumes "rep mem dtb h body" and "src + n \<le> length body" and "dst + n \<le> length body"
  defines "mem' \<equiv> copy_memory mem (dtb_pointer dtb + of_nat (40 + src)) (dtb_pointer dtb + of_nat (40 + dst)) n"
  shows "rep mem' dtb h (take dst body @ take n (drop src body) @ drop (dst + n) body)" and "frame dtb mem mem'"
  using copy_memory_blob [of "40 + src" n "dtb_size dtb" "40 + dst" mem "dtb_pointer dtb"]
    copy_memory_frame [of "40 + dst" n dtb mem] rep_size [OF assms(1)] assms(1-3)
  by (simp_all add: rep_def blob_def fits_def mem'_def del: of_nat_add)

section \<open>Splicing the structure block\<close>

text \<open>The header after a splice.\<close>

definition resized :: "FdtHeader \<Rightarrow> nat \<Rightarrow> nat \<Rightarrow> FdtHeader" where
  "resized h sz off = set_off_dt_strings (set_size_dt_struct h (of_nat sz)) (of_nat off)"

lemma checked_add_signed_nat:
  assumes "int (unat w) + d = int m" and "m < 2 ^ 32"
  shows "checked_add_signed w d = Some (of_nat m)"
proof -
  have u: "uint w + d = int m" using assms(1) by simp
  show ?thesis using assms(2) unfolding checked_add_signed_def u by simp
qed

lemma set_header_simps [simp]:
  "header_off_dt_strings (set_size_dt_struct h n) = header_off_dt_strings h"
  "header_total_size (set_size_dt_struct h n) = header_total_size h"
  by (simp_all add: header_off_dt_strings_def set_size_dt_struct_def header_total_size_def)

lemma resize_struct_rep:
  assumes r: "rep mem dtb h body"
    and sz: "int (unat (header_size_dt_struct h)) + delta = int sz" and off: "int (unat (header_off_dt_strings h)) + delta = int off"
    and b: "sz < 2 ^ 31" "off < 2 ^ 31" "- (2 ^ 31) \<le> delta" "delta < 2 ^ 31"
  shows "\<exists>mem'. resize_struct mem dtb delta = (Inr (), mem') \<and> rep mem' dtb (resized h sz off) body \<and> frame dtb mem mem'"
proof -
  define m1 where "m1 = store_header mem dtb (set_size_dt_struct h (of_nat sz))"
  note s1 = rep_store [OF r, of "set_size_dt_struct h (of_nat sz)", folded m1_def]
  define m2 where "m2 = store_header m1 dtb (resized h sz off)"
  note s2 = rep_store [OF s1(1), of "resized h sz off", folded m2_def]
  have "resize_struct mem dtb delta = (Inr (), m2)"
    using b checked_add_signed_nat [OF sz] checked_add_signed_nat [OF off]
    unfolding resize_struct_def rep_header [OF r] m2_def Let_def
    by (simp add: m1_def [symmetric] rep_header [OF s1(1)] resized_def)
  then show ?thesis using s2 frame_trans [OF s1(2) s2(2)] by blast
qed

lemma splice_lists:
  assumes "length Z = new_len" and "length X + new_len + length C \<le> length (X @ Old @ C @ tail)"
  defines "bd \<equiv> X @ Old @ C @ tail"
  defines "b1 \<equiv> take (length X + new_len) bd @ take (length C) (drop (length X + length Old) bd) @ drop (length X + new_len + length C) bd"
  shows "take (length X) b1 @ Z @ drop (length X + length Z) b1 = X @ Z @ C @ drop (length X + length Z + length C) bd"
    and "length b1 = length bd"
proof -
  have l: "length bd = length X + length Old + length C + length tail" by (simp add: bd_def)
  have c: "take (length C) (drop (length X + length Old) bd) = C" by (simp add: bd_def)
  have d: "length X + new_len \<le> length bd" using assms(2) l by (simp add: bd_def)
  have x: "take (length X) (take (length X + new_len) bd) = X" by (simp add: bd_def min_def)
  show "take (length X) b1 @ Z @ drop (length X + length Z) b1 = X @ Z @ C @ drop (length X + length Z + length C) bd"
  proof -
    have "take (length X) b1 = X" using d x unfolding b1_def c by (simp add: min_def)
    moreover have "drop (length X + length Z) b1 = C @ drop (length X + length Z + length C) bd"
      using d assms(1) unfolding b1_def c by simp
    ultimately show ?thesis by simp
  qed
  show "length b1 = length bd" using d assms(2) l unfolding b1_def c by (simp add: bd_def)
qed

lemma splice_rep:
  assumes r: "rep mem dtb h (X @ Old @ C @ tail)"
    and h: "unat (header_off_dt_struct h) = 40 + s0" "unat (header_size_dt_struct h) = sn"
      "unat (header_off_dt_strings h) + unat (header_size_dt_strings h) = 40 + length (X @ Old @ C)"
      "unat (header_off_dt_strings h) = 40 + so"
    and in_struct: "s0 \<le> length X" "length X + length Old \<le> s0 + sn" "s0 + sn \<le> so"
    and room: "length X + new_len + length C \<le> length (X @ Old @ C @ tail)"
  shows "\<exists>mem' tail'. splice_struct_placeholder mem dtb (40 + length X) (length Old) new_len = (Inr (), mem')
    \<and> rep mem' dtb (resized h (sn + new_len - length Old) (40 + so + new_len - length Old)) (X @ replicate new_len 0 @ C @ tail')
    \<and> frame dtb mem mem'"
proof -
  define bd where "bd = X @ Old @ C @ tail"
  have size: "dtb_size dtb = 40 + length bd" "length bd + 40 < 2 ^ 31"
    using rep_size [OF r] rep_fits [OF r] by (simp_all add: bd_def fits_def)
  have lb: "length bd = length X + length Old + length C + length tail" by (simp add: bd_def)
  have so: "so \<le> length X + length Old + length C" using h(3,4) by simp
  define m1 where "m1 = copy_memory mem (dtb_pointer dtb + of_nat (40 + (length X + length Old)))
    (dtb_pointer dtb + of_nat (40 + (length X + new_len))) (length C)"
  have c: "length X + length Old + length C \<le> length bd" "length X + new_len + length C \<le> length bd"
    using room lb by (simp_all add: bd_def)
  note r1 = rep_copy [OF r [folded bd_def] c, folded m1_def]
  define b1 where "b1 = take (length X + new_len) bd @ take (length C) (drop (length X + length Old) bd) @ drop (length X + new_len + length C) bd"
  note sl = splice_lists [of "replicate new_len 0" new_len X C Old tail, OF _ room, folded bd_def, folded b1_def, simplified]
  define m2 where "m2 = write_memory m1 (dtb_pointer dtb + of_nat (40 + length X)) (replicate new_len (0 :: u8))"
  have r2: "rep m2 dtb h (X @ replicate new_len 0 @ C @ drop (length X + new_len + length C) bd)" "frame dtb m1 m2"
    using rep_write [OF r1(1) [folded b1_def], of "length X" "replicate new_len 0", folded m2_def] sl c by simp_all
  have bounds: "length Old \<le> sn" "sn + new_len - length Old < 2 ^ 31" "40 + so + new_len - length Old < 2 ^ 31"
    "length Old < 2 ^ 31" "new_len < 2 ^ 31"
    using in_struct so c lb size(2) by linarith+
  obtain m3 where m3: "resize_struct m2 dtb (int new_len - int (length Old)) = (Inr (), m3)"
      "rep m3 dtb (resized h (sn + new_len - length Old) (40 + so + new_len - length Old))
        (X @ replicate new_len 0 @ C @ drop (length X + new_len + length C) bd)" "frame dtb m2 m3"
    using resize_struct_rep [OF r2(1), of "int new_len - int (length Old)" "sn + new_len - length Old" "40 + so + new_len - length Old"]
      h in_struct size(2) bounds by auto
  have w: "us_wrapping_sub (40 + length (X @ Old @ C)) (40 + length X + length Old) = length C"
    by (simp add: us_wrapping_sub_def)
  have u: "used_blob_end_offset mem dtb = 40 + length (X @ Old @ C)" "structure_end_offset mem dtb = 40 + s0 + sn"
    using h by (simp_all add: used_blob_end_offset_def structure_end_offset_def rep_header [OF r])
  have n: "Option.bind (us_checked_sub (40 + length (X @ Old @ C)) (length Old)) (\<lambda>v. us_checked_add v new_len)
      = Some (40 + length X + length C + new_len)"
    using c size(2) by (simp add: us_checked_sub_def us_checked_add_def)
  have "splice_struct_placeholder mem dtb (40 + length X) (length Old) new_len = (Inr (), m3)"
    unfolding splice_struct_placeholder_def Let_def u n w rep_header [OF r] h(1)
    using in_struct so c lb size m3(1) by (simp add: us_checked_add_def m1_def m2_def add.assoc)
  then show ?thesis using m3 frame_trans [OF r1(2) frame_trans [OF r2(2) m3(3)]] by blast
qed

section \<open>Blobs with an ordered layout\<close>

text \<open>
  The parts of a blob: the header fields the editor never touches, the bytes between the header and the structure
  block (with the reserve map), the structure block, a gap, and the strings block.
\<close>

record contents =
  c_rsv :: u32
  c_version :: u32
  c_comp :: u32
  c_cpu :: u32
  c_pre :: "u8 list"
  c_struct :: "u8 list"
  c_gap :: "u8 list"
  c_strings :: "u8 list"

definition used :: "contents \<Rightarrow> nat" where
  "used c = 40 + length (c_pre c) + length (c_struct c) + length (c_gap c) + length (c_strings c)"

definition stored_header :: "contents \<Rightarrow> nat \<Rightarrow> FdtHeader" where
  "stored_header c n =
     \<lparr>magic = to_be FDT_MAGIC, totalsize = to_be (of_nat n), off_dt_struct = to_be (of_nat (40 + length (c_pre c))),
      off_dt_strings = to_be (of_nat (40 + length (c_pre c) + length (c_struct c) + length (c_gap c))),
      off_mem_rsvmap = to_be (c_rsv c), version = to_be (c_version c), last_comp_version = to_be (c_comp c),
      boot_cpuid_phys = to_be (c_cpu c), size_dt_strings = to_be (of_nat (length (c_strings c))),
      size_dt_struct = to_be (of_nat (length (c_struct c)))\<rparr>"

definition body :: "contents \<Rightarrow> u8 list" where
  "body c = c_pre c @ c_struct c @ c_gap c @ c_strings c"

definition holds :: "memory \<Rightarrow> Dtb \<Rightarrow> contents \<Rightarrow> bool" where
  "holds mem dtb c \<longleftrightarrow> (\<exists>tail. rep mem dtb (stored_header c (dtb_size dtb)) (body c @ tail))
     \<and> dtb_pointer dtb \<noteq> 0 \<and> 8 dvd unat (dtb_pointer dtb) \<and> 17 \<le> c_version c \<and> unat (c_rsv c) \<le> dtb_size dtb"

lemma length_body: "40 + length (body c) = used c"
  by (simp add: body_def used_def)

lemma holds_rep:
  assumes "holds mem dtb c"
  obtains tail where "rep mem dtb (stored_header c (dtb_size dtb)) (body c @ tail)"
    "dtb_size dtb = used c + length tail" "dtb_size dtb < 2 ^ 31" "used c < 2 ^ 31"
proof -
  obtain tail where r: "rep mem dtb (stored_header c (dtb_size dtb)) (body c @ tail)"
    using assms by (auto simp: holds_def)
  have n: "dtb_size dtb = used c + length tail" "dtb_size dtb < 2 ^ 31"
    using rep_size [OF r] rep_fits [OF r] by (simp_all add: fits_def flip: length_body)
  then show ?thesis using that [OF r] by simp
qed

lemma stored_header_fields:
  assumes "used c < 2 ^ 31" and "n < 2 ^ 31"
  shows "header_magic (stored_header c n) = FDT_MAGIC" "unat (header_total_size (stored_header c n)) = n"
    "unat (header_off_dt_struct (stored_header c n)) = 40 + length (c_pre c)"
    "unat (header_off_dt_strings (stored_header c n)) = 40 + (length (c_pre c) + length (c_struct c) + length (c_gap c))"
    "header_off_mem_rsvmap (stored_header c n) = c_rsv c" "header_version (stored_header c n) = c_version c"
    "unat (header_size_dt_strings (stored_header c n)) = length (c_strings c)"
    "unat (header_size_dt_struct (stored_header c n)) = length (c_struct c)"
proof -
  have u: "unat (of_nat k :: u32) = k" if "k < 2 ^ 31" for k using that by (simp add: unat_of_nat)
  have b: "40 + length (c_pre c) < 2 ^ 31" "40 + (length (c_pre c) + length (c_struct c) + length (c_gap c)) < 2 ^ 31"
    "length (c_strings c) < 2 ^ 31" "length (c_struct c) < 2 ^ 31"
    using assms by (simp_all add: used_def)
  note d = stored_header_def header_magic_def header_total_size_def header_off_dt_struct_def header_off_dt_strings_def
    header_off_mem_rsvmap_def header_version_def header_size_dt_strings_def header_size_dt_struct_def
  show "header_magic (stored_header c n) = FDT_MAGIC" "unat (header_total_size (stored_header c n)) = n"
    "unat (header_off_dt_struct (stored_header c n)) = 40 + length (c_pre c)"
    "unat (header_off_dt_strings (stored_header c n)) = 40 + (length (c_pre c) + length (c_struct c) + length (c_gap c))"
    "header_off_mem_rsvmap (stored_header c n) = c_rsv c" "header_version (stored_header c n) = c_version c"
    "unat (header_size_dt_strings (stored_header c n)) = length (c_strings c)"
    "unat (header_size_dt_struct (stored_header c n)) = length (c_struct c)"
    using u [OF b(1)] u [OF b(2)] u [OF b(3)] u [OF b(4)] u [OF assms(2)] by (simp_all add: d add.assoc del: of_nat_add)
qed

text \<open>The reader's view of such a blob.\<close>

definition view :: "memory \<Rightarrow> Dtb \<Rightarrow> contents \<Rightarrow> Fdt" where
  "view mem dtb c = \<lparr>fdt_base = dtb_pointer dtb, total_size = dtb_size dtb, reserve_map = drop (unat (c_rsv c)) (blob mem dtb),
     struct_block = c_struct c, strings = c_strings c\<rparr>"

lemma from_ptr_holds:
  assumes "holds mem dtb c"
  shows "from_ptr mem (dtb_pointer dtb) = Inr (view mem dtb c)"
proof -
  obtain tail where r: "rep mem dtb (stored_header c (dtb_size dtb)) (body c @ tail)"
    and n: "dtb_size dtb = used c + length tail" "dtb_size dtb < 2 ^ 31" "used c < 2 ^ 31"
    using holds_rep [OF assms] by blast
  note f = stored_header_fields [OF n(3,2)]
  define h where "h = stored_header c (dtb_size dtb)"
  have s: "take (length (c_struct c)) (drop (40 + length (c_pre c)) (blob mem dtb)) = c_struct c"
      "take (length (c_strings c)) (drop (40 + (length (c_pre c) + length (c_struct c) + length (c_gap c))) (blob mem dtb)) = c_strings c"
    using r by (simp_all add: rep_def body_def)
  have v: "validate_dtb_pointer (dtb_pointer dtb) = Inr ()" "\<not> c_version c < 17" "\<not> dtb_size dtb < unat (c_rsv c)"
    using assms by (simp_all add: holds_def validate_dtb_pointer_def ptr_aligned not_less)
  show ?thesis
    unfolding from_ptr_def v(1) rep_be_words [OF r] ok_or.simps rbind.simps f
    using v(2,3) s n f(2) by (simp add: us_checked_add_def FDT_HEADER_SIZE_def used_def view_def blob_def)
qed

lemma fdt_view_holds: "holds mem dtb c \<Longrightarrow> fdt_view mem dtb = Inr (view mem dtb c)"
  by (simp add: fdt_view_def from_ptr_holds)

lemma view_block_ok: "holds mem dtb c \<Longrightarrow> block_ok (view mem dtb c)"
  by (elim holds_rep) (simp add: block_ok_def view_def used_def)

lemma structure_offset_holds: "holds mem dtb c \<Longrightarrow> structure_offset_in_blob mem dtb k = 40 + length (c_pre c) + k"
  by (elim holds_rep) (simp add: structure_offset_in_blob_def rep_header stored_header_fields)

lemma resized_stored:
  "length S + n0 = length (c_struct c) + n1 \<Longrightarrow>
   resized (stored_header c n) (length (c_struct c) + n1 - n0)
     (40 + (length (c_pre c) + length (c_struct c) + length (c_gap c)) + n1 - n0)
   = stored_header (c\<lparr>c_struct := S\<rparr>) n"
proof -
  assume a: "length S + n0 = length (c_struct c) + n1"
  then have e: "length (c_struct c) + n1 - n0 = length S"
      "40 + (length (c_pre c) + length (c_struct c) + length (c_gap c)) + n1 - n0 = 40 + length (c_pre c) + length S + length (c_gap c)"
    by linarith+
  show ?thesis unfolding e by (simp add: resized_def stored_header_def set_size_dt_struct_def set_off_dt_strings_def)
qed

text \<open>A splice replaces bytes of the structure block by zeros, when the result fits.\<close>

lemma holds_splice:
  assumes h: "holds mem dtb c" and s: "c_struct c = A @ Old @ B" and room: "used c + n \<le> dtb_size dtb + length Old"
  shows "\<exists>mem'. splice_struct_placeholder mem dtb (40 + length (c_pre c) + length A) (length Old) n = (Inr (), mem')
    \<and> holds mem' dtb (c\<lparr>c_struct := A @ replicate n 0 @ B\<rparr>) \<and> frame dtb mem mem'"
proof -
  obtain tail where r: "rep mem dtb (stored_header c (dtb_size dtb)) (body c @ tail)"
    and n: "dtb_size dtb = used c + length tail" "dtb_size dtb < 2 ^ 31" "used c < 2 ^ 31"
    using holds_rep [OF h] by blast
  note f = stored_header_fields [OF n(3,2)]
  define X where "X = c_pre c @ A"
  define C where "C = B @ c_gap c @ c_strings c"
  have r': "rep mem dtb (stored_header c (dtb_size dtb)) (X @ Old @ C @ tail)"
    using r by (simp add: body_def s X_def C_def)
  have "\<exists>mem' tail'. splice_struct_placeholder mem dtb (40 + length X) (length Old) n = (Inr (), mem')
    \<and> rep mem' dtb (resized (stored_header c (dtb_size dtb)) (length (c_struct c) + n - length Old)
        (40 + (length (c_pre c) + length (c_struct c) + length (c_gap c)) + n - length Old)) (X @ replicate n 0 @ C @ tail')
    \<and> frame dtb mem mem'"
  proof (rule splice_rep [OF r' f(3) f(8) _ f(4)])
    show "unat (header_off_dt_strings (stored_header c (dtb_size dtb))) + unat (header_size_dt_strings (stored_header c (dtb_size dtb)))
      = 40 + length (X @ Old @ C)" unfolding f by (simp add: X_def C_def s)
  qed (use room n(1) in \<open>simp_all add: X_def C_def s used_def\<close>)
  then show ?thesis
    using h resized_stored [of "A @ replicate n 0 @ B" "length Old" c n "dtb_size dtb"]
    by (auto simp: s holds_def body_def X_def C_def add.assoc)
qed

lemma holds_splice_full:
  assumes h: "holds mem dtb c" and s: "c_struct c = A @ Old @ B" and full: "dtb_size dtb + length Old < used c + n" and n: "n < 2 ^ 63"
  shows "splice_struct_placeholder mem dtb (40 + length (c_pre c) + length A) (length Old) n = (Inl DtbBufferTooSmall, mem)"
proof -
  obtain tail where r: "rep mem dtb (stored_header c (dtb_size dtb)) (body c @ tail)"
    and b: "dtb_size dtb = used c + length tail" "dtb_size dtb < 2 ^ 31" "used c < 2 ^ 31"
    using holds_rep [OF h] by blast
  note f = stored_header_fields [OF b(3,2)]
  have u: "used_blob_end_offset mem dtb = used c" "structure_end_offset mem dtb = 40 + length (c_pre c) + length (c_struct c)"
    by (simp_all add: used_blob_end_offset_def structure_end_offset_def rep_header [OF r] f used_def)
  show ?thesis
    unfolding splice_struct_placeholder_def Let_def u rep_header [OF r] f(3)
    using b full n by (simp add: s us_checked_add_def us_checked_sub_def used_def)
qed

text \<open>A write inside the structure block.\<close>

lemma holds_insert:
  assumes h: "holds mem dtb c" and s: "c_struct c = A @ Old @ B" and l: "length Old = length bs"
  shows "\<exists>mem'. insert_bytes mem dtb (40 + length (c_pre c) + length A) bs = (Inr (40 + length (c_pre c) + length A + length bs), mem')
    \<and> mem' = write_memory mem (dtb_pointer dtb + of_nat (40 + length (c_pre c) + length A)) bs
    \<and> holds mem' dtb (c\<lparr>c_struct := A @ bs @ B\<rparr>) \<and> frame dtb mem mem'"
proof -
  obtain tail where r: "rep mem dtb (stored_header c (dtb_size dtb)) (body c @ tail)"
    and b: "dtb_size dtb = used c + length tail" "dtb_size dtb < 2 ^ 31" "used c < 2 ^ 31"
    using holds_rep [OF h] by blast
  define off where "off = length (c_pre c) + length A"
  define mem' where "mem' = write_memory mem (dtb_pointer dtb + of_nat (40 + off)) bs"
  have o: "off + length bs \<le> length (body c @ tail)" by (simp add: off_def body_def s l)
  note w = rep_write [OF r o, folded mem'_def]
  have e: "take off (body c @ tail) @ bs @ drop (off + length bs) (body c @ tail) = body (c\<lparr>c_struct := A @ bs @ B\<rparr>) @ tail"
    by (simp add: off_def body_def s flip: l)
  have sh: "stored_header (c\<lparr>c_struct := A @ bs @ B\<rparr>) n = stored_header c n" for n
    by (simp add: stored_header_def s l)
  have "holds mem' dtb (c\<lparr>c_struct := A @ bs @ B\<rparr>)" using h w(1) unfolding holds_def e sh by auto
  moreover have "insert_bytes mem dtb (40 + length (c_pre c) + length A) bs = (Inr (40 + length (c_pre c) + length A + length bs), mem')"
    using b by (simp add: insert_bytes_def us_checked_add_def mem'_def off_def used_def s l add.assoc)
  ultimately show ?thesis using w(2) by (simp add: mem'_def off_def add.assoc)
qed

section \<open>The strings block\<close>

definition strings_block :: "u8 list list \<Rightarrow> u8 list" where
  "strings_block ss = concat (map (\<lambda>s. s @ [0]) ss)"

definition names_ok :: "u8 list list \<Rightarrow> bool" where
  "names_ok ss \<longleftrightarrow> (\<forall>s \<in> set ss. 0 \<notin> set s \<and> utf8_valid s)"

lemma strings_block_simps [simp]:
  "strings_block [] = []" "strings_block (s # ss) = s @ 0 # strings_block ss"
  "strings_block (ss @ ts) = strings_block ss @ strings_block ts"
  by (simp_all add: strings_block_def)

lemma string_at_strings:
  assumes "strings fdt = pre @ s @ 0 # rest" and "0 \<notin> set s" and "utf8_valid s"
  shows "string_at fdt (length pre) = Some s"
  using assms by (simp add: string_at_def slice_from_def position_zero_append from_utf8_def)

text \<open>Appending strings keeps the existing ones.\<close>

lemma position_zero_Some_append: "position_zero xs = Some n \<Longrightarrow> position_zero (xs @ ys) = Some n \<and> n < length xs"
  by (induction xs arbitrary: n) (auto split: if_splits)

lemma string_at_append:
  assumes "string_at fdt k = Some s" and "strings fdt' = strings fdt @ extra"
  shows "string_at fdt' k = Some s"
proof -
  obtain n where k: "k \<le> length (strings fdt)" and n: "position_zero (drop k (strings fdt)) = Some n"
    and s: "from_utf8 (take n (drop k (strings fdt))) = Some s"
    using assms(1) by (auto simp: string_at_def slice_from_def bind_eq_Some_conv split: if_splits)
  have "drop k (strings fdt') = drop k (strings fdt) @ extra" using k assms(2) by simp
  moreover from position_zero_Some_append [OF n] have "n + k - length (strings fdt) = 0" by fastforce
  ultimately show ?thesis using position_zero_Some_append [OF n, of extra] s k assms(2)
    by (simp add: string_at_def slice_from_def)
qed

lemma strings_bytes:
  assumes "holds mem dtb c" and "i + n \<le> length (c_strings c)"
  defines "so \<equiv> 40 + (length (c_pre c) + length (c_struct c) + length (c_gap c))"
  shows "read_bytes mem (dtb_pointer dtb + of_nat (so + i)) n = take n (drop i (c_strings c))"
proof -
  obtain tail where r: "rep mem dtb (stored_header c (dtb_size dtb)) (body c @ tail)"
    and b: "dtb_size dtb = used c + length tail"
    using holds_rep [OF assms(1)] by blast
  have "read_bytes mem (dtb_pointer dtb + of_nat (so + i)) n = take n (drop (so + i) (blob mem dtb))"
    unfolding blob_def by (rule read_bytes_sub) (use assms(2) b in \<open>simp add: so_def used_def\<close>)
  also have "\<dots> = take n (drop i (c_strings c) @ tail)"
    using r assms(2) by (simp add: rep_def body_def so_def)
  also have "\<dots> = take n (drop i (c_strings c))" using assms(2) by simp
  finally show ?thesis .
qed

lemma zero_cursor_string:
  assumes "\<And>i. i < length s \<Longrightarrow> mem (p + of_nat (k + i)) \<noteq> 0" and "mem (p + of_nat (k + length s)) = 0"
    and "k + length s < limit"
  shows "zero_cursor mem p limit k = k + length s"
  using assms
proof (induction s arbitrary: k)
  case Nil
  then show ?case by (subst zero_cursor.simps) simp
next
  case (Cons b s)
  have "mem (p + of_nat k) \<noteq> 0" using Cons.prems(1) [of 0] by simp
  moreover have "zero_cursor mem p limit (k + 1) = k + 1 + length s"
  proof (rule Cons.IH)
    fix i assume "i < length s"
    then show "mem (p + of_nat (k + 1 + i)) \<noteq> 0" using Cons.prems(1) [of "Suc i"] by (simp add: algebra_simps)
  qed (use Cons.prems(2,3) in \<open>simp_all add: algebra_simps\<close>)
  ultimately show ?case using Cons.prems(3) by (subst zero_cursor.simps) simp
qed

lemma strings_loop_block:
  assumes h: "holds mem dtb c"
  defines "so \<equiv> 40 + (length (c_pre c) + length (c_struct c) + length (c_gap c))"
  shows "drop i (c_strings c) = strings_block ss \<Longrightarrow> i \<le> length (c_strings c) \<Longrightarrow> names_ok ss \<Longrightarrow>
    strings_loop mem (dtb_pointer dtb) so (length (c_strings c)) name i
    = Inr (if name \<in> set ss then Some (i + length (strings_block (takeWhile (\<lambda>s. s \<noteq> name) ss))) else None)"
proof (induction ss arbitrary: i)
  case Nil
  then show ?case by (subst strings_loop.simps) simp
next
  case (Cons s ss)
  let ?T = "c_strings c" and ?p = "dtb_pointer dtb"
  have d: "drop i ?T = s @ 0 # strings_block ss" using Cons.prems(1) by simp
  have ok: "0 \<notin> set s" "utf8_valid s" "names_ok ss" using Cons.prems(3) by (simp_all add: names_ok_def)
  have l: "length ?T = i + length s + 1 + length (strings_block ss)"
    using arg_cong [OF d, of length] Cons.prems(2) by simp
  have bytes: "read_bytes mem (?p + of_nat (so + i)) (length s + 1) = s @ [0]"
    using strings_bytes [OF h, of i "length s + 1"] l d by (simp add: so_def)
  have byte: "mem (?p + of_nat (so + i + j)) = (s @ [0]) ! j" if "j \<le> length s" for j
  proof -
    have "read_bytes mem (?p + of_nat (so + i)) (length s + 1) ! j = mem (?p + of_nat (so + i) + of_nat j)"
      using that by (simp add: read_bytes_def del: upt_Suc)
    then show ?thesis unfolding bytes by (simp add: add.assoc)
  qed
  have z: "zero_cursor mem ?p (so + length ?T) (so + i) = so + i + length s"
  proof (rule zero_cursor_string)
    fix j assume "j < length s"
    then show "mem (?p + of_nat (so + i + j)) \<noteq> 0" using byte [of j] ok(1) by (metis less_imp_le nth_append nth_mem)
  qed (use byte [of "length s"] l in simp_all)
  have e: "read_bytes mem (?p + of_nat (so + i)) (so + i + length s - (so + i)) = s"
    using strings_bytes [OF h, of i "length s"] l d by (simp add: so_def)
  have nxt: "drop (i + length s + 1) ?T = strings_block ss"
    using arg_cong [OF d, of "drop (length s + 1)"] by (simp add: add.commute add.left_commute)
  have ih: "strings_loop mem ?p so (length ?T) name (i + length s + 1)
      = Inr (if name \<in> set ss then Some (i + length s + 1 + length (strings_block (takeWhile (\<lambda>s. s \<noteq> name) ss))) else None)"
    using Cons.IH [OF nxt _ ok(3)] l by simp
  show ?case
    using z e ok(2) l ih by (subst strings_loop.simps) (auto simp: Let_def from_utf8_def)
qed

definition with_name :: "u8 list list \<Rightarrow> u8 list \<Rightarrow> u8 list list" where
  "with_name ss name = (if name \<in> set ss then ss else ss @ [name])"

definition name_offset :: "u8 list list \<Rightarrow> u8 list \<Rightarrow> nat" where
  "name_offset ss name = length (strings_block (takeWhile (\<lambda>s. s \<noteq> name) ss))"

lemma takeWhile_absent: "name \<notin> set ss \<Longrightarrow> takeWhile (\<lambda>s. s \<noteq> name) ss = ss"
  by (induction ss) auto

lemma name_offset_string:
  assumes "names_ok (with_name ss name)" and "strings fdt = strings_block (with_name ss name)"
  shows "string_at fdt (name_offset ss name) = Some name"
proof -
  have m: "name \<in> set (with_name ss name)" by (simp add: with_name_def)
  have t: "takeWhile (\<lambda>s. s \<noteq> name) (with_name ss name) = takeWhile (\<lambda>s. s \<noteq> name) ss"
  proof (cases "name \<in> set ss")
    case False
    then have "takeWhile (\<lambda>s. s \<noteq> name) (ss @ [name]) = ss" by (induction ss) auto
    then show ?thesis unfolding takeWhile_absent [OF False] with_name_def using False by simp
  qed (simp add: with_name_def)
  obtain ys rest where ys: "with_name ss name = ys @ name # rest" "name \<notin> set ys"
    using split_list_first [OF m] by blast
  have "takeWhile (\<lambda>s. s \<noteq> name) (ys @ name # rest) = ys" using ys(2) by (induction ys) auto
  then have w: "with_name ss name = takeWhile (\<lambda>s. s \<noteq> name) ss @ name # rest" using t ys(1) by argo
  have "strings fdt = strings_block (takeWhile (\<lambda>s. s \<noteq> name) ss) @ name @ 0 # strings_block rest"
    unfolding assms(2) by (subst w) simp
  moreover have "0 \<notin> set name" "utf8_valid name" using assms(1) m by (auto simp: names_ok_def)
  ultimately show ?thesis unfolding name_offset_def by (rule string_at_strings)
qed

lemma set_strings_stored:
  "set_size_dt_strings (stored_header c n) (of_nat (length T)) = stored_header (c\<lparr>c_strings := T\<rparr>) n"
  by (simp add: stored_header_def set_size_dt_strings_def)

lemma holds_append_string:
  assumes h: "holds mem dtb c" and room: "used c + length name + 1 \<le> dtb_size dtb"
  defines "m1 \<equiv> write_memory mem (dtb_pointer dtb + of_nat (used c)) name"
  defines "m2 \<equiv> write_memory m1 (dtb_pointer dtb + of_nat (used c + length name)) [0]"
  shows "dtb_header m2 dtb = stored_header c (dtb_size dtb)"
    and "holds (store_header m2 dtb (set_size_dt_strings (stored_header c (dtb_size dtb)) (of_nat (length (c_strings c) + (length name + 1)))))
      dtb (c\<lparr>c_strings := c_strings c @ name @ [0]\<rparr>)"
    and "frame dtb mem (store_header m2 dtb (set_size_dt_strings (stored_header c (dtb_size dtb)) (of_nat (length (c_strings c) + (length name + 1)))))"
proof -
  obtain tail where r: "rep mem dtb (stored_header c (dtb_size dtb)) (body c @ tail)"
    and b: "dtb_size dtb = used c + length tail"
    using holds_rep [OF h] by blast
  have o: "length (body c) + length name \<le> length (body c @ tail)" using room b by simp
  have w1: "rep m1 dtb (stored_header c (dtb_size dtb)) (body c @ name @ drop (length name) tail)" "frame dtb mem m1"
    using rep_write [OF r o] unfolding length_body m1_def by simp_all
  have o2: "length (body c) + length name + length [0 :: u8] \<le> length (body c @ name @ drop (length name) tail)" using room b by simp
  have w2: "rep m2 dtb (stored_header c (dtb_size dtb)) (body c @ name @ [0] @ drop (length name + 1) tail)" "frame dtb m1 m2"
    using rep_write [OF w1(1) o2] unfolding m2_def length_body [symmetric] by (simp_all add: add.assoc)
  show "dtb_header m2 dtb = stored_header c (dtb_size dtb)" by (rule rep_header [OF w2(1)])
  define m3 where "m3 = store_header m2 dtb (set_size_dt_strings (stored_header c (dtb_size dtb)) (of_nat (length (c_strings c) + (length name + 1))))"
  note w3 = rep_store [OF w2(1), of "set_size_dt_strings (stored_header c (dtb_size dtb)) (of_nat (length (c_strings c) + (length name + 1)))",
      folded m3_def]
  have "rep m3 dtb (stored_header (c\<lparr>c_strings := c_strings c @ name @ [0]\<rparr>) (dtb_size dtb))
      (body (c\<lparr>c_strings := c_strings c @ name @ [0]\<rparr>) @ drop (length name + 1) tail)"
    using w3(1) set_strings_stored [of c "dtb_size dtb" "c_strings c @ name @ [0]"] by (simp add: body_def)
  then show "holds m3 dtb (c\<lparr>c_strings := c_strings c @ name @ [0]\<rparr>)" using h unfolding holds_def by auto
  show "frame dtb mem m3" using frame_trans [OF w1(2) frame_trans [OF w2(2) w3(2)]] .
qed

lemma find_or_add_string_holds:
  assumes h: "holds mem dtb c" and s: "c_strings c = strings_block ss" "names_ok ss" and nm: "length name < 2 ^ 63"
  shows "name \<in> set ss \<Longrightarrow> find_or_add_string mem dtb name = (Inr (of_nat (name_offset ss name)), mem)"
    and "name \<notin> set ss \<Longrightarrow> dtb_size dtb < used c + length name + 1 \<Longrightarrow> find_or_add_string mem dtb name = (Inl DtbBufferTooSmall, mem)"
    and "name \<notin> set ss \<Longrightarrow> used c + length name + 1 \<le> dtb_size dtb \<Longrightarrow>
      \<exists>mem'. find_or_add_string mem dtb name = (Inr (of_nat (name_offset ss name)), mem')
        \<and> holds mem' dtb (c\<lparr>c_strings := strings_block (ss @ [name])\<rparr>) \<and> frame dtb mem mem'"
proof -
  obtain tail where r: "rep mem dtb (stored_header c (dtb_size dtb)) (body c @ tail)"
    and b: "dtb_size dtb = used c + length tail" "dtb_size dtb < 2 ^ 31" "used c < 2 ^ 31"
    using holds_rep [OF h] by blast
  note f = stored_header_fields [OF b(3,2)]
  have loop: "strings_loop mem (dtb_pointer dtb) (40 + (length (c_pre c) + length (c_struct c) + length (c_gap c))) (length (c_strings c)) name 0
      = Inr (if name \<in> set ss then Some (name_offset ss name) else None)"
    using strings_loop_block [OF h, of 0 ss name] s by (simp add: name_offset_def)
  have u: "used_blob_end_offset mem dtb = used c"
    by (simp add: used_blob_end_offset_def rep_header [OF r] f used_def)
  have lt: "length (c_strings c) < 2 ^ 31" using b(3) by (simp add: used_def)
  note d = find_or_add_string_def Let_def rep_header [OF r] f loop u
  show "name \<in> set ss \<Longrightarrow> find_or_add_string mem dtb name = (Inr (of_nat (name_offset ss name)), mem)"
  proof -
    assume a: "name \<in> set ss"
    have "length (strings_block (takeWhile (\<lambda>s. s \<noteq> name) ss)) \<le> length (strings_block ss)"
      by (metis le_add1 length_append strings_block_simps(3) takeWhile_dropWhile_id)
    then have "name_offset ss name < 2 ^ 32" using lt s(1) by (simp add: name_offset_def)
    then show ?thesis using a unfolding d by simp
  qed
  show "name \<notin> set ss \<Longrightarrow> dtb_size dtb < used c + length name + 1 \<Longrightarrow> find_or_add_string mem dtb name = (Inl DtbBufferTooSmall, mem)"
    using nm b unfolding d by (simp add: us_checked_add_def ensure_range_def)
  assume a: "name \<notin> set ss" and room: "used c + length name + 1 \<le> dtb_size dtb"
  note w = holds_append_string [OF h room]
  have off: "name_offset ss name = length (c_strings c)" unfolding name_offset_def takeWhile_absent [OF a] s(1) ..
  have bs: "length (c_strings c) + (length name + 1) < 2 ^ 32" using room b by (simp add: used_def)
  show "\<exists>mem'. find_or_add_string mem dtb name = (Inr (of_nat (name_offset ss name)), mem')
        \<and> holds mem' dtb (c\<lparr>c_strings := strings_block (ss @ [name])\<rparr>) \<and> frame dtb mem mem'"
    using a room nm b lt bs w unfolding d off
    by (simp add: us_checked_add_def ensure_range_def insert_bytes_def s)
qed

end
