(* ===== verification/DtbUpdate.thy ===== *)
theory DtbUpdate
  imports DtbEdit
begin

unbundle bit_operations_syntax

text \<open>
  Setting properties and creating nodes as updates of the encoded tree.
\<close>

section \<open>Updating the tree\<close>

text \<open>The items before the property that a search for \<open>name\<close> stops at, that property, and the rest. Without
  such a property the search stops at the first subnode or at the end.\<close>

fun prop_split :: "Fdt \<Rightarrow> u8 list \<Rightarrow> dt_item list \<Rightarrow> dt_item list \<times> dt_item list \<times> dt_item list" where
  "prop_split fdt name [] = ([], [], [])"
| "prop_split fdt name (PropItem n v # items) =
     (if string_at fdt n = Some name then ([], [PropItem n v], items)
      else (case prop_split fdt name items of (pre, found, post) \<Rightarrow> (PropItem n v # pre, found, post)))"
| "prop_split fdt name (NopItem # items) =
     (case prop_split fdt name items of (pre, found, post) \<Rightarrow> (NopItem # pre, found, post))"
| "prop_split fdt name (NodeItem nm its # items) = ([], [], NodeItem nm its # items)"

definition set_prop :: "Fdt \<Rightarrow> u8 list \<Rightarrow> nat \<Rightarrow> u8 list \<Rightarrow> dt_item list \<Rightarrow> dt_item list" where
  "set_prop fdt name n v items = (case prop_split fdt name items of (pre, found, post) \<Rightarrow> pre @ PropItem n v # post)"

lemma prop_split_items: "prop_split fdt name items = (pre, found, post) \<Longrightarrow>
    items = pre @ found @ post \<and> (found = [] \<or> (\<exists>n v. found = [PropItem n v] \<and> string_at fdt n = Some name))"
  by (induction fdt name items arbitrary: pre found post rule: prop_split.induct) (auto split: prod.splits if_splits)

text \<open>What a lookup finds after the update.\<close>

lemma lookup_set_prop:
  assumes "string_at fdt n = Some name"
  shows "lookup_prop fdt name (set_prop fdt name n v items) = Some v"
    and "other \<noteq> name \<Longrightarrow> lookup_prop fdt other (set_prop fdt name n v items) = lookup_prop fdt other items"
  using assms
  by (induction fdt name items rule: prop_split.induct) (auto simp: set_prop_def split: prod.splits)

lemma direct_property_items:
  assumes ok: "block_ok fdt"
  shows "at_offset fdt k (flatten_all items) \<Longrightarrow> 4 dvd k \<Longrightarrow> \<forall>i \<in> set items. valid_item fdt i \<Longrightarrow>
    e = k + length (flatten_all items) \<Longrightarrow> prop_split fdt name items = (pre, found, post) \<Longrightarrow>
    direct_property_loop fdt e name k
    = Inr (if found = [] then None else Some (k + length (flatten_all pre), length (flatten_all found)))"
proof (induction items arbitrary: k pre found post)
  case Nil
  then show ?case by (subst direct_property_loop.simps) simp
next
  case (Cons i items)
  have a: "at_offset fdt k (flatten i)" "at_offset fdt (k + length (flatten i)) (flatten_all items)"
    using Cons.prems(1) by (simp_all add: at_offset_append)
  have k': "4 dvd k + length (flatten i)" "k < e" "e = k + length (flatten i) + length (flatten_all items)"
  proof -
    show e: "e = k + length (flatten i) + length (flatten_all items)" using Cons.prems(4) by simp
    show "k < e" using flatten_pos [of i] unfolding e by linarith
    show "4 dvd k + length (flatten i)" using Cons.prems(2) flatten_dvd by (rule dvd_add)
  qed
  show ?case
  proof (cases i)
    case (PropItem n v)
    have t: "read_token fdt k = Some FDT_PROP" "read_token fdt (k + 4) = Some (of_nat (length v))"
      "read_token fdt (k + 8) = Some (of_nat n)"
      using a(1) PropItem by (auto simp: at_offset_append add.commute [of 8] dest!: at_offset_token)
    have v: "n < 2 ^ 32" "length v < 2 ^ 32" using Cons.prems(3) PropItem by simp_all
    then have u: "unat (of_nat n :: u32) = n" "unat (of_nat (length v) :: u32) = length v" by (simp_all add: unat_of_nat)
    obtain s where s: "string_at fdt n = Some s" using Cons.prems(3) PropItem by auto
    have len: "length (flatten i) = 12 + align4 (length v)" using length_pad4 [of "length v"] PropItem by simp
    have rl: "property_record_length (length v) = Inr (12 + align4 (length v))"
      using v(2) align4_bounds(2) [of "length v"] by (simp add: property_record_length_def us_checked_add_def)
    show ?thesis
    proof (cases "s = name")
      case True
      then show ?thesis using t u s rl k'(2) Cons.prems(5) PropItem len
        by (subst direct_property_loop.simps) auto
    next
      case False
      obtain pre' where p: "prop_split fdt name items = (pre', found, post)" "pre = i # pre'"
        using Cons.prems(5) PropItem s False by (auto split: prod.splits)
      have "direct_property_loop fdt e name k = direct_property_loop fdt e name (k + length (flatten i))"
        using t u s rl k'(2) False len by (subst direct_property_loop.simps) simp
      then show ?thesis using Cons.IH [OF a(2) k'(1) _ k'(3) p(1)] Cons.prems(3) p(2) by (simp add: add.assoc)
    qed
  next
    case NopItem
    have t: "read_token fdt k = Some FDT_NOP" using a(1) NopItem at_offset_token by simp
    obtain pre' where p: "prop_split fdt name items = (pre', found, post)" "pre = i # pre'"
      using Cons.prems(5) NopItem by (auto split: prod.splits)
    have "direct_property_loop fdt e name k = direct_property_loop fdt e name (k + length (flatten i))"
      using t k'(2) NopItem by (subst direct_property_loop.simps) (simp add: fdt_tokens)
    then show ?thesis using Cons.IH [OF a(2) k'(1) _ k'(3) p(1)] Cons.prems(3) p(2) by (simp add: add.assoc)
  next
    case (NodeItem nm its)
    have t: "read_token fdt k = Some FDT_BEGIN_NODE"
      using a(1) NodeItem by (auto simp: at_offset_append dest!: at_offset_token)
    then show ?thesis using k'(2) Cons.prems(5) NodeItem
      by (subst direct_property_loop.simps) (simp add: fdt_tokens)
  qed
qed

lemma insertion_items:
  assumes ok: "block_ok fdt"
  shows "at_offset fdt k (flatten_all items) \<Longrightarrow> 4 dvd k \<Longrightarrow> \<forall>i \<in> set items. valid_item fdt i \<Longrightarrow>
    e = k + length (flatten_all items) \<Longrightarrow> prop_split fdt name items = (pre, [], post) \<Longrightarrow>
    insertion_loop fdt e k = Inr (k + length (flatten_all pre))"
proof (induction items arbitrary: k pre post)
  case Nil
  then show ?case by (subst insertion_loop.simps) simp
next
  case (Cons i items)
  have a: "at_offset fdt k (flatten i)" "at_offset fdt (k + length (flatten i)) (flatten_all items)"
    using Cons.prems(1) by (simp_all add: at_offset_append)
  have e: "e = k + length (flatten i) + length (flatten_all items)" using Cons.prems(4) by simp
  have lt: "k < e" using flatten_pos [of i] unfolding e by linarith
  have k': "4 dvd k + length (flatten i)" using Cons.prems(2) flatten_dvd by (rule dvd_add)
  show ?case
  proof (cases i)
    case (PropItem n v)
    have t: "read_token fdt k = Some FDT_PROP" using a(1) PropItem by (auto simp: at_offset_append dest!: at_offset_token)
    have v: "length v < 2 ^ 32" using Cons.prems(3) PropItem by simp
    have "k + 12 + length v < 2 ^ 64" using at_offset_lt [OF ok a(1)] PropItem by simp
    then have "after_property fdt k = Some (k + length (flatten i))"
      using after_property_at [OF Cons.prems(2) _ _ v] a(1) PropItem by blast
    then have "insertion_loop fdt e k = insertion_loop fdt e (k + length (flatten i))"
      using t lt by (subst insertion_loop.simps) simp
    moreover obtain pre' where "prop_split fdt name items = (pre', [], post)" "pre = i # pre'"
      using Cons.prems(5) PropItem by (auto split: prod.splits if_splits)
    ultimately show ?thesis using Cons.IH [OF a(2) k' _ e] Cons.prems(3) by (simp add: add.assoc)
  next
    case NopItem
    have "read_token fdt k = Some FDT_NOP" using a(1) NopItem at_offset_token by simp
    then have "insertion_loop fdt e k = insertion_loop fdt e (k + length (flatten i))"
      using lt NopItem by (subst insertion_loop.simps) (simp add: fdt_tokens)
    moreover obtain pre' where "prop_split fdt name items = (pre', [], post)" "pre = i # pre'"
      using Cons.prems(5) NopItem by (auto split: prod.splits)
    ultimately show ?thesis using Cons.IH [OF a(2) k' _ e] Cons.prems(3) by (simp add: add.assoc)
  next
    case (NodeItem nm its)
    have "read_token fdt k = Some FDT_BEGIN_NODE"
      using a(1) NodeItem by (auto simp: at_offset_append dest!: at_offset_token)
    then show ?thesis using lt Cons.prems(5) NodeItem
      by (subst insertion_loop.simps) (simp add: fdt_tokens)
  qed
qed

section \<open>Writing a property record\<close>

text \<open>A node of the structure block, cut at the place of a property.\<close>

definition node_head :: "u8 list \<Rightarrow> u8 list" where
  "node_head nm = be32 FDT_BEGIN_NODE @ (nm @ [0] @ pad4 (length nm + 1))"

lemma length_node_head: "length (node_head nm) = 4 + align4 (length nm + 1)"
  using length_pad4 [of "length nm + 1"] by (simp add: node_head_def)

lemma flatten_node: "flatten (NodeItem nm items) = node_head nm @ flatten_all items @ be32 FDT_END_NODE"
  by (simp add: node_head_def)

definition node_at :: "memory \<Rightarrow> Dtb \<Rightarrow> contents \<Rightarrow> u8 list \<Rightarrow> u8 list \<Rightarrow> dt_item list \<Rightarrow> u8 list \<Rightarrow> bool" where
  "node_at mem dtb c A nm items Z \<longleftrightarrow> holds mem dtb c \<and> c_struct c = A @ flatten (NodeItem nm items) @ Z
     \<and> 4 dvd length A \<and> valid_item (view mem dtb c) (NodeItem nm items)"

definition node_location :: "u8 list \<Rightarrow> u8 list \<Rightarrow> dt_item list \<Rightarrow> nat \<times> nat" where
  "node_location A nm items = (length A, length A + length (flatten (NodeItem nm items)) - 4)"

lemma node_at_facts:
  assumes "node_at mem dtb c A nm items Z"
  shows "holds mem dtb c" "block_ok (view mem dtb c)"
    "at_offset (view mem dtb c) (length A) (flatten (NodeItem nm items))"
    "after_begin_node (view mem dtb c) (length A) = Some (length A + length (node_head nm))"
    "at_offset (view mem dtb c) (length A + length (node_head nm)) (flatten_all items)"
    "4 dvd length A + length (node_head nm)" "\<forall>i \<in> set items. valid_item (view mem dtb c) i"
    "snd (node_location A nm items) = length A + length (node_head nm) + length (flatten_all items)"
proof -
  show h: "holds mem dtb c" using assms by (simp add: node_at_def)
  show ok: "block_ok (view mem dtb c)" by (rule view_block_ok [OF h])
  have d: "4 dvd length A" "valid_item (view mem dtb c) (NodeItem nm items)" using assms by (simp_all add: node_at_def)
  show a: "at_offset (view mem dtb c) (length A) (flatten (NodeItem nm items))"
    using assms by (simp add: node_at_def at_offset_def view_def del: flatten.simps)
  note n = node_content [OF ok d(2,1) a, unfolded content_offset_def length_node_head [symmetric]]
  show "after_begin_node (view mem dtb c) (length A) = Some (length A + length (node_head nm))"
    "at_offset (view mem dtb c) (length A + length (node_head nm)) (flatten_all items)"
    "4 dvd length A + length (node_head nm)" using n by simp_all
  show "\<forall>i \<in> set items. valid_item (view mem dtb c) i" using d(2) by simp
  show "snd (node_location A nm items) = length A + length (node_head nm) + length (flatten_all items)"
    by (simp add: node_location_def flatten_node del: flatten.simps)
qed

lemma prepare_property_holds:
  assumes n: "node_at mem dtb c A nm items Z" and sp: "prop_split (view mem dtb c) name items = (pre, found, post)"
    and len: "len < 2 ^ 32"
  defines "A' \<equiv> A @ node_head nm @ flatten_all pre" and "B' \<equiv> flatten_all post @ be32 FDT_END_NODE @ Z"
    and "R \<equiv> 12 + align4 len"
  shows "used c + R \<le> dtb_size dtb + length (flatten_all found) \<Longrightarrow>
      \<exists>mem'. prepare_property_record mem dtb (node_location A nm items) name len = (Inr (40 + length (c_pre c) + length A'), mem')
        \<and> holds mem' dtb (c\<lparr>c_struct := A' @ replicate R 0 @ B'\<rparr>) \<and> frame dtb mem mem'"
    and "dtb_size dtb + length (flatten_all found) < used c + R \<Longrightarrow>
      prepare_property_record mem dtb (node_location A nm items) name len = (Inl DtbBufferTooSmall, mem)"
    and "c_struct c = A' @ flatten_all found @ B'"
proof -
  note f = node_at_facts [OF n]
  note i = prop_split_items [OF sp]
  show s: "c_struct c = A' @ flatten_all found @ B'"
    using n i by (simp add: node_at_def A'_def B'_def flatten_node del: flatten.simps)
  have rl: "property_record_length len = Inr R"
    using len align4_bounds(2) [of len] by (simp add: property_record_length_def us_checked_add_def R_def)
  have R: "R < 2 ^ 63" using len align4_bounds(2) [of len] by (simp add: R_def)
  have lA: "length A' = length A + length (node_head nm) + length (flatten_all pre)" by (simp add: A'_def)
  have loop: "direct_property_loop (view mem dtb c) (snd (node_location A nm items)) name (length A + length (node_head nm))
      = Inr (if found = [] then None else Some (length A', length (flatten_all found)))"
    using direct_property_items [OF f(2,5,6,7,8) sp] lA by simp
  have fd: "find_direct_property mem dtb (node_location A nm items) name
      = Inr (if found = [] then None else Some \<lparr>property_offset = 40 + length (c_pre c) + length A', total_length = length (flatten_all found)\<rparr>)"
    using loop f(4) unfolding find_direct_property_def fdt_view_holds [OF f(1)] structure_offset_holds [OF f(1)]
    by (simp add: node_location_def split: if_splits)
  have io: "property_insertion_offset mem dtb (node_location A nm items) = Inr (40 + length (c_pre c) + length A')" if "found = []"
  proof -
    have "insertion_loop (view mem dtb c) (snd (node_location A nm items)) (length A + length (node_head nm)) = Inr (length A')"
      using insertion_items [OF f(2,5,6,7,8)] sp that lA by simp
    moreover have "length A' = length A + length (node_head nm)" if "length A + length (node_head nm) = snd (node_location A nm items)"
      using that i unfolding f(8) lA by simp
    ultimately show ?thesis using f(4)
      unfolding property_insertion_offset_def fdt_view_holds [OF f(1)] structure_offset_holds [OF f(1)]
      by (auto simp: node_location_def)
  qed
  have prep: "prepare_property_record mem dtb (node_location A nm items) name len =
      sbind (splice_struct_placeholder mem dtb (40 + length (c_pre c) + length A') (length (flatten_all found)) R)
        (\<lambda>_ mem. (Inr (40 + length (c_pre c) + length A'), mem))"
    unfolding prepare_property_record_def fd rl using io by (cases "found = []") (simp_all add: pure_op_def)
  show "used c + R \<le> dtb_size dtb + length (flatten_all found) \<Longrightarrow>
      \<exists>mem'. prepare_property_record mem dtb (node_location A nm items) name len = (Inr (40 + length (c_pre c) + length A'), mem')
        \<and> holds mem' dtb (c\<lparr>c_struct := A' @ replicate R 0 @ B'\<rparr>) \<and> frame dtb mem mem'"
    unfolding prep using holds_splice [OF f(1) s, of R] by auto
  show "dtb_size dtb + length (flatten_all found) < used c + R \<Longrightarrow>
      prepare_property_record mem dtb (node_location A nm items) name len = (Inl DtbBufferTooSmall, mem)"
    unfolding prep using holds_splice_full [OF f(1) s _ R] by simp
qed

text \<open>The writes that fill a reserved record.\<close>

definition write_record :: "memory \<Rightarrow> Dtb \<Rightarrow> nat \<Rightarrow> u32 \<Rightarrow> u8 list \<Rightarrow> (DtbError, unit, memory) outcome" where
  "write_record mem self record_offset name_off v =
     sbind (insert_u32 mem self record_offset FDT_PROP) (\<lambda>_ mem.
     if 2 ^ 32 \<le> length v then (Inl SizeOverflow, mem) else
     sbind (insert_u32 mem self (record_offset + 4) (of_nat (length v))) (\<lambda>_ mem.
     sbind (insert_u32 mem self (record_offset + 8) name_off) (\<lambda>_ mem.
     sbind (insert_bytes mem self (record_offset + 12) v) (\<lambda>_ mem.
     zero_property_padding mem self record_offset (length v)))))"

lemma holds_u32:
  assumes "holds mem dtb c" and "c_struct c = A @ replicate 4 0 @ B" and "off = 40 + length (c_pre c) + length A"
  shows "\<exists>e mem'. insert_u32 mem dtb off w = (Inr e, mem') \<and> holds mem' dtb (c\<lparr>c_struct := (A @ be32 w) @ B\<rparr>) \<and> frame dtb mem mem'"
  using holds_insert [OF assms(1,2), of "be32 w"] by (auto simp: insert_u32_def be32_def assms(3))

lemma holds_padding:
  assumes h: "holds mem dtb c" and s: "c_struct c = A @ pad4 n @ B" and off: "off + 12 + n = 40 + length (c_pre c) + length A"
  shows "\<exists>mem'. zero_property_padding mem dtb off n = (Inr (), mem') \<and> holds mem' dtb c \<and> frame dtb mem mem'"
proof (cases "align4 n - n = 0")
  case True
  then show ?thesis using h by (simp add: zero_property_padding_def)
next
  case False
  obtain mem' where m: "mem' = write_memory mem (dtb_pointer dtb + of_nat (40 + length (c_pre c) + length A)) (pad4 n)"
      "holds mem' dtb (c\<lparr>c_struct := A @ pad4 n @ B\<rparr>)" "frame dtb mem mem'"
    using holds_insert [OF h s refl] by blast
  have "c\<lparr>c_struct := A @ pad4 n @ B\<rparr> = c" using s by (metis contents.surjective contents.update_convs(6))
  moreover have "40 + length (c_pre c) + length A + (align4 n - n) \<le> dtb_size dtb" "dtb_size dtb < 2 ^ 31"
    using s by (rule_tac holds_rep [OF h], simp add: used_def pad4_def)+
  ultimately show ?thesis using m False
    unfolding zero_property_padding_def Let_def off
    by (auto simp: ensure_range_def us_checked_add_def pad4_def)
qed

lemma write_record_holds:
  assumes h: "holds mem dtb c" and s: "c_struct c = A @ replicate (12 + align4 (length v)) 0 @ B" and v: "length v < 2 ^ 32"
  shows "\<exists>mem'. write_record mem dtb (40 + length (c_pre c) + length A) (of_nat n) v = (Inr (), mem')
    \<and> holds mem' dtb (c\<lparr>c_struct := A @ flatten (PropItem n v) @ B\<rparr>) \<and> frame dtb mem mem'"
proof -
  let ?off = "40 + length (c_pre c) + length A" and ?B = "replicate (length v) 0 @ pad4 (length v) @ B"
  have r: "replicate (12 + align4 (length v)) 0 = replicate 4 0 @ replicate 4 0 @ replicate 4 0 @ replicate (length v) 0 @ pad4 (length v)"
    using align4_bounds(1) [of "length v"] by (simp add: pad4_def flip: replicate_add)
  have s0: "c_struct c = A @ replicate 4 0 @ replicate 4 0 @ replicate 4 0 @ ?B" using s unfolding r by simp
  obtain e1 m1 where 1: "insert_u32 mem dtb ?off FDT_PROP = (Inr e1, m1)"
      "holds m1 dtb (c\<lparr>c_struct := (A @ be32 FDT_PROP) @ replicate 4 0 @ replicate 4 0 @ ?B\<rparr>)" "frame dtb mem m1"
    using holds_u32 [OF h s0 refl] by blast
  obtain e2 m2 where 2: "insert_u32 m1 dtb (?off + 4) (of_nat (length v)) = (Inr e2, m2)"
      "holds m2 dtb (c\<lparr>c_struct := (A @ be32 FDT_PROP @ be32 (of_nat (length v))) @ replicate 4 0 @ ?B\<rparr>)" "frame dtb m1 m2"
    using holds_u32 [OF 1(2), of "A @ be32 FDT_PROP" "replicate 4 0 @ ?B" "?off + 4" "of_nat (length v)"] by auto
  obtain e3 m3 where 3: "insert_u32 m2 dtb (?off + 8) (of_nat n) = (Inr e3, m3)"
      "holds m3 dtb (c\<lparr>c_struct := (A @ be32 FDT_PROP @ be32 (of_nat (length v)) @ be32 (of_nat n)) @ ?B\<rparr>)" "frame dtb m2 m3"
    using holds_u32 [OF 2(2), of "A @ be32 FDT_PROP @ be32 (of_nat (length v))" "?B" "?off + 8" "of_nat n"] by auto
  obtain e4 m4 where 4: "insert_bytes m3 dtb (?off + 12) v = (Inr e4, m4)"
      "holds m4 dtb (c\<lparr>c_struct := A @ flatten (PropItem n v) @ B\<rparr>)" "frame dtb m3 m4"
    using holds_insert [OF 3(2), of "A @ be32 FDT_PROP @ be32 (of_nat (length v)) @ be32 (of_nat n)" "replicate (length v) 0"
      "pad4 (length v) @ B" v] by (auto simp: add.assoc)
  obtain m5 where 5: "zero_property_padding m4 dtb ?off (length v) = (Inr (), m5)"
      "holds m5 dtb (c\<lparr>c_struct := A @ flatten (PropItem n v) @ B\<rparr>)" "frame dtb m4 m5"
    using holds_padding [OF 4(2), of "A @ be32 FDT_PROP @ be32 (of_nat (length v)) @ be32 (of_nat n) @ v" "length v" B ?off]
    by auto
  have "write_record mem dtb ?off (of_nat n) v = (Inr (), m5)"
    using v unfolding write_record_def 1(1) sbind_Inr 2(1) 3(1) 4(1) 5(1) by simp
  then show ?thesis using 5 frame_trans 1(3) 2(3) 3(3) 4(3) by blast
qed

section \<open>Setting a property\<close>

text \<open>Validity and the position of a property depend on the strings block only, and survive appended strings.\<close>

lemma valid_item_append:
  "valid_item fdt i \<Longrightarrow> strings fdt' = strings fdt @ extra \<Longrightarrow> valid_item fdt' i"
proof (induction i)
  case (PropItem n v)
  then show ?case using string_at_append [of fdt n _ fdt' extra] by auto
qed auto

lemma prop_split_append:
  "\<forall>i \<in> set items. valid_item fdt i \<Longrightarrow> strings fdt' = strings fdt @ extra \<Longrightarrow>
   prop_split fdt' name items = prop_split fdt name items"
proof (induction fdt name items rule: prop_split.induct)
  case (2 fdt name n v items)
  obtain s where s: "string_at fdt n = Some s" using 2(2) by auto
  then show ?case using 2 string_at_append [OF s 2(3)] by simp
qed auto

lemma with_name_append: "\<exists>extra. strings_block (with_name ss name) = strings_block ss @ extra"
  by (simp add: with_name_def)

definition added :: "u8 list list \<Rightarrow> u8 list \<Rightarrow> nat" where
  "added ss name = (if name \<in> set ss then 0 else length name + 1)"

text \<open>The string step on a located node: it succeeds exactly when the new name fits, and keeps the node in place.\<close>

lemma string_step:
  assumes n: "node_at mem dtb c A nm items Z" and s: "c_strings c = strings_block ss" "names_ok ss"
    and nm: "0 \<notin> set name" "utf8_valid name" "length name < 2 ^ 63"
  defines "c1 \<equiv> c\<lparr>c_strings := strings_block (with_name ss name)\<rparr>"
  shows "used c + added ss name \<le> dtb_size dtb \<Longrightarrow>
      \<exists>m1. find_or_add_string mem dtb name = (Inr (of_nat (name_offset ss name)), m1) \<and> node_at m1 dtb c1 A nm items Z
        \<and> string_at (view m1 dtb c1) (name_offset ss name) = Some name
        \<and> prop_split (view m1 dtb c1) name items = prop_split (view mem dtb c) name items \<and> frame dtb mem m1"
    and "dtb_size dtb < used c + added ss name \<Longrightarrow> find_or_add_string mem dtb name = (Inl DtbBufferTooSmall, mem)"
proof -
  have h: "holds mem dtb c" using n by (simp add: node_at_def)
  note f = find_or_add_string_holds [OF h s nm(3)]
  have big: "\<not> dtb_size dtb < used c" by (rule holds_rep [OF h]) simp
  then show "dtb_size dtb < used c + added ss name \<Longrightarrow> find_or_add_string mem dtb name = (Inl DtbBufferTooSmall, mem)"
    using f(2) by (auto simp: added_def split: if_splits)
  assume room: "used c + added ss name \<le> dtb_size dtb"
  obtain m1 where m1: "find_or_add_string mem dtb name = (Inr (of_nat (name_offset ss name)), m1)" "holds m1 dtb c1" "frame dtb mem m1"
  proof (cases "name \<in> set ss")
    case True
    then have "c1 = c" using s by (simp add: c1_def with_name_def)
    then show ?thesis using that f(1) [OF True] h by simp
  next
    case False
    then show ?thesis using that f(3) [OF False] room by (auto simp: c1_def with_name_def added_def)
  qed
  obtain extra where x: "strings (view m1 dtb c1) = strings (view mem dtb c) @ extra"
    using with_name_append [of ss name] s(1) by (auto simp: view_def c1_def)
  have ok: "names_ok (with_name ss name)" using s(2) nm by (simp add: names_ok_def with_name_def)
  have "string_at (view m1 dtb c1) (name_offset ss name) = Some name"
    by (rule name_offset_string [OF ok]) (simp add: view_def c1_def)
  moreover have "node_at m1 dtb c1 A nm items Z"
    using n m1(2) valid_item_append [OF _ x] unfolding node_at_def by (simp add: c1_def del: flatten.simps valid_item.simps)
  moreover have "prop_split (view m1 dtb c1) name items = prop_split (view mem dtb c) name items"
    using prop_split_append [OF node_at_facts(7) [OF n] x] .
  ultimately show "\<exists>m1. find_or_add_string mem dtb name = (Inr (of_nat (name_offset ss name)), m1) \<and> node_at m1 dtb c1 A nm items Z
        \<and> string_at (view m1 dtb c1) (name_offset ss name) = Some name
        \<and> prop_split (view m1 dtb c1) name items = prop_split (view mem dtb c) name items \<and> frame dtb mem m1"
    using m1(1,3) by blast
qed

lemma used_with_strings: "c_strings c = strings_block ss \<Longrightarrow> used (c\<lparr>c_strings := strings_block (with_name ss name)\<rparr>) = used c + added ss name"
  by (simp add: used_def with_name_def added_def)

text \<open>Setting a property of a located node.\<close>

lemma set_property_located:
  assumes n: "node_at mem dtb c A nm items Z" and s: "c_strings c = strings_block ss" "names_ok ss"
    and nm: "0 \<notin> set name" "utf8_valid name" "length name < 2 ^ 63" and v: "length v < 2 ^ 32"
    and loc: "find_node_location mem dtb path = Inr (node_location A nm items)"
    and sp: "prop_split (view mem dtb c) name items = (pre, found, post)"
  shows "used c + added ss name + (12 + align4 (length v)) \<le> dtb_size dtb + length (flatten_all found)
      \<Longrightarrow> used c + added ss name \<le> dtb_size dtb \<Longrightarrow>
      \<exists>mem'. set_property_bytes mem dtb path name v = (Inr (), mem')
        \<and> holds mem' dtb (c\<lparr>c_strings := strings_block (with_name ss name),
            c_struct := A @ flatten (NodeItem nm (pre @ PropItem (name_offset ss name) v # post)) @ Z\<rparr>)
        \<and> frame dtb mem mem'"
    and "dtb_size dtb + length (flatten_all found) < used c + added ss name + (12 + align4 (length v))
      \<or> dtb_size dtb < used c + added ss name \<Longrightarrow>
      \<exists>mem' c'. set_property_bytes mem dtb path name v = (Inl DtbBufferTooSmall, mem') \<and> holds mem' dtb c'
        \<and> (c' = c \<or> c' = c\<lparr>c_strings := strings_block (with_name ss name)\<rparr>) \<and> frame dtb mem mem'"
proof -
  define c1 where "c1 = c\<lparr>c_strings := strings_block (with_name ss name)\<rparr>"
  note step = string_step [OF n s nm, folded c1_def]
  have u1: "used c1 = used c + added ss name" "c_pre c1 = c_pre c" using used_with_strings [OF s(1)] by (simp_all add: c1_def)
  have def: "set_property_bytes mem dtb path name v =
      sbind (find_or_add_string mem dtb name) (\<lambda>name_off mem.
      sbind (prepare_property_record mem dtb (node_location A nm items) name (length v)) (\<lambda>record_offset mem.
      write_record mem dtb record_offset name_off v))"
    unfolding set_property_bytes_def loc write_record_def by (simp add: pure_op_def)
  { assume fit: "used c + added ss name + (12 + align4 (length v)) \<le> dtb_size dtb + length (flatten_all found)"
      and room: "used c + added ss name \<le> dtb_size dtb"
    obtain m1 where m1: "find_or_add_string mem dtb name = (Inr (of_nat (name_offset ss name)), m1)" "node_at m1 dtb c1 A nm items Z"
        "prop_split (view m1 dtb c1) name items = (pre, found, post)" "frame dtb mem m1"
      using step(1) [OF room] sp by auto
    let ?A = "A @ node_head nm @ flatten_all pre" and ?B = "flatten_all post @ be32 FDT_END_NODE @ Z"
    obtain m2 where m2: "prepare_property_record m1 dtb (node_location A nm items) name (length v) = (Inr (40 + length (c_pre c) + length ?A), m2)"
        "holds m2 dtb (c1\<lparr>c_struct := ?A @ replicate (12 + align4 (length v)) 0 @ ?B\<rparr>)" "frame dtb m1 m2"
      using prepare_property_holds(1) [OF m1(2,3) v] fit u1 by auto
    obtain m3 where m3: "write_record m2 dtb (40 + length (c_pre c) + length ?A) (of_nat (name_offset ss name)) v = (Inr (), m3)"
        "holds m3 dtb (c1\<lparr>c_struct := ?A @ flatten (PropItem (name_offset ss name) v) @ ?B\<rparr>)" "frame dtb m2 m3"
      using write_record_holds [OF m2(2) _ v, of ?A ?B "name_offset ss name"] u1(2) by auto
    have "?A @ flatten (PropItem (name_offset ss name) v) @ ?B
        = A @ flatten (NodeItem nm (pre @ PropItem (name_offset ss name) v # post)) @ Z"
      unfolding flatten_node by simp
    then show "\<exists>mem'. set_property_bytes mem dtb path name v = (Inr (), mem')
        \<and> holds mem' dtb (c\<lparr>c_strings := strings_block (with_name ss name),
            c_struct := A @ flatten (NodeItem nm (pre @ PropItem (name_offset ss name) v # post)) @ Z\<rparr>)
        \<and> frame dtb mem mem'"
      using m3 frame_trans [OF m1(4) frame_trans [OF m2(3) m3(3)]] unfolding def m1(1) sbind_Inr m2(1)
      by (auto simp: c1_def) }
  { assume full: "dtb_size dtb + length (flatten_all found) < used c + added ss name + (12 + align4 (length v))
      \<or> dtb_size dtb < used c + added ss name"
    show "\<exists>mem' c'. set_property_bytes mem dtb path name v = (Inl DtbBufferTooSmall, mem') \<and> holds mem' dtb c'
        \<and> (c' = c \<or> c' = c\<lparr>c_strings := strings_block (with_name ss name)\<rparr>) \<and> frame dtb mem mem'"
    proof (cases "dtb_size dtb < used c + added ss name")
      case True
      then show ?thesis using step(2) [OF True] n unfolding def by (auto simp: node_at_def)
    next
      case False
      then have room: "used c + added ss name \<le> dtb_size dtb" by simp
      obtain m1 where m1: "find_or_add_string mem dtb name = (Inr (of_nat (name_offset ss name)), m1)" "node_at m1 dtb c1 A nm items Z"
          "prop_split (view m1 dtb c1) name items = (pre, found, post)" "frame dtb mem m1"
        using step(1) [OF room] sp by auto
      have "prepare_property_record m1 dtb (node_location A nm items) name (length v) = (Inl DtbBufferTooSmall, m1)"
        using prepare_property_holds(2) [OF m1(2,3) v] full False u1 by simp
      then show ?thesis using m1 unfolding def by (auto simp: node_at_def c1_def)
    qed }
qed

section \<open>Paths\<close>

text \<open>Applying a function to the node a path leads to: at every level the first child of that name.\<close>

fun map_first :: "u8 list \<Rightarrow> (dt_item \<Rightarrow> dt_item) \<Rightarrow> dt_item list \<Rightarrow> dt_item list" where
  "map_first name f [] = []"
| "map_first name f (NodeItem nm its # items) =
     (if nm = name then f (NodeItem nm its) # items else NodeItem nm its # map_first name f items)"
| "map_first name f (i # items) = i # map_first name f items"

primrec update_at :: "u8 list list \<Rightarrow> (dt_item \<Rightarrow> dt_item) \<Rightarrow> dt_item \<Rightarrow> dt_item" where
  "update_at [] f i = f i"
| "update_at (c # cs) f i = NodeItem (item_name i) (map_first c (update_at cs f) (node_items i))"

lemma find_sub_split:
  assumes "find_sub k items name = Some (k', i)"
  shows "\<exists>pre its post. items = pre @ i # post \<and> i = NodeItem name its \<and> k' = k + length (flatten_all pre)
    \<and> (\<forall>f. map_first name f items = pre @ f i # post)
    \<and> (\<forall>k2 its2. find_sub k2 (pre @ NodeItem name its2 # post) name = Some (k2 + length (flatten_all pre), NodeItem name its2))"
  using assms
proof (induction items arbitrary: k)
  case (Cons x items)
  have rec: ?case if step: "find_sub (k + length (flatten x)) items name = Some (k', i)"
    "\<And>f. map_first name f (x # items) = x # map_first name f items"
    "\<And>k2 ys. find_sub k2 (x # ys) name = find_sub (k2 + length (flatten x)) ys name"
  proof -
    obtain pre its post where p: "items = pre @ i # post" "i = NodeItem name its" "k' = k + length (flatten x) + length (flatten_all pre)"
      "\<forall>f. map_first name f items = pre @ f i # post"
      "\<forall>k2 its2. find_sub k2 (pre @ NodeItem name its2 # post) name = Some (k2 + length (flatten_all pre), NodeItem name its2)"
      using Cons.IH [OF step(1)] by blast
    show ?thesis
      by (rule exI [of _ "x # pre"], rule exI [of _ its], rule exI [of _ post]) (use p step(2,3) in \<open>simp add: add.assoc\<close>)
  qed
  show ?case
  proof (cases x)
    case (NodeItem nm its)
    show ?thesis
    proof (cases "nm = name")
      case True
      then show ?thesis using Cons.prems NodeItem by (intro exI [of _ "[]"] exI [of _ its] exI [of _ items]) auto
    next
      case False
      then show ?thesis using rec Cons.prems NodeItem by simp
    qed
  qed (use rec Cons.prems in simp_all)
qed simp

text \<open>The encoding of a tree around the node a path leads to.\<close>

lemma resolve_split:
  assumes "resolve k (NodeItem nm items) cs = Some (k', j)" and "4 dvd k"
  shows "\<exists>pre post tn its. flatten (NodeItem nm items) = pre @ flatten j @ post \<and> j = NodeItem tn its \<and> k' = k + length pre \<and> 4 dvd k'
    \<and> (valid_item fdt (NodeItem nm items) \<longrightarrow> valid_item fdt j)
    \<and> (\<forall>f its'. f j = NodeItem tn its' \<longrightarrow> flatten (update_at cs f (NodeItem nm items)) = pre @ flatten (f j) @ post
         \<and> resolve k (update_at cs f (NodeItem nm items)) cs = Some (k', f j)
         \<and> (\<forall>fdt. valid_item fdt (NodeItem nm items) \<longrightarrow> valid_item fdt (f j) \<longrightarrow> valid_item fdt (update_at cs f (NodeItem nm items))))"
  using assms
proof (induction cs arbitrary: k nm items)
  case Nil
  then show ?case by (intro exI [of _ "[]"] exI [of _ "[]"] exI [of _ nm] exI [of _ items]) auto
next
  case (Cons c cs)
  let ?k = "content_offset k nm"
  obtain k1 i1 where sub: "find_sub ?k items c = Some (k1, i1)" and r: "resolve k1 i1 cs = Some (k', j)"
    using Cons.prems(1) by (auto split: option.splits)
  obtain pre1 its1 post1 where f: "items = pre1 @ i1 # post1" "i1 = NodeItem c its1" "k1 = ?k + length (flatten_all pre1)"
      "\<And>f. map_first c f items = pre1 @ f i1 # post1"
      "\<And>k2 its2. find_sub k2 (pre1 @ NodeItem c its2 # post1) c = Some (k2 + length (flatten_all pre1), NodeItem c its2)"
    using find_sub_split [OF sub] by blast
  have k1: "4 dvd k1" using Cons.prems(2) align4_bounds(3) [of "length nm + 1"] flatten_all_dvd [of pre1]
    unfolding f(3) content_offset_def by (intro dvd_add) simp_all
  obtain pre post tn its where p: "flatten i1 = pre @ flatten j @ post" "j = NodeItem tn its" "k' = k1 + length pre" "4 dvd k'"
      "valid_item fdt i1 \<longrightarrow> valid_item fdt j"
      "\<And>f its'. f j = NodeItem tn its' \<Longrightarrow> flatten (update_at cs f i1) = pre @ flatten (f j) @ post
         \<and> resolve k1 (update_at cs f i1) cs = Some (k', f j)
         \<and> (\<forall>fdt. valid_item fdt i1 \<longrightarrow> valid_item fdt (f j) \<longrightarrow> valid_item fdt (update_at cs f i1))"
    using Cons.IH [OF r [unfolded f(2)] k1] unfolding f(2) [symmetric] by blast
  let ?pre = "node_head nm @ flatten_all pre1 @ pre" and ?post = "post @ flatten_all post1 @ be32 FDT_END_NODE"
  have upd: "\<exists>its2. update_at cs f i1 = NodeItem c its2" if "f j = NodeItem tn its'" for f its'
  proof (cases cs)
    case Nil
    then show ?thesis using that r f(2) p(2) by auto
  qed (simp add: f(2))
  have "flatten (NodeItem nm items) = ?pre @ flatten j @ ?post" unfolding flatten_node f(1) using p(1) by simp
  moreover have "k' = k + length ?pre" using p(3) f(3) by (simp add: content_offset_def length_node_head)
  moreover have "flatten (update_at (c # cs) g (NodeItem nm items)) = ?pre @ flatten (g j) @ ?post
      \<and> resolve k (update_at (c # cs) g (NodeItem nm items)) (c # cs) = Some (k', g j)
      \<and> (\<forall>fdt. valid_item fdt (NodeItem nm items) \<longrightarrow> valid_item fdt (g j) \<longrightarrow> valid_item fdt (update_at (c # cs) g (NodeItem nm items)))"
    if g: "g j = NodeItem tn its'" for g its'
  proof -
    obtain its2 where u: "update_at cs g i1 = NodeItem c its2" using upd [of g, OF g] by blast
    note q = p(6) [of g, OF g]
    have e: "update_at (c # cs) g (NodeItem nm items) = NodeItem nm (pre1 @ update_at cs g i1 # post1)" using f(4) by simp
    have "flatten (update_at (c # cs) g (NodeItem nm items)) = ?pre @ flatten (g j) @ ?post"
      unfolding e flatten_node using q by simp
    moreover have "resolve k (NodeItem nm (pre1 @ update_at cs g i1 # post1)) (c # cs) = Some (k', g j)"
      using q f(5) [of ?k its2] f(3) unfolding u by simp
    moreover have "valid_item fdt (NodeItem nm (pre1 @ update_at cs g i1 # post1))"
      if "valid_item fdt (NodeItem nm items)" "valid_item fdt (g j)" for fdt
      using that q f(1) by auto
    ultimately show ?thesis unfolding e by blast
  qed
  moreover have "valid_item fdt (NodeItem nm items) \<longrightarrow> valid_item fdt j" using p(5) f(1) by simp
  ultimately show ?case using p(2,4) by blast
qed

definition abs_path :: "u8 list list \<Rightarrow> u8 list" where
  "abs_path cs = (if cs = [] then str ''/'' else path_of cs)"

definition components_ok :: "u8 list list \<Rightarrow> bool" where
  "components_ok cs \<longleftrightarrow> (\<forall>c \<in> set cs. c \<noteq> [] \<and> 0x2f \<notin> set c)"

text \<open>A blob whose structure block starts with the encoding of a valid tree.\<close>

definition encodes :: "memory \<Rightarrow> Dtb \<Rightarrow> contents \<Rightarrow> u8 list \<Rightarrow> dt_item list \<Rightarrow> u8 list \<Rightarrow> bool" where
  "encodes mem dtb c nm items Z \<longleftrightarrow> node_at mem dtb c [] nm items Z"

lemma path_of_not_root: "components_ok cs \<Longrightarrow> cs \<noteq> [] \<Longrightarrow> path_of cs \<noteq> str ''/''"
  by (cases cs) (auto simp: path_of_def components_ok_def str_def)

lemma find_node_encodes:
  assumes e: "encodes mem dtb c nm items Z" and cs: "components_ok cs"
  shows "find_node (view mem dtb c) (abs_path cs) = map_option (\<lambda>(k, i). node_view k i) (resolve 0 (NodeItem nm items) cs)"
proof -
  note f = node_at_facts [OF e [unfolded encodes_def]]
  have v: "valid_item (view mem dtb c) (NodeItem nm items)" using e by (simp add: encodes_def node_at_def)
  show ?thesis
  proof (cases "cs = []")
    case True
    have "node_at_offset (view mem dtb c) 0 = Some (node_view 0 (NodeItem nm items))"
      using node_at_offset_flatten [OF f(2) v] f(3) by simp
    then show ?thesis using True by (simp add: abs_path_def find_node_def root_node_def)
  next
    case False
    then show ?thesis using find_node_flatten [OF f(2) v _ False] f(3) cs by (simp add: abs_path_def components_ok_def)
  qed
qed

lemma find_node_location_encodes:
  assumes e: "encodes mem dtb c nm items Z" and cs: "components_ok cs"
  shows "find_node_location mem dtb (abs_path cs) =
    (case resolve 0 (NodeItem nm items) cs of
       None \<Rightarrow> Inl NodeNotFound
     | Some (k, j) \<Rightarrow> Inr (k, k + length (flatten j) - 4))"
proof -
  note f = node_at_facts [OF e [unfolded encodes_def]]
  note n = find_node_encodes [OF e cs]
  show ?thesis
  proof (cases "cs = []")
    case True
    have "root_node (view mem dtb c) = Some (node_view 0 (NodeItem nm items))"
      using n True by (simp add: abs_path_def find_node_def)
    then show ?thesis using True fdt_view_holds [OF f(1)] by (simp add: abs_path_def find_node_location_def node_view_def)
  next
    case False
    have "split_slash (path_of cs) = [] # cs" using split_slash_path [OF False] cs by (simp add: components_ok_def)
    moreover have "[] \<notin> set cs" using cs by (auto simp: components_ok_def)
    ultimately show ?thesis
      using n False path_of_not_root [OF cs False] fdt_view_holds [OF f(1)]
      unfolding find_node_location_def abs_path_def
      by (auto simp: node_view_def split: option.splits)
  qed
qed

text \<open>The specification: the property is set in the node the path leads to.\<close>

definition set_node_prop :: "Fdt \<Rightarrow> u8 list \<Rightarrow> nat \<Rightarrow> u8 list \<Rightarrow> dt_item \<Rightarrow> dt_item" where
  "set_node_prop fdt name n v i = NodeItem (item_name i) (set_prop fdt name n v (node_items i))"

definition old_record :: "Fdt \<Rightarrow> u8 list \<Rightarrow> dt_item \<Rightarrow> nat" where
  "old_record fdt name i = length (flatten_all (fst (snd (prop_split fdt name (node_items i)))))"

text \<open>Whether the blob has room for the new name and the record.\<close>

definition property_fits :: "Dtb \<Rightarrow> contents \<Rightarrow> u8 list list \<Rightarrow> u8 list \<Rightarrow> nat \<Rightarrow> nat \<Rightarrow> bool" where
  "property_fits dtb c ss name len old \<longleftrightarrow> used c + added ss name \<le> dtb_size dtb
     \<and> used c + added ss name + (12 + align4 len) \<le> dtb_size dtb + old"

definition name_ok :: "u8 list \<Rightarrow> bool" where
  "name_ok name \<longleftrightarrow> 0 \<notin> set name \<and> utf8_valid name \<and> length name < 2 ^ 63"

lemma set_property_spec:
  assumes e: "encodes mem dtb c nm items Z" and s: "c_strings c = strings_block ss" "names_ok ss"
    and name: "name_ok name" and v: "length v < 2 ^ 32" and cs: "components_ok cs"
    and r: "resolve 0 (NodeItem nm items) cs = Some (k, j)"
  defines "fdt \<equiv> view mem dtb c" and "c1 \<equiv> c\<lparr>c_strings := strings_block (with_name ss name)\<rparr>"
  shows "property_fits dtb c ss name (length v) (old_record fdt name j) \<Longrightarrow>
      \<exists>mem'. set_property_bytes mem dtb (abs_path cs) name v = (Inr (), mem')
        \<and> holds mem' dtb (c1\<lparr>c_struct :=
            flatten (update_at cs (set_node_prop fdt name (name_offset ss name) v) (NodeItem nm items)) @ Z\<rparr>)
        \<and> frame dtb mem mem'"
    and "\<not> property_fits dtb c ss name (length v) (old_record fdt name j) \<Longrightarrow>
      \<exists>mem' c'. set_property_bytes mem dtb (abs_path cs) name v = (Inl DtbBufferTooSmall, mem') \<and> holds mem' dtb c'
        \<and> (c' = c \<or> c' = c1) \<and> frame dtb mem mem'"
proof -
  have v0: "valid_item fdt (NodeItem nm items)" and h: "holds mem dtb c" and st: "c_struct c = flatten (NodeItem nm items) @ Z"
    using e by (simp_all add: encodes_def node_at_def fdt_def)
  obtain pre post tn its where p: "flatten (NodeItem nm items) = pre @ flatten j @ post" "j = NodeItem tn its" "k = length pre" "4 dvd k"
      "valid_item fdt j"
      "\<And>f its'. f j = NodeItem tn its' \<Longrightarrow> flatten (update_at cs f (NodeItem nm items)) = pre @ flatten (f j) @ post"
    using resolve_split [OF r, of fdt] v0 by auto
  have n: "node_at mem dtb c pre tn its (post @ Z)"
    using h st p(1,3,4,5) unfolding node_at_def fdt_def p(2) by simp
  have loc: "find_node_location mem dtb (abs_path cs) = Inr (node_location pre tn its)"
    using find_node_location_encodes [OF e cs] r p(2,3) by (simp add: node_location_def)
  obtain pr found po where sp: "prop_split fdt name its = (pr, found, po)" by (cases "prop_split fdt name its")
  have old: "old_record fdt name j = length (flatten_all found)" using sp p(2) by (simp add: old_record_def)
  have upd: "flatten (update_at cs (set_node_prop fdt name (name_offset ss name) v) (NodeItem nm items)) @ Z
      = pre @ flatten (NodeItem tn (pr @ PropItem (name_offset ss name) v # po)) @ post @ Z"
    using p(6) [of "set_node_prop fdt name (name_offset ss name) v"] p(2) sp by (simp add: set_node_prop_def set_prop_def)
  note loc_lemma = set_property_located [OF n s _ _ _ v loc sp [unfolded fdt_def]]
  show "property_fits dtb c ss name (length v) (old_record fdt name j) \<Longrightarrow>
      \<exists>mem'. set_property_bytes mem dtb (abs_path cs) name v = (Inr (), mem')
        \<and> holds mem' dtb (c1\<lparr>c_struct :=
            flatten (update_at cs (set_node_prop fdt name (name_offset ss name) v) (NodeItem nm items)) @ Z\<rparr>)
        \<and> frame dtb mem mem'"
    using loc_lemma(1) name unfolding property_fits_def old upd c1_def name_ok_def by simp
  show "\<not> property_fits dtb c ss name (length v) (old_record fdt name j) \<Longrightarrow>
      \<exists>mem' c'. set_property_bytes mem dtb (abs_path cs) name v = (Inl DtbBufferTooSmall, mem') \<and> holds mem' dtb c'
        \<and> (c' = c \<or> c' = c1) \<and> frame dtb mem mem'"
    using loc_lemma(2) name unfolding property_fits_def old c1_def name_ok_def by (simp add: not_le) blast
qed

section \<open>The blob after an update\<close>

lemma lookup_prop_append:
  "\<forall>i \<in> set items. valid_item fdt i \<Longrightarrow> strings fdt' = strings fdt @ extra \<Longrightarrow>
   lookup_prop fdt' name items = lookup_prop fdt name items"
proof (induction fdt name items rule: lookup_prop.induct)
  case (2 fdt name n v items)
  obtain s where s: "string_at fdt n = Some s" using 2(2) by auto
  then show ?case using 2 string_at_append [OF s 2(3)] by simp
qed auto

lemma valid_set_prop:
  assumes "\<forall>i \<in> set items. valid_item fdt' i" and "valid_item fdt' (PropItem n v)"
  shows "\<forall>i \<in> set (set_prop fdt name n v items). valid_item fdt' i"
proof -
  obtain pre found post where sp: "prop_split fdt name items = (pre, found, post)" by (cases "prop_split fdt name items")
  then show ?thesis using assms prop_split_items [OF sp] by (auto simp: set_prop_def)
qed

lemma update_at_node: "\<exists>items'. update_at cs (set_node_prop fdt name n v) (NodeItem nm items) = NodeItem nm items'"
  by (cases cs) (simp_all add: set_node_prop_def)

lemma set_prop_append:
  "\<forall>i \<in> set items. valid_item fdt i \<Longrightarrow> strings fdt' = strings fdt @ extra \<Longrightarrow>
   set_prop fdt name n v items = set_prop fdt' name n v items"
  unfolding set_prop_def using prop_split_append [of items fdt fdt' extra name] by simp

text \<open>Every blob that holds the updated tree is read back as such.\<close>

lemma updated_reads:
  assumes e: "encodes mem dtb c nm items Z" and s: "c_strings c = strings_block ss" "names_ok ss"
    and name: "name_ok name" and v: "length v < 2 ^ 32" and cs: "components_ok cs"
    and r: "resolve 0 (NodeItem nm items) cs = Some (k, j)"
  defines "fdt \<equiv> view mem dtb c" and "c1 \<equiv> c\<lparr>c_strings := strings_block (with_name ss name)\<rparr>"
  defines "c2 \<equiv> c1\<lparr>c_struct := flatten (update_at cs (set_node_prop fdt name (name_offset ss name) v) (NodeItem nm items)) @ Z\<rparr>"
  assumes h: "holds mem' dtb c2"
  shows "\<exists>items'. encodes mem' dtb c2 nm items' Z" and "\<exists>node. find_node (view mem' dtb c2) (abs_path cs) = Some node
      \<and> get_property (view mem' dtb c2) node name = Some v
      \<and> (\<forall>other. other \<noteq> name \<longrightarrow> get_property (view mem' dtb c2) node other = get_property fdt (node_view k j) other)"
proof -
  let ?f = "set_node_prop fdt name (name_offset ss name) v"
  note f0 = node_at_facts [OF e [unfolded encodes_def], folded fdt_def]
  have v0: "valid_item fdt (NodeItem nm items)" using e by (simp add: encodes_def node_at_def fdt_def)
  obtain extra where "strings_block (with_name ss name) = strings_block ss @ extra" using with_name_append by blast
  then have x: "strings (view mem' dtb c2) = strings fdt @ extra" using s(1) by (simp add: view_def c2_def c1_def fdt_def)
  define fdt' where "fdt' = view mem' dtb c2"
  obtain pre post tn its where p: "flatten (NodeItem nm items) = pre @ flatten j @ post" "j = NodeItem tn its" "k = length pre" "4 dvd k"
      "valid_item fdt j"
      "\<And>f its'. f j = NodeItem tn its' \<Longrightarrow> flatten (update_at cs f (NodeItem nm items)) = pre @ flatten (f j) @ post
        \<and> resolve 0 (update_at cs f (NodeItem nm items)) cs = Some (k, f j)
        \<and> (\<forall>fdt. valid_item fdt (NodeItem nm items) \<longrightarrow> valid_item fdt (f j) \<longrightarrow> valid_item fdt (update_at cs f (NodeItem nm items)))"
    using resolve_split [OF r, of fdt] v0 by auto
  have fj: "?f j = NodeItem tn (set_prop fdt name (name_offset ss name) v its)" by (simp add: set_node_prop_def p(2))
  note q = p(6) [of ?f, OF fj]
  have ok: "names_ok (with_name ss name)" using s(2) name by (simp add: names_ok_def with_name_def name_ok_def)
  have st: "string_at fdt' (name_offset ss name) = Some name"
    by (rule name_offset_string [OF ok]) (simp add: fdt'_def view_def c2_def c1_def)
  have "name_offset ss name \<le> length (c_strings c)"
    unfolding name_offset_def s(1) by (metis le_add1 length_append strings_block_simps(3) takeWhile_dropWhile_id)
  moreover have "length (c_strings c) < 2 ^ 31" by (rule holds_rep [OF f0(1)]) (simp add: used_def)
  ultimately have vp: "valid_item fdt' (PropItem (name_offset ss name) v)" using st v by simp
  have vit: "\<forall>i \<in> set its. valid_item fdt i" "\<forall>i \<in> set its. valid_item fdt' i"
    using p(5) valid_item_append [OF p(5)] x unfolding p(2) fdt'_def by simp_all
  have vj: "valid_item fdt' (?f j)"
    unfolding fj using valid_set_prop [OF vit(2) vp] p(5) by (simp add: p(2))
  have vt: "valid_item fdt' (update_at cs ?f (NodeItem nm items))"
    using q vj valid_item_append [OF v0, of fdt'] x by (simp add: fdt'_def del: valid_item.simps)
  obtain items' where it: "update_at cs ?f (NodeItem nm items) = NodeItem nm items'" using update_at_node by blast
  have e': "encodes mem' dtb c2 nm items' Z"
    using h vt unfolding encodes_def node_at_def fdt'_def it by (simp add: c2_def it del: flatten.simps valid_item.simps)
  then show "\<exists>items'. encodes mem' dtb c2 nm items' Z" by blast
  have n: "find_node (view mem' dtb c2) (abs_path cs) = Some (node_view k (?f j))"
    using find_node_encodes [OF e' cs] q by (simp add: it)
  note f2 = node_at_facts [OF e' [unfolded encodes_def], folded fdt'_def]
  have at: "at_offset fdt' k (flatten (?f j))"
    using f2(3) q unfolding it [symmetric] by (simp add: at_offset_append p(3) del: flatten.simps)
  have at0: "at_offset fdt k (flatten j)"
    using f0(3) p(1) by (simp add: at_offset_append p(3) del: flatten.simps)
  have g: "get_property fdt' (node_view k (?f j)) a = lookup_prop fdt' a (set_prop fdt name (name_offset ss name) v its)" for a
    using get_property_flatten [OF f2(2) _ p(4)] vj at unfolding fj by blast
  have g0: "get_property fdt (node_view k j) a = lookup_prop fdt a its" for a
    using get_property_flatten [OF f0(2) _ p(4)] p(5) at0 unfolding p(2) by blast
  have "get_property fdt' (node_view k (?f j)) name = Some v"
    unfolding g set_prop_append [OF vit(1) x] using lookup_set_prop(1) [OF st [unfolded fdt'_def]] by (simp add: fdt'_def)
  moreover have "get_property fdt' (node_view k (?f j)) a = get_property fdt (node_view k j) a" if "a \<noteq> name" for a
    unfolding g g0 set_prop_append [OF vit(1) x] using lookup_set_prop(2) [OF st [unfolded fdt'_def] that]
      lookup_prop_append [OF vit(1) x] by (simp add: fdt'_def)
  ultimately show "\<exists>node. find_node (view mem' dtb c2) (abs_path cs) = Some node
      \<and> get_property (view mem' dtb c2) node name = Some v
      \<and> (\<forall>other. other \<noteq> name \<longrightarrow> get_property (view mem' dtb c2) node other = get_property fdt (node_view k j) other)"
    using n by (simp add: fdt'_def)
qed

section \<open>Creating nodes\<close>

fun has_child :: "dt_item list \<Rightarrow> u8 list \<Rightarrow> bool" where
  "has_child [] name \<longleftrightarrow> False"
| "has_child (NodeItem nm its # items) name \<longleftrightarrow> nm = name \<or> has_child items name"
| "has_child (i # items) name \<longleftrightarrow> has_child items name"

text \<open>The specification: missing components become empty nodes behind the existing children.\<close>

primrec create_at :: "u8 list list \<Rightarrow> dt_item \<Rightarrow> dt_item" where
  "create_at [] i = i"
| "create_at (c # cs) i = NodeItem (item_name i)
     (if has_child (node_items i) c then map_first c (create_at cs) (node_items i)
      else node_items i @ [create_at cs (NodeItem c [])])"

lemma has_child_find_sub: "has_child items name \<longleftrightarrow> find_sub k items name \<noteq> None"
  by (induction items name arbitrary: k rule: has_child.induct) auto

lemma length_align_empty: "align4 (4 + length name + 1) - (4 + length name) = Suc (align4 (length name + 1) - (length name + 1))"
  using align4_dvd [of 4 "length name + 1"] align4_bounds(1) [of "length name + 1"] by (simp add: add.assoc)

lemma empty_node_bytes_flatten: "empty_node_bytes name = flatten (NodeItem name [])"
  unfolding empty_node_bytes_def Let_def length_align_empty by (simp add: be32_def pad4_def)

lemma create_at_grows: "length (flatten (NodeItem nm items)) \<le> length (flatten (create_at cs (NodeItem nm items)))"
proof (induction cs arbitrary: nm items)
  case (Cons c cs)
  show ?case
  proof (cases "has_child items c")
    case True
    then obtain k' i where sub: "find_sub 0 items c = Some (k', i)" by (auto simp: has_child_find_sub [of _ _ 0])
    obtain pre its post where p: "items = pre @ i # post" "i = NodeItem c its"
        "\<And>f. map_first c f items = pre @ f i # post" using find_sub_split [OF sub] by blast
    show ?thesis using True Cons.IH [of c its] p(3) [of "create_at cs"] unfolding p(2)
      by (simp add: flatten_node p(1,2) del: flatten.simps)
  qed (simp add: flatten_node del: flatten.simps)
qed simp

lemma insert_child_holds:
  assumes n: "node_at mem dtb c A nm items Z" and name: "0 \<notin> set name" "utf8_valid name" "length name \<le> 255"
    and room: "used c + length (flatten (NodeItem name [])) \<le> dtb_size dtb"
  defines "A' \<equiv> A @ node_head nm @ flatten_all items" and "Z' \<equiv> be32 FDT_END_NODE @ Z"
  defines "c' \<equiv> c\<lparr>c_struct := A' @ flatten (NodeItem name []) @ Z'\<rparr>"
  shows "\<exists>mem'. insert_child_node mem dtb (snd (node_location A nm items)) name = (Inr (node_location A' name []), mem')
    \<and> node_at mem' dtb c' A' name [] Z' \<and> frame dtb mem mem'"
proof -
  note f = node_at_facts [OF n]
  have s: "c_struct c = A' @ [] @ Z'" using n unfolding node_at_def flatten_node by (simp add: A'_def Z'_def)
  let ?E = "flatten (NodeItem name [])"
  obtain m1 where m1: "splice_struct_placeholder mem dtb (40 + length (c_pre c) + length A') 0 (length ?E) = (Inr (), m1)"
      "holds m1 dtb (c\<lparr>c_struct := A' @ replicate (length ?E) 0 @ Z'\<rparr>)" "frame dtb mem m1"
    using holds_splice [OF f(1) s, of "length ?E"] room by auto
  define m2 where "m2 = write_memory m1 (dtb_pointer dtb + of_nat (40 + length (c_pre c) + length A')) ?E"
  have m2: "holds m2 dtb c'" "frame dtb m1 m2"
    using holds_insert [OF m1(2), of A' "replicate (length ?E) 0" Z' ?E] unfolding m2_def c'_def by simp_all
  have d: "4 dvd length A'" using f(6) flatten_all_dvd [of items] unfolding A'_def by (simp add: dvd_add add.assoc [symmetric])
  have n2: "node_at m2 dtb c' A' name [] Z'" using m2(1) d name unfolding node_at_def by (simp add: c'_def)
  note f2 = node_at_facts [OF n2]
  have at: "node_at_offset (view m2 dtb c') (length A') = Some (node_view (length A') (NodeItem name []))"
    using node_at_offset_flatten [OF f2(2) _ d f2(3)] name by simp
  have off: "snd (node_location A nm items) = length A'" unfolding f(8) A'_def by simp
  have sp: "splice_struct mem dtb (40 + length (c_pre c) + length A') 0 ?E = (Inr (), m2)"
    unfolding splice_struct_def m1(1) sbind_Inr m2_def ..
  have small: "\<not> USIZE_LIMIT \<le> 4 + length name + 1 + 3 + 4" "\<not> 4 + 256 + 4 + 3 < 4 + length name + 1 + 3 + 4"
    using name(3) by simp_all
  have "insert_child_node mem dtb (snd (node_location A nm items)) name = (Inr (node_location A' name []), m2)"
    unfolding insert_child_node_def off empty_node_bytes_flatten structure_offset_holds [OF f(1)] sp
    using small fdt_view_holds [OF m2(1)] at by (simp add: pure_op_def node_location_def node_view_def del: flatten.simps)
  then show ?thesis using n2 frame_trans [OF m1(3) m2(2)] by blast
qed

definition create_ok :: "u8 list list \<Rightarrow> bool" where
  "create_ok cs \<longleftrightarrow> (\<forall>c \<in> set cs. c \<noteq> [] \<and> 0x2f \<notin> set c \<and> 0 \<notin> set c \<and> utf8_valid c \<and> length c \<le> 255)"

lemma valid_item_strings: "valid_item fdt i \<Longrightarrow> strings fdt' = strings fdt \<Longrightarrow> valid_item fdt' i"
  using valid_item_append [of fdt i fdt' "[]"] by simp

lemma create_components_holds:
  assumes "node_at mem dtb c A nm items Z" and "create_ok cs"
    and "used c + length (flatten (create_at cs (NodeItem nm items))) \<le> dtb_size dtb + length (flatten (NodeItem nm items))"
  shows "\<exists>mem'. create_components mem dtb (node_location A nm items) cs = (Inr (), mem')
    \<and> holds mem' dtb (c\<lparr>c_struct := A @ flatten (create_at cs (NodeItem nm items)) @ Z\<rparr>) \<and> frame dtb mem mem'"
  using assms
proof (induction cs arbitrary: mem c A nm items Z)
  case Nil
  have "c\<lparr>c_struct := A @ flatten (NodeItem nm items) @ Z\<rparr> = c"
    using Nil(1) unfolding node_at_def by (metis contents.surjective contents.update_convs(6))
  then have "holds mem dtb (c\<lparr>c_struct := A @ flatten (NodeItem nm items) @ Z\<rparr>)" using Nil(1) by (simp only: node_at_def)
  then show ?case by (simp del: flatten.simps)
next
  case (Cons name cs)
  note f = node_at_facts [OF Cons.prems(1)]
  have nm: "name \<noteq> []" "0 \<notin> set name" "utf8_valid name" "length name \<le> 255" "create_ok cs"
    using Cons.prems(2) by (simp_all add: create_ok_def)
  have v: "valid_item (view mem dtb c) (NodeItem nm items)" "4 dvd length A" and st: "c_struct c = A @ flatten (NodeItem nm items) @ Z"
    using Cons.prems(1) by (simp_all add: node_at_def)
  have at: "node_at_offset (view mem dtb c) (length A) = Some (node_view (length A) (NodeItem nm items))"
    by (rule node_at_offset_flatten [OF f(2) v f(3)])
  have child: "find_child (view mem dtb c) (node_view (length A) (NodeItem nm items)) name
      = map_option (\<lambda>(k', i). node_view k' i) (find_sub (length A + length (node_head nm)) items name)"
    using find_child_flatten [OF f(2) v f(3)] by (simp add: content_offset_def length_node_head)
  have cc: "create_components mem dtb (node_location A nm items) (name # cs) =
      (case find_sub (length A + length (node_head nm)) items name of
         Some (k', i) \<Rightarrow> create_components mem dtb (k', k' + length (flatten i) - 4) cs
       | None \<Rightarrow> sbind (insert_child_node mem dtb (snd (node_location A nm items)) name) (\<lambda>child mem. create_components mem dtb child cs))"
    using nm(1) at child fdt_view_holds [OF f(1)]
    by (simp add: pure_op_def node_location_def node_view_def split: option.splits)
  show ?case
  proof (cases "find_sub (length A + length (node_head nm)) items name")
    case None
    then have no: "\<not> has_child items name" by (simp add: has_child_find_sub [of items name "length A + length (node_head nm)"])
    let ?A = "A @ node_head nm @ flatten_all items" and ?Z = "be32 FDT_END_NODE @ Z"
    let ?c = "c\<lparr>c_struct := ?A @ flatten (NodeItem name []) @ ?Z\<rparr>"
    have e: "A @ flatten (create_at (name # cs) (NodeItem nm items)) @ Z = ?A @ flatten (create_at cs (NodeItem name [])) @ ?Z"
      using no by (simp add: flatten_node del: flatten.simps)
    have grow: "length (flatten (create_at (name # cs) (NodeItem nm items))) = length (flatten (NodeItem nm items)) + length (flatten (create_at cs (NodeItem name [])))"
      using no by (simp add: flatten_node del: flatten.simps)
    have room: "used c + length (flatten (NodeItem name [])) \<le> dtb_size dtb"
      using Cons.prems(3) create_at_grows [of name "[]" cs] unfolding grow by linarith
    obtain m1 where m1: "insert_child_node mem dtb (snd (node_location A nm items)) name = (Inr (node_location ?A name []), m1)"
        "node_at m1 dtb ?c ?A name [] ?Z" "frame dtb mem m1"
      using insert_child_holds [OF Cons.prems(1) nm(2,3,4) room] by blast
    have u: "used ?c = used c + length (flatten (NodeItem name []))"
      unfolding used_def st flatten_node by (simp add: flatten_node del: flatten.simps)
    obtain m2 where m2: "create_components m1 dtb (node_location ?A name []) cs = (Inr (), m2)"
        "holds m2 dtb (?c\<lparr>c_struct := ?A @ flatten (create_at cs (NodeItem name [])) @ ?Z\<rparr>)" "frame dtb m1 m2"
      using Cons.IH [OF m1(2) nm(5)] Cons.prems(3) unfolding u grow by auto
    have "create_components mem dtb (node_location A nm items) (name # cs) = (Inr (), m2)" unfolding cc None using m1(1) m2(1) by simp
    then show ?thesis using m2(2) frame_trans [OF m1(3) m2(3)] unfolding e by auto
  next
    case (Some ki)
    obtain k' i where ki: "ki = (k', i)" by (cases ki)
    obtain pre its post where p: "items = pre @ i # post" "i = NodeItem name its" "k' = length A + length (node_head nm) + length (flatten_all pre)"
        "\<And>f. map_first name f items = pre @ f i # post" using find_sub_split [OF Some [unfolded ki]] by blast
    have yes: "has_child items name" using Some by (simp add: has_child_find_sub [of items name "length A + length (node_head nm)"])
    let ?A = "A @ node_head nm @ flatten_all pre" and ?Z = "flatten_all post @ be32 FDT_END_NODE @ Z"
    have e: "A @ flatten (create_at (name # cs) (NodeItem nm items)) @ Z = ?A @ flatten (create_at cs (NodeItem name its)) @ ?Z"
      using yes p(4) [of "create_at cs"] p(2) by (simp add: flatten_node del: flatten.simps)
    have st': "c_struct c = ?A @ flatten (NodeItem name its) @ ?Z" unfolding st by (simp add: flatten_node p(1,2) del: flatten.simps)
    have "4 dvd length ?A" using f(6) flatten_all_dvd [of pre] by (simp add: dvd_add add.assoc [symmetric])
    then have n1: "node_at mem dtb c ?A name its ?Z" using f(1,7) st' unfolding node_at_def p(1) p(2) by simp
    have "length (flatten (create_at (name # cs) (NodeItem nm items))) + length (flatten (NodeItem name its))
        = length (flatten (create_at cs (NodeItem name its))) + length (flatten (NodeItem nm items))"
      using yes p(4) [of "create_at cs"] p(1,2) by (simp add: flatten_node del: flatten.simps)
    then have room: "used c + length (flatten (create_at cs (NodeItem name its))) \<le> dtb_size dtb + length (flatten (NodeItem name its))"
      using Cons.prems(3) by linarith
    have loc: "(k', k' + length (flatten i) - 4) = node_location ?A name its" by (simp add: node_location_def p(2,3) del: flatten.simps)
    show ?thesis using Cons.IH [OF n1 nm(5) room] unfolding cc Some ki e loc [symmetric] by simp
  qed
qed

lemma create_node_spec:
  assumes e: "encodes mem dtb c nm items Z" and cs: "create_ok cs" "cs \<noteq> []"
    and room: "used c + length (flatten (create_at cs (NodeItem nm items))) \<le> dtb_size dtb + length (flatten (NodeItem nm items))"
  shows "\<exists>mem'. create_node mem dtb (path_of cs) = (Inr (), mem')
    \<and> holds mem' dtb (c\<lparr>c_struct := flatten (create_at cs (NodeItem nm items)) @ Z\<rparr>) \<and> frame dtb mem mem'"
proof -
  note n = e [unfolded encodes_def]
  note f = node_at_facts [OF n]
  have v: "valid_item (view mem dtb c) (NodeItem nm items)" using n by (simp add: node_at_def)
  have "root_node (view mem dtb c) = Some (node_view 0 (NodeItem nm items))"
    using node_at_offset_flatten [OF f(2) v] f(3) by (simp add: root_node_def)
  moreover have "split_slash (path_of cs) = [] # cs" using split_slash_path [OF cs(2)] cs(1) by (simp add: create_ok_def)
  ultimately have "create_node mem dtb (path_of cs) = create_components mem dtb (node_location [] nm items) cs"
    using fdt_view_holds [OF f(1)] by (simp add: create_node_def pure_op_def node_location_def node_view_def)
  then show ?thesis using create_components_holds [OF n cs(1) room] by simp
qed

end
