(* ===== verification/DtbWriteSpec.thy ===== *)
theory DtbWriteSpec
  imports DtbUpdate AllocationSpec
begin

unbundle bit_operations_syntax

text \<open>
  What the device-tree editor promises: set properties are read back and nothing else changes, missing nodes are
  created, a blob without room is left with the same tree, and a clone holds the same contents in new pages.
\<close>

section \<open>A blob in memory\<close>

lemma holds_initial:
  assumes p: "p \<noteq> 0" "8 dvd unat p" "unat p + n \<le> 2 ^ 64" and n: "used c \<le> n" "n < 2 ^ 31"
    and c: "17 \<le> c_version c" "unat (c_rsv c) \<le> n"
  shows "holds (write_memory mem p (header_bytes (stored_header c n) @ body c @ replicate (n - used c) 0)) \<lparr>dtb_pointer = p, dtb_size = n\<rparr> c"
proof -
  define bs where "bs = header_bytes (stored_header c n) @ body c @ replicate (n - used c) 0"
  have l: "length bs = n" using n(1) by (simp add: bs_def flip: length_body)
  have "read_bytes (write_memory mem p bs) p n = bs"
    using read_write_memory [of bs mem p] l n(2) by (simp add: read_bytes_def)
  then have "rep (write_memory mem p bs) \<lparr>dtb_pointer = p, dtb_size = n\<rparr> (stored_header c n) (body c @ replicate (n - used c) 0)"
    using p n by (simp add: rep_def blob_def fits_def bs_def)
  then show ?thesis using p c unfolding holds_def bs_def by auto
qed

text \<open>A tree with a node \<open>chosen\<close> and one string, in a blob of 400 bytes.\<close>

definition boot_tree :: "dt_item list" where
  "boot_tree = [PropItem 0 [0, 0, 0, 2], NodeItem (str ''chosen'') [PropItem 0 [0, 0, 0, 1]]]"

definition boot_contents :: contents where
  "boot_contents = \<lparr>c_rsv = 40, c_version = 17, c_comp = 16, c_cpu = 0, c_pre = replicate 16 0,
     c_struct = flatten (NodeItem [] boot_tree) @ be32 FDT_END, c_gap = [], c_strings = strings_block [str ''cell'']\<rparr>"

definition boot_dtb :: Dtb where
  "boot_dtb = \<lparr>dtb_pointer = 0x1000, dtb_size = 400\<rparr>"

definition boot_memory :: memory where
  "boot_memory = write_memory (\<lambda>_. 0) 0x1000 (header_bytes (stored_header boot_contents 400) @ body boot_contents
     @ replicate (400 - used boot_contents) 0)"

lemma boot_lengths: "length (flatten (NodeItem [] boot_tree)) = 60" "used boot_contents = 125"
  by (simp_all add: boot_tree_def boot_contents_def used_def pad4_def align4_def str_def)

lemma boot_fields: "c_rsv boot_contents = 40" "c_version boot_contents = 17"
  by (simp_all add: boot_contents_def)

lemma boot_holds: "holds boot_memory boot_dtb boot_contents"
  unfolding boot_memory_def boot_dtb_def
  by (rule holds_initial) (simp_all add: boot_lengths boot_fields)

lemma boot_encodes: "encodes boot_memory boot_dtb boot_contents [] boot_tree (be32 FDT_END)"
proof -
  have "string_at (view boot_memory boot_dtb boot_contents) 0 = Some (str ''cell'')"
    by (simp add: string_at_def view_def boot_contents_def slice_from_def str_def from_utf8_def)
  then have "valid_item (view boot_memory boot_dtb boot_contents) (NodeItem [] boot_tree)"
    by (simp add: boot_tree_def str_def)
  then show ?thesis using boot_holds unfolding encodes_def node_at_def by (simp add: boot_contents_def del: flatten.simps valid_item.simps)
qed

lemma boot_strings: "c_strings boot_contents = strings_block [str ''cell'']" "names_ok [str ''cell'']"
  by (simp_all add: boot_contents_def names_ok_def str_def)

lemma boot_chosen: "resolve 0 (NodeItem [] boot_tree) [str ''chosen''] = Some (24, NodeItem (str ''chosen'') [PropItem 0 [0, 0, 0, 1]])"
  by (simp add: boot_tree_def content_offset_def align4_def pad4_def str_def)

lemma boot_names: "components_ok [str ''chosen'']" "name_ok (str ''bootargs'')" "abs_path [str ''chosen''] = str ''/chosen''"
  by (simp_all add: components_ok_def name_ok_def abs_path_def path_of_def str_def)

lemma boot_fits:
  "property_fits boot_dtb boot_contents [str ''cell''] (str ''bootargs'') (length (str ''ro'' @ [0 :: u8]))
      (old_record (view boot_memory boot_dtb boot_contents) (str ''bootargs'') (NodeItem (str ''chosen'') [PropItem 0 [0, 0, 0, 1]]))"
  "length (str ''ro'' @ [0 :: u8]) < 2 ^ 32"
  by (simp_all add: property_fits_def boot_lengths boot_dtb_def added_def align4_def str_def)

section \<open>Properties\<close>

text \<open>
  C24: setting a property implements the update of the encoded tree. On a blob whose structure block starts with the
  encoding of a valid tree, whose strings block is a sequence of terminated UTF-8 strings, and for the path of an
  existing node: when the new name and record fit, the call succeeds and the blob then holds the tree in which that
  node has the property, replacing the first property of that name or added before the first subnode, with the name
  appended to the strings only if it is new; otherwise it fails with \<open>BufferTooSmall\<close> and the blob still holds the old
  tree. Memory outside the blob never changes.
\<close>

theorem set_property_bytes_correct:
  assumes "encodes mem dtb c nm items Z" and "c_strings c = strings_block ss" and "names_ok ss"
    and "name_ok name" and "length v < 2 ^ 32" and "components_ok cs"
    and "resolve 0 (NodeItem nm items) cs = Some (k, j)"
  shows "\<exists>r mem'. set_property_bytes mem dtb (abs_path cs) name v = (r, mem') \<and> frame dtb mem mem' \<and>
    (if property_fits dtb c ss name (length v) (old_record (view mem dtb c) name j)
     then r = Inr () \<and> holds mem' dtb (c\<lparr>c_strings := strings_block (with_name ss name),
            c_struct := flatten (update_at cs (set_node_prop (view mem dtb c) name (name_offset ss name) v) (NodeItem nm items)) @ Z\<rparr>)
     else r = Inl DtbBufferTooSmall \<and> (holds mem' dtb c \<or> holds mem' dtb (c\<lparr>c_strings := strings_block (with_name ss name)\<rparr>)))"
proof (cases "property_fits dtb c ss name (length v) (old_record (view mem dtb c) name j)")
  case True
  then show ?thesis using set_property_spec(1) [OF assms True] by auto
next
  case False
  then show ?thesis using set_property_spec(2) [OF assms False] by fastforce
qed

theorem set_property_bytes_correct_witness:
  "\<exists>mem' c'. set_property_bytes boot_memory boot_dtb (str ''/chosen'') (str ''bootargs'') (str ''ro'' @ [0]) = (Inr (), mem')
     \<and> holds mem' boot_dtb c' \<and> c_strings c' = strings_block [str ''cell'', str ''bootargs'']"
proof -
  have w: "with_name [str ''cell''] (str ''bootargs'') = [str ''cell'', str ''bootargs'']" by (simp add: with_name_def str_def)
  obtain mem' S where "set_property_bytes boot_memory boot_dtb (str ''/chosen'') (str ''bootargs'') (str ''ro'' @ [0]) = (Inr (), mem')"
      "holds mem' boot_dtb (boot_contents\<lparr>c_strings := strings_block [str ''cell'', str ''bootargs''], c_struct := S\<rparr>)"
    using set_property_bytes_correct [OF boot_encodes boot_strings boot_names(2) boot_fits(2) boot_names(1) boot_chosen]
    unfolding boot_names(3) w if_P [OF boot_fits(1)] by blast
  moreover have "c_strings (boot_contents\<lparr>c_strings := T, c_struct := S\<rparr>) = T" for T by simp
  ultimately show ?thesis by blast
qed

text \<open>
  C25: what is set is read back. After a successful \<open>set_property_bytes\<close> the reader accepts the blob, finds the node
  by the same path, returns exactly the value that was set, and returns for every other property of that node what
  it returned before.
\<close>

theorem set_property_roundtrip:
  assumes e: "encodes mem dtb c nm items Z" and "c_strings c = strings_block ss" and "names_ok ss"
    and "name_ok name" and "length v < 2 ^ 32" and cs: "components_ok cs"
    and r: "resolve 0 (NodeItem nm items) cs = Some (k, j)"
    and fits: "property_fits dtb c ss name (length v) (old_record (view mem dtb c) name j)"
  shows "\<exists>mem' fdt node fdt' node'. set_property_bytes mem dtb (abs_path cs) name v = (Inr (), mem')
    \<and> from_ptr mem (dtb_pointer dtb) = Inr fdt \<and> find_node fdt (abs_path cs) = Some node
    \<and> from_ptr mem' (dtb_pointer dtb) = Inr fdt' \<and> find_node fdt' (abs_path cs) = Some node'
    \<and> get_property fdt' node' name = Some v
    \<and> (\<forall>other. other \<noteq> name \<longrightarrow> get_property fdt' node' other = get_property fdt node other)"
proof -
  obtain mem' where m: "set_property_bytes mem dtb (abs_path cs) name v = (Inr (), mem')"
    and h: "holds mem' dtb (c\<lparr>c_strings := strings_block (with_name ss name),
      c_struct := flatten (update_at cs (set_node_prop (view mem dtb c) name (name_offset ss name) v) (NodeItem nm items)) @ Z\<rparr>)"
    using set_property_spec(1) [OF assms] by blast
  have "from_ptr mem (dtb_pointer dtb) = Inr (view mem dtb c)"
    using from_ptr_holds e by (simp only: encodes_def node_at_def)
  moreover have "find_node (view mem dtb c) (abs_path cs) = Some (node_view k j)"
    unfolding find_node_encodes [OF e cs] r by simp
  ultimately show ?thesis using m from_ptr_holds [OF h] updated_reads(2) [OF assms(1-7) h] by blast
qed

theorem set_property_roundtrip_witness:
  "\<exists>mem' fdt' node'. set_property_bytes boot_memory boot_dtb (str ''/chosen'') (str ''bootargs'') (str ''ro'' @ [0]) = (Inr (), mem')
     \<and> from_ptr mem' 0x1000 = Inr fdt' \<and> find_node fdt' (str ''/chosen'') = Some node'
     \<and> get_property fdt' node' (str ''bootargs'') = Some (str ''ro'' @ [0])"
proof -
  have "dtb_pointer boot_dtb = 0x1000" by (simp add: boot_dtb_def)
  then show ?thesis
    using set_property_roundtrip [OF boot_encodes boot_strings boot_names(2) boot_fits(2) boot_names(1) boot_chosen boot_fits(1)]
    unfolding boot_names(3) by auto
qed

text \<open>
  C26: creating a node adds exactly the missing components: when the blob has room for them, the call succeeds and
  the blob then holds the tree in which every missing component is an empty node behind the existing children of its
  parent; existing components are followed and left alone.
\<close>

theorem create_node_correct:
  assumes "encodes mem dtb c nm items Z" and "create_ok cs" and "cs \<noteq> []"
    and "used c + length (flatten (create_at cs (NodeItem nm items))) \<le> dtb_size dtb + length (flatten (NodeItem nm items))"
  shows "\<exists>mem'. create_node mem dtb (path_of cs) = (Inr (), mem')
    \<and> holds mem' dtb (c\<lparr>c_struct := flatten (create_at cs (NodeItem nm items)) @ Z\<rparr>) \<and> frame dtb mem mem'"
  using create_node_spec [OF assms] .

theorem create_node_correct_witness:
  "\<exists>mem' c'. create_node boot_memory boot_dtb (str ''/chosen/x'') = (Inr (), mem') \<and> holds mem' boot_dtb c'
     \<and> c_struct c' = flatten (NodeItem [] [PropItem 0 [0, 0, 0, 2],
         NodeItem (str ''chosen'') [PropItem 0 [0, 0, 0, 1], NodeItem (str ''x'') []]]) @ be32 FDT_END"
proof -
  have p: "path_of [str ''chosen'', str ''x''] = str ''/chosen/x''" by (simp add: path_of_def str_def)
  have t: "create_at [str ''chosen'', str ''x''] (NodeItem [] boot_tree) = NodeItem [] [PropItem 0 [0, 0, 0, 2],
         NodeItem (str ''chosen'') [PropItem 0 [0, 0, 0, 1], NodeItem (str ''x'') []]]"
    by (simp add: boot_tree_def)
  have "length (flatten (NodeItem [] [PropItem 0 [0, 0, 0, 2],
         NodeItem (str ''chosen'') [PropItem 0 [0, 0, 0, 1], NodeItem (str ''x'') []]])) = 72"
    by (simp add: pad4_def align4_def str_def)
  then have "used boot_contents + length (flatten (create_at [str ''chosen'', str ''x''] (NodeItem [] boot_tree)))
      \<le> dtb_size boot_dtb + length (flatten (NodeItem [] boot_tree))"
    unfolding t boot_lengths by (simp add: boot_dtb_def)
  moreover have "create_ok [str ''chosen'', str ''x'']" by (simp add: create_ok_def str_def)
  ultimately obtain mem' where "create_node boot_memory boot_dtb (str ''/chosen/x'') = (Inr (), mem')"
      "holds mem' boot_dtb (boot_contents\<lparr>c_struct := flatten (create_at [str ''chosen'', str ''x''] (NodeItem [] boot_tree)) @ be32 FDT_END\<rparr>)"
    using create_node_correct [OF boot_encodes, of "[str ''chosen'', str ''x'']"] unfolding p by blast
  moreover have "c_struct (boot_contents\<lparr>c_struct := S\<rparr>) = S" for S by simp
  ultimately show ?thesis unfolding t by blast
qed

section \<open>Cloning\<close>

text \<open>A blob copied to another place, with zeros behind it, and with the new total size stored in its header.\<close>

lemma holds_copy:
  assumes h: "holds mem dtb c" and n: "dtb_size dtb \<le> n" "n < 2 ^ 31"
    and p: "p \<noteq> 0" "8 dvd unat p" "unat p + n \<le> 2 ^ 64"
  defines "d \<equiv> \<lparr>dtb_pointer = p, dtb_size = n\<rparr>"
  defines "m1 \<equiv> write_memory mem p (read_bytes mem (dtb_pointer dtb) (dtb_size dtb))"
  defines "m2 \<equiv> write_memory m1 (p + of_nat (dtb_size dtb)) (replicate (n - dtb_size dtb) 0)"
  defines "m3 \<equiv> store_header m2 d (set_total_size (dtb_header m2 d) (of_nat n))"
  shows "holds m3 d c" and "frame d mem m3"
proof -
  obtain tail where r: "rep mem dtb (stored_header c (dtb_size dtb)) (body c @ tail)" using holds_rep [OF h] by blast
  have fd: "fits d" using n p by (simp add: fits_def d_def)
  have l: "length (read_bytes mem (dtb_pointer dtb) (dtb_size dtb)) = dtb_size dtb" by simp
  have b1: "read_bytes m1 p n = blob mem dtb @ drop (dtb_size dtb) (read_bytes mem p n)"
    using write_memory_blob [of 0 "read_bytes mem (dtb_pointer dtb) (dtb_size dtb)" n mem p] n
    by (simp add: m1_def blob_def)
  have "read_bytes m2 p n = take (dtb_size dtb) (read_bytes m1 p n) @ replicate (n - dtb_size dtb) 0"
    unfolding m2_def using write_memory_blob [of "dtb_size dtb" "replicate (n - dtb_size dtb) 0" n m1 p] n by simp
  then have "blob m2 d = blob mem dtb @ replicate (n - dtb_size dtb) 0" using b1 by (simp add: blob_def [of m2] d_def)
  then have r2: "rep m2 d (stored_header c (dtb_size dtb)) (body c @ tail @ replicate (n - dtb_size dtb) 0)"
    using r fd by (simp add: rep_def)
  have e: "set_total_size (dtb_header m2 d) (of_nat n) = stored_header c n"
    unfolding rep_header [OF r2] by (simp add: stored_header_def set_total_size_def)
  have "rep m3 d (stored_header c n) (body c @ tail @ replicate (n - dtb_size dtb) 0)" and f3: "frame d m2 m3"
    using rep_store [OF r2, of "stored_header c n"] unfolding m3_def e by simp_all
  then show "holds m3 d c" using h p n unfolding holds_def by (auto simp: d_def)
  have "frame d mem m1" using write_memory_frame [of 0 "read_bytes mem (dtb_pointer dtb) (dtb_size dtb)" d mem] fd n by (simp add: m1_def d_def)
  moreover have "frame d m1 m2"
    using write_memory_frame [of "dtb_size dtb" "replicate (n - dtb_size dtb) 0" d m1] fd n by (simp add: m2_def d_def)
  ultimately show "frame d mem m3" using frame_trans f3 by blast
qed

text \<open>What a successful clone did.\<close>

lemma dtb_clone_Inr:
  assumes h: "holds mem dtb c" and size: "new_size \<le> 2 ^ 30"
    and r: "dtb_clone dtb new_size (self, mem) = (Inr d, self', mem')"
  obtains P where "dtb_size dtb < new_size" "new_size \<le> unat P * 4096" "unat P * 4096 < 2 ^ 31"
    "AllocatePages self AllocateAnyPages EfiACPIReclaimMemory P 0 = (Inr (dtb_pointer d), self')" "dtb_size d = unat P * 4096"
    "mem' = (let m1 = write_memory mem (dtb_pointer d) (read_bytes mem (dtb_pointer dtb) (dtb_size dtb));
                 m2 = write_memory m1 (dtb_pointer d + of_nat (dtb_size dtb)) (replicate (dtb_size d - dtb_size dtb) 0)
             in store_header m2 d (set_total_size (dtb_header m2 d) (of_nat (dtb_size d))))"
proof -
  obtain tail where rp: "rep mem dtb (stored_header c (dtb_size dtb)) (body c @ tail)" and b: "dtb_size dtb < 2 ^ 31" "used c < 2 ^ 31"
    using holds_rep [OF h] by blast
  have tot: "unat (header_total_size (dtb_header mem dtb)) = dtb_size dtb"
    unfolding rep_header [OF rp] by (rule stored_header_fields(2) [OF b(2,1)])
  define k where "k = (new_size + 4095) div 4096"
  have k1: "new_size \<le> k * 4096" unfolding k_def by linarith
  have "k * 4096 \<le> new_size + 4095" unfolding k_def by (rule div_times_less_eq_dividend)
  then have k: "new_size \<le> k * 4096" "k * 4096 < 2 ^ 31" using size k1 by simp_all
  have P: "unat (of_nat k :: u64) = k" using k(2) by (simp add: unat_of_nat)
  have pg: "unat EFI_PAGE_SIZE = 4096" by (simp add: EFI_PAGE_SIZE_def EFI_PAGE_SHIFT_def)
  have gt: "dtb_size dtb < new_size" using r by (auto simp: dtb_clone_def tot Let_def not_le split: if_splits)
  have pk: "(new_size + 4096 - 1) div 4096 = k" by (simp add: k_def)
  have e: "dtb_clone dtb new_size (self, mem) = (case AllocatePages self AllocateAnyPages EfiACPIReclaimMemory (of_nat k) 0 of
      (Inl e, allocator) \<Rightarrow> (Inl (DtbAllocError e), allocator, mem)
    | (Inr start, allocator) \<Rightarrow>
        let d = \<lparr>dtb_pointer = start, dtb_size = k * 4096\<rparr>;
            m1 = write_memory mem start (read_bytes mem (dtb_pointer dtb) (dtb_size dtb));
            m2 = write_memory m1 (start + of_nat (dtb_size dtb)) (replicate (k * 4096 - dtb_size dtb) 0)
        in (Inr d, allocator, store_header m2 d (set_total_size (dtb_header m2 d) (of_nat (k * 4096)))))"
    unfolding dtb_clone_def Let_def prod.case tot pg pk using gt k by (simp add: us_checked_mul_def del: of_nat_mult)
  from r obtain start where a: "AllocatePages self AllocateAnyPages EfiACPIReclaimMemory (of_nat k) 0 = (Inr start, self')"
    and d: "d = \<lparr>dtb_pointer = start, dtb_size = k * 4096\<rparr>"
    and m: "mem' = (let m1 = write_memory mem start (read_bytes mem (dtb_pointer dtb) (dtb_size dtb));
                 m2 = write_memory m1 (start + of_nat (dtb_size dtb)) (replicate (k * 4096 - dtb_size dtb) 0)
             in store_header m2 d (set_total_size (dtb_header m2 d) (of_nat (k * 4096))))"
    unfolding e by (auto simp: Let_def split: prod.splits sum.splits)
  show ?thesis by (rule that [of "of_nat k"]) (use gt k P a d m in simp_all)
qed

lemma dtb_clone_ok:
  assumes h: "holds mem dtb c" and n: "normal self" and size: "new_size \<le> 2 ^ 30"
    and kept: "\<forall>a. map_type self a = Some (type_u32 EfiConventionalMemory) \<longrightarrow>
      a \<noteq> 0 \<and> \<not> (unat (dtb_pointer dtb) \<le> a \<and> a < unat (dtb_pointer dtb) + dtb_size dtb)"
    and r: "dtb_clone dtb new_size (self, mem) = (Inr d, self', mem')"
  shows "holds mem' d c \<and> holds mem' dtb c \<and> new_size \<le> dtb_size d \<and> frame d mem mem' \<and> normal self'
    \<and> free_at self (unat (dtb_pointer d)) (dtb_size d)
    \<and> map_type self' = (\<lambda>a. if unat (dtb_pointer d) \<le> a \<and> a < unat (dtb_pointer d) + dtb_size d
        then Some (type_u32 EfiACPIReclaimMemory) else map_type self a)"
proof -
  obtain P where gt: "dtb_size dtb < new_size" "new_size \<le> unat P * 4096" "unat P * 4096 < 2 ^ 31"
    and a: "AllocatePages self AllocateAnyPages EfiACPIReclaimMemory P 0 = (Inr (dtb_pointer d), self')" and sz: "dtb_size d = unat P * 4096"
    and m: "mem' = (let m1 = write_memory mem (dtb_pointer d) (read_bytes mem (dtb_pointer dtb) (dtb_size dtb));
                 m2 = write_memory m1 (dtb_pointer d + of_nat (dtb_size dtb)) (replicate (dtb_size d - dtb_size dtb) 0)
             in store_header m2 d (set_total_size (dtb_header m2 d) (of_nat (dtb_size d))))"
    using dtb_clone_Inr [OF h size r] by blast
  note eff = AllocatePages_effect [OF n a] and al = AllocatePages_aligned [OF n a]
  let ?p = "unat (dtb_pointer d)"
  have free: "map_type self x = Some (type_u32 EfiConventionalMemory)" if "?p \<le> x" "x < ?p + dtb_size d" for x
    using eff(2) that by (simp add: free_at_def sz)
  have pos: "0 < dtb_size d" using al(2) by (simp add: sz)
  have p0: "dtb_pointer d \<noteq> 0" using kept free [of ?p] pos by (metis le_refl less_add_same_cancel1 unat_0)
  have dvd: "8 dvd ?p" using al(1) by (rule dvd_trans [rotated]) simp
  have dd: "d = \<lparr>dtb_pointer = dtb_pointer d, dtb_size = dtb_size d\<rparr>" by simp
  note cp = holds_copy [OF h _ _ p0 dvd, of "dtb_size d", folded dd]
  have new: "holds mem' d c" "frame d mem mem'"
    using cp gt sz eff(3) unfolding m Let_def by simp_all
  have apart: "mem' (dtb_pointer dtb + of_nat i) = mem (dtb_pointer dtb + of_nat i)" if i: "i < dtb_size dtb" for i
  proof -
    have f: "unat (dtb_pointer dtb) + dtb_size dtb \<le> 2 ^ 64" using h by (auto simp: holds_def rep_def fits_def)
    have u: "unat (dtb_pointer dtb + of_nat i) = unat (dtb_pointer dtb) + i"
      using f i by (simp add: unat_word_ariths unat_of_nat)
    have out: "\<not> (?p \<le> unat (dtb_pointer dtb) + i \<and> unat (dtb_pointer dtb) + i < ?p + dtb_size d)"
      using kept free [of "unat (dtb_pointer dtb) + i"] i by auto
    have "dtb_size d \<le> unat (dtb_pointer dtb + of_nat i - dtb_pointer d)"
    proof (cases "?p \<le> unat (dtb_pointer dtb) + i")
      case True
      then show ?thesis using out u by (simp add: unat_sub word_le_nat_alt)
    next
      case False
      then have "unat (dtb_pointer dtb + of_nat i - dtb_pointer d) = unat (dtb_pointer dtb) + i + 2 ^ 64 - ?p"
        using u by (simp add: unat_sub_if' word_le_nat_alt)
      then show ?thesis using eff(3) sz by simp
    qed
    then show ?thesis using new(2) by (simp add: frame_def)
  qed
  have "blob mem' dtb = blob mem dtb" using apart by (simp add: blob_def read_bytes_def)
  then have "holds mem' dtb c" using h by (simp add: holds_def rep_def)
  then show ?thesis using new gt(2) eff sz by simp
qed

text \<open>
  C27: cloning keeps the tree. When \<open>clone\<close> succeeds on a valid blob outside free memory, the new object is at least as
  large as requested and lies in pages that were free and are now \<open>EfiACPIReclaimMemory\<close>; it holds exactly the
  contents of the original, which is left intact, and no memory outside the new pages changes.
\<close>

theorem dtb_clone_correct:
  assumes h: "holds mem dtb c" and n: "normal self" and size: "new_size \<le> 2 ^ 30"
    and kept: "\<forall>a. map_type self a = Some (type_u32 EfiConventionalMemory) \<longrightarrow>
      a \<noteq> 0 \<and> \<not> (unat (dtb_pointer dtb) \<le> a \<and> a < unat (dtb_pointer dtb) + dtb_size dtb)"
    and r: "dtb_clone dtb new_size (self, mem) = (Inr d, self', mem')"
  shows "holds mem' d c \<and> holds mem' dtb c \<and> new_size \<le> dtb_size d \<and> frame d mem mem' \<and> normal self'
    \<and> free_at self (unat (dtb_pointer d)) (dtb_size d)
    \<and> map_type self' = (\<lambda>a. if unat (dtb_pointer d) \<le> a \<and> a < unat (dtb_pointer d) + dtb_size d
        then Some (type_u32 EfiACPIReclaimMemory) else map_type self a)"
  by (rule dtb_clone_ok [OF assms])

theorem dtb_clone_correct_witness:
  "\<exists>d self' mem'. dtb_clone boot_dtb 500 (sample_allocator, boot_memory) = (Inr d, self', mem')
     \<and> holds mem' d boot_contents \<and> dtb_size d = 4096"
proof -
  have tot: "header_total_size (dtb_header boot_memory boot_dtb) = 400"
  proof -
    obtain tail where "rep boot_memory boot_dtb (stored_header boot_contents (dtb_size boot_dtb)) (body boot_contents @ tail)"
      using holds_rep [OF boot_holds] by blast
    then show ?thesis by (simp add: rep_header stored_header_def header_total_size_def boot_dtb_def)
  qed
  obtain self' where a: "AllocatePages sample_allocator AllocateAnyPages EfiACPIReclaimMemory 1 0 = (Inr 0x8000f000, self')"
    using Inr_outcomeE [of "AllocatePages sample_allocator AllocateAnyPages EfiACPIReclaimMemory 1 0" "0x8000f000"]
    by (simp add: run_simps)
  obtain d mem' where r: "dtb_clone boot_dtb 500 (sample_allocator, boot_memory) = (Inr d, self', mem')" "dtb_size d = 4096"
    using a by (simp add: dtb_clone_def tot Let_def us_checked_mul_def EFI_PAGE_SIZE_def EFI_PAGE_SHIFT_def)
  have kept: "\<forall>x. map_type sample_allocator x = Some (type_u32 EfiConventionalMemory) \<longrightarrow>
      x \<noteq> 0 \<and> \<not> (unat (dtb_pointer boot_dtb) \<le> x \<and> x < unat (dtb_pointer boot_dtb) + dtb_size boot_dtb)"
    by (auto simp: sample_type boot_dtb_def)
  show ?thesis using dtb_clone_correct [OF boot_holds sample_normal _ kept r(1)] r by auto
qed

end
