(* ===== verification/Fat.thy ===== *)
theory Fat
  imports Filesystem
begin

unbundle bit_operations_syntax

text \<open>
  The read-only FAT16/FAT32 reader (\<open>src/fat.rs\<close>).

  A mounted volume is a record with the fields of \<open>FatVolume\<close>; the device is one of them. Sector and
  cluster numbers are words, so the unchecked sums and products of the source wrap. The scratch buffers are
  only written and returned, so the decoders return the bytes written. Cluster chains are read from the disk
  and need not end: the loops over them are partial functions whose value \<open>None\<close> stands for a run that never
  returns. Every other loop is total. Physical memory is a function from addresses to bytes.
\<close>

section \<open>Constants and data\<close>

definition FAT_LONG_NAME_CODE_UNITS :: nat where
  "FAT_LONG_NAME_CODE_UNITS = 260"

definition FAT_LONG_NAME_UTF8_BYTES :: nat where
  "FAT_LONG_NAME_UTF8_BYTES = FAT_LONG_NAME_CODE_UNITS * 3"

definition FAT_PATH_UTF8_BYTES :: nat where
  "FAT_PATH_UTF8_BYTES = 1024"

definition FAT_DIR_ENTRY_SIZE :: nat where
  "FAT_DIR_ENTRY_SIZE = 32"

definition FAT_ATTRIBUTE_VOLUME_ID :: u8 where
  "FAT_ATTRIBUTE_VOLUME_ID = 0x08"

definition FAT_ATTRIBUTE_DIRECTORY :: u8 where
  "FAT_ATTRIBUTE_DIRECTORY = 0x10"

definition FAT_ATTRIBUTE_LONG_NAME :: u8 where
  "FAT_ATTRIBUTE_LONG_NAME = 0x0f"

definition FAT16_END_OF_CHAIN :: u32 where
  "FAT16_END_OF_CHAIN = 0xfff8"

definition FAT16_BAD_CLUSTER :: u32 where
  "FAT16_BAD_CLUSTER = 0xfff7"

definition FAT32_END_OF_CHAIN :: u32 where
  "FAT32_END_OF_CHAIN = 0x0ffffff8"

definition FAT32_BAD_CLUSTER :: u32 where
  "FAT32_BAD_CLUSTER = 0x0ffffff7"

lemmas fat_sizes = FAT_LONG_NAME_CODE_UNITS_def FAT_LONG_NAME_UTF8_BYTES_def FAT_PATH_UTF8_BYTES_def
  FAT_DIR_ENTRY_SIZE_def

lemmas fat_marks = FAT16_END_OF_CHAIN_def FAT16_BAD_CLUSTER_def FAT32_END_OF_CHAIN_def FAT32_BAD_CLUSTER_def

datatype FatType = Fat16 | Fat32

datatype FatError =
    Device VirtioError | Memory MemoryError | InvalidBootSector | UnsupportedSectorSize u16 | UnsupportedFatType
  | InvalidPath | FatNotFound | NotDirectory | IsDirectory | FatBufferTooSmall | InvalidCluster u32
  | ChainTooShort | FileTooLarge | InvalidLongName | NameTooLong

record FatVolume =
  fat_device :: BlockDevice
  partition_start_lba :: u64
  fat_type :: FatType
  sectors_per_cluster :: u8
  reserved_sector_count :: u16
  root_dir_sectors :: u32
  root_dir_first_sector :: u32
  data_first_sector :: u32
  root_cluster :: u32
  total_clusters :: u32

record FatDirectoryEntry =
  entry_attributes :: u8
  first_cluster :: u32
  file_size :: u32

record FatFile =
  file_volume :: FatVolume
  file_entry :: FatDirectoryEntry

datatype DirectoryLocation = RootDirectory | ClusterChain u32

datatype DirectoryScanResult = Found FatDirectoryEntry | Continue | EndOfDirectory

record LongNameState =
  code_units :: "u16 list"
  max_ordinal :: u8
  next_ordinal :: u8
  ordinal_mask :: u32
  checksum :: u8
  active :: bool

definition is_directory :: "FatDirectoryEntry \<Rightarrow> bool" where
  "is_directory self \<longleftrightarrow> entry_attributes self AND FAT_ATTRIBUTE_DIRECTORY \<noteq> 0"

text \<open>\<open>map_err(FatError::from)\<close> and the \<open>?\<close> on the errors of the device and of the allocator.\<close>

primrec from_device :: "VirtioError + 'a \<Rightarrow> FatError + 'a" where
  "from_device (Inl e) = Inl (Device e)"
| "from_device (Inr x) = Inr x"

primrec from_memory :: "MemoryError + 'a \<Rightarrow> FatError + 'a" where
  "from_memory (Inl e) = Inl (Memory e)"
| "from_memory (Inr x) = Inr x"

section \<open>Little-endian fields\<close>

definition fat_read_u16 :: "u8 list \<Rightarrow> nat \<Rightarrow> u16 option" where
  "fat_read_u16 bytes offset = map_option from_le_bytes (slice_get bytes offset (offset + 2))"

definition fat_read_u32 :: "u8 list \<Rightarrow> nat \<Rightarrow> u32 option" where
  "fat_read_u32 bytes offset = map_option from_le_bytes (slice_get bytes offset (offset + 4))"

definition byte_get :: "u8 list \<Rightarrow> nat \<Rightarrow> u8 option" where
  "byte_get bytes i = (if i < length bytes then Some (bytes ! i) else None)"

section \<open>Mounting\<close>

text \<open>The geometry computed from the boot-sector fields, once they have been read.\<close>

definition mount_geometry ::
  "BlockDevice \<Rightarrow> u64 \<Rightarrow> u8 \<Rightarrow> u16 \<Rightarrow> u8 \<Rightarrow> u16 \<Rightarrow> u32 \<Rightarrow> u32 \<Rightarrow> u32 \<Rightarrow> u32 \<Rightarrow> u32 \<Rightarrow> FatError + FatVolume" where
  "mount_geometry device start spc reserved fat_count root_dir_entries total_sectors_16 fat_size_16
     total_sectors_32 fat_size_32 root =
     (if spc = 0 \<or> reserved = 0 \<or> fat_count = 0 then Inl InvalidBootSector else
      let total_sectors = (if total_sectors_16 \<noteq> 0 then total_sectors_16 else total_sectors_32);
          fat_size_sectors = (if fat_size_16 \<noteq> 0 then fat_size_16 else fat_size_32)
      in if total_sectors = 0 \<or> fat_size_sectors = 0 then Inl InvalidBootSector else
      let dir_sectors = div_ceil (ucast root_dir_entries * of_nat FAT_DIR_ENTRY_SIZE) (of_nat VIRTIO_SECTOR_SIZE);
          dir_first = ucast reserved + ucast fat_count * fat_size_sectors;
          data_first = dir_first + dir_sectors
      in if total_sectors < data_first then Inl InvalidBootSector else
      let data_sectors = total_sectors - data_first;
          clusters = data_sectors div ucast spc
      in if clusters < 4085 then Inl UnsupportedFatType else
      let ty = (if clusters < 65525 then Fat16 else Fat32)
      in rbind (case ty of Fat16 \<Rightarrow> Inr 0 | Fat32 \<Rightarrow> if 2 \<le> root then Inr root else Inl InvalidBootSector)
      (\<lambda>root. Inr \<lparr>fat_device = device, partition_start_lba = start, fat_type = ty, sectors_per_cluster = spc,
         reserved_sector_count = reserved, root_dir_sectors = dir_sectors, root_dir_first_sector = dir_first,
         data_first_sector = data_first, root_cluster = root, total_clusters = clusters\<rparr>))"

definition FatVolume_new :: "BlockDevice \<Rightarrow> u64 \<Rightarrow> FatError + FatVolume" where
  "FatVolume_new device start =
     rbind (from_device (read_blocks device start VIRTIO_SECTOR_SIZE)) (\<lambda>boot_sector.
     rbind (ok_or InvalidBootSector (fat_read_u16 boot_sector 11)) (\<lambda>bytes_per_sector.
     if unat bytes_per_sector \<noteq> VIRTIO_SECTOR_SIZE then Inl (UnsupportedSectorSize bytes_per_sector) else
     rbind (ok_or InvalidBootSector (byte_get boot_sector 13)) (\<lambda>spc.
     rbind (ok_or InvalidBootSector (fat_read_u16 boot_sector 14)) (\<lambda>reserved.
     rbind (ok_or InvalidBootSector (byte_get boot_sector 16)) (\<lambda>fat_count.
     rbind (ok_or InvalidBootSector (fat_read_u16 boot_sector 17)) (\<lambda>root_dir_entries.
     rbind (ok_or InvalidBootSector (fat_read_u16 boot_sector 19)) (\<lambda>total_sectors_16.
     rbind (ok_or InvalidBootSector (fat_read_u16 boot_sector 22)) (\<lambda>fat_size_16.
     rbind (ok_or InvalidBootSector (fat_read_u32 boot_sector 32)) (\<lambda>total_sectors_32.
     rbind (ok_or InvalidBootSector (fat_read_u32 boot_sector 36)) (\<lambda>fat_size_32.
     rbind (ok_or InvalidBootSector (fat_read_u32 boot_sector 44)) (\<lambda>root.
     mount_geometry device start spc reserved fat_count root_dir_entries (ucast total_sectors_16)
       (ucast fat_size_16) total_sectors_32 fat_size_32 root)))))))))))"

section \<open>Clusters\<close>

definition read_relative_blocks :: "FatVolume \<Rightarrow> u32 \<Rightarrow> FatError + u8 list" where
  "read_relative_blocks self relative_sector =
     from_device (read_blocks (fat_device self) (partition_start_lba self + ucast relative_sector) VIRTIO_SECTOR_SIZE)"

definition read_relative_blocks_multi :: "FatVolume \<Rightarrow> u32 \<Rightarrow> nat \<Rightarrow> FatError + u8 list" where
  "read_relative_blocks_multi self relative_sector n =
     from_device (read_blocks (fat_device self) (partition_start_lba self + ucast relative_sector) n)"

definition is_valid_cluster :: "FatVolume \<Rightarrow> u32 \<Rightarrow> bool" where
  "is_valid_cluster self cluster \<longleftrightarrow> 2 \<le> cluster \<and> cluster < total_clusters self + 2"

definition cluster_first_sector :: "FatVolume \<Rightarrow> u32 \<Rightarrow> FatError + u32" where
  "cluster_first_sector self cluster =
     (if \<not> is_valid_cluster self cluster then Inl (InvalidCluster cluster)
      else Inr (data_first_sector self + (cluster - 2) * ucast (sectors_per_cluster self)))"

definition is_end_of_chain :: "FatVolume \<Rightarrow> u32 \<Rightarrow> bool" where
  "is_end_of_chain self cluster \<longleftrightarrow> (case fat_type self of
     Fat16 \<Rightarrow> FAT16_END_OF_CHAIN \<le> cluster
   | Fat32 \<Rightarrow> FAT32_END_OF_CHAIN \<le> cluster)"

definition next_cluster :: "FatVolume \<Rightarrow> u32 \<Rightarrow> FatError + u32" where
  "next_cluster self cluster =
     (if \<not> is_valid_cluster self cluster then Inl (InvalidCluster cluster) else
      let entry_size = (case fat_type self of Fat16 \<Rightarrow> 2 | Fat32 \<Rightarrow> 4);
          fat_offset = cluster * entry_size;
          fat_sector = ucast (reserved_sector_count self) + fat_offset div of_nat VIRTIO_SECTOR_SIZE;
          entry_offset = unat fat_offset mod VIRTIO_SECTOR_SIZE
      in rbind (read_relative_blocks self fat_sector) (\<lambda>sector.
         rbind (case fat_type self of
                  Fat16 \<Rightarrow> rbind (ok_or InvalidBootSector (fat_read_u16 sector entry_offset)) (\<lambda>v. Inr (ucast v))
                | Fat32 \<Rightarrow> rbind (ok_or InvalidBootSector (fat_read_u32 sector entry_offset))
                             (\<lambda>v. Inr (v AND 0x0fffffff))) (\<lambda>next.
         case fat_type self of
           Fat16 \<Rightarrow> if next = FAT16_BAD_CLUSTER then Inl (InvalidCluster next) else Inr next
         | Fat32 \<Rightarrow> if next = FAT32_BAD_CLUSTER then Inl (InvalidCluster next) else Inr next)))"

section \<open>File contents\<close>

text \<open>The cluster loop; \<open>out\<close> is \<open>buffer[..written]\<close>.\<close>

partial_function (option) contents_loop ::
  "FatVolume \<Rightarrow> u32 \<Rightarrow> nat \<Rightarrow> u8 list \<Rightarrow> (FatError + u8 list) option" where
  "contents_loop self cluster remaining out =
     (if remaining = 0 then Some (Inr out) else
      case cluster_first_sector self cluster of
        Inl e \<Rightarrow> Some (Inl e)
      | Inr first \<Rightarrow>
          let spc = unat (sectors_per_cluster self);
              full_sectors = min (remaining div VIRTIO_SECTOR_SIZE) spc;
              bytes = full_sectors * VIRTIO_SECTOR_SIZE
          in case (if full_sectors \<noteq> 0 then read_relative_blocks_multi self first bytes else Inr []) of
               Inl e \<Rightarrow> Some (Inl e)
             | Inr chunk \<Rightarrow>
                 let out = out @ chunk; remaining = remaining - bytes in
                 if remaining = 0 then Some (Inr out) else
                 (case (if full_sectors < spc
                        then rbind (read_relative_blocks self (first + of_nat full_sectors))
                               (\<lambda>tail_sector. Inr (take (min remaining VIRTIO_SECTOR_SIZE) tail_sector))
                        else Inr []) of
                    Inl e \<Rightarrow> Some (Inl e)
                  | Inr tail \<Rightarrow>
                      let out = out @ tail;
                          remaining = remaining - (if full_sectors < spc then min remaining VIRTIO_SECTOR_SIZE else 0) in
                      if remaining = 0 then Some (Inr out) else
                      (case next_cluster self cluster of
                         Inl e \<Rightarrow> Some (Inl e)
                       | Inr next \<Rightarrow>
                           if is_end_of_chain self next then Some (Inl ChainTooShort)
                           else contents_loop self next remaining out)))"

text \<open>The bytes written to the start of the caller's buffer, which is at least \<open>file_size\<close> bytes long.\<close>

definition read_file_contents :: "FatVolume \<Rightarrow> u32 \<Rightarrow> u32 \<Rightarrow> (FatError + u8 list) option" where
  "read_file_contents self cluster n =
     (if n = 0 then Some (Inr []) else
      if \<not> is_valid_cluster self cluster then Some (Inl (InvalidCluster cluster))
      else contents_loop self cluster (unat n) [])"

section \<open>Names\<close>

definition to_ascii_lower :: "u8 \<Rightarrow> u8" where
  "to_ascii_lower b = (if 0x41 \<le> b \<and> b \<le> 0x5a then b + 32 else b)"

definition eq_ignore_ascii_case :: "u8 list \<Rightarrow> u8 list \<Rightarrow> bool" where
  "eq_ignore_ascii_case a b \<longleftrightarrow> map to_ascii_lower a = map to_ascii_lower b"

text \<open>\<open>char::from_u32\<close> and \<open>char::encode_utf8\<close> of the core library.\<close>

definition char_from_u32 :: "u32 \<Rightarrow> u32 option" where
  "char_from_u32 c = (if c < 0xd800 \<or> 0xdfff < c \<and> c \<le> 0x10ffff then Some c else None)"

definition encode_utf8 :: "u32 \<Rightarrow> u8 list" where
  "encode_utf8 c =
     (if c < 0x80 then [ucast c]
      else if c < 0x800 then [0xc0 OR ucast (drop_bit 6 c), 0x80 OR ucast (c AND 0x3f)]
      else if c < 0x10000 then
        [0xe0 OR ucast (drop_bit 12 c), 0x80 OR ucast (drop_bit 6 c AND 0x3f), 0x80 OR ucast (c AND 0x3f)]
      else
        [0xf0 OR ucast (drop_bit 18 c), 0x80 OR ucast (drop_bit 12 c AND 0x3f),
         0x80 OR ucast (drop_bit 6 c AND 0x3f), 0x80 OR ucast (c AND 0x3f)])"

definition copy_lfn_code_units :: "u8 list \<Rightarrow> u16 list" where
  "copy_lfn_code_units entry =
     map (\<lambda>offset. from_le_bytes [entry ! offset, entry ! (offset + 1)]) [1, 3, 5, 7, 9, 14, 16, 18, 20, 22, 24, 28, 30]"

fun checksum_loop :: "u8 \<Rightarrow> u8 list \<Rightarrow> u8" where
  "checksum_loop acc [] = acc"
| "checksum_loop acc (b # bytes) = checksum_loop (push_bit 7 (acc AND 1) + drop_bit 1 acc + b) bytes"

definition short_name_checksum :: "u8 list \<Rightarrow> u8" where
  "short_name_checksum short_name = checksum_loop 0 short_name"

definition LongNameState_new :: LongNameState where
  "LongNameState_new =
     \<lparr>code_units = replicate FAT_LONG_NAME_CODE_UNITS 0xffff, max_ordinal = 0, next_ordinal = 0, ordinal_mask = 0,
      checksum = 0, active = False\<rparr>"

definition lfn_clear :: "LongNameState \<Rightarrow> LongNameState" where
  "lfn_clear self =
     self\<lparr>code_units := replicate FAT_LONG_NAME_CODE_UNITS 0xffff, max_ordinal := 0, next_ordinal := 0,
          ordinal_mask := 0, checksum := 0, active := False\<rparr>"

definition lfn_push :: "LongNameState \<Rightarrow> u8 list \<Rightarrow> (FatError, unit, LongNameState) outcome" where
  "lfn_push self entry =
     (let ordinal = entry ! 0 AND 0x1f; is_last = (entry ! 0 AND 0x40 \<noteq> 0) in
      if ordinal = 0 then (Inl InvalidLongName, lfn_clear self) else
      let self = (if is_last
                  then (lfn_clear self)\<lparr>active := True, max_ordinal := ordinal, next_ordinal := ordinal,
                                       checksum := entry ! 13\<rparr>
                  else self)
      in if \<not> active self \<or> max_ordinal self < ordinal \<or> entry ! 13 \<noteq> checksum self
         then (Inl InvalidLongName, lfn_clear self)
         else if ordinal \<noteq> next_ordinal self then (Inl InvalidLongName, lfn_clear self)
         else
           let start = (unat ordinal - 1) * 13 in
           if length (code_units self) < start + 13 then (Inl NameTooLong, lfn_clear self)
           else (Inr (), self\<lparr>
             code_units := take start (code_units self) @ copy_lfn_code_units entry @ drop (start + 13) (code_units self),
             ordinal_mask := ordinal_mask self OR push_bit (unat (ordinal - 1)) 1,
             next_ordinal := saturating_sub ordinal 1\<rparr>))"

definition matches_entry :: "LongNameState \<Rightarrow> u8 list \<Rightarrow> bool" where
  "matches_entry self entry \<longleftrightarrow>
     (if \<not> active self \<or> max_ordinal self = 0 \<or> 20 < max_ordinal self then False
      else let expected_mask = push_bit (unat (max_ordinal self)) 1 - 1
           in ordinal_mask self = expected_mask \<and> checksum self = short_name_checksum (take 11 entry))"

text \<open>The decoding loop over the remaining code units; \<open>out\<close> is \<open>buffer[..output_index]\<close>.\<close>

fun to_utf8_loop :: "u16 list \<Rightarrow> u8 list \<Rightarrow> FatError + u8 list" where
  "to_utf8_loop [] out = Inr out"
| "to_utf8_loop (code_unit # rest) out =
     (if code_unit = 0 \<or> code_unit = 0xffff then Inr out
      else if 0xd800 \<le> code_unit \<and> code_unit \<le> 0xdbff then
        (case rest of
           [] \<Rightarrow> Inl InvalidLongName
         | nxt # rest' \<Rightarrow>
             if \<not> (0xdc00 \<le> nxt \<and> nxt \<le> 0xdfff) then Inl InvalidLongName
             else let code_point = 0x10000 + (push_bit 10 (ucast code_unit - 0xd800) OR (ucast nxt - 0xdc00)) in
               (case char_from_u32 code_point of
                  None \<Rightarrow> Inl InvalidLongName
                | Some character \<Rightarrow>
                    if FAT_LONG_NAME_UTF8_BYTES < length out + length (encode_utf8 character) then Inl NameTooLong
                    else to_utf8_loop rest' (out @ encode_utf8 character)))
      else if 0xdc00 \<le> code_unit \<and> code_unit \<le> 0xdfff then Inl InvalidLongName
      else
        (case char_from_u32 (ucast code_unit) of
           None \<Rightarrow> Inl InvalidLongName
         | Some character \<Rightarrow>
             if FAT_LONG_NAME_UTF8_BYTES < length out + length (encode_utf8 character) then Inl NameTooLong
             else to_utf8_loop rest (out @ encode_utf8 character)))"

definition to_utf8 :: "LongNameState \<Rightarrow> FatError + u8 list" where
  "to_utf8 self = rbind (to_utf8_loop (code_units self) []) (\<lambda>out. ok_or InvalidLongName (from_utf8 out))"

definition decode_short_name :: "u8 list \<Rightarrow> u8 list" where
  "decode_short_name entry =
     (let base = map (\<lambda>b. if b = 0x05 then 0xe5 else b) (takeWhile (\<lambda>b. b \<noteq> 0x20) (take 8 entry));
          extension_start = length base;
          has_extension = list_ex (\<lambda>b. b \<noteq> 0x20) (take 3 (drop 8 entry));
          output = (if has_extension
                    then base @ [0x2e] @ takeWhile (\<lambda>b. b \<noteq> 0x20) (take 3 (drop 8 entry)) else base)
      in if length output = extension_start \<and> \<not> has_extension then [0x2d] else output)"

section \<open>Directories\<close>

definition sector_entry :: "u8 list \<Rightarrow> nat \<Rightarrow> u8 list option" where
  "sector_entry sector offset = slice_get sector offset (offset + FAT_DIR_ENTRY_SIZE)"

definition parse_directory_entry :: "u8 list \<Rightarrow> FatError + FatDirectoryEntry" where
  "parse_directory_entry entry =
     rbind (ok_or InvalidBootSector (fat_read_u16 entry 20)) (\<lambda>cluster_high.
     rbind (ok_or InvalidBootSector (fat_read_u16 entry 26)) (\<lambda>cluster_low.
     rbind (ok_or InvalidBootSector (fat_read_u32 entry 28)) (\<lambda>sz.
     Inr \<lparr>entry_attributes = entry ! 11, first_cluster = push_bit 16 (ucast cluster_high) OR ucast cluster_low,
          file_size = sz\<rparr>)))"

text \<open>The entry loop from \<open>offset\<close> on, with the long-name state after it.\<close>

function scan_entries ::
  "u8 list \<Rightarrow> u8 list \<Rightarrow> nat \<Rightarrow> LongNameState \<Rightarrow> (FatError, DirectoryScanResult, LongNameState) outcome" where
  "scan_entries sector component offset state =
     (if offset < length sector then
        (case sector_entry sector offset of
           None \<Rightarrow> (Inl InvalidBootSector, state)
         | Some entry \<Rightarrow>
             if entry ! 0 = 0x00 then (Inr EndOfDirectory, lfn_clear state)
             else if entry ! 0 = 0xe5 then scan_entries sector component (offset + FAT_DIR_ENTRY_SIZE) (lfn_clear state)
             else if entry ! 11 = FAT_ATTRIBUTE_LONG_NAME
             then scan_entries sector component (offset + FAT_DIR_ENTRY_SIZE) (snd (lfn_push state entry))
             else if entry ! 11 AND FAT_ATTRIBUTE_VOLUME_ID \<noteq> 0
             then scan_entries sector component (offset + FAT_DIR_ENTRY_SIZE) (lfn_clear state)
             else
               (case (if matches_entry state entry
                      then rbind (to_utf8 state) (\<lambda>name. Inr (eq_ignore_ascii_case name component))
                      else Inr (eq_ignore_ascii_case (decode_short_name entry) component)) of
                  Inl e \<Rightarrow> (Inl e, state)
                | Inr matches \<Rightarrow>
                    (case parse_directory_entry entry of
                       Inl e \<Rightarrow> (Inl e, state)
                     | Inr directory_entry \<Rightarrow>
                         if matches then (Inr (Found directory_entry), lfn_clear state)
                         else scan_entries sector component (offset + FAT_DIR_ENTRY_SIZE) (lfn_clear state))))
      else (Inr Continue, state))"
  by pat_completeness auto
termination
  by (relation "measure (\<lambda>(sector, _, offset, _). length sector - offset)") (auto simp: fat_sizes)

declare scan_entries.simps [simp del]

definition scan_directory_sector ::
  "u8 list \<Rightarrow> u8 list \<Rightarrow> LongNameState \<Rightarrow> (FatError, DirectoryScanResult, LongNameState) outcome" where
  "scan_directory_sector sector component state = scan_entries sector component 0 state"

lemma u32_step_less: "index < count \<Longrightarrow> unat count - unat (index + 1) < unat count - unat (index :: u32)"
  using unat_add_small [of index 1] u32_less [of count] by (simp add: word_less_nat_alt)

text \<open>The sectors \<open>first + index\<close> for \<open>index < count\<close>: the fixed root directory or one cluster.\<close>

function scan_sectors ::
  "FatVolume \<Rightarrow> u8 list \<Rightarrow> u32 \<Rightarrow> u32 \<Rightarrow> u32 \<Rightarrow> LongNameState \<Rightarrow> (FatError, DirectoryScanResult, LongNameState) outcome" where
  "scan_sectors self component first count index state =
     (if index < count then
        (case read_relative_blocks self (first + index) of
           Inl e \<Rightarrow> (Inl e, state)
         | Inr sector \<Rightarrow>
             (case scan_directory_sector sector component state of
                (Inr Continue, state) \<Rightarrow> scan_sectors self component first count (index + 1) state
              | (r, state) \<Rightarrow> (r, state)))
      else (Inr Continue, state))"
  by pat_completeness auto
termination
  by (relation "measure (\<lambda>(_, _, _, count, index, _). unat count - unat index)") (auto intro: u32_step_less)

declare scan_sectors.simps [simp del]

partial_function (option) find_in_chain ::
  "FatVolume \<Rightarrow> u8 list \<Rightarrow> u32 \<Rightarrow> LongNameState \<Rightarrow> (FatError + FatDirectoryEntry) option" where
  "find_in_chain self component cluster state =
     (if is_valid_cluster self cluster then
        (case cluster_first_sector self cluster of
           Inl e \<Rightarrow> Some (Inl e)
         | Inr first \<Rightarrow>
             (case scan_sectors self component first (ucast (sectors_per_cluster self)) 0 state of
                (Inl e, _) \<Rightarrow> Some (Inl e)
              | (Inr r, state) \<Rightarrow>
                  (case r of
                     Found entry \<Rightarrow> Some (Inr entry)
                   | EndOfDirectory \<Rightarrow> Some (Inl FatNotFound)
                   | Continue \<Rightarrow>
                       (case next_cluster self cluster of
                          Inl e \<Rightarrow> Some (Inl e)
                        | Inr next \<Rightarrow>
                            if is_end_of_chain self next then Some (Inl FatNotFound)
                            else find_in_chain self component next state))))
      else Some (Inl FatNotFound))"

definition find_directory_entry ::
  "FatVolume \<Rightarrow> DirectoryLocation \<Rightarrow> u8 list \<Rightarrow> (FatError + FatDirectoryEntry) option" where
  "find_directory_entry self directory component =
     (case directory of
        RootDirectory \<Rightarrow>
          (case fat_type self of
             Fat16 \<Rightarrow>
               (case scan_sectors self component (root_dir_first_sector self) (root_dir_sectors self) 0 LongNameState_new of
                  (Inl e, _) \<Rightarrow> Some (Inl e)
                | (Inr (Found entry), _) \<Rightarrow> Some (Inr entry)
                | (Inr _, _) \<Rightarrow> Some (Inl FatNotFound))
           | Fat32 \<Rightarrow> find_in_chain self component (root_cluster self) LongNameState_new)
      | ClusterChain cluster \<Rightarrow> find_in_chain self component cluster LongNameState_new)"

text \<open>\<open>?\<close> on results of operations that may not return.\<close>

definition run_bind :: "('e + 'a) option \<Rightarrow> ('a \<Rightarrow> ('e + 'b) option) \<Rightarrow> ('e + 'b) option" where
  "run_bind m f = (case m of None \<Rightarrow> None | Some (Inl e) \<Rightarrow> Some (Inl e) | Some (Inr x) \<Rightarrow> f x)"

fun resolve_components ::
  "FatVolume \<Rightarrow> DirectoryLocation \<Rightarrow> u8 list list \<Rightarrow> FatDirectoryEntry option \<Rightarrow> (FatError + FatDirectoryEntry) option" where
  "resolve_components self directory [] resolved = Some (ok_or InvalidPath resolved)"
| "resolve_components self directory (component # rest) resolved =
     (if component = str ''.'' \<or> component = str ''..'' then Some (Inl InvalidPath)
      else run_bind (find_directory_entry self directory component) (\<lambda>entry.
        if rest \<noteq> [] then
          (if \<not> is_directory entry then Some (Inl NotDirectory)
           else resolve_components self (ClusterChain (first_cluster entry)) rest (Some entry))
        else resolve_components self directory rest (Some entry)))"

definition find_path_entry :: "FatVolume \<Rightarrow> u8 list \<Rightarrow> (FatError + FatDirectoryEntry) option" where
  "find_path_entry self path =
     resolve_components self RootDirectory (filter (\<lambda>component. component \<noteq> []) (split_slash path)) None"

definition fat_open :: "FatVolume \<Rightarrow> u8 list \<Rightarrow> (FatError + FatFile) option" where
  "fat_open self path =
     run_bind (find_path_entry self path) (\<lambda>entry. Some (Inr \<lparr>file_volume = self, file_entry = entry\<rparr>))"

text \<open>\<open>read_file\<close> into a buffer of \<open>buffer_len\<close> bytes: the bytes written to its start.\<close>

definition read_file :: "FatVolume \<Rightarrow> u8 list \<Rightarrow> nat \<Rightarrow> (FatError + u8 list) option" where
  "read_file self path buffer_len =
     run_bind (find_path_entry self path) (\<lambda>entry.
       if is_directory entry then Some (Inl IsDirectory)
       else if buffer_len < unat (file_size entry) then Some (Inl FatBufferTooSmall)
       else read_file_contents self (first_cluster entry) (file_size entry))"

section \<open>Walking\<close>

definition append_path_component :: "u8 list \<Rightarrow> u8 list \<Rightarrow> FatError + u8 list" where
  "append_path_component path component =
     rbind (ok_or NameTooLong (us_checked_add (length path) 1)) (\<lambda>len.
     rbind (ok_or NameTooLong (us_checked_add len (length component))) (\<lambda>total_len.
     if FAT_PATH_UTF8_BYTES < total_len then Inl NameTooLong else Inr (path @ [0x2f] @ component)))"

text \<open>The visiting entry loop; \<open>visitor\<close> threads the state its closure captured and may not return.\<close>

function scan_directory_sector_entries ::
  "u8 list \<Rightarrow> (u8 list \<Rightarrow> FatDirectoryEntry \<Rightarrow> 's \<Rightarrow> ((FatError + unit) \<times> 's) option) \<Rightarrow> nat \<Rightarrow> LongNameState \<Rightarrow> 's
   \<Rightarrow> ((FatError + bool) \<times> LongNameState \<times> 's) option" where
  "scan_directory_sector_entries sector visitor offset state s =
     (if offset < length sector then
        (case sector_entry sector offset of
           None \<Rightarrow> Some (Inl InvalidBootSector, state, s)
         | Some entry \<Rightarrow>
             if entry ! 0 = 0x00 then Some (Inr True, lfn_clear state, s)
             else if entry ! 0 = 0xe5
             then scan_directory_sector_entries sector visitor (offset + FAT_DIR_ENTRY_SIZE) (lfn_clear state) s
             else if entry ! 11 = FAT_ATTRIBUTE_LONG_NAME
             then scan_directory_sector_entries sector visitor (offset + FAT_DIR_ENTRY_SIZE) (snd (lfn_push state entry)) s
             else if entry ! 11 AND FAT_ATTRIBUTE_VOLUME_ID \<noteq> 0
             then scan_directory_sector_entries sector visitor (offset + FAT_DIR_ENTRY_SIZE) (lfn_clear state) s
             else
               (case rbind (parse_directory_entry entry) (\<lambda>directory_entry.
                       rbind (if matches_entry state entry then to_utf8 state else Inr (decode_short_name entry))
                         (\<lambda>name. Inr (name, directory_entry))) of
                  Inl e \<Rightarrow> Some (Inl e, state, s)
                | Inr (name, directory_entry) \<Rightarrow>
                    (case visitor name directory_entry s of
                       None \<Rightarrow> None
                     | Some (Inl e, s) \<Rightarrow> Some (Inl e, state, s)
                     | Some (Inr _, s) \<Rightarrow>
                         scan_directory_sector_entries sector visitor (offset + FAT_DIR_ENTRY_SIZE) (lfn_clear state) s)))
      else Some (Inr False, state, s))"
  by pat_completeness auto
termination
  by (relation "measure (\<lambda>(sector, _, offset, _, _). length sector - offset)") (auto simp: fat_sizes)

declare scan_directory_sector_entries.simps [simp del]

function walk_sectors ::
  "FatVolume \<Rightarrow> (u8 list \<Rightarrow> FatDirectoryEntry \<Rightarrow> 's \<Rightarrow> ((FatError + unit) \<times> 's) option) \<Rightarrow> u32 \<Rightarrow> u32 \<Rightarrow> u32
   \<Rightarrow> LongNameState \<Rightarrow> 's \<Rightarrow> ((FatError + bool) \<times> LongNameState \<times> 's) option" where
  "walk_sectors self visitor first count index state s =
     (if index < count then
        (case read_relative_blocks self (first + index) of
           Inl e \<Rightarrow> Some (Inl e, state, s)
         | Inr sector \<Rightarrow>
             (case scan_directory_sector_entries sector visitor 0 state s of
                Some (Inr False, state, s) \<Rightarrow> walk_sectors self visitor first count (index + 1) state s
              | r \<Rightarrow> r))
      else Some (Inr False, state, s))"
  by pat_completeness auto
termination
  by (relation "measure (\<lambda>(_, _, _, count, index, _, _). unat count - unat index)") (auto intro: u32_step_less)

declare walk_sectors.simps [simp del]

text \<open>\<open>visit_walk_entry\<close> with the walk of a subdirectory as a parameter.\<close>

definition visit_walk_entry ::
  "(u32 \<Rightarrow> u8 list \<Rightarrow> 's \<Rightarrow> ((FatError + unit) \<times> 's) option) \<Rightarrow> (u8 list \<Rightarrow> u32 \<Rightarrow> 's \<Rightarrow> 's) \<Rightarrow> u8 list
   \<Rightarrow> u8 list \<Rightarrow> FatDirectoryEntry \<Rightarrow> 's \<Rightarrow> ((FatError + unit) \<times> 's) option" where
  "visit_walk_entry walk visitor path name entry s =
     (if name = str ''.'' \<or> name = str ''..'' then Some (Inr (), s)
      else (case append_path_component path name of
              Inl e \<Rightarrow> Some (Inl e, s)
            | Inr full_path \<Rightarrow>
                if is_directory entry then walk (first_cluster entry) full_path s
                else Some (Inr (), visitor full_path (file_size entry) s)))"

text \<open>The walk over a cluster chain. The fuel bounds the nesting of directories and the clusters of each chain;
  \<open>None\<close> is a run that needs more.\<close>

fun walk_chain ::
  "nat \<Rightarrow> FatVolume \<Rightarrow> (u8 list \<Rightarrow> u32 \<Rightarrow> 's \<Rightarrow> 's) \<Rightarrow> u8 list \<Rightarrow> u32 \<Rightarrow> LongNameState \<Rightarrow> 's
   \<Rightarrow> ((FatError + unit) \<times> 's) option" where
  "walk_chain 0 self visitor path cluster state s = None"
| "walk_chain (Suc fuel) self visitor path cluster state s =
     (if is_valid_cluster self cluster then
        (case cluster_first_sector self cluster of
           Inl e \<Rightarrow> Some (Inl e, s)
         | Inr first \<Rightarrow>
             (case walk_sectors self
                     (visit_walk_entry (\<lambda>sub full_path. walk_chain fuel self visitor full_path sub LongNameState_new)
                        visitor path)
                     first (ucast (sectors_per_cluster self)) 0 state s of
                None \<Rightarrow> None
              | Some (Inl e, _, s) \<Rightarrow> Some (Inl e, s)
              | Some (Inr True, _, s) \<Rightarrow> Some (Inr (), s)
              | Some (Inr False, state, s) \<Rightarrow>
                  (case next_cluster self cluster of
                     Inl e \<Rightarrow> Some (Inl e, s)
                   | Inr next \<Rightarrow>
                       if is_end_of_chain self next then Some (Inr (), s)
                       else walk_chain fuel self visitor path next state s)))
      else Some (Inr (), s))"

definition walk_directory ::
  "nat \<Rightarrow> FatVolume \<Rightarrow> (u8 list \<Rightarrow> u32 \<Rightarrow> 's \<Rightarrow> 's) \<Rightarrow> DirectoryLocation \<Rightarrow> u8 list \<Rightarrow> 's \<Rightarrow> ((FatError + unit) \<times> 's) option" where
  "walk_directory fuel self visitor directory path s =
     (case directory of
        RootDirectory \<Rightarrow>
          (case fat_type self of
             Fat16 \<Rightarrow>
               (case walk_sectors self
                       (visit_walk_entry (\<lambda>sub full_path. walk_chain fuel self visitor full_path sub LongNameState_new)
                          visitor path)
                       (root_dir_first_sector self) (root_dir_sectors self) 0 LongNameState_new s of
                  None \<Rightarrow> None
                | Some (Inl e, _, s) \<Rightarrow> Some (Inl e, s)
                | Some (Inr _, _, s) \<Rightarrow> Some (Inr (), s))
           | Fat32 \<Rightarrow> walk_chain fuel self visitor path (root_cluster self) LongNameState_new s)
      | ClusterChain cluster \<Rightarrow> walk_chain fuel self visitor path cluster LongNameState_new s)"

definition walk_files :: "nat \<Rightarrow> FatVolume \<Rightarrow> (u8 list \<Rightarrow> u32 \<Rightarrow> 's \<Rightarrow> 's) \<Rightarrow> 's \<Rightarrow> ((FatError + unit) \<times> 's) option" where
  "walk_files fuel self visitor s = walk_directory fuel self visitor RootDirectory [] s"

section \<open>Loading\<close>

definition fat_file_type :: "FatDirectoryEntry \<Rightarrow> FileType" where
  "fat_file_type self = (if is_directory self then Directory else File)"

definition FatFile_info :: "FatFile \<Rightarrow> FileInfo" where
  "FatFile_info self = FileInfo_new (fat_file_type (file_entry self)) (unat (file_size (file_entry self)))"

definition file_size_to_page_count :: "u32 \<Rightarrow> FatError + nat" where
  "file_size_to_page_count n =
     rbind (ok_or FileTooLarge (us_checked_add (unat n) (unat EFI_PAGE_SIZE - 1))) (\<lambda>t. Inr (t div unat EFI_PAGE_SIZE))"

definition allocation_size_bytes :: "nat \<Rightarrow> FatError + nat" where
  "allocation_size_bytes pages = ok_or FileTooLarge (us_checked_mul pages (unat EFI_PAGE_SIZE))"

text \<open>The pointer conversion succeeds on a 64-bit target. After a failed read the contents of the allocated
  pages are not described, and the pages stay allocated.\<close>

definition load_contents ::
  "FatFile \<Rightarrow> PageAllocator \<Rightarrow> memory \<Rightarrow> u64 \<Rightarrow> nat \<Rightarrow> ((FatError + LoadedFile \<times> memory) \<times> PageAllocator) option" where
  "load_contents self allocator mem start pages =
     (case allocation_size_bytes pages of
        Inl e \<Rightarrow> Some (Inl e, allocator)
      | Inr allocation_size \<Rightarrow>
          let mem = write_memory mem start (replicate allocation_size 0); entry = file_entry self in
          (case read_file_contents (file_volume self) (first_cluster entry) (file_size entry) of
             None \<Rightarrow> None
           | Some (Inl e) \<Rightarrow> Some (Inl e, allocator)
           | Some (Inr bs) \<Rightarrow>
               Some (Inr (LoadedFile_new start pages (unat (file_size entry)), write_memory mem start bs), allocator)))"

definition load_into_allocated_pages ::
  "FatFile \<Rightarrow> PageAllocator \<Rightarrow> memory \<Rightarrow> ((FatError + LoadedFile \<times> memory) \<times> PageAllocator) option" where
  "load_into_allocated_pages self allocator mem =
     (if is_directory (file_entry self) then Some (Inl IsDirectory, allocator) else
      case file_size_to_page_count (file_size (file_entry self)) of
        Inl e \<Rightarrow> Some (Inl e, allocator)
      | Inr pages \<Rightarrow>
          (case allocate_pages_for_size allocator EfiBootServicesData (ucast (file_size (file_entry self))) of
             (Inl e, allocator) \<Rightarrow> Some (Inl (Memory e), allocator)
           | (Inr start, allocator) \<Rightarrow> load_contents self allocator mem start (max 1 pages)))"

definition load_into_pages ::
  "FatFile \<Rightarrow> PageAllocator \<Rightarrow> memory \<Rightarrow> EFI_ALLOCATE_TYPE \<Rightarrow> u64
   \<Rightarrow> ((FatError + LoadedFile \<times> memory) \<times> PageAllocator) option" where
  "load_into_pages self allocator mem allocation_type requested_start =
     (if is_directory (file_entry self) then Some (Inl IsDirectory, allocator) else
      case file_size_to_page_count (file_size (file_entry self)) of
        Inl e \<Rightarrow> Some (Inl e, allocator)
      | Inr pages \<Rightarrow>
          (case AllocatePages allocator allocation_type EfiBootServicesData (of_nat (max 1 pages)) requested_start of
             (Inl e, allocator) \<Rightarrow> Some (Inl (Memory e), allocator)
           | (Inr start, allocator) \<Rightarrow> load_contents self allocator mem start (max 1 pages)))"

definition fat_load ::
  "FatFile \<Rightarrow> PageAllocator \<Rightarrow> memory \<Rightarrow> ((FatError + LoadedFile \<times> memory) \<times> PageAllocator) option" where
  "fat_load self allocator mem = load_into_allocated_pages self allocator mem"

definition fat_load_at ::
  "FatFile \<Rightarrow> PageAllocator \<Rightarrow> memory \<Rightarrow> u64 \<Rightarrow> ((FatError + LoadedFile \<times> memory) \<times> PageAllocator) option" where
  "fat_load_at self allocator mem start = load_into_pages self allocator mem AllocateAddress start"

end
