(* ===== verification/Gpt.thy ===== *)
theory Gpt
  imports Block
begin

unbundle bit_operations_syntax

text \<open>
  GPT parsing (\<open>src/gpt.rs\<close>) behind the partition-table interface of \<open>src/partition.rs\<close>.

  The functions take the block device as a parameter. \<open>usize\<close> values (buffer offsets and lengths) are
  \<open>nat\<close>; fields read from the disk keep their width. The scratch buffers of the caller are only written
  and returned, so \<open>label\<close>, \<open>guid\<close> and \<open>partition_type\<close> return the bytes written to them. The sector loop
  of \<open>verify_entry_array_crc\<close> ends because the number of remaining bytes falls.
\<close>

section \<open>Constants and data\<close>

definition GPT_SIGNATURE :: "u8 list" where
  "GPT_SIGNATURE = str ''EFI PART''"

definition GPT_HEADER_MIN_SIZE :: nat where
  "GPT_HEADER_MIN_SIZE = 92"

definition GPT_HEADER_CRC_OFFSET :: nat where
  "GPT_HEADER_CRC_OFFSET = 16"

definition GPT_HEADER_LBA_OFFSET :: nat where
  "GPT_HEADER_LBA_OFFSET = 24"

definition GPT_BACKUP_LBA_OFFSET :: nat where
  "GPT_BACKUP_LBA_OFFSET = 32"

definition GPT_FIRST_USABLE_LBA_OFFSET :: nat where
  "GPT_FIRST_USABLE_LBA_OFFSET = 40"

definition GPT_LAST_USABLE_LBA_OFFSET :: nat where
  "GPT_LAST_USABLE_LBA_OFFSET = 48"

definition GPT_PARTITION_ENTRY_LBA_OFFSET :: nat where
  "GPT_PARTITION_ENTRY_LBA_OFFSET = 72"

definition GPT_PARTITION_ENTRY_COUNT_OFFSET :: nat where
  "GPT_PARTITION_ENTRY_COUNT_OFFSET = 80"

definition GPT_PARTITION_ENTRY_SIZE_OFFSET :: nat where
  "GPT_PARTITION_ENTRY_SIZE_OFFSET = 84"

definition GPT_PARTITION_ENTRY_ARRAY_CRC_OFFSET :: nat where
  "GPT_PARTITION_ENTRY_ARRAY_CRC_OFFSET = 88"

definition GPT_PARTITION_NAME_LEN :: nat where
  "GPT_PARTITION_NAME_LEN = 36"

definition GPT_ENTRY_MIN_SIZE :: nat where
  "GPT_ENTRY_MIN_SIZE = 128"

definition GPT_ENTRY_READ_BUFFER_SIZE :: nat where
  "GPT_ENTRY_READ_BUFFER_SIZE = VIRTIO_SECTOR_SIZE * 2"

definition GPT_ATTRIBUTE_LEGACY_BIOS_BOOTABLE :: u64 where
  "GPT_ATTRIBUTE_LEGACY_BIOS_BOOTABLE = push_bit 2 1"

definition GPT_TYPE_GUID_LINUX_FILESYSTEM :: "u8 list" where
  "GPT_TYPE_GUID_LINUX_FILESYSTEM =
     [0xaf, 0x3d, 0xc6, 0x0f, 0x83, 0x84, 0x72, 0x47, 0x8e, 0x79, 0x3d, 0x69, 0xd8, 0x47, 0x7d, 0xe4]"

definition GPT_TYPE_GUID_ESP :: "u8 list" where
  "GPT_TYPE_GUID_ESP =
     [0x28, 0x73, 0x2a, 0xc1, 0x1f, 0xf8, 0xd2, 0x11, 0xba, 0x4b, 0x00, 0xa0, 0xc9, 0x3e, 0xc9, 0x3b]"

lemmas gpt_offsets = GPT_HEADER_MIN_SIZE_def GPT_HEADER_CRC_OFFSET_def GPT_HEADER_LBA_OFFSET_def
  GPT_BACKUP_LBA_OFFSET_def GPT_FIRST_USABLE_LBA_OFFSET_def GPT_LAST_USABLE_LBA_OFFSET_def
  GPT_PARTITION_ENTRY_LBA_OFFSET_def GPT_PARTITION_ENTRY_COUNT_OFFSET_def GPT_PARTITION_ENTRY_SIZE_OFFSET_def
  GPT_PARTITION_ENTRY_ARRAY_CRC_OFFSET_def GPT_PARTITION_NAME_LEN_def GPT_ENTRY_MIN_SIZE_def
  GPT_ENTRY_READ_BUFFER_SIZE_def

record GptHeader =
  partition_entry_lba :: u64
  partition_entry_count :: u32
  partition_entry_size :: u32

record GptPartitionEntry =
  partition_type_guid :: "u8 list"
  unique_partition_guid :: "u8 list"
  first_lba :: u64
  last_lba :: u64
  attributes :: u64
  partition_name :: "u16 list"

record GptPartitionTable =
  table_device :: BlockDevice
  table_header :: GptHeader

section \<open>Little-endian fields and the CRC\<close>

definition gpt_read_u32 :: "u8 list \<Rightarrow> nat \<Rightarrow> u32 option" where
  "gpt_read_u32 bytes offset = map_option from_le_bytes (slice_get bytes offset (offset + 4))"

definition gpt_read_u64 :: "u8 list \<Rightarrow> nat \<Rightarrow> u64 option" where
  "gpt_read_u64 bytes offset = map_option from_le_bytes (slice_get bytes offset (offset + 8))"

definition copy_16 :: "u8 list \<Rightarrow> nat \<Rightarrow> u8 list option" where
  "copy_16 bytes offset = slice_get bytes offset (offset + 16)"

text \<open>One turn of the bit loop, the loop with its remaining turns, and the byte loop.\<close>

definition crc_step :: "u32 \<Rightarrow> u32" where
  "crc_step crc = (if crc AND 1 \<noteq> 0 then drop_bit 1 crc XOR 0xedb88320 else drop_bit 1 crc)"

fun crc_bits :: "nat \<Rightarrow> u32 \<Rightarrow> u32" where
  "crc_bits 0 crc = crc"
| "crc_bits (Suc n) crc = crc_bits n (crc_step crc)"

fun crc32_update :: "u32 \<Rightarrow> u8 list \<Rightarrow> u32" where
  "crc32_update crc [] = crc"
| "crc32_update crc (b # bytes) = crc32_update (crc_bits 8 (crc XOR ucast b)) bytes"

definition crc32_finalize :: "u32 \<Rightarrow> u32" where
  "crc32_finalize crc = NOT crc"

definition crc32 :: "u8 list \<Rightarrow> u32" where
  "crc32 bytes = crc32_finalize (crc32_update 0xffffffff bytes)"

section \<open>Headers\<close>

text \<open>The sector loop of the entry-array check: \<open>None\<close> where the source returns \<open>false\<close> early.\<close>

function entry_crc_loop :: "BlockDevice \<Rightarrow> u64 \<Rightarrow> nat \<Rightarrow> u32 \<Rightarrow> u32 option" where
  "entry_crc_loop device current_lba remaining crc =
     (if remaining = 0 then Some crc
      else case read_blocks device current_lba VIRTIO_SECTOR_SIZE of
        Inl _ \<Rightarrow> None
      | Inr sector \<Rightarrow>
          let taken = min remaining VIRTIO_SECTOR_SIZE;
              crc' = crc32_update crc (take taken sector)
          in (case checked_add current_lba 1 of
                Some next_lba \<Rightarrow> entry_crc_loop device next_lba (remaining - taken) crc'
              | None \<Rightarrow> None))"
  by pat_completeness auto
termination by (relation "measure (\<lambda>(_, _, remaining, _). remaining)") auto

declare entry_crc_loop.simps [simp del]

text \<open>\<open>usize::try_from\<close> on a 64-bit value succeeds on the 64-bit target.\<close>

definition verify_entry_array_crc :: "BlockDevice \<Rightarrow> u64 \<Rightarrow> u64 \<Rightarrow> u32 \<Rightarrow> bool" where
  "verify_entry_array_crc device start_lba byte_len expected_crc =
     (case entry_crc_loop device start_lba (unat byte_len) 0xffffffff of
        Some crc \<Rightarrow> crc32_finalize crc = expected_crc
      | None \<Rightarrow> False)"

text \<open>The header copy whose CRC field is cleared before the CRC is taken.\<close>

definition crc_header_bytes :: "u8 list \<Rightarrow> nat \<Rightarrow> u8 list" where
  "crc_header_bytes sector header_size =
     (let header_bytes = take header_size sector @ drop header_size (replicate VIRTIO_SECTOR_SIZE 0);
          header_bytes = take GPT_HEADER_CRC_OFFSET header_bytes @ replicate 4 0
            @ drop (GPT_HEADER_CRC_OFFSET + 4) header_bytes
      in take header_size header_bytes)"

definition read_header_at :: "BlockDevice \<Rightarrow> u64 \<Rightarrow> GptHeader option" where
  "read_header_at device header_lba = do {
     sector \<leftarrow> result_ok (read_blocks device header_lba VIRTIO_SECTOR_SIZE);
     if take 8 sector \<noteq> GPT_SIGNATURE then None else do {
     header_size \<leftarrow> map_option unat (gpt_read_u32 sector 12);
     if \<not> (GPT_HEADER_MIN_SIZE \<le> header_size \<and> header_size \<le> VIRTIO_SECTOR_SIZE) then None else do {
     header_crc \<leftarrow> gpt_read_u32 sector GPT_HEADER_CRC_OFFSET;
     if crc32 (crc_header_bytes sector header_size) \<noteq> header_crc then None else do {
     current_lba \<leftarrow> gpt_read_u64 sector GPT_HEADER_LBA_OFFSET;
     if current_lba \<noteq> header_lba then None else do {
     backup_lba \<leftarrow> gpt_read_u64 sector GPT_BACKUP_LBA_OFFSET;
     if sector_count device \<le> backup_lba \<or> backup_lba = current_lba then None else do {
     first_usable_lba \<leftarrow> gpt_read_u64 sector GPT_FIRST_USABLE_LBA_OFFSET;
     last_usable_lba \<leftarrow> gpt_read_u64 sector GPT_LAST_USABLE_LBA_OFFSET;
     if last_usable_lba < first_usable_lba \<or> sector_count device \<le> last_usable_lba then None else do {
     entry_lba \<leftarrow> gpt_read_u64 sector GPT_PARTITION_ENTRY_LBA_OFFSET;
     entry_count \<leftarrow> gpt_read_u32 sector GPT_PARTITION_ENTRY_COUNT_OFFSET;
     entry_size \<leftarrow> gpt_read_u32 sector GPT_PARTITION_ENTRY_SIZE_OFFSET;
     if entry_count = 0 \<or> entry_size < of_nat GPT_ENTRY_MIN_SIZE \<or> entry_size mod of_nat GPT_ENTRY_MIN_SIZE \<noteq> 0
     then None else do {
     entry_array_bytes \<leftarrow> checked_mul (ucast entry_count) (ucast entry_size);
     let entry_array_sectors = div_ceil entry_array_bytes (of_nat VIRTIO_SECTOR_SIZE);
     entry_array_end_lba \<leftarrow> checked_add entry_lba entry_array_sectors;
     if entry_lba = 0 \<or> sector_count device < entry_array_end_lba then None else
     if entry_lba \<le> header_lba \<and> header_lba < entry_array_end_lba then None else do {
     entry_array_crc \<leftarrow> gpt_read_u32 sector GPT_PARTITION_ENTRY_ARRAY_CRC_OFFSET;
     if \<not> verify_entry_array_crc device entry_lba entry_array_bytes entry_array_crc then None else
     Some \<lparr>partition_entry_lba = entry_lba, partition_entry_count = entry_count,
           partition_entry_size = entry_size\<rparr>
     }}}}}}}}}"

definition read_primary_header :: "BlockDevice \<Rightarrow> GptHeader option" where
  "read_primary_header device = read_header_at device 1"

definition read_backup_header :: "BlockDevice \<Rightarrow> GptHeader option" where
  "read_backup_header device = do {
     last_sector \<leftarrow> checked_sub (sector_count device) 1;
     read_header_at device last_sector
   }"

definition GptPartitionTable_new :: "BlockDevice \<Rightarrow> GptPartitionTable option" where
  "GptPartitionTable_new device = do {
     header \<leftarrow> (case read_primary_header device of
                  Some header \<Rightarrow> Some header
                | None \<Rightarrow> read_backup_header device);
     Some \<lparr>table_device = device, table_header = header\<rparr>
   }"

section \<open>Entries\<close>

definition required_entry_sectors :: "nat \<Rightarrow> nat option" where
  "required_entry_sectors sector_offset = do {
     bytes_needed \<leftarrow> us_checked_add sector_offset GPT_ENTRY_MIN_SIZE;
     Some (if bytes_needed mod VIRTIO_SECTOR_SIZE \<noteq> 0 then bytes_needed div VIRTIO_SECTOR_SIZE + 1
           else bytes_needed div VIRTIO_SECTOR_SIZE)
   }"

text \<open>The loop over the name field: code units \<open>name_index\<close> to the end.\<close>

definition read_partition_name :: "u8 list \<Rightarrow> u16 list" where
  "read_partition_name entry =
     map (\<lambda>name_index. let offset = 56 + name_index * 2 in from_le_bytes [entry ! offset, entry ! (offset + 1)])
       [0..<GPT_PARTITION_NAME_LEN]"

definition read_partition_entry :: "BlockDevice \<Rightarrow> GptHeader \<Rightarrow> u32 \<Rightarrow> GptPartitionEntry option" where
  "read_partition_entry device header index =
     (if partition_entry_count header \<le> index then None else do {
      let entry_size = unat (partition_entry_size header);
      entry_offset \<leftarrow> us_checked_mul (unat index) entry_size;
      sector_lba \<leftarrow> checked_add (partition_entry_lba header) (of_nat (entry_offset div VIRTIO_SECTOR_SIZE));
      let sector_offset = entry_offset mod VIRTIO_SECTOR_SIZE;
      sectors_to_read \<leftarrow> required_entry_sectors sector_offset;
      let bytes_to_read = sectors_to_read * VIRTIO_SECTOR_SIZE;
      if GPT_ENTRY_READ_BUFFER_SIZE < bytes_to_read then None else do {
      read \<leftarrow> result_ok (read_blocks device sector_lba bytes_to_read);
      let sectors = read @ drop bytes_to_read (replicate GPT_ENTRY_READ_BUFFER_SIZE 0);
      let entry = take GPT_ENTRY_MIN_SIZE (drop sector_offset sectors);
      let name = read_partition_name entry;
      type_guid \<leftarrow> copy_16 entry 0;
      unique_guid \<leftarrow> copy_16 entry 16;
      first \<leftarrow> gpt_read_u64 entry 32;
      last \<leftarrow> gpt_read_u64 entry 40;
      attr \<leftarrow> gpt_read_u64 entry 48;
      if last < first \<or> sector_count device \<le> last then None
      else Some \<lparr>partition_type_guid = type_guid, unique_partition_guid = unique_guid, first_lba = first,
                 last_lba = last, attributes = attr, partition_name = name\<rparr>
      }})"

definition is_unused :: "GptPartitionEntry \<Rightarrow> bool" where
  "is_unused self \<longleftrightarrow> partition_type_guid self = replicate 16 0"

text \<open>\<open>PartitionEntry::sector_count\<close>, the default method of the trait, and the method of the GPT entry.\<close>

definition default_sector_count :: "u64 \<Rightarrow> u64 \<Rightarrow> u64" where
  "default_sector_count first_block last_block = saturating_add (saturating_sub last_block first_block) 1"

definition entry_sector_count :: "GptPartitionEntry \<Rightarrow> u64" where
  "entry_sector_count self = saturating_add (saturating_sub (last_lba self) (first_lba self)) 1"

definition bootable :: "GptPartitionEntry \<Rightarrow> bool" where
  "bootable self \<longleftrightarrow> attributes self AND GPT_ATTRIBUTE_LEGACY_BIOS_BOOTABLE \<noteq> 0"

text \<open>The label loop: \<open>out\<close> bytes have been written to the buffer of 72.\<close>

fun label_loop :: "u16 list \<Rightarrow> u8 list \<Rightarrow> u8 list" where
  "label_loop [] out = out"
| "label_loop (code_unit # rest) out =
     (if code_unit = 0 \<or> length out = 72 then out
      else label_loop rest (out @ [if code_unit \<le> 0x7f then ucast code_unit else of_char CHR ''?'']))"

definition label :: "GptPartitionEntry \<Rightarrow> u8 list" where
  "label self = (let out = label_loop (partition_name self) [] in if out = [] then str ''-'' else out)"

definition HEX :: "u8 list" where
  "HEX = str ''0123456789abcdef''"

text \<open>The output loop over the GUID bytes with \<open>0xff\<close> for the separators.\<close>

fun guid_loop :: "u8 list \<Rightarrow> u8 list" where
  "guid_loop [] = []"
| "guid_loop (b # bytes) =
     (if b = 0xff then of_char CHR ''-'' # guid_loop bytes
      else HEX ! unat (drop_bit 4 b) # HEX ! unat (b AND 0x0f) # guid_loop bytes)"

definition guid :: "GptPartitionEntry \<Rightarrow> u8 list" where
  "guid self =
     (let g = partition_type_guid self in
      guid_loop [g ! 3, g ! 2, g ! 1, g ! 0, 0xff, g ! 5, g ! 4, 0xff, g ! 7, g ! 6, 0xff, g ! 8, g ! 9, 0xff,
        g ! 10, g ! 11, g ! 12, g ! 13, g ! 14, g ! 15])"

definition partition_type :: "GptPartitionEntry \<Rightarrow> u8 list" where
  "partition_type self =
     (if partition_type_guid self = GPT_TYPE_GUID_LINUX_FILESYSTEM then str ''Linux filesystem''
      else if partition_type_guid self = GPT_TYPE_GUID_ESP then str ''ESP''
      else guid self)"

definition is_efi_system_partition :: "GptPartitionEntry \<Rightarrow> bool" where
  "is_efi_system_partition self \<longleftrightarrow> partition_type_guid self = GPT_TYPE_GUID_ESP"

definition is_present :: "GptPartitionEntry \<Rightarrow> bool" where
  "is_present self \<longleftrightarrow> \<not> is_unused self"

section \<open>The table\<close>

definition partition_count :: "GptPartitionTable \<Rightarrow> u32" where
  "partition_count self = partition_entry_count (table_header self)"

definition partition_at :: "GptPartitionTable \<Rightarrow> u32 \<Rightarrow> GptPartitionEntry option" where
  "partition_at self index = read_partition_entry (table_device self) (table_header self) index"

end
