(* ===== verification/GptSpec.thy ===== *)
theory GptSpec
  imports Gpt
begin

unbundle bit_operations_syntax

text \<open>
  What \<open>Gpt\<close> promises, stated on the bytes of the disk.

  \<open>gpt_header_spec\<close> says which sectors are GPT headers; on a reliable device the parser accepts exactly
  those. \<open>entry_bytes\<close> encodes an entry; reading a slot that holds an encoding gives the entry back. The
  CRC loop over sectors computes the CRC of the whole array, and the CRC itself tells apart any two byte
  strings that differ in at most four neighbouring bytes.
\<close>

lemma if_None_Some: "(if b then None else m) = Some x \<longleftrightarrow> \<not> b \<and> m = Some x"
  by simp

section \<open>The CRC\<close>

lemma crc32_update_append: "crc32_update crc (xs @ ys) = crc32_update (crc32_update crc xs) ys"
  by (induction xs arbitrary: crc) auto

text \<open>The step is a bijection: the polynomial has its top bit set, so the bit shifted out is recovered.\<close>

lemma xor_cancel: "a XOR c = b XOR c \<longleftrightarrow> a = (b :: 'a::len word)"
proof
  assume "a XOR c = b XOR c"
  then have "(a XOR c) XOR c = (b XOR c) XOR c" by simp
  then show "a = b" by (simp add: xor.assoc)
qed simp

lemma crc_step_eq: "crc_step x = drop_bit 1 x XOR (if bit x 0 then 0xedb88320 else 0)"
  by (simp add: crc_step_def and_one_eq bit_0 odd_iff_mod_2_eq_one)

lemma crc_step_bit31: "bit (crc_step x) 31 = bit x 0"
  using bit_imp_le_length [of x 32] by (auto simp: crc_step_eq bit_simps)

lemma crc_step_inj: 
  assumes eq: "crc_step x = crc_step y"
  shows "x = y"
proof (rule bit_word_eqI)
  fix n
  have b: "bit x 0 = bit y 0" using eq crc_step_bit31 by metis
  then have d: "drop_bit 1 x = drop_bit 1 y" using eq by (simp add: crc_step_eq xor_cancel)
  show "bit x n = bit y n"
  proof (cases n)
    case 0
    then show ?thesis using b by simp
  next
    case (Suc m)
    then show ?thesis using arg_cong [OF d, of "\<lambda>w. bit w m"] by (simp add: bit_drop_bit_eq)
  qed
qed

lemma crc_bits_inj: "crc_bits n x = crc_bits n y \<Longrightarrow> x = y"
  by (induction n arbitrary: x y) (auto dest: crc_step_inj)

lemma crc_bits_add: "crc_bits (m + n) x = crc_bits n (crc_bits m x)"
  by (induction m arbitrary: x) auto

text \<open>Bits above the ones consumed are only shifted.\<close>

lemma crc_step_shift:
  assumes "take_bit (31 - n) y = y"
  shows "crc_step (x XOR push_bit (Suc n) y) = crc_step x XOR push_bit n y"
proof -
  have "drop_bit 1 (x XOR push_bit (Suc n) y) = drop_bit 1 x XOR push_bit n (take_bit (31 - n) y)"
    by (rule bit_word_eqI) (auto simp: bit_simps simp del: push_bit_Suc)
  moreover have "bit (x XOR push_bit (Suc n) y) 0 = bit x 0" by (simp add: bit_simps del: push_bit_Suc)
  ultimately show ?thesis using assms by (simp add: crc_step_eq ac_simps del: push_bit_Suc)
qed

lemma crc_bits_shift:
  assumes "take_bit (32 - n) y = y"
  shows "crc_bits n (x XOR push_bit n y) = crc_bits n x XOR y"
  using assms
proof (induction n arbitrary: x)
  case (Suc n)
  have "take_bit (32 - n) y = y"
    using Suc.prems by (metis take_bit_take_bit diff_le_mono2 le_Suc_eq min.absorb2 order_refl)
  then show ?case using Suc by (simp add: crc_step_shift del: push_bit_Suc)
qed simp

text \<open>Up to four bytes enter the state as one little-endian word.\<close>

lemma crc32_update_word:
  assumes "length bs \<le> 4"
  shows "crc32_update crc bs = crc_bits (8 * length bs) (crc XOR of_nat (le_nat bs))"
  using assms
proof (induction bs arbitrary: crc)
  case (Cons b bs)
  define y :: u32 where "y = of_nat (le_nat bs)"
  have lt: "le_nat bs < 256 ^ 3"
    using le_nat_lt [of bs] Cons.prems power_increasing [of "length bs" 3 "256 :: nat"] by simp
  then have "unat y < 2 ^ 24" by (simp add: y_def unat_of_nat)
  then have ty: "take_bit (32 - 8) y = y" by (simp add: word_unat_eq_iff unat_take_bit_word)
  have "(of_nat (le_nat (b # bs)) :: u32) = push_bit 8 y + ucast b"
    by (simp add: y_def push_bit_eq_mult)
  also have "\<dots> = ucast b XOR push_bit 8 y"
    by (subst disjunctive_add_eq_or) (auto simp: bit_eq_iff bit_simps intro: bit_word_eqI dest: bit_imp_le_length)
  finally have w: "(of_nat (le_nat (b # bs)) :: u32) = ucast b XOR push_bit 8 y" .
  have "crc_bits 8 ((crc XOR ucast b) XOR push_bit 8 y) = crc_bits 8 (crc XOR ucast b) XOR y"
    by (rule crc_bits_shift [OF ty])
  then show ?case using Cons w
    by (simp add: crc_bits_add y_def xor.assoc)
qed simp

text \<open>Any change confined to four neighbouring bytes changes the CRC.\<close>

lemma crc32_update_inj_state: "crc32_update a bs = crc32_update b bs \<Longrightarrow> a = b"
proof (induction bs arbitrary: a b)
  case (Cons c bs)
  then have "crc_bits 8 (a XOR ucast c) = crc_bits 8 (b XOR ucast c)" by simp
  then show ?case using crc_bits_inj xor_cancel by blast
qed simp

lemma of_nat_le_nat_inj:
  assumes "length ws \<le> 4" and "length vs = length ws" and "(of_nat (le_nat ws) :: u32) = of_nat (le_nat vs)"
  shows "ws = vs"
proof -
  have "le_nat bs < 2 ^ 32" if "length bs \<le> 4" for bs
    using le_nat_lt [of bs] power_increasing [OF that, of "256 :: nat"] by simp
  then have "le_nat ws = le_nat vs"
    using assms(1,2) arg_cong [OF assms(3), of "\<lambda>w. unat w"] by (simp only: unat_of_nat) simp
  then show ?thesis using nat_to_le_le_nat assms(2) by metis
qed

lemma crc32_window:
  assumes "length ws \<le> 4" and "length vs = length ws"
    and "crc32 (xs @ ws @ ys) = crc32 (xs @ vs @ ys)"
  shows "ws = vs"
proof -
  define c where "c = crc32_update 0xffffffff xs"
  have "crc32_update c (ws @ ys) = crc32_update c (vs @ ys)"
    using assms(3) by (simp add: crc32_def crc32_finalize_def crc32_update_append c_def)
  then have "crc32_update c ws = crc32_update c vs"
    using crc32_update_inj_state [of "crc32_update c ws" ys] by (simp add: crc32_update_append)
  then have "crc_bits (8 * length ws) (c XOR of_nat (le_nat ws)) = crc_bits (8 * length ws) (c XOR of_nat (le_nat vs))"
    using assms(1,2) by (simp add: crc32_update_word)
  then have "of_nat (le_nat ws) = (of_nat (le_nat vs) :: u32)"
    using crc_bits_inj xor_cancel by (metis xor.commute)
  then show ?thesis using of_nat_le_nat_inj assms(1,2) by blast
qed

section \<open>The entry-array check\<close>

lemma disk_bytes_split:
  assumes "k * 512 \<le> n"
  shows "disk_bytes disk s n = disk_bytes disk s (k * 512) @ disk_bytes disk (s + k) (n - k * 512)"
proof -
  have "drop ((s + k) * 512) disk = drop (k * 512) (drop (s * 512) disk)" by (simp add: algebra_simps)
  then show ?thesis using assms take_add [of "k * 512" "n - k * 512" "drop (s * 512) disk"]
    by (simp add: disk_bytes_def)
qed

lemma take_disk_bytes: "n \<le> m \<Longrightarrow> take n (disk_bytes disk s m) = disk_bytes disk s n"
  by (simp add: disk_bytes_def min_absorb1)

lemma ceil_512: "(n + 511) div 512 = (if n mod 512 = 0 then n div 512 else n div 512 + (1 :: nat))"
proof -
  have "(n + 511) div 512 = (512 * (n div 512) + (n mod 512 + 511)) div 512" by simp
  also have "\<dots> = n div 512 + (n mod 512 + 511) div 512" by (rule div_mult_self4) simp
  also have "(n mod 512 + 511) div 512 = (if n mod 512 = 0 then 0 else 1)"
    using mod_less_divisor [of 512 n] by (auto intro!: div_nat_eqI simp del: mod_less_divisor)
  finally show ?thesis by simp
qed

lemma ceil_512_le: "(n + 511) div 512 \<le> m \<longleftrightarrow> n \<le> m * (512 :: nat)"
  using div_less_iff_less_mult [of 512 "n + 511" "Suc m"] by auto

lemma unat_div_ceil_512: "unat (div_ceil a (512 :: u64)) = (unat a + 511) div 512"
proof -
  have q: "unat (a div 512) = unat a div 512" and m: "a mod 512 = 0 \<longleftrightarrow> unat a mod 512 = 0"
    by (simp_all add: unat_div unat_eq_zero [symmetric] unat_mod del: unat_eq_0)
  have "unat a < 2 ^ 64" by (rule u64_less)
  then have "unat (a div 512 + 1) = unat a div 512 + 1"
    using q unat_add_small [of "a div 512" 1] by simp
  then show ?thesis using q m by (simp add: div_ceil_def ceil_512)
qed

text \<open>The sector loop computes the CRC of the bytes on the disk, continuing from the state it is given.\<close>

context reliable_device
begin

lemma entry_crc_loop_eq:
  assumes "unat lba * 512 + remaining \<le> length disk"
  shows "entry_crc_loop dev lba remaining crc = Some (crc32_update crc (disk_bytes disk (unat lba) remaining))"
  using assms
proof (induction remaining arbitrary: lba crc rule: less_induct)
  case (less remaining)
  show ?case
  proof (cases "remaining = 0")
    case True
    then show ?thesis by (simp add: entry_crc_loop.simps [of dev lba 0] disk_bytes_def)
  next
    case False
    let ?k = "min remaining 512"
    have "unat lba * 512 < unat (sector_count dev) * 512" using less.prems False disk_size by linarith
    then have inside: "lba < sector_count dev" by (simp add: word_less_nat_alt)
    then have up: "unat lba + 1 < 2 ^ 64"
      using u64_less [of "sector_count dev"] by (simp add: word_less_nat_alt)
    then have u: "unat (lba + 1) = unat lba + 1" using unat_add_small [of lba 1] by simp
    have "(unat lba + 1) * 512 \<le> unat (sector_count dev) * 512"
      using inside by (intro mult_le_mono1) (simp add: word_less_nat_alt)
    then have le: "(unat lba + 1) * 512 + (remaining - ?k) \<le> length disk"
      using less.prems disk_size by (auto simp: min_def)
    have split: "disk_bytes disk (unat lba) remaining
        = disk_bytes disk (unat lba) ?k @ disk_bytes disk (unat lba + 1) (remaining - ?k)"
      using disk_bytes_split [of 1 remaining disk "unat lba"]
      by (cases "remaining \<le> 512") (auto simp: disk_bytes_def)
    have "entry_crc_loop dev (lba + 1) (remaining - ?k) (crc32_update crc (disk_bytes disk (unat lba) ?k))
        = Some (crc32_update (crc32_update crc (disk_bytes disk (unat lba) ?k))
            (disk_bytes disk (unat (lba + 1)) (remaining - ?k)))"
      using le False u by (intro less.IH) auto
    then show ?thesis
      using False up u read_sector [OF inside]
      by (simp add: entry_crc_loop.simps [of dev lba remaining] checked_add_def take_disk_bytes split crc32_update_append
          Let_def)
  qed
qed

lemma verify_entry_array_crc_iff:
  assumes "unat lba * 512 + unat n \<le> length disk"
  shows "verify_entry_array_crc dev lba n crc \<longleftrightarrow> crc32 (disk_bytes disk (unat lba) (unat n)) = crc"
  using assms by (simp add: verify_entry_array_crc_def entry_crc_loop_eq crc32_def)

end

section \<open>Headers\<close>

text \<open>A little-endian number stored in a byte list.\<close>

definition le_field :: "u8 list \<Rightarrow> nat \<Rightarrow> nat \<Rightarrow> nat" where
  "le_field bs offset n = le_nat (take n (drop offset bs))"

definition entry_array_len :: "GptHeader \<Rightarrow> nat" where
  "entry_array_len h = unat (partition_entry_count h) * unat (partition_entry_size h)"

text \<open>A header that describes an entry array inside the disk, clear of the sector \<open>lba\<close>.\<close>

definition entry_array_ok :: "u8 list \<Rightarrow> nat \<Rightarrow> GptHeader \<Rightarrow> bool" where
  "entry_array_ok disk lba h \<longleftrightarrow>
     partition_entry_lba h \<noteq> 0 \<and> 0 < partition_entry_count h
     \<and> 128 \<le> unat (partition_entry_size h) \<and> 128 dvd unat (partition_entry_size h)
     \<and> unat (partition_entry_lba h) * 512 + entry_array_len h \<le> length disk
     \<and> \<not> (unat (partition_entry_lba h) \<le> lba \<and> lba < unat (partition_entry_lba h) + (entry_array_len h + 511) div 512)"

text \<open>Sector \<open>lba\<close> of the disk is a GPT header with the fields of \<open>h\<close>.\<close>

definition gpt_header_spec :: "u8 list \<Rightarrow> nat \<Rightarrow> GptHeader \<Rightarrow> bool" where
  "gpt_header_spec disk lba h \<longleftrightarrow>
     (let sec = disk_bytes disk lba 512; sectors = length disk div 512; n = le_field sec 12 4 in
      lba < sectors
      \<and> take 8 sec = str ''EFI PART''
      \<and> 92 \<le> n \<and> n \<le> 512
      \<and> unat (crc32 (take 16 sec @ replicate 4 0 @ drop 20 (take n sec))) = le_field sec 16 4
      \<and> le_field sec 24 8 = lba
      \<and> le_field sec 32 8 < sectors \<and> le_field sec 32 8 \<noteq> lba
      \<and> le_field sec 40 8 \<le> le_field sec 48 8 \<and> le_field sec 48 8 < sectors
      \<and> le_field sec 72 8 = unat (partition_entry_lba h)
      \<and> le_field sec 80 4 = unat (partition_entry_count h)
      \<and> le_field sec 84 4 = unat (partition_entry_size h)
      \<and> entry_array_ok disk lba h
      \<and> unat (crc32 (disk_bytes disk (unat (partition_entry_lba h)) (entry_array_len h))) = le_field sec 88 4)"

lemma gpt_read_u32_eq:
  "o4 + 4 \<le> length bs \<Longrightarrow> gpt_read_u32 bs o4 = Some (of_nat (le_field bs o4 4))"
  by (simp add: gpt_read_u32_def slice_get_def from_le_bytes_def le_field_def)

lemma gpt_read_u64_eq:
  "o8 + 8 \<le> length bs \<Longrightarrow> gpt_read_u64 bs o8 = Some (of_nat (le_field bs o8 8))"
  by (simp add: gpt_read_u64_def slice_get_def from_le_bytes_def le_field_def)

lemma le_field_less: "le_field bs offset n < 256 ^ n"
proof -
  have "le_field bs offset n < 256 ^ length (take n (drop offset bs))" unfolding le_field_def by (rule le_nat_lt)
  also have "(256 :: nat) ^ length (take n (drop offset bs)) \<le> 256 ^ n" by (rule power_increasing) simp_all
  finally show ?thesis .
qed

lemma unat_le_field [simp]:
  "unat (of_nat (le_field bs offset 4) :: u32) = le_field bs offset 4"
  "unat (of_nat (le_field bs offset 8) :: u64) = le_field bs offset 8"
  using le_field_less [of bs offset 4] le_field_less [of bs offset 8] by (simp_all add: unat_of_nat)

lemma crc_header_bytes_eq:
  assumes "length sec = 512" and "92 \<le> n" and "n \<le> 512"
  shows "crc_header_bytes sec n = take 16 sec @ replicate 4 0 @ drop 20 (take n sec)"
  using assms by (simp add: crc_header_bytes_def gpt_offsets Let_def drop_take)

context reliable_device
begin

lemma sector_length:
  assumes "lba < sector_count dev"
  shows "length (disk_bytes disk (unat lba) 512) = 512"
  using read_length [OF _ read_sector [OF assms]] by simp

lemma entry_array_guard:
  fixes c s :: u32 and l lba :: u64
  defines "n \<equiv> unat c * unat s"
  shows "(\<exists>y. checked_mul (ucast c) (ucast s) = Some y \<and>
           (\<exists>e. checked_add l (div_ceil y 512) = Some e \<and> l \<noteq> 0 \<and> e \<le> sector_count dev \<and>
              (lba < l \<or> e \<le> lba) \<and> verify_entry_array_crc dev l y crc \<and> R))
    \<longleftrightarrow> l \<noteq> 0 \<and> unat l * 512 + n \<le> length disk
      \<and> \<not> (unat l \<le> unat lba \<and> unat lba < unat l + (n + 511) div 512)
      \<and> crc32 (disk_bytes disk (unat l) n) = crc \<and> R"
    (is "?L \<longleftrightarrow> ?R")
proof -
  define y :: u64 where "y = ucast c * ucast s"
  have cs: "unat (ucast c :: u64) = unat c" "unat (ucast s :: u64) = unat s" by (simp_all add: unat_ucast_up)
  have n: "n < 2 ^ 64"
    using mult_strict_mono' [OF u32_less u32_less, of c s] by (simp add: n_def)
  then have y: "unat y = n" "checked_mul (ucast c) (ucast s) = Some y"
    using unat_mult_small [of "ucast c :: u64" "ucast s"] cs by (simp_all add: y_def n_def checked_mul_def)
  have d: "unat (div_ceil y 512) = (n + 511) div 512" by (simp add: unat_div_ceil_512 y)
  have fits: "unat l + (n + 511) div 512 \<le> unat (sector_count dev) \<longleftrightarrow> unat l * 512 + n \<le> length disk"
    using ceil_512_le [of n "unat (sector_count dev) - unat l"] disk_size by auto
  show ?thesis
  proof (cases "unat l * 512 + n \<le> length disk")
    case True
    then have le: "unat l + (n + 511) div 512 \<le> unat (sector_count dev)" using fits by simp
    then have "unat l + unat (div_ceil y 512) < 2 ^ 64" using u64_less [of "sector_count dev"] d by simp
    then have e: "checked_add l (div_ceil y 512) = Some (l + div_ceil y 512)"
        "unat (l + div_ceil y 512) = unat l + (n + 511) div 512"
      using d unat_add_small [of l "div_ceil y 512"] by (simp_all add: checked_add_def)
    show ?thesis using True y e le verify_entry_array_crc_iff [of l y crc]
      by (simp add: word_less_nat_alt word_le_nat_alt disj_not1 [symmetric] not_le not_less)
  next
    case False
    then have "\<not> unat l + (n + 511) div 512 \<le> unat (sector_count dev)" using fits by simp
    then show ?thesis using False y d unat_add_small [of l "div_ceil y 512"]
      by (auto simp: checked_add_def word_le_nat_alt)
  qed
qed

lemma read_header_at_inside:
  assumes "lba < sector_count dev"
  shows "read_header_at dev lba = Some h \<longleftrightarrow> gpt_header_spec disk (unat lba) h"
proof -
  define sec where "sec = disk_bytes disk (unat lba) 512"
  define n where "n = le_field sec 80 4 * le_field sec 84 4"
  have len: "length sec = 512" using sector_length [OF assms] by (simp add: sec_def)
  have rd: "read_blocks dev lba 512 = Inr sec" using read_sector [OF assms] by (simp add: sec_def)
  have sectors: "length disk div 512 = unat (sector_count dev)" using disk_size by simp
  have inside: "unat lba < unat (sector_count dev)" using assms by (simp add: word_less_nat_alt)
  have dvd: "unat (s mod 128) = unat (0 :: u32) \<longleftrightarrow> 128 dvd unat s" for s :: u32
    by (simp add: dvd_eq_mod_eq_0 unat_mod del: unat_eq_0)
  have eqh: "\<lparr>partition_entry_lba = of_nat (le_field sec 72 8), partition_entry_count = of_nat (le_field sec 80 4),
          partition_entry_size = of_nat (le_field sec 84 4)\<rparr> = h \<longleftrightarrow> le_field sec 72 8 = unat (partition_entry_lba h)
      \<and> le_field sec 80 4 = unat (partition_entry_count h) \<and> le_field sec 84 4 = unat (partition_entry_size h)"
    by (cases h) (auto simp: word_unat_eq_iff)
  have crc: "92 \<le> le_field sec 12 4 \<Longrightarrow> le_field sec 12 4 \<le> 512 \<Longrightarrow> crc_header_bytes sec (le_field sec 12 4)
      = take 16 sec @ replicate 4 0 @ drop 20 (take (le_field sec 12 4) sec)"
    using crc_header_bytes_eq [OF len] by blast
  have "read_header_at dev lba = Some h \<longleftrightarrow>
     take 8 sec = str ''EFI PART'' \<and> 92 \<le> le_field sec 12 4 \<and> le_field sec 12 4 \<le> 512 \<and>
     unat (crc32 (crc_header_bytes sec (le_field sec 12 4))) = le_field sec 16 4 \<and>
     le_field sec 24 8 = unat lba \<and>
     le_field sec 32 8 < unat (sector_count dev) \<and> le_field sec 32 8 \<noteq> unat lba \<and>
     le_field sec 40 8 \<le> le_field sec 48 8 \<and> le_field sec 48 8 < unat (sector_count dev) \<and>
     le_field sec 72 8 = unat (partition_entry_lba h)
      \<and> le_field sec 80 4 = unat (partition_entry_count h) \<and> le_field sec 84 4 = unat (partition_entry_size h) \<and>
     le_field sec 80 4 \<noteq> 0 \<and> 128 \<le> le_field sec 84 4 \<and> 128 dvd le_field sec 84 4 \<and>
     le_field sec 72 8 \<noteq> 0 \<and> le_field sec 72 8 * 512 + n \<le> length disk \<and>
     \<not> (le_field sec 72 8 \<le> unat lba \<and> unat lba < le_field sec 72 8 + (n + 511) div 512) \<and>
     unat (crc32 (disk_bytes disk (le_field sec 72 8) n)) = le_field sec 88 4"
    by (simp add: read_header_at_def rd gpt_offsets gpt_read_u32_eq gpt_read_u64_eq len if_None_Some bind_eq_Some_conv
       GPT_SIGNATURE_def not_less not_le entry_array_guard eqh n_def cong: conj_cong,
       simp only: word_unat_eq_iff word_le_nat_alt word_less_nat_alt dvd unat_le_field,
       intro iffI conjI; elim conjE; simp)
  then show ?thesis
    by (simp only: gpt_header_spec_def Let_def sec_def [symmetric] sectors entry_array_ok_def entry_array_len_def
        inside simp_thms n_def)
      (simp add: crc word_unat_eq_iff word_less_nat_alt cong: conj_cong, blast)
qed

lemma read_header_at_iff: "read_header_at dev lba = Some h \<longleftrightarrow> gpt_header_spec disk (unat lba) h"
proof (cases "lba < sector_count dev")
  case True
  then show ?thesis by (rule read_header_at_inside)
next
  case False
  then have "\<exists>e. read_blocks dev lba 512 = Inl e"
    by (intro read_beyond) (simp_all add: word_less_nat_alt)
  moreover have "\<not> gpt_header_spec disk (unat lba) h"
    using False disk_size by (simp add: gpt_header_spec_def Let_def word_less_nat_alt)
  ultimately show ?thesis by (auto simp: read_header_at_def)
qed

lemma no_header_iff: "read_header_at dev lba = None \<longleftrightarrow> (\<forall>h. \<not> gpt_header_spec disk (unat lba) h)"
  using read_header_at_iff by (metis option.exhaust option.simps(3))

text \<open>The primary header wins; the backup in the last sector is used when there is no primary one.\<close>

lemma GptPartitionTable_new_iff:
  "GptPartitionTable_new dev = Some t \<longleftrightarrow> table_device t = dev
     \<and> (gpt_header_spec disk 1 (table_header t)
        \<or> (\<forall>h. \<not> gpt_header_spec disk 1 h) \<and> gpt_header_spec disk (length disk div 512 - 1) (table_header t))"
proof (cases "sector_count dev = 0")
  case True
  then have "length disk = 0" using disk_size by simp
  moreover have "\<not> gpt_header_spec disk l h" if "length disk = 0" for l h
    using that by (simp add: gpt_header_spec_def Let_def)
  ultimately show ?thesis
    using True no_header_iff [of 1]
    by (simp add: GptPartitionTable_new_def read_primary_header_def read_backup_header_def checked_sub_def)
next
  case False
  then have ge: "1 \<le> sector_count dev" by (simp add: word_le_nat_alt unat_gt_0 Suc_le_eq)
  have "unat (sector_count dev - 1) = length disk div 512 - 1" using unat_sub_le [OF ge] disk_size by simp
  then have backup: "read_backup_header dev = Some h \<longleftrightarrow> gpt_header_spec disk (length disk div 512 - 1) h" for h
    using read_header_at_iff [of "sector_count dev - 1"] ge by (simp add: read_backup_header_def checked_sub_def)
  have t: "\<lparr>table_device = dev, table_header = h\<rparr> = t \<longleftrightarrow> table_device t = dev \<and> table_header t = h" for h
    by (cases t) auto
  show ?thesis
  proof (cases "read_header_at dev 1")
    case None
    then show ?thesis using no_header_iff [of 1] backup
      by (auto simp: GptPartitionTable_new_def read_primary_header_def bind_eq_Some_conv t)
  next
    case (Some h)
    then have "gpt_header_spec disk 1 h' \<longleftrightarrow> h' = h" for h' using read_header_at_iff [of 1 h'] by auto
    then show ?thesis using Some
      by (simp add: GptPartitionTable_new_def read_primary_header_def t)
  qed
qed

lemma new_header_ok:
  assumes "GptPartitionTable_new dev = Some t"
  shows "table_device t = dev" and "\<exists>lba. entry_array_ok disk lba (table_header t)"
  using assms by (auto simp: GptPartitionTable_new_iff gpt_header_spec_def Let_def)

end

section \<open>Entries\<close>

text \<open>The on-disk form of an entry.\<close>

definition entry_bytes :: "GptPartitionEntry \<Rightarrow> u8 list" where
  "entry_bytes e = partition_type_guid e @ unique_partition_guid e @ to_le_bytes 8 (first_lba e)
     @ to_le_bytes 8 (last_lba e) @ to_le_bytes 8 (attributes e) @ concat (map (to_le_bytes 2) (partition_name e))"

definition entry_type :: "GptPartitionEntry \<Rightarrow> bool" where
  "entry_type e \<longleftrightarrow> length (partition_type_guid e) = 16 \<and> length (unique_partition_guid e) = 16
     \<and> length (partition_name e) = 36"

text \<open>The 128 bytes of slot \<open>index\<close> of the entry array.\<close>

definition slot_bytes :: "u8 list \<Rightarrow> GptHeader \<Rightarrow> nat \<Rightarrow> u8 list" where
  "slot_bytes disk h index =
     take 128 (drop (unat (partition_entry_lba h) * 512 + index * unat (partition_entry_size h)) disk)"

lemma length_concat_le2: "length (concat (map (to_le_bytes 2) ws)) = 2 * length (ws :: u16 list)"
  by (induction ws) auto

lemma length_entry_bytes: "entry_type e \<Longrightarrow> length (entry_bytes e) = 128"
  by (simp add: entry_bytes_def entry_type_def length_concat_le2)

lemma nth_concat_le2:
  "i < length ws \<Longrightarrow> concat (map (to_le_bytes 2) ws) ! (2 * i) = to_le_bytes 2 (ws ! i) ! 0
    \<and> concat (map (to_le_bytes 2) ws) ! (2 * i + 1) = to_le_bytes 2 (ws ! i :: u16) ! 1"
proof (induction ws arbitrary: i)
  case (Cons w ws)
  then show ?case by (cases i) (auto simp: nth_append)
qed simp

lemma le2_bytes: "from_le_bytes [to_le_bytes 2 w ! 0, to_le_bytes 2 w ! 1] = (w :: u16)"
proof -
  have "to_le_bytes 2 w = [to_le_bytes 2 w ! 0, to_le_bytes 2 w ! 1]"
    by (rule nth_equalityI) (auto simp: less_2_cases_iff nth_Cons')
  then show ?thesis using from_le_to_le [of 2 w] by simp
qed

text \<open>The fields read from an encoded entry.\<close>

lemma read_name_encoded:
  assumes "entry_type e"
  shows "read_partition_name (entry_bytes e) = partition_name e"
proof (rule nth_equalityI)
  show "length (read_partition_name (entry_bytes e)) = length (partition_name e)"
    using assms by (simp add: read_partition_name_def gpt_offsets entry_type_def)
next
  fix i
  assume "i < length (read_partition_name (entry_bytes e))"
  then have i: "i < 36" by (simp add: read_partition_name_def gpt_offsets)
  let ?names = "concat (map (to_le_bytes 2) (partition_name e))"
  have "entry_bytes e ! (56 + j) = ?names ! j" for j
    using assms by (simp add: entry_bytes_def entry_type_def nth_append)
  from this [of "2 * i"] this [of "2 * i + 1"]
  show "read_partition_name (entry_bytes e) ! i = partition_name e ! i"
    using i assms nth_concat_le2 [of i "partition_name e"] le2_bytes [of "partition_name e ! i"]
    by (simp add: read_partition_name_def gpt_offsets entry_type_def mult.commute)
qed

lemma read_fields_encoded:
  assumes "entry_type e"
  shows "copy_16 (entry_bytes e) 0 = Some (partition_type_guid e)"
    "copy_16 (entry_bytes e) 16 = Some (unique_partition_guid e)"
    "gpt_read_u64 (entry_bytes e) 32 = Some (first_lba e)"
    "gpt_read_u64 (entry_bytes e) 40 = Some (last_lba e)"
    "gpt_read_u64 (entry_bytes e) 48 = Some (attributes e)"
  using assms length_entry_bytes [OF assms] from_le_to_le [where 'a = 64 and n = 8]
  by (auto simp: copy_16_def gpt_read_u64_def slice_get_def entry_bytes_def entry_type_def)

text \<open>Every 128 bytes are the encoding of an entry.\<close>

lemma pairs_encode:
  "length bs = 2 * n \<Longrightarrow>
     concat (map (to_le_bytes 2) (map (\<lambda>i. from_le_bytes [bs ! (i * 2), bs ! (i * 2 + 1)] :: u16) [0..<n])) = bs"
proof (induction n arbitrary: bs)
  case (Suc n)
  then obtain a b cs where bs: "bs = a # b # cs" and cs: "length cs = 2 * n"
    by (cases bs; cases "tl bs") auto
  have "to_le_bytes 2 (from_le_bytes [a, b] :: u16) = [a, b]" by (rule to_le_from_le) simp_all
  then show ?case using Suc.IH [OF cs]
    by (simp add: bs upt_conv_Cons del: upt_Suc) (simp add: map_Suc_upt [symmetric] comp_def del: map_Suc_upt upt_Suc)
qed simp

lemma entry_bytes_surj:
  assumes "length bs = 128"
  obtains e where "entry_type e" and "entry_bytes e = bs"
proof -
  define e where "e = \<lparr>partition_type_guid = take 16 bs, unique_partition_guid = take 16 (drop 16 bs),
    first_lba = from_le_bytes (take 8 (drop 32 bs)), last_lba = from_le_bytes (take 8 (drop 40 bs)),
    attributes = from_le_bytes (take 8 (drop 48 bs)),
    partition_name = map (\<lambda>i. from_le_bytes [drop 56 bs ! (i * 2), drop 56 bs ! (i * 2 + 1)]) [0..<36]\<rparr>"
  have "concat (map (to_le_bytes 2) (partition_name e)) = drop 56 bs"
    using pairs_encode [of "drop 56 bs" 36] assms by (simp add: e_def del: upt_rec_numeral)
  moreover have "to_le_bytes 8 (from_le_bytes (take 8 (drop k bs)) :: u64) = take 8 (drop k bs)" if "k + 8 \<le> 128" for k
    using that assms by (intro to_le_from_le) auto
  ultimately have "entry_bytes e = take 16 bs @ take 16 (drop 16 bs) @ take 8 (drop 32 bs) @ take 8 (drop 40 bs)
      @ take 8 (drop 48 bs) @ drop 56 bs"
    by (simp add: entry_bytes_def) (simp add: e_def)
  also have "\<dots> = bs"
    using append_take_drop_id [of 16 bs] append_take_drop_id [of 16 "drop 16 bs"] append_take_drop_id [of 8 "drop 32 bs"]
      append_take_drop_id [of 8 "drop 40 bs"] append_take_drop_id [of 8 "drop 48 bs"] by simp
  finally have "entry_bytes e = bs" .
  moreover have "entry_type e" using assms by (simp add: entry_type_def e_def del: upt_rec_numeral)
  ultimately show ?thesis using that by blast
qed

text \<open>Entries are multiples of 128 bytes long, so the 128 bytes decoded never cross a sector.\<close>

lemma slot_in_sector:
  assumes "128 dvd (off :: nat)"
  shows "required_entry_sectors (off mod 512) = Some 1" and "off mod 512 + 128 \<le> 512"
proof -
  have "128 dvd off mod 512" using assms by (simp add: dvd_mod)
  then show "off mod 512 + 128 \<le> 512" using mod_less_divisor [of 512 off] by (auto elim!: dvdE)
  then consider "off mod 512 + 128 = 512" | "off mod 512 + 128 < 512" by linarith
  then show "required_entry_sectors (off mod 512) = Some 1"
    by cases (simp_all add: required_entry_sectors_def us_checked_add_def gpt_offsets)
qed

context reliable_device
begin

lemma slot_read:
  assumes ok: "entry_array_ok disk lba h" and idx: "index < partition_entry_count h"
    and e: "entry_type e" "slot_bytes disk h (unat index) = entry_bytes e"
  shows "read_partition_entry dev h index =
    (if first_lba e \<le> last_lba e \<and> last_lba e < sector_count dev then Some e else None)"
proof -
  define off where "off = unat index * unat (partition_entry_size h)"
  have sz: "128 dvd unat (partition_entry_size h)" "128 \<le> unat (partition_entry_size h)"
    and inside: "unat (partition_entry_lba h) * 512 + entry_array_len h \<le> length disk"
    using ok by (auto simp: entry_array_ok_def)
  have "Suc (unat index) * unat (partition_entry_size h) \<le> entry_array_len h"
    using idx unfolding entry_array_len_def by (intro mult_le_mono1) (simp add: word_less_nat_alt)
  then have off: "unat (partition_entry_lba h) * 512 + off + 128 \<le> unat (sector_count dev) * 512"
    using sz(2) inside disk_size by (simp add: off_def)
  have lim: "off < 2 ^ 64"
    using mult_strict_mono' [OF u32_less u32_less, of index "partition_entry_size h"] by (simp add: off_def)
  have dvd: "128 dvd off" using sz(1) by (simp add: off_def)
  let ?q = "of_nat (off div 512) :: u64"
  have uq: "unat ?q = off div 512" using lim by (simp add: unat_of_nat)
  have lt: "unat (partition_entry_lba h) + off div 512 < unat (sector_count dev)"
    using off by linarith
  then have u: "unat (partition_entry_lba h + ?q) = unat (partition_entry_lba h) + off div 512"
      "unat (partition_entry_lba h) + unat ?q < 2 ^ 64"
    using uq u64_less [of "sector_count dev"] unat_add_small [of "partition_entry_lba h" ?q] by simp_all
  have rd: "read_blocks dev (partition_entry_lba h + ?q) 512
      = Inr (disk_bytes disk (unat (partition_entry_lba h) + off div 512) 512)"
    using read_sector [of "partition_entry_lba h + ?q"] u lt by (simp add: word_less_nat_alt)
  have "take 128 (drop (off mod 512) (disk_bytes disk (unat (partition_entry_lba h) + off div 512) 512))
      = slot_bytes disk h (unat index)"
    using slot_in_sector(2) [OF dvd]
    by (simp add: disk_bytes_def slot_bytes_def drop_take off_def [symmetric] min_def algebra_simps)
  moreover have "length (disk_bytes disk (unat (partition_entry_lba h) + off div 512) 512) = 512"
    using read_length [OF _ rd] by simp
  ultimately have "take 128 (drop (off mod 512) (disk_bytes disk (unat (partition_entry_lba h) + off div 512) 512
      @ drop 512 (replicate 1024 0))) = entry_bytes e"
    using slot_in_sector(2) [OF dvd] e(2) by simp
  moreover have "\<not> partition_entry_count h \<le> index" using idx by simp
  ultimately show ?thesis
    using lim u(2) rd slot_in_sector(1) [OF dvd] read_fields_encoded [OF e(1)] read_name_encoded [OF e(1)]
    by (simp add: read_partition_entry_def off_def [symmetric] us_checked_mul_def checked_add_def gpt_offsets Let_def)
      (auto simp: not_le)
qed

lemma partition_beyond: "partition_entry_count h \<le> index \<Longrightarrow> read_partition_entry dev h index = None"
  by (simp add: read_partition_entry_def)

lemma slot_length:
  assumes "entry_array_ok disk lba h" and "index < partition_entry_count h"
  shows "length (slot_bytes disk h (unat index)) = 128"
proof -
  have "Suc (unat index) * unat (partition_entry_size h) \<le> entry_array_len h"
    using assms(2) unfolding entry_array_len_def by (intro mult_le_mono1) (simp add: word_less_nat_alt)
  then show ?thesis using assms(1) by (auto simp: slot_bytes_def entry_array_ok_def)
qed

end

section \<open>Printed forms\<close>

definition ascii_unit :: "u16 \<Rightarrow> u8" where
  "ascii_unit u = (if u \<le> 0x7f then ucast u else of_char CHR ''?'')"

lemma label_loop_eq:
  "length out + length us \<le> 72 \<Longrightarrow> label_loop us out = out @ map ascii_unit (takeWhile (\<lambda>u. u \<noteq> 0) us)"
  by (induction us arbitrary: out) (auto simp: ascii_unit_def)

lemma utf8_valid_ascii: "\<forall>b \<in> set bs. b \<le> 0x7f \<Longrightarrow> utf8_valid bs"
  by (induction bs) auto

lemma ascii_unit_le: "ascii_unit u \<le> 0x7f"
  by (auto simp: ascii_unit_def word_le_nat_alt unsigned_ucast_eq take_bit_nat_eq_self)

lemma label_eq:
  assumes "entry_type e"
  shows "label e = (let us = takeWhile (\<lambda>u. u \<noteq> 0) (partition_name e) in if us = [] then str ''-'' else map ascii_unit us)"
  using assms by (simp add: label_def label_loop_eq entry_type_def Let_def)

definition hex2 :: "u8 \<Rightarrow> u8 list" where
  "hex2 b = [HEX ! unat (drop_bit 4 b), HEX ! unat (b AND 0x0f)]"

lemma guid_loop_append: "guid_loop (xs @ ys) = guid_loop xs @ guid_loop ys"
  by (induction xs) auto

lemma guid_loop_hex: "0xff \<notin> set bs \<Longrightarrow> guid_loop bs = concat (map hex2 bs)"
  by (induction bs) (auto simp: hex2_def)

lemma nibbles: "unat (drop_bit 4 (b :: u8)) < 16" "unat (b AND 0x0f) < 16"
proof -
  have "unat b < 256" using unsigned_less [of b] by simp
  then show "unat (drop_bit 4 b) < 16" by (simp add: unsigned_drop_bit_eq drop_bit_eq_div unat_div)
  have "b AND 0x0f = take_bit 4 b" by (simp add: take_bit_eq_mask mask_eq_exp_minus_1)
  then show "unat (b AND 0x0f) < 16" by (simp add: unat_take_bit_word)
qed

lemma HEX_ascii: "i < 16 \<Longrightarrow> HEX ! i \<le> 0x7f"
proof -
  assume "i < 16"
  then have "HEX ! i \<in> set HEX" by (intro nth_mem) (simp add: HEX_def str_def)
  moreover have "\<forall>b \<in> set HEX. b \<le> 0x7f" by (simp add: HEX_def str_def)
  ultimately show ?thesis by blast
qed

lemma guid_loop_ascii: "\<forall>b \<in> set (guid_loop bs). b \<le> 0x7f"
  using nibbles HEX_ascii by (induction bs) auto

lemma length_guid_loop: "length (guid_loop bs) \<le> 2 * length bs"
  by (induction bs) auto

lemma guid_loop_sep: "guid_loop (xs @ 0xff # ys) = guid_loop xs @ of_char CHR ''-'' # guid_loop ys"
  by (simp add: guid_loop_append)

text \<open>The five groups of the canonical form, in byte order.\<close>

definition guid_groups :: "GptPartitionEntry \<Rightarrow> u8 list list" where
  "guid_groups e = (let g = partition_type_guid e in
     [[g ! 3, g ! 2, g ! 1, g ! 0], [g ! 5, g ! 4], [g ! 7, g ! 6], [g ! 8, g ! 9],
      [g ! 10, g ! 11, g ! 12, g ! 13, g ! 14, g ! 15]])"

lemma guid_eq:
  "guid e = (case guid_groups e of [a, b, c, d, f] \<Rightarrow> guid_loop a @ of_char CHR ''-'' # guid_loop b
     @ of_char CHR ''-'' # guid_loop c @ of_char CHR ''-'' # guid_loop d @ of_char CHR ''-'' # guid_loop f)"
proof -
  have "guid e = guid_loop (case guid_groups e of [a, b, c, d, f] \<Rightarrow> a @ 0xff # b @ 0xff # c @ 0xff # d @ 0xff # f)"
    by (simp add: guid_def guid_groups_def Let_def del: guid_loop.simps)
  then show ?thesis by (simp add: guid_groups_def Let_def guid_loop_sep del: guid_loop.simps append_Cons)
qed

lemma length_guid: "length (guid e) \<le> 36"
proof -
  have "length (guid_loop [a, b]) \<le> 4" "length (guid_loop [a, b, c, d]) \<le> 8"
    "length (guid_loop [a, b, c, d, f, g]) \<le> 12" for a b c d f g
    by auto
  note group = this
  let ?g = "(!) (partition_type_guid e)"
  show ?thesis
    using group(2) [of "?g 3" "?g 2" "?g 1" "?g 0"] group(1) [of "?g 5" "?g 4"] group(1) [of "?g 7" "?g 6"]
      group(1) [of "?g 8" "?g 9"] group(3) [of "?g 10" "?g 11" "?g 12" "?g 13" "?g 14" "?g 15"]
    by (simp add: guid_eq guid_groups_def Let_def del: guid_loop.simps)
qed


section \<open>An example disk\<close>

text \<open>Six sectors: an empty boot sector, the primary header, an entry array with one EFI system partition
  over sectors 3 and 4, and an empty last sector.\<close>

definition sample_header :: "u8 list" where
  "sample_header =
    [69, 70, 73, 32, 80, 65, 82, 84, 0, 0, 1, 0, 92, 0, 0, 0, 43, 18, 0, 215, 0, 0, 0, 0, 1, 0, 0, 0, 0,
     0, 0, 0, 5, 0, 0, 0, 0, 0, 0, 0, 3, 0, 0, 0, 0, 0, 0, 0, 4, 0, 0, 0, 0, 0, 0, 0, 0, 0, 0, 0, 0, 0,
     0, 0, 0, 0, 0, 0, 0, 0, 0, 0, 2, 0, 0, 0, 0, 0, 0, 0, 1, 0, 0, 0, 128, 0, 0, 0, 57, 195, 92, 176]"

definition sample_entry :: GptPartitionEntry where
  "sample_entry = \<lparr>partition_type_guid = GPT_TYPE_GUID_ESP,
     unique_partition_guid = [1, 2, 3, 4, 5, 6, 7, 8, 9, 10, 11, 12, 13, 14, 15, 16],
     first_lba = 3, last_lba = 4, attributes = 4, partition_name = [0x45, 0x46, 0x49] @ replicate 33 0\<rparr>"

definition sample_disk :: "u8 list" where
  "sample_disk = replicate 512 0 @ (sample_header @ replicate 420 0) @ (entry_bytes sample_entry @ replicate 384 0)
     @ replicate 1536 0"

definition sample_gpt :: GptHeader where
  "sample_gpt = \<lparr>partition_entry_lba = 2, partition_entry_count = 1, partition_entry_size = 128\<rparr>"

lemma crc_bits_8:
  "crc_bits 8 x = crc_step (crc_step (crc_step (crc_step (crc_step (crc_step (crc_step (crc_step x)))))))"
  by (simp add: numeral_eq_Suc)

lemma replicate_numeral: "replicate (numeral k) x = x # replicate (pred_numeral k) x"
  by (simp only: numeral_eq_Suc replicate_Suc)

lemma nat_to_le_numeral: "nat_to_le (numeral k) v = of_nat (v mod 256) # nat_to_le (pred_numeral k) (v div 256)"
  by (simp only: numeral_eq_Suc nat_to_le.simps)

lemma sample_entry_type: "entry_type sample_entry"
  by (simp add: entry_type_def sample_entry_def GPT_TYPE_GUID_ESP_def)

lemma replicate_pairs: "concat (replicate n [x, x]) = replicate (2 * n) x"
  by (induction n) auto

lemma sample_entry_bytes:
  "entry_bytes sample_entry =
     [40, 115, 42, 193, 31, 248, 210, 17, 186, 75, 0, 160, 201, 62, 201, 59, 1, 2, 3, 4, 5, 6, 7, 8, 9,
     10, 11, 12, 13, 14, 15, 16, 3, 0, 0, 0, 0, 0, 0, 0, 4, 0, 0, 0, 0, 0, 0, 0, 4, 0, 0, 0, 0, 0, 0, 0,
     69, 0, 70, 0, 73, 0]
     @ replicate 66 0"
  by (simp add: entry_bytes_def sample_entry_def GPT_TYPE_GUID_ESP_def to_le_bytes_def nat_to_le_numeral replicate_pairs)

lemma sample_length: "length sample_disk = 3072" "length sample_header = 92"
  using length_entry_bytes [OF sample_entry_type] by (simp_all add: sample_disk_def sample_header_def)

lemma sample_sectors:
  "disk_bytes sample_disk 1 512 = sample_header @ replicate 420 0"
  "disk_bytes sample_disk 2 128 = entry_bytes sample_entry"
  using length_entry_bytes [OF sample_entry_type] sample_length(2)
  by (simp_all add: disk_bytes_def sample_disk_def)

lemma sample_image_ok: "image_ok sample_disk"
  using sample_length by (auto simp: image_ok_def)

lemmas crc_eval = crc32_def crc32_finalize_def crc_step_def crc_bits_8

text \<open>The two checksums, evaluated in parts.\<close>

lemma sample_header_crc:
  "crc32 (take 16 sample_header @ replicate 4 0 @ drop 20 sample_header) = 3607106091"
proof -
  let ?a = "[69, 70, 73, 32, 80, 65, 82, 84, 0, 0, 1, 0, 92, 0, 0, 0, 0, 0, 0, 0, 0, 0, 0, 0, 1, 0, 0, 0, 0, 0, 0, 0, 5, 0, 0, 0, 0, 0, 0, 0, 3, 0, 0, 0, 0, 0]"
  let ?b = "[0, 0, 4, 0, 0, 0, 0, 0, 0, 0, 0, 0, 0, 0, 0, 0, 0, 0, 0, 0, 0, 0, 0, 0, 0, 0, 2, 0, 0, 0, 0, 0, 0, 0, 1, 0, 0, 0, 128, 0, 0, 0, 57, 195, 92, 176]"
  have "take 16 sample_header @ replicate 4 0 @ drop 20 sample_header = ?a @ ?b"
    by (simp add: sample_header_def replicate_numeral)
  moreover have "crc32_update 0xffffffff ?a = 3822745021" by (simp add: crc_eval)
  moreover have "crc32_update 3822745021 ?b = 687861204" by (simp add: crc_eval)
  ultimately show ?thesis by (simp only: crc32_def crc32_update_append) (simp add: crc32_finalize_def)
qed

lemma sample_entry_crc: "crc32 (entry_bytes sample_entry) = 2958869305"
proof -
  let ?a = "[40, 115, 42, 193, 31, 248, 210, 17, 186, 75, 0, 160, 201, 62, 201, 59, 1, 2, 3, 4, 5, 6, 7, 8, 9, 10, 11, 12, 13, 14, 15, 16, 3, 0, 0, 0, 0, 0, 0, 0, 4, 0, 0, 0, 0, 0, 0, 0, 4, 0, 0, 0, 0, 0, 0, 0, 69, 0, 70, 0, 73, 0] :: u8 list"
  have r: "replicate 66 (0 :: u8) = replicate 33 0 @ replicate 33 0" by (simp flip: replicate_add)
  have "entry_bytes sample_entry = ?a @ replicate 33 0 @ replicate 33 0" by (simp only: sample_entry_bytes r)
  moreover have "crc32_update 0xffffffff ?a = 124855020" by (simp add: crc_eval)
  moreover have "crc32_update 124855020 (replicate 33 0) = 699661106" by (simp add: crc_eval replicate_numeral)
  moreover have "crc32_update 699661106 (replicate 33 0) = 1336097990" by (simp add: crc_eval replicate_numeral)
  ultimately show ?thesis by (simp only: crc32_def crc32_update_append) (simp add: crc32_finalize_def)
qed

section \<open>Properties\<close>

definition ff :: "u8 \<Rightarrow> nat" where
  "ff b = (if b = 0xff then 1 else 0)"

lemma length_guid_loop_ff: "length (guid_loop bs) + sum_list (map ff bs) = 2 * length bs"
  by (induction bs) (auto simp: ff_def)

lemma upt_16: "[0..<16] = [0, 1, 2, 3, 4, 5, 6, 7, 8, 9, 10, 11, 12, 13, 14, 15]"
  by code_simp

lemma length_guid_ff:
  assumes "length (partition_type_guid e) = 16"
  shows "length (guid e) + sum_list (map ff (partition_type_guid e)) = 36"
proof -
  let ?g = "(!) (partition_type_guid e)"
  have "partition_type_guid e = map ?g [0..<16]" using map_nth [of "partition_type_guid e"] assms by simp
  then have "sum_list (map ff (partition_type_guid e)) = sum_list (map ff (map ?g [0..<16]))" by simp
  also have "\<dots> = sum_list (map ff [?g 3, ?g 2, ?g 1, ?g 0]) + sum_list (map ff [?g 5, ?g 4])
      + sum_list (map ff [?g 7, ?g 6]) + sum_list (map ff [?g 8, ?g 9])
      + sum_list (map ff [?g 10, ?g 11, ?g 12, ?g 13, ?g 14, ?g 15])"
    by (simp add: upt_16)
  finally show ?thesis
    using length_guid_loop_ff [of "[?g 3, ?g 2, ?g 1, ?g 0]"] length_guid_loop_ff [of "[?g 5, ?g 4]"]
      length_guid_loop_ff [of "[?g 7, ?g 6]"] length_guid_loop_ff [of "[?g 8, ?g 9]"]
      length_guid_loop_ff [of "[?g 10, ?g 11, ?g 12, ?g 13, ?g 14, ?g 15]"]
    by (simp add: guid_eq guid_groups_def Let_def del: guid_loop.simps)
qed

lemma guid_canonical:
  assumes "length (partition_type_guid e) = 16" and "0xff \<notin> set (partition_type_guid e)"
  shows "guid e = (case guid_groups e of [a, b, c, d, f] \<Rightarrow> concat (map hex2 a) @ of_char CHR ''-'' # concat (map hex2 b)
     @ of_char CHR ''-'' # concat (map hex2 c) @ of_char CHR ''-'' # concat (map hex2 d)
     @ of_char CHR ''-'' # concat (map hex2 f))"
proof -
  have n: "partition_type_guid e ! i \<noteq> 0xff" if "i < 16" for i
    using assms that by (metis nth_mem)
  have "guid_loop a = concat (map hex2 a)" if "a \<in> set (guid_groups e)" for a
    using that n by (intro guid_loop_hex) (auto simp: guid_groups_def Let_def)
  then show ?thesis
    by (simp add: guid_eq guid_groups_def Let_def del: guid_loop.simps)
qed

text \<open>C15: a partition table view is created exactly for the header in sector 1 when that sector satisfies the
  specification of a GPT header (signature, header CRC with the CRC field cleared, own address, backup and
  usable ranges inside the disk, entry array inside the disk, clear of the header and with the stored CRC), and
  otherwise for the header in the last sector when that satisfies it.\<close>

theorem GptPartitionTable_new_correct:
  assumes "reliable_device dev disk"
  shows "GptPartitionTable_new dev = Some t \<longleftrightarrow> table_device t = dev
     \<and> (gpt_header_spec disk 1 (table_header t)
        \<or> (\<forall>h. \<not> gpt_header_spec disk 1 h) \<and> gpt_header_spec disk (length disk div 512 - 1) (table_header t))"
  using reliable_device.GptPartitionTable_new_iff [OF assms] .

lemma sample_header_spec: "gpt_header_spec sample_disk 1 sample_gpt"
proof -
  have "le_field (sample_header @ replicate 420 0) 16 4 = 3607106091"
    "le_field (sample_header @ replicate 420 0) 12 4 = 92" "le_field (sample_header @ replicate 420 0) 24 8 = 1"
    "le_field (sample_header @ replicate 420 0) 32 8 = 5" "le_field (sample_header @ replicate 420 0) 40 8 = 3"
    "le_field (sample_header @ replicate 420 0) 48 8 = 4" "le_field (sample_header @ replicate 420 0) 72 8 = 2"
    "le_field (sample_header @ replicate 420 0) 80 4 = 1" "le_field (sample_header @ replicate 420 0) 84 4 = 128"
    "le_field (sample_header @ replicate 420 0) 88 4 = 2958869305"
    "take 8 (sample_header @ replicate 420 0) = str ''EFI PART''"
    by (simp_all add: le_field_def sample_header_def str_def)
  then show ?thesis
    using sample_header_crc sample_entry_crc sample_sectors sample_length
    by (simp add: gpt_header_spec_def entry_array_ok_def entry_array_len_def sample_gpt_def)
qed

theorem GptPartitionTable_new_correct_witness:
  "GptPartitionTable_new (FileBlockDevice sample_disk)
     = Some \<lparr>table_device = FileBlockDevice sample_disk, table_header = sample_gpt\<rparr>"
  using GptPartitionTable_new_correct [OF FileBlockDevice_reliable [OF sample_image_ok]] sample_header_spec by simp

text \<open>C17: the sector-by-sector check of the entry array, with its early exits, accepts exactly when the CRC of
  the contiguous bytes on the disk is the expected one.\<close>

theorem verify_entry_array_crc_equiv:
  assumes "reliable_device dev disk" and "unat start_lba * 512 + unat byte_len \<le> length disk"
  shows "verify_entry_array_crc dev start_lba byte_len expected_crc
     \<longleftrightarrow> crc32 (disk_bytes disk (unat start_lba) (unat byte_len)) = expected_crc"
  using reliable_device.verify_entry_array_crc_iff [OF assms] .

theorem verify_entry_array_crc_equiv_witness: "verify_entry_array_crc (FileBlockDevice sample_disk) 2 128 2958869305"
  using verify_entry_array_crc_equiv [OF FileBlockDevice_reliable [OF sample_image_ok], of 2 128 2958869305]
    sample_length sample_sectors sample_entry_crc by simp

text \<open>C16: every slot of the table holds the encoding of an entry, and reading slot \<open>index\<close> gives exactly that entry
  back when its block range is ordered and inside the disk, and nothing otherwise; slots past the count give nothing.\<close>

theorem partition_at_correct:
  assumes "reliable_device dev disk" and "GptPartitionTable_new dev = Some t"
  shows "(index < partition_count t \<longrightarrow>
      (\<exists>e. entry_type e \<and> slot_bytes disk (table_header t) (unat index) = entry_bytes e
         \<and> partition_at t index
           = (if first_lba e \<le> last_lba e \<and> last_lba e < sector_count dev then Some e else None)))
    \<and> (partition_count t \<le> index \<longrightarrow> partition_at t index = None)"
proof -
  obtain lba where ok: "entry_array_ok disk lba (table_header t)" and dev: "table_device t = dev"
    using reliable_device.new_header_ok [OF assms] by blast
  show ?thesis
  proof (intro conjI impI)
    assume idx: "index < partition_count t"
    then have len: "length (slot_bytes disk (table_header t) (unat index)) = 128"
      using reliable_device.slot_length [OF assms(1) ok] by (simp add: partition_count_def)
    obtain e where e: "entry_type e" "slot_bytes disk (table_header t) (unat index) = entry_bytes e"
      using entry_bytes_surj [OF len] by metis
    have "partition_at t index = (if first_lba e \<le> last_lba e \<and> last_lba e < sector_count dev then Some e else None)"
      unfolding partition_at_def dev
      by (rule reliable_device.slot_read [OF assms(1) ok _ e]) (use idx in \<open>simp add: partition_count_def\<close>)
    with e show "\<exists>e. entry_type e \<and> slot_bytes disk (table_header t) (unat index) = entry_bytes e
         \<and> partition_at t index
           = (if first_lba e \<le> last_lba e \<and> last_lba e < sector_count dev then Some e else None)" by blast
  qed (simp add: partition_at_def partition_count_def read_partition_entry_def)
qed

lemma sample_slot: "slot_bytes sample_disk sample_gpt 0 = entry_bytes sample_entry"
  using length_entry_bytes [OF sample_entry_type] sample_length(2)
  by (simp add: slot_bytes_def sample_disk_def sample_gpt_def)

lemma entry_bytes_inj: "entry_type e \<Longrightarrow> entry_type e' \<Longrightarrow> entry_bytes e = entry_bytes e' \<Longrightarrow> e = e'"
  using read_fields_encoded [of e] read_fields_encoded [of e'] read_name_encoded [of e] read_name_encoded [of e']
  by (intro GptPartitionEntry.equality) auto

theorem partition_at_correct_witness:
  "partition_at \<lparr>table_device = FileBlockDevice sample_disk, table_header = sample_gpt\<rparr> 0 = Some sample_entry"
proof -
  let ?t = "\<lparr>table_device = FileBlockDevice sample_disk, table_header = sample_gpt\<rparr>"
  have dev: "reliable_device (FileBlockDevice sample_disk) sample_disk"
    by (rule FileBlockDevice_reliable [OF sample_image_ok])
  have new: "GptPartitionTable_new (FileBlockDevice sample_disk) = Some ?t"
    using reliable_device.GptPartitionTable_new_iff [OF dev] sample_header_spec by simp
  have "0 < partition_count ?t" by (simp add: partition_count_def sample_gpt_def)
  then obtain e where e: "entry_type e" "entry_bytes sample_entry = entry_bytes e"
    "partition_at ?t 0 = (if first_lba e \<le> last_lba e \<and> last_lba e < sector_count (FileBlockDevice sample_disk)
       then Some e else None)"
    using partition_at_correct [OF dev new, of 0] sample_slot by auto
  have "e = sample_entry" using entry_bytes_inj [OF e(1) sample_entry_type] e(2) by simp
  then show ?thesis using e(3) sample_length by (simp add: FileBlockDevice_def) (simp add: sample_entry_def)
qed

text \<open>The CRC distinguishes any two byte strings that differ only inside a window of four bytes; in particular
  a corrupted header or entry field of up to four bytes is always detected.\<close>

theorem crc32_detects_window:
  assumes "length ws \<le> 4" and "length vs = length ws" and "ws \<noteq> vs"
  shows "crc32 (xs @ ws @ ys) \<noteq> crc32 (xs @ vs @ ys)"
  using crc32_window assms by blast

theorem crc32_detects_window_witness: "crc32 ([1] @ [2, 3] @ [4]) \<noteq> crc32 ([1] @ [2, 7] @ [4])"
  by (rule crc32_detects_window) simp_all

text \<open>C18: the printed label and type of an entry fit their buffers and are valid UTF-8, as the unchecked
  conversions assume; the label is the name up to the first zero with other characters than ASCII replaced.\<close>

theorem entry_text_valid:
  assumes "entry_type e"
  shows "utf8_valid (label e) \<and> 0 < length (label e) \<and> length (label e) \<le> 36
    \<and> label e = (let us = takeWhile (\<lambda>u. u \<noteq> 0) (partition_name e) in
          if us = [] then str ''-'' else map ascii_unit us)
    \<and> utf8_valid (partition_type e) \<and> length (partition_type e) \<le> 36"
proof (intro conjI)
  show l: "label e = (let us = takeWhile (\<lambda>u. u \<noteq> 0) (partition_name e) in
          if us = [] then str ''-'' else map ascii_unit us)" by (rule label_eq [OF assms])
  have "length (takeWhile (\<lambda>u. u \<noteq> 0) (partition_name e)) \<le> 36"
    using assms length_takeWhile_le [of "\<lambda>u. u \<noteq> 0" "partition_name e"] by (simp add: entry_type_def)
  then show "0 < length (label e)" "length (label e) \<le> 36" by (auto simp: l Let_def str_def)
  have "\<forall>b \<in> set (label e). b \<le> 0x7f" using ascii_unit_le by (auto simp: l Let_def str_def)
  then show "utf8_valid (label e)" by (rule utf8_valid_ascii)
  show "length (partition_type e) \<le> 36"
    using length_guid [of e] by (simp add: partition_type_def str_def)
  have "\<forall>b \<in> set (guid e). b \<le> 0x7f" unfolding guid_def Let_def by (rule guid_loop_ascii)
  then have "\<forall>b \<in> set (partition_type e). b \<le> 0x7f" by (simp add: partition_type_def str_def)
  then show "utf8_valid (partition_type e)" by (rule utf8_valid_ascii)
qed

theorem entry_text_valid_witness: "label sample_entry = str ''EFI''"
proof -
  have "label sample_entry = (let us = takeWhile (\<lambda>u. u \<noteq> 0) (partition_name sample_entry) in
          if us = [] then str ''-'' else map ascii_unit us)"
    using entry_text_valid [OF sample_entry_type] by blast
  then show ?thesis by (simp add: sample_entry_def takeWhile_append ascii_unit_def str_def)
qed

text \<open>The type GUID is printed in its canonical form when none of its bytes is \<open>0xff\<close>. Each \<open>0xff\<close> byte,
  which the formatter takes for a separator, is printed as one dash instead of two digits.\<close>

theorem guid_form:
  assumes "length (partition_type_guid e) = 16"
  shows "length (guid e) + sum_list (map ff (partition_type_guid e)) = 36
    \<and> (0xff \<notin> set (partition_type_guid e) \<longrightarrow>
       guid e = (case guid_groups e of [a, b, c, d, f] \<Rightarrow>
         concat (map hex2 a) @ of_char CHR ''-'' # concat (map hex2 b)
         @ of_char CHR ''-'' # concat (map hex2 c) @ of_char CHR ''-'' # concat (map hex2 d)
         @ of_char CHR ''-'' # concat (map hex2 f)))"
  using length_guid_ff [OF assms] guid_canonical [OF assms] by blast

theorem guid_form_witness: "length (guid (sample_entry\<lparr>partition_type_guid := replicate 16 0xff\<rparr>)) = 20"
  using guid_form [of "sample_entry\<lparr>partition_type_guid := replicate 16 0xff\<rparr>"]
  by (simp add: ff_def sum_list_replicate)

end
