(* ===== verification/FatSpec.thy ===== *)
theory FatSpec
  imports Fat GptSpec AllocationSpec
begin

unbundle bit_operations_syntax

text \<open>
  What the FAT reader promises, on the bytes of the disk.

  \<open>placed\<close> says that a mounted volume lies on the disk with its FAT and all its clusters; \<open>fat_entry\<close> and
  \<open>cluster_bytes\<close> are the FAT and the clusters as bytes. A file is the concatenation of the clusters of its
  chain, cut to its size. Reading a file always returns, whatever the FAT holds; the search in a directory
  need not.
\<close>

section \<open>Clusters on the disk\<close>

definition fat_entry_size :: "FatVolume \<Rightarrow> nat" where
  "fat_entry_size vol = (case fat_type vol of Fat16 \<Rightarrow> 2 | Fat32 \<Rightarrow> 4)"

definition placed :: "u8 list \<Rightarrow> FatVolume \<Rightarrow> bool" where
  "placed disk vol \<longleftrightarrow> reliable_device (fat_device vol) disk
     \<and> sectors_per_cluster vol \<noteq> 0
     \<and> unat (total_clusters vol) \<le> (case fat_type vol of Fat16 \<Rightarrow> 65524 | Fat32 \<Rightarrow> 0x0ffffff5)
     \<and> unat (data_first_sector vol) + unat (total_clusters vol) * unat (sectors_per_cluster vol) < 2 ^ 32
     \<and> unat (partition_start_lba vol) + unat (data_first_sector vol)
         + unat (total_clusters vol) * unat (sectors_per_cluster vol) \<le> unat (sector_count (fat_device vol))
     \<and> unat (reserved_sector_count vol) * 512 + (unat (total_clusters vol) + 2) * fat_entry_size vol
         \<le> unat (data_first_sector vol) * 512"

text \<open>The first sector of a cluster, the bytes of the cluster and the FAT entry of a cluster.\<close>

definition cluster_sector :: "FatVolume \<Rightarrow> u32 \<Rightarrow> nat" where
  "cluster_sector vol c = unat (partition_start_lba vol) + unat (data_first_sector vol)
     + (unat c - 2) * unat (sectors_per_cluster vol)"

definition cluster_bytes :: "u8 list \<Rightarrow> FatVolume \<Rightarrow> u32 \<Rightarrow> u8 list" where
  "cluster_bytes disk vol c = disk_bytes disk (cluster_sector vol c) (unat (sectors_per_cluster vol) * 512)"

definition fat_entry :: "u8 list \<Rightarrow> FatVolume \<Rightarrow> u32 \<Rightarrow> nat" where
  "fat_entry disk vol c =
     (let at = (unat (partition_start_lba vol) + unat (reserved_sector_count vol)) * 512 + unat c * fat_entry_size vol
      in le_field disk at (fat_entry_size vol) mod 2 ^ (case fat_type vol of Fat16 \<Rightarrow> 16 | Fat32 \<Rightarrow> 28))"

text \<open>\<open>cs\<close> is a chain of valid clusters linked by the FAT.\<close>

fun fat_chain :: "u8 list \<Rightarrow> FatVolume \<Rightarrow> u32 list \<Rightarrow> bool" where
  "fat_chain disk vol [] \<longleftrightarrow> True"
| "fat_chain disk vol [c] \<longleftrightarrow> is_valid_cluster vol c"
| "fat_chain disk vol (c # d # cs) \<longleftrightarrow>
     is_valid_cluster vol c \<and> fat_entry disk vol c = unat d \<and> fat_chain disk vol (d # cs)"

lemma valid_cluster_nat:
  assumes "unat (total_clusters vol) < 2 ^ 28"
  shows "is_valid_cluster vol c \<longleftrightarrow> 2 \<le> unat c \<and> unat c < unat (total_clusters vol) + 2"
proof -
  have "unat (total_clusters vol + 2) = unat (total_clusters vol) + 2"
    using assms unat_add_small [of "total_clusters vol" 2] by simp
  then show ?thesis by (simp add: is_valid_cluster_def word_le_nat_alt word_less_nat_alt)
qed

lemma placed_limit: "placed disk vol \<Longrightarrow> unat (total_clusters vol) < 2 ^ 28"
  by (cases "fat_type vol") (auto simp: placed_def)

lemma read_sectors:
  assumes "reliable_device (fat_device vol) disk" and "0 < k" and "k < 2 ^ 32"
    and "unat (partition_start_lba vol) + unat rel + k \<le> unat (sector_count (fat_device vol))"
  shows "read_relative_blocks_multi vol rel (k * 512)
    = Inr (disk_bytes disk (unat (partition_start_lba vol) + unat rel) (k * 512))"
proof -
  have "unat (ucast rel :: u64) = unat rel" by (simp add: unat_ucast_up)
  then have u: "unat (partition_start_lba vol + ucast rel) = unat (partition_start_lba vol) + unat rel"
    using assms(4) u64_less [of "sector_count (fat_device vol)"] unat_add_small [of "partition_start_lba vol" "ucast rel"]
    by simp
  have "k * 512 < 2 ^ 64" using assms(3) by simp
  then show ?thesis
    using reliable_device.read_ok [OF assms(1,2), of "partition_start_lba vol + ucast rel"] assms(4) u
    by (simp add: read_relative_blocks_multi_def)
qed

lemma read_sector_one:
  assumes "reliable_device (fat_device vol) disk"
    and "unat (partition_start_lba vol) + unat rel < unat (sector_count (fat_device vol))"
  shows "read_relative_blocks vol rel = Inr (disk_bytes disk (unat (partition_start_lba vol) + unat rel) 512)"
  using read_sectors [OF assms(1), of 1 rel] assms(2)
  by (simp add: read_relative_blocks_def read_relative_blocks_multi_def)

text \<open>The sectors of a valid cluster.\<close>

lemma cluster_first_sector_placed:
  assumes "placed disk vol" and "is_valid_cluster vol c"
  obtains f where "cluster_first_sector vol c = Inr f"
    and "unat f = unat (data_first_sector vol) + (unat c - 2) * unat (sectors_per_cluster vol)"
    and "unat (partition_start_lba vol) + unat f + unat (sectors_per_cluster vol) \<le> unat (sector_count (fat_device vol))"
    and "unat f + unat (sectors_per_cluster vol) < 2 ^ 32"
proof -
  let ?spc = "unat (sectors_per_cluster vol)" and ?n = "unat (total_clusters vol)"
  have lim: "?n < 2 ^ 28" "unat (data_first_sector vol) + ?n * ?spc < 2 ^ 32"
    "unat (partition_start_lba vol) + unat (data_first_sector vol) + ?n * ?spc \<le> unat (sector_count (fat_device vol))"
    using placed_limit [OF assms(1)] assms(1) by (auto simp: placed_def)
  have c: "2 \<le> unat c" "unat c - 2 < ?n" using assms(2) valid_cluster_nat [OF lim(1)] by auto
  have "(unat c - 2 + 1) * ?spc \<le> ?n * ?spc" using c(2) by (intro mult_le_mono1) simp
  then have le: "(unat c - 2) * ?spc + ?spc \<le> ?n * ?spc" by simp
  have "unat (c - 2) = unat c - 2" using c(1) unat_sub_le [of 2 c] by (simp add: word_le_nat_alt)
  moreover have us: "unat (ucast (sectors_per_cluster vol) :: u32) = ?spc" by (simp add: unat_ucast_up)
  ultimately have m: "unat ((c - 2) * ucast (sectors_per_cluster vol)) = (unat c - 2) * ?spc"
    using le lim(2) unat_mult_small [of "c - 2" "ucast (sectors_per_cluster vol)"] by simp
  show ?thesis
  proof (rule that)
    show "cluster_first_sector vol c = Inr (data_first_sector vol + (c - 2) * ucast (sectors_per_cluster vol))"
      using assms(2) by (simp add: cluster_first_sector_def)
    show u: "unat (data_first_sector vol + (c - 2) * ucast (sectors_per_cluster vol))
        = unat (data_first_sector vol) + (unat c - 2) * ?spc"
      using m le lim(2) unat_add_small [of "data_first_sector vol" "(c - 2) * ucast (sectors_per_cluster vol)"] by simp
    show "unat (partition_start_lba vol) + unat (data_first_sector vol + (c - 2) * ucast (sectors_per_cluster vol)) + ?spc
        \<le> unat (sector_count (fat_device vol))"
      unfolding u using le lim(3) by linarith
    show "unat (data_first_sector vol + (c - 2) * ucast (sectors_per_cluster vol)) + ?spc < 2 ^ 32"
      unfolding u using le lim(2) by linarith
  qed
qed

section \<open>The FAT\<close>

lemma le_field_inside:
  assumes "off + n \<le> 512"
  shows "le_field (disk_bytes disk s 512) off n = le_field disk (s * 512 + off) n"
proof -
  have "take n (drop off (disk_bytes disk s 512)) = take n (drop (s * 512 + off) disk)"
    using assms by (simp add: disk_bytes_def drop_take min_def add.commute)
  then show ?thesis by (simp add: le_field_def)
qed

lemma fat_read_eq:
  "o2 + 2 \<le> length bs \<Longrightarrow> fat_read_u16 bs o2 = Some (of_nat (le_field bs o2 2))"
  "o4 + 4 \<le> length bs \<Longrightarrow> fat_read_u32 bs o4 = Some (of_nat (le_field bs o4 4))"
  by (simp_all add: fat_read_u16_def fat_read_u32_def slice_get_def from_le_bytes_def le_field_def)

lemma fat_slot:
  assumes "placed disk vol" and "is_valid_cluster vol c"
  defines "es \<equiv> fat_entry_size vol"
  shows "unat (c * of_nat es) = unat c * es"
    and "unat (ucast (reserved_sector_count vol) + (c * of_nat es) div 512 :: u32)
           = unat (reserved_sector_count vol) + unat c * es div 512"
    and "unat (partition_start_lba vol) + (unat (reserved_sector_count vol) + unat c * es div 512)
           < unat (sector_count (fat_device vol))"
    and "unat c * es mod 512 + es \<le> 512"
proof -
  have es: "es = 2 \<or> es = 4" by (simp add: es_def fat_entry_size_def split: FatType.split)
  have lim: "unat (total_clusters vol) < 2 ^ 28" by (rule placed_limit [OF assms(1)])
  have c: "unat c < unat (total_clusters vol) + 2" using assms(2) valid_cluster_nat [OF lim] by simp
  have "unat c * es \<le> (2 ^ 28 + 1) * 4" using c lim es by (intro mult_le_mono) auto
  then have small: "unat c * es < 2 ^ 31" by simp
  moreover have ues: "unat (of_nat es :: u32) = es" using es by auto
  ultimately show m: "unat (c * of_nat es) = unat c * es" using unat_mult_small [of c "of_nat es"] by simp
  have r: "unat (ucast (reserved_sector_count vol) :: u32) = unat (reserved_sector_count vol)"
    by (simp add: unat_ucast_up)
  have d: "unat ((c * of_nat es) div 512) = unat c * es div 512" by (simp add: unat_div m)
  have "unat (reserved_sector_count vol) < 2 ^ 16" using unsigned_less [of "reserved_sector_count vol"] by simp
  moreover have "unat c * es div 512 < 2 ^ 31" using small by (metis div_le_dividend le_less_trans)
  ultimately show "unat (ucast (reserved_sector_count vol) + (c * of_nat es) div 512 :: u32)
      = unat (reserved_sector_count vol) + unat c * es div 512"
    using unat_add_small [of "ucast (reserved_sector_count vol)" "(c * of_nat es) div 512 :: u32"] r d by simp
  have "(unat c + 1) * es \<le> (unat (total_clusters vol) + 2) * es" using c by (intro mult_le_mono1) simp
  moreover have "unat (reserved_sector_count vol) * 512 + (unat (total_clusters vol) + 2) * es
      \<le> unat (data_first_sector vol) * 512"
    using assms(1) by (simp add: placed_def es_def)
  ultimately have "unat (reserved_sector_count vol) * 512 + unat c * es < unat (data_first_sector vol) * 512"
    using es by auto
  then have "unat (reserved_sector_count vol) + unat c * es div 512 < unat (data_first_sector vol)"
    by linarith
  moreover have "unat (partition_start_lba vol) + unat (data_first_sector vol) \<le> unat (sector_count (fat_device vol))"
    using assms(1) by (auto simp: placed_def)
  ultimately show "unat (partition_start_lba vol) + (unat (reserved_sector_count vol) + unat c * es div 512)
      < unat (sector_count (fat_device vol))" by linarith
  have "es dvd 512" "es dvd unat c * es" using es by auto
  then have "es dvd unat c * es mod 512" by (simp add: dvd_mod)
  then show "unat c * es mod 512 + es \<le> 512"
    using mod_less_divisor [of 512 "unat c * es"] es by (auto elim!: dvdE)
qed

lemma next_cluster_placed:
  assumes "placed disk vol" and "is_valid_cluster vol c"
  shows "next_cluster vol c =
    (if fat_entry disk vol c = (case fat_type vol of Fat16 \<Rightarrow> 0xfff7 | Fat32 \<Rightarrow> 0x0ffffff7)
     then Inl (InvalidCluster (of_nat (fat_entry disk vol c))) else Inr (of_nat (fat_entry disk vol c)))"
proof -
  note slot = fat_slot [OF assms]
  define sec where "sec = disk_bytes disk
    (unat (partition_start_lba vol) + (unat (reserved_sector_count vol) + unat c * fat_entry_size vol div 512)) 512"
  define off where "off = unat c * fat_entry_size vol mod 512"
  have dev: "reliable_device (fat_device vol) disk" using assms(1) by (simp add: placed_def)
  have rd: "read_relative_blocks vol (ucast (reserved_sector_count vol) + (c * of_nat (fat_entry_size vol)) div 512) = Inr sec"
    using read_sector_one [OF dev, of "ucast (reserved_sector_count vol) + (c * of_nat (fat_entry_size vol)) div 512"]
      slot(2,3) by (simp add: sec_def)
  have len: "length sec = 512" using slot(3) dev
    by (auto simp: sec_def disk_bytes_def reliable_device_def block_device_def)
  define v where "v = le_field disk ((unat (partition_start_lba vol) + unat (reserved_sector_count vol)) * 512
    + unat c * fat_entry_size vol) (fat_entry_size vol)"
  have "unat c * fat_entry_size vol = unat c * fat_entry_size vol div 512 * 512 + off" by (simp add: off_def)
  then have v: "le_field sec off (fat_entry_size vol) = v"
    unfolding sec_def v_def using le_field_inside [of off "fat_entry_size vol"] slot(4)
    by (simp add: off_def algebra_simps)
  show ?thesis
  proof (cases "fat_type vol")
    case Fat16
    then have es: "fat_entry_size vol = 2" by (simp add: fat_entry_size_def)
    have lt: "v < 2 ^ 16" using le_field_less [of _ _ 2] by (simp add: v_def es)
    have e: "fat_entry disk vol c = v" using lt Fat16 by (simp add: fat_entry_def v_def es Let_def)
    have "unat (of_nat v :: u16) = v" using lt by (simp add: unat_of_nat)
    then have "(ucast (of_nat v :: u16) :: u32) = of_nat v"
      by (metis of_nat_unat)
    then show ?thesis
      using rd len slot(4) v assms(2) Fat16 lt slot(1) fat_read_eq(1) [of off sec]
      by (simp add: next_cluster_def es off_def Let_def fat_marks e word_unat_eq_iff unat_of_nat)
  next
    case Fat32
    then have es: "fat_entry_size vol = 4" by (simp add: fat_entry_size_def)
    have lt: "v < 2 ^ 32" using le_field_less [of _ _ 4] by (simp add: v_def es)
    have e: "fat_entry disk vol c = v mod 2 ^ 28" using Fat32 by (simp add: fat_entry_def v_def es Let_def)
    have "(of_nat v :: u32) AND 0x0fffffff = take_bit 28 (of_nat v)"
      by (simp add: take_bit_eq_mask mask_eq_exp_minus_1)
    also have "\<dots> = of_nat (v mod 2 ^ 28)"
      using lt by (simp add: word_unat_eq_iff unat_take_bit_word unat_of_nat)
    finally have m: "(of_nat v :: u32) AND 0x0fffffff = of_nat (v mod 2 ^ 28)" .
    have "unat (of_nat (v mod 2 ^ 28) :: u32) = v mod 2 ^ 28" by (simp add: unat_of_nat)
    then have "of_nat (v mod 2 ^ 28) = (0x0ffffff7 :: u32) \<longleftrightarrow> v mod 2 ^ 28 = 0x0ffffff7"
      by (simp add: word_unat_eq_iff)
    then show ?thesis
      using rd len slot(4) v assms(2) Fat32 m slot(1) fat_read_eq(2) [of off sec]
      by (simp add: next_cluster_def es off_def Let_def fat_marks e)
  qed
qed

text \<open>A link between two valid clusters is followed: it is neither the bad mark nor an end mark.\<close>

lemma next_cluster_link:
  assumes "placed disk vol" and "is_valid_cluster vol c" and "is_valid_cluster vol d" and "fat_entry disk vol c = unat d"
  shows "next_cluster vol c = Inr d" and "\<not> is_end_of_chain vol d"
proof -
  have d: "unat d < unat (total_clusters vol) + 2" using assms(3) valid_cluster_nat [OF placed_limit [OF assms(1)]] by simp
  have t: "unat (total_clusters vol) \<le> (case fat_type vol of Fat16 \<Rightarrow> 65524 | Fat32 \<Rightarrow> 0x0ffffff5)"
    using assms(1) by (simp add: placed_def)
  show "next_cluster vol c = Inr d"
    using next_cluster_placed [OF assms(1,2)] assms(4) d t by (cases "fat_type vol") simp_all
  show "\<not> is_end_of_chain vol d"
    using d t by (cases "fat_type vol") (simp_all add: is_end_of_chain_def fat_marks word_le_nat_alt)
qed

section \<open>File contents\<close>

lemma fat_chain_valid: "fat_chain disk vol (c # cs) \<Longrightarrow> is_valid_cluster vol c"
  by (cases cs) auto

lemma length_cluster_bytes:
  assumes "placed disk vol" and "is_valid_cluster vol c"
  shows "length (cluster_bytes disk vol c) = unat (sectors_per_cluster vol) * 512"
proof -
  obtain f where "cluster_first_sector vol c = Inr f"
    and f: "unat f = unat (data_first_sector vol) + (unat c - 2) * unat (sectors_per_cluster vol)"
    "unat (partition_start_lba vol) + unat f + unat (sectors_per_cluster vol) \<le> unat (sector_count (fat_device vol))"
    using cluster_first_sector_placed [OF assms] by blast
  have "length disk = unat (sector_count (fat_device vol)) * 512"
    using assms(1) by (simp add: placed_def reliable_device_def block_device_def)
  then show ?thesis using f by (simp add: cluster_bytes_def cluster_sector_def disk_bytes_def)
qed

text \<open>One turn of the loop that ends the file inside its last cluster.\<close>

lemma contents_last:
  assumes p: "placed disk vol" and c: "is_valid_cluster vol c"
    and n: "0 < n" "n \<le> unat (sectors_per_cluster vol) * 512"
  shows "contents_loop vol c n out = Some (Inr (out @ take n (cluster_bytes disk vol c)))"
proof -
  let ?spc = "unat (sectors_per_cluster vol)" and ?s = "cluster_sector vol c"
  obtain f where f: "cluster_first_sector vol c = Inr f"
    "unat f = unat (data_first_sector vol) + (unat c - 2) * ?spc"
    "unat (partition_start_lba vol) + unat f + ?spc \<le> unat (sector_count (fat_device vol))"
    "unat f + ?spc < 2 ^ 32"
    using cluster_first_sector_placed [OF p c] by blast
  have dev: "reliable_device (fat_device vol) disk" using p by (simp add: placed_def)
  have s: "?s = unat (partition_start_lba vol) + unat f" by (simp add: cluster_sector_def f(2))
  have spc: "?spc < 2 ^ 8" using unsigned_less [of "sectors_per_cluster vol"] by simp
  define k where "k = min (n div 512) ?spc"
  have k: "k = n div 512" "k * 512 \<le> n" "k \<le> ?spc"
    using n(2) by (auto simp: k_def min_def) 
  have bytes: "take n (cluster_bytes disk vol c) = disk_bytes disk ?s n"
    using n(2) by (simp add: cluster_bytes_def take_disk_bytes)
  have chunk: "k \<noteq> 0 \<Longrightarrow> read_relative_blocks_multi vol f (k * 512) = Inr (disk_bytes disk ?s (k * 512))"
    using read_sectors [OF dev, of k f] k(3) spc f(3) by (simp add: s)
  have split: "disk_bytes disk ?s n = disk_bytes disk ?s (k * 512) @ disk_bytes disk (?s + k) (n - k * 512)"
    by (rule disk_bytes_split [OF k(2)])
  show ?thesis
  proof (cases "n = k * 512")
    case True
    then have "k \<noteq> 0" "?spc \<noteq> 0" using n by auto
    then show ?thesis using True n(1) f(1) chunk k(3) bytes
      by (subst contents_loop.simps) (simp add: Let_def min_absorb1)
  next
    case False
    then have lt: "k < ?spc" "n - k * 512 < 512" using n(2) k by auto
    have u: "unat (f + of_nat k) = unat f + k"
      using f(4) lt(1) unat_add_small [of f "of_nat k"] by (simp add: unat_of_nat)
    have tail: "read_relative_blocks vol (f + of_nat k) = Inr (disk_bytes disk (?s + k) 512)"
      using read_sector_one [OF dev, of "f + of_nat k"] u f(3) lt(1) by (simp add: s add.assoc)
    have take: "take (n - k * 512) (disk_bytes disk (?s + k) 512) = disk_bytes disk (?s + k) (n - k * 512)"
      using lt(2) by (simp add: take_disk_bytes)
    have ne: "n - k * 512 \<noteq> 0" and m: "min (n - k * 512) 512 = n - k * 512" using False k(2) lt(2) by auto
    show ?thesis
    proof (cases "k = 0")
      case True
      then have "n div 512 = 0" using k(1) by simp
      then show ?thesis using True n(1) f(1) lt(1) tail take ne m bytes
        by (subst contents_loop.simps) (simp add: Let_def)
    next
      case k0: False
      then have "n div 512 \<noteq> 0" using k(1) by simp
      then show ?thesis using k0 n(1) f(1) lt(1) tail take ne m chunk [OF k0] bytes split
        by (subst contents_loop.simps) (simp add: Let_def k_def [symmetric])
    qed
  qed
qed

lemma contents_chain:
  assumes p: "placed disk vol" and ch: "fat_chain disk vol (c # cs)"
    and n: "length cs * (unat (sectors_per_cluster vol) * 512) < n"
      "n \<le> length (c # cs) * (unat (sectors_per_cluster vol) * 512)"
  shows "contents_loop vol c n out = Some (Inr (out @ take n (concat (map (cluster_bytes disk vol) (c # cs)))))"
  using ch n
proof (induction cs arbitrary: c n out)
  case Nil
  then show ?case using contents_last [OF p, of c n] by simp
next
  case (Cons d cs)
  let ?spc = "unat (sectors_per_cluster vol)"
  have c: "is_valid_cluster vol c" and link: "fat_entry disk vol c = unat d" and ch: "fat_chain disk vol (d # cs)"
    using Cons.prems(1) by auto
  have d: "is_valid_cluster vol d" by (rule fat_chain_valid [OF ch])
  obtain f where f: "cluster_first_sector vol c = Inr f"
    "unat f = unat (data_first_sector vol) + (unat c - 2) * ?spc"
    "unat (partition_start_lba vol) + unat f + ?spc \<le> unat (sector_count (fat_device vol))"
    using cluster_first_sector_placed [OF p c] by blast
  have dev: "reliable_device (fat_device vol) disk" and "sectors_per_cluster vol \<noteq> 0" using p by (simp_all add: placed_def)
  then have pos: "0 < ?spc" by (simp add: unat_gt_0)
  have spc: "?spc < 2 ^ 8" using unsigned_less [of "sectors_per_cluster vol"] by simp
  have more: "?spc * 512 < n" using Cons.prems(2) pos by simp
  then have full: "min (n div 512) ?spc = ?spc" by (simp add: min_def) linarith
  have nz: "n div 512 \<noteq> 0" using more pos by (simp add: div_eq_0_iff)
  have chunk: "read_relative_blocks_multi vol f (?spc * 512) = Inr (cluster_bytes disk vol c)"
    using read_sectors [OF dev pos, of f] spc f(3) by (simp add: cluster_bytes_def cluster_sector_def f(2) add.assoc)
  have "contents_loop vol c n out = contents_loop vol d (n - ?spc * 512) (out @ cluster_bytes disk vol c)"
    using pos more nz f(1) full chunk next_cluster_link [OF p c d link]
    by (subst contents_loop.simps) (simp add: Let_def)
  also have "\<dots> = Some (Inr ((out @ cluster_bytes disk vol c)
      @ take (n - ?spc * 512) (concat (map (cluster_bytes disk vol) (d # cs)))))"
    using Cons.prems(2,3) by (intro Cons.IH [OF ch]) auto
  finally show ?case using length_cluster_bytes [OF p c] more by simp
qed

text \<open>Whatever the FAT holds, each turn writes at least one byte.\<close>

lemma contents_returns:
  assumes "sectors_per_cluster vol \<noteq> 0"
  shows "\<exists>r. contents_loop vol c n out = Some r"
proof (induction n arbitrary: c out rule: less_induct)
  case (less n)
  let ?spc = "unat (sectors_per_cluster vol)"
  define k where "k = min (n div 512) ?spc"
  have pos: "0 < ?spc" using assms by (simp add: unat_gt_0)
  show ?case
  proof (cases "n = 0")
    case True
    then show ?thesis by (subst contents_loop.simps) simp
  next
    case False
    define m where "m = n - k * 512 - (if k < ?spc then min (n - k * 512) 512 else 0)"
    have "m < n" using False pos by (auto simp: m_def k_def min_def split: if_splits)
    then have IH: "\<exists>r. contents_loop vol c m out = Some r" for c out by (rule less.IH)
    show ?thesis using False IH unfolding m_def
      by (subst contents_loop.simps) (auto simp: Let_def k_def [symmetric] split: sum.split)
  qed
qed


section \<open>Mounting\<close>

text \<open>The sector counts the boot sector gives, before any wrap-around.\<close>

definition bpb_data_first :: "u16 \<Rightarrow> u8 \<Rightarrow> u32 \<Rightarrow> u16 \<Rightarrow> nat" where
  "bpb_data_first reserved fat_count fat_size root_dir_entries =
     unat reserved + unat fat_count * unat fat_size + (unat root_dir_entries * 32 + 511) div 512"

lemma unat_div_ceil_512_32: "unat a < 2 ^ 31 \<Longrightarrow> unat (div_ceil a (512 :: u32)) = (unat a + 511) div 512"
proof -
  assume lt: "unat a < 2 ^ 31"
  have q: "unat (a div 512) = unat a div 512" and m: "a mod 512 = 0 \<longleftrightarrow> unat a mod 512 = 0"
    by (simp_all add: unat_div unat_eq_zero [symmetric] unat_mod del: unat_eq_0)
  then have "unat (a div 512 + 1) = unat a div 512 + 1"
    using lt q unat_add_small [of "a div 512" 1] by simp
  then show ?thesis using q m by (simp add: div_ceil_def ceil_512)
qed

lemma mount_geometry_Inr:
  assumes "mount_geometry dev start spc reserved fat_count entries t16 f16 t32 f32 root = Inr vol"
  defines "sectors \<equiv> (if t16 \<noteq> 0 then t16 else t32)" and "fat_size \<equiv> (if f16 \<noteq> 0 then f16 else f32)"
  shows "fat_device vol = dev \<and> partition_start_lba vol = start \<and> sectors_per_cluster vol = spc \<and> spc \<noteq> 0
      \<and> reserved_sector_count vol = reserved \<and> 4085 \<le> total_clusters vol
      \<and> fat_type vol = (if total_clusters vol < 65525 then Fat16 else Fat32)
      \<and> (fat_type vol = Fat32 \<longrightarrow> root_cluster vol = root \<and> 2 \<le> root)"
    and "bpb_data_first reserved fat_count fat_size entries < 2 ^ 32 \<Longrightarrow>
      unat (data_first_sector vol) = bpb_data_first reserved fat_count fat_size entries
      \<and> unat (root_dir_sectors vol) = (unat entries * 32 + 511) div 512
      \<and> unat (root_dir_first_sector vol) = unat reserved + unat fat_count * unat fat_size
      \<and> unat (data_first_sector vol) + unat (total_clusters vol) * unat spc \<le> unat sectors"
proof -
  define dirs :: u32 where "dirs = div_ceil (ucast entries * 32) 512"
  define first :: u32 where "first = ucast reserved + ucast fat_count * fat_size"
  define clusters where "clusters = (sectors - (first + dirs)) div ucast spc"
  have g: "spc \<noteq> 0" "first + dirs \<le> sectors" "4085 \<le> clusters"
    "fat_device vol = dev" "partition_start_lba vol = start" "sectors_per_cluster vol = spc"
    "reserved_sector_count vol = reserved" "total_clusters vol = clusters" "root_dir_sectors vol = dirs"
    "root_dir_first_sector vol = first" "data_first_sector vol = first + dirs"
    "fat_type vol = (if clusters < 65525 then Fat16 else Fat32)"
    "fat_type vol = Fat32 \<longrightarrow> root_cluster vol = root \<and> 2 \<le> root"
    using assms by (auto simp: mount_geometry_def Let_def fat_sizes dirs_def first_def clusters_def not_less
        split: if_splits)
  then show "fat_device vol = dev \<and> partition_start_lba vol = start \<and> sectors_per_cluster vol = spc \<and> spc \<noteq> 0
      \<and> reserved_sector_count vol = reserved \<and> 4085 \<le> total_clusters vol
      \<and> fat_type vol = (if total_clusters vol < 65525 then Fat16 else Fat32)
      \<and> (fat_type vol = Fat32 \<longrightarrow> root_cluster vol = root \<and> 2 \<le> root)" by simp
  assume lim: "bpb_data_first reserved fat_count fat_size entries < 2 ^ 32"
  have c: "unat (ucast entries :: u32) = unat entries" "unat (ucast reserved :: u32) = unat reserved"
    "unat (ucast fat_count :: u32) = unat fat_count" "unat (ucast spc :: u32) = unat spc"
    by (simp_all add: unat_ucast_up)
  have "unat entries < 2 ^ 16" using unsigned_less [of entries] by simp
  then have "unat (ucast entries * 32 :: u32) = unat entries * 32"
    using c unat_mult_small [of "ucast entries :: u32" 32] by simp
  then have d: "unat dirs = (unat entries * 32 + 511) div 512"
    using \<open>unat entries < 2 ^ 16\<close> unat_div_ceil_512_32 [of "ucast entries * 32"] by (simp add: dirs_def)
  have "unat (ucast fat_count * fat_size) = unat fat_count * unat fat_size"
    using lim c unat_mult_small [of "ucast fat_count" fat_size] by (simp add: bpb_data_first_def)
  then have f: "unat first = unat reserved + unat fat_count * unat fat_size"
    using lim c unat_add_small [of "ucast reserved" "ucast fat_count * fat_size"]
    by (simp add: bpb_data_first_def first_def)
  have s: "unat (first + dirs) = bpb_data_first reserved fat_count fat_size entries"
    using lim d f unat_add_small [of first dirs] by (simp add: bpb_data_first_def)
  have "unat clusters = (unat sectors - unat (first + dirs)) div unat spc"
    using g(2) c by (simp add: clusters_def unat_div unat_sub_le)
  then have "unat clusters * unat spc \<le> unat sectors - unat (first + dirs)" by (simp add: div_times_less_eq_dividend)
  then have "unat (first + dirs) + unat clusters * unat spc \<le> unat sectors" using g(2) by (simp add: word_le_nat_alt)
  then show "unat (data_first_sector vol) = bpb_data_first reserved fat_count fat_size entries
      \<and> unat (root_dir_sectors vol) = (unat entries * 32 + 511) div 512
      \<and> unat (root_dir_first_sector vol) = unat reserved + unat fat_count * unat fat_size
      \<and> unat (data_first_sector vol) + unat (total_clusters vol) * unat spc \<le> unat sectors"
    using g s d f by simp
qed

lemma FatVolume_new_spc:
  assumes "FatVolume_new dev start = Inr vol"
  shows "sectors_per_cluster vol \<noteq> 0" and "fat_device vol = dev" and "partition_start_lba vol = start"
  using assms mount_geometry_Inr(1) by (auto simp: FatVolume_new_def split: if_splits) 

section \<open>Directories that never end\<close>

lemma find_in_chain_diverges:
  assumes "is_valid_cluster vol c" and "cluster_first_sector vol c = Inr f"
    and "scan_sectors vol component f (ucast (sectors_per_cluster vol)) 0 state = (Inr Continue, state)"
    and "next_cluster vol c = Inr c" and "\<not> is_end_of_chain vol c"
  shows "find_in_chain vol component c state = None"
proof (rule ccontr)
  assume "find_in_chain vol component c state \<noteq> None"
  then obtain r where "find_in_chain vol component c state = Some r" by blast
  then have "\<not> (vol = vol \<and> component = component \<and> c = c \<and> state = state)"
  proof (rule find_in_chain.raw_induct [where P = "\<lambda>v k d s r. \<not> (v = vol \<and> k = component \<and> d = c \<and> s = state)", rotated])
    fix find :: "FatVolume \<Rightarrow> u8 list \<Rightarrow> u32 \<Rightarrow> LongNameState \<Rightarrow> (FatError + FatDirectoryEntry) option"
      and v k d s r
    assume IH: "\<And>v k d s r. find v k d s = Some r \<Longrightarrow> \<not> (v = vol \<and> k = component \<and> d = c \<and> s = state)"
    assume eq: "(if is_valid_cluster v d then
        (case cluster_first_sector v d of
           Inl e \<Rightarrow> Some (Inl e)
         | Inr first \<Rightarrow>
             (case scan_sectors v k first (ucast (sectors_per_cluster v)) 0 s of
                (Inl e, _) \<Rightarrow> Some (Inl e)
              | (Inr r, state) \<Rightarrow>
                  (case r of
                     Found entry \<Rightarrow> Some (Inr entry)
                   | EndOfDirectory \<Rightarrow> Some (Inl FatNotFound)
                   | Continue \<Rightarrow>
                       (case next_cluster v d of
                          Inl e \<Rightarrow> Some (Inl e)
                        | Inr next \<Rightarrow>
                            if is_end_of_chain v next then Some (Inl FatNotFound)
                            else find v k next state))))
      else Some (Inl FatNotFound)) = Some r"
    show "\<not> (v = vol \<and> k = component \<and> d = c \<and> s = state)"
    proof
      assume "v = vol \<and> k = component \<and> d = c \<and> s = state"
      then show False using eq assms IH [of vol component c state r] by simp
    qed
  qed
  then show False by simp
qed


section \<open>Loading\<close>

definition pages_of :: "nat \<Rightarrow> nat" where
  "pages_of n = max 1 ((n + 4095) div 4096)"

lemma pages_of_bounds: "n \<le> pages_of n * 4096" "pages_of n * 4096 < n + 4096 \<or> n = 0 \<and> pages_of n = 1"
proof -
  have "(n + 4095) div 4096 * 4096 + (n + 4095) mod 4096 = n + 4095" by simp
  moreover have "(n + 4095) mod 4096 < 4096" by simp
  ultimately have le: "n \<le> (n + 4095) div 4096 * 4096" and lt: "(n + 4095) div 4096 * 4096 < n + 4096"
    by linarith+
  show "n \<le> pages_of n * 4096" using le by (auto simp: pages_of_def max_def)
  show "pages_of n * 4096 < n + 4096 \<or> n = 0 \<and> pages_of n = 1"
    using lt by (cases "n = 0") (auto simp: pages_of_def max_def)
qed

lemma file_pages: "file_size_to_page_count n = Inr ((unat n + 4095) div 4096)"
  using u32_less [of n] by (simp add: file_size_to_page_count_def us_checked_add_def)

lemma pages_of_small: "n < 2 ^ 32 \<Longrightarrow> pages_of n \<le> 2 ^ 20"
  using pages_of_bounds(2) [of n] by auto

lemma allocate_file_pages:
  assumes "allocate_pages_for_size self EfiBootServicesData (ucast n) = (Inr start, self')"
  obtains P where "AllocatePages self AllocateAnyPages EfiBootServicesData P 0 = (Inr start, self')"
    and "unat P = pages_of (unat (n :: u32))"
proof -
  from assms obtain P where P: "pages_for_size (ucast n) = Inr P"
    "AllocatePages self AllocateAnyPages EfiBootServicesData P 0 = (Inr start, self')"
    by (auto simp: allocate_pages_for_size_def sbind_def split: sum.splits)
  have u: "unat (ucast n :: u64) = unat n" by (simp add: unat_ucast_up)
  note b = pages_for_size_Inr [OF P(1)] pages_of_bounds [of "unat n"]
  have "(ucast n :: u64) = 0 \<longleftrightarrow> unat n = 0" by (simp add: word_unat_eq_iff u)
  then have "unat P = pages_of (unat n)"
  proof (cases "unat n = 0")
    case True
    then have "unat P = 1" using b(2) \<open>_ \<longleftrightarrow> unat n = 0\<close> u b(3) unat_gt_0 [of P] by auto
    then show ?thesis using True by (simp add: pages_of_def)
  next
    case False
    then show ?thesis using b \<open>_ \<longleftrightarrow> unat n = 0\<close> u by auto
  qed
  then show ?thesis using that P(2) by blast
qed

lemma write_outside:
  "\<not> unat (a - start) < length bs \<Longrightarrow> write_memory mem start bs a = mem a"
  by (simp add: write_memory_def)

text \<open>The contents of the pages after a load: the file, then zeros.\<close>

lemma load_memory:
  assumes "length bs \<le> k" and "k < 2 ^ 64"
  shows "map (\<lambda>i. write_memory (write_memory mem start (replicate k 0)) start bs (start + of_nat i)) [0..<k]
    = bs @ replicate (k - length bs) 0"
proof (rule nth_equalityI)
  fix i
  assume "i < length (map (\<lambda>i. write_memory (write_memory mem start (replicate k 0)) start bs (start + of_nat i)) [0..<k])"
  then have i: "i < k" by simp
  then have "unat (of_nat i :: u64) = i" using assms(2) by (simp add: unat_of_nat)
  then show "map (\<lambda>i. write_memory (write_memory mem start (replicate k 0)) start bs (start + of_nat i)) [0..<k] ! i
      = (bs @ replicate (k - length bs) 0) ! i"
    using i by (simp add: write_memory_def nth_append)
qed (use assms in simp)

lemma load_contents_ok:
  assumes "read_file_contents (file_volume f) (first_cluster (file_entry f)) (file_size (file_entry f)) = Some (Inr bs)"
    and "pages \<le> 2 ^ 20"
  shows "load_contents f self mem start pages =
    Some (Inr (LoadedFile_new start pages (unat (file_size (file_entry f))),
       write_memory (write_memory mem start (replicate (pages * 4096) 0)) start bs), self)"
proof -
  have "pages * 4096 < 2 ^ 64" using assms(2) by simp
  then show ?thesis using assms(1)
    by (simp add: load_contents_def allocation_size_bytes_def us_checked_mul_def)
qed

section \<open>Properties\<close>

text \<open>C20: a file whose clusters form a chain of the FAT long enough for its size is read as the bytes of those
  clusters in order, cut to the size; the fast path over whole sectors and the copy of the last partial sector
  fit together.\<close>

theorem read_file_contents_correct:
  assumes "placed disk vol" and "fat_chain disk vol (c # cs)"
    and "length cs * (unat (sectors_per_cluster vol) * 512) < unat n"
    and "unat n \<le> length (c # cs) * (unat (sectors_per_cluster vol) * 512)"
  shows "read_file_contents vol c n = Some (Inr (take (unat n) (concat (map (cluster_bytes disk vol) (c # cs)))))"
proof -
  have "n \<noteq> 0" using assms(3) by auto
  then show ?thesis
    using contents_chain [OF assms, of "[]"] fat_chain_valid [OF assms(2)] by (simp add: read_file_contents_def)
qed

text \<open>C21: reading a file of a mounted volume returns, with the contents or with an error, whatever clusters the FAT
  links, cycles included.\<close>

theorem read_file_contents_returns:
  assumes "FatVolume_new dev start = Inr vol"
  shows "\<exists>r. read_file_contents vol c n = Some r"
  using contents_returns [OF FatVolume_new_spc(1) [OF assms]] by (simp add: read_file_contents_def)

lemma length_chain_bytes:
  assumes "placed disk vol" and "fat_chain disk vol cs"
  shows "length (concat (map (cluster_bytes disk vol) cs)) = length cs * (unat (sectors_per_cluster vol) * 512)"
  using assms(2)
proof (induction cs)
  case (Cons c cs)
  then have "fat_chain disk vol cs" by (cases cs) auto
  then show ?case using Cons length_cluster_bytes [OF assms(1) fat_chain_valid [OF Cons.prems]] by simp
qed simp

text \<open>C22: loading such a file into pages the allocator chooses succeeds whenever the allocation does. The pages were
  free, are now boot-services data and hold the file followed by zeros; no other byte of memory and no other part of
  the memory map changes.\<close>

theorem fat_load_correct:
  assumes "placed disk (file_volume f)" and "\<not> is_directory (file_entry f)"
    and "fat_chain disk (file_volume f) (first_cluster (file_entry f) # cs)"
    and "length cs * (unat (sectors_per_cluster (file_volume f)) * 512) < unat (file_size (file_entry f))"
    and "unat (file_size (file_entry f))
      \<le> length (first_cluster (file_entry f) # cs) * (unat (sectors_per_cluster (file_volume f)) * 512)"
    and "normal self"
    and "allocate_pages_for_size self EfiBootServicesData (ucast (file_size (file_entry f))) = (Inr start, self')"
  shows "\<exists>lf mem'. fat_load f self mem = Some (Inr (lf, mem'), self')
     \<and> physical_start lf = start \<and> size_bytes lf = unat (file_size (file_entry f))
     \<and> loaded_bytes mem' lf
         = take (size_bytes lf) (concat (map (cluster_bytes disk (file_volume f)) (first_cluster (file_entry f) # cs)))
     \<and> map (\<lambda>i. mem' (start + of_nat i)) [0..<page_count lf * 4096]
         = loaded_bytes mem' lf @ replicate (page_count lf * 4096 - size_bytes lf) 0
     \<and> (\<forall>a. page_count lf * 4096 \<le> unat (a - start) \<longrightarrow> mem' a = mem a)
     \<and> normal self' \<and> 4096 dvd unat start \<and> free_at self (unat start) (page_count lf * 4096)
     \<and> map_type self' = (\<lambda>a. if unat start \<le> a \<and> a < unat start + page_count lf * 4096
          then Some (type_u32 EfiBootServicesData) else map_type self a)"
proof -
  let ?n = "unat (file_size (file_entry f))"
  define bs where "bs = take ?n (concat (map (cluster_bytes disk (file_volume f)) (first_cluster (file_entry f) # cs)))"
  let ?mem = "write_memory (write_memory mem start (replicate (pages_of ?n * 4096) 0)) start bs"
  have rd: "read_file_contents (file_volume f) (first_cluster (file_entry f)) (file_size (file_entry f)) = Some (Inr bs)"
  proof -
    have "file_size (file_entry f) \<noteq> 0" using assms(4) by auto
    then show ?thesis
      using contents_chain [OF assms(1,3-5), of "[]"] fat_chain_valid [OF assms(3)]
      by (simp add: read_file_contents_def bs_def)
  qed
  obtain P where P: "AllocatePages self AllocateAnyPages EfiBootServicesData P 0 = (Inr start, self')" "unat P = pages_of ?n"
    using allocate_file_pages [OF assms(7)] by blast
  note eff = AllocatePages_effect [OF assms(6) P(1)] AllocatePages_aligned [OF assms(6) P(1)]
  have small: "pages_of ?n \<le> 2 ^ 20" by (rule pages_of_small [OF u32_less])
  have load: "fat_load f self mem = Some (Inr (LoadedFile_new start (pages_of ?n) ?n, ?mem), self')"
    using assms(2,7) load_contents_ok [OF rd small]
    by (simp add: fat_load_def load_into_allocated_pages_def file_pages pages_of_def)
  have len: "length bs = ?n" using length_chain_bytes [OF assms(1,3)] assms(5) by (simp add: bs_def)
  have all: "map (\<lambda>i. ?mem (start + of_nat i)) [0..<pages_of ?n * 4096] = bs @ replicate (pages_of ?n * 4096 - ?n) 0"
    using load_memory [of bs "pages_of ?n * 4096" mem start] len pages_of_bounds(1) [of ?n] small by simp
  have bytes: "map (\<lambda>i. ?mem (start + of_nat i)) [0..<?n] = bs"
  proof -
    have "take ?n [0..<pages_of ?n * 4096] = [0..<?n]" using pages_of_bounds(1) [of ?n] by simp
    then have "map (\<lambda>i. ?mem (start + of_nat i)) [0..<?n] = take ?n (map (\<lambda>i. ?mem (start + of_nat i)) [0..<pages_of ?n * 4096])"
      by (simp add: take_map)
    then show ?thesis using all len by simp
  qed
  have out: "\<forall>a. pages_of ?n * 4096 \<le> unat (a - start) \<longrightarrow> ?mem a = mem a"
    using len pages_of_bounds(1) [of ?n] by (auto simp: write_memory_def)
  show ?thesis
    using load len all bytes out eff P(2) bs_def
    by (intro exI [of _ "LoadedFile_new start (pages_of ?n) ?n"] exI [of _ ?mem])
      (simp add: LoadedFile_new_def loaded_bytes_def del: take_append map_eq_conv concat.simps list.map)
qed


section \<open>An example volume\<close>

text \<open>Four sectors: a boot sector, a FAT16 that links cluster 2 to cluster 3, and the two clusters.\<close>

definition fat_disk :: "u8 list" where
  "fat_disk = replicate 512 0 @ ([0, 0, 0, 0, 3, 0, 0xff, 0xff] @ replicate 504 0) @ replicate 512 0x41 @ replicate 512 0x42"

definition fat_volume :: FatVolume where
  "fat_volume = \<lparr>fat_device = FileBlockDevice fat_disk, partition_start_lba = 0, fat_type = Fat16,
     sectors_per_cluster = 1, reserved_sector_count = 1, root_dir_sectors = 0, root_dir_first_sector = 2,
     data_first_sector = 2, root_cluster = 0, total_clusters = 2\<rparr>"

definition fat_file :: FatFile where
  "fat_file = \<lparr>file_volume = fat_volume, file_entry = \<lparr>entry_attributes = 0x20, first_cluster = 2, file_size = 600\<rparr>\<rparr>"

lemma fat_disk_length: "length fat_disk = 2048"
  by (simp add: fat_disk_def)

lemma fat_volume_placed: "placed fat_disk fat_volume"
proof -
  have "image_ok fat_disk" using fat_disk_length by (auto simp: image_ok_def)
  then have "reliable_device (FileBlockDevice fat_disk) fat_disk" by (rule FileBlockDevice_reliable)
  moreover have "unat (sector_count (FileBlockDevice fat_disk)) = 4"
    by (simp add: FileBlockDevice_def fat_disk_length)
  ultimately show ?thesis by (simp add: placed_def fat_volume_def fat_entry_size_def)
qed

lemma fat_volume_chain: "fat_chain fat_disk fat_volume [2, 3]"
  by (simp add: is_valid_cluster_def fat_volume_def fat_entry_def fat_entry_size_def le_field_def fat_disk_def)

lemma fat_volume_bytes: "cluster_bytes fat_disk fat_volume 2 = replicate 512 0x41"
    "cluster_bytes fat_disk fat_volume 3 = replicate 512 0x42"
  by (simp_all add: cluster_bytes_def cluster_sector_def fat_volume_def disk_bytes_def fat_disk_def)

theorem read_file_contents_correct_witness:
  "read_file_contents fat_volume 2 600 = Some (Inr (replicate 512 0x41 @ replicate 88 0x42))"
  using read_file_contents_correct [OF fat_volume_placed fat_volume_chain, of 600]
  by (simp add: fat_volume_bytes) (simp add: fat_volume_def)

definition fat_boot_sector :: "u8 list" where
  "fat_boot_sector = replicate 11 0 @ [0, 2, 1, 1, 0, 1, 16, 0, 0x88, 0x13, 0, 20, 0] @ replicate 488 0"

lemma le_nat_zeros: "le_nat (replicate n 0) = 0"
  by (induction n) auto

lemma fat_boot_mounts:
  "FatVolume_new (FileBlockDevice fat_boot_sector) 0 = Inr \<lparr>fat_device = FileBlockDevice fat_boot_sector,
     partition_start_lba = 0, fat_type = Fat16, sectors_per_cluster = 1, reserved_sector_count = 1,
     root_dir_sectors = 1, root_dir_first_sector = 21, data_first_sector = 22, root_cluster = 0, total_clusters = 4978\<rparr>"
proof -
  have len: "length fat_boot_sector = 512" by (simp add: fat_boot_sector_def)
  then have "image_ok fat_boot_sector" by (auto simp: image_ok_def)
  then have "read_blocks (FileBlockDevice fat_boot_sector) 0 512 = Inr fat_boot_sector"
    using file_read_Inr [of fat_boot_sector 512 0] len by (simp add: FileBlockDevice_def disk_bytes_def)
  moreover have "fat_read_u16 fat_boot_sector 11 = Some 512" "byte_get fat_boot_sector 13 = Some 1"
    "fat_read_u16 fat_boot_sector 14 = Some 1" "byte_get fat_boot_sector 16 = Some 1"
    "fat_read_u16 fat_boot_sector 17 = Some 16" "fat_read_u16 fat_boot_sector 19 = Some 5000"
    "fat_read_u16 fat_boot_sector 22 = Some 20" "fat_read_u32 fat_boot_sector 32 = Some 0"
    "fat_read_u32 fat_boot_sector 36 = Some 0" "fat_read_u32 fat_boot_sector 44 = Some 0"
    by (simp_all add: fat_read_u16_def fat_read_u32_def byte_get_def slice_get_def fat_boot_sector_def from_le_bytes_def
        nth_append le_nat_zeros)
  ultimately show ?thesis
    by (simp add: FatVolume_new_def mount_geometry_def fat_sizes div_ceil_def)
qed

theorem read_file_contents_returns_witness:
  "\<exists>vol r. FatVolume_new (FileBlockDevice fat_boot_sector) 0 = Inr vol \<and> read_file_contents vol 7 99 = Some r"
  using read_file_contents_returns [OF fat_boot_mounts, of 7 99] fat_boot_mounts by blast

theorem fat_load_correct_witness:
  "\<exists>self' lf mem'. fat_load fat_file sample_allocator (\<lambda>_. 0) = Some (Inr (lf, mem'), self')
     \<and> loaded_bytes mem' lf = replicate 512 0x41 @ replicate 88 0x42"
proof -
  obtain start self' where a: "allocate_pages_for_size sample_allocator EfiBootServicesData 600 = (Inr start, self')"
    by (simp add: run_simps allocate_pages_for_size_def pages_for_size_def align_up_def)
  show ?thesis
    using fat_load_correct [of fat_disk fat_file "[3]" sample_allocator start self' "\<lambda>_. 0"]
      fat_volume_placed fat_volume_chain sample_normal a
    by (auto simp: fat_file_def fat_volume_bytes is_directory_def FAT_ATTRIBUTE_DIRECTORY_def) (auto simp: fat_volume_def)
qed

end
