(* ===== verification/FatNames.thy ===== *)
theory FatNames
  imports Fat GptSpec
begin

unbundle bit_operations_syntax

text \<open>
  Names in FAT directories.

  \<open>lfn_entries\<close> encodes a long name as the VFAT entries that precede a short entry. Pushing them leaves the
  assembly state \<open>assembling ks chk 0\<close> whatever was in progress before, the state matches exactly the short entries with
  the announced checksum, and decoding it gives the UTF-8 form of the name.
\<close>

section \<open>UTF-8 and UTF-16\<close>

definition scalar :: "u32 \<Rightarrow> bool" where
  "scalar c \<longleftrightarrow> c < 0xd800 \<or> 0xdfff < c \<and> c \<le> 0x10ffff"

lemma char_from_u32_Some: "char_from_u32 c = Some d \<longleftrightarrow> scalar c \<and> d = c"
  by (auto simp: char_from_u32_def scalar_def)

lemma or_add_u8:
  assumes "unat x < 2 ^ n" and "take_bit n h = (0 :: u8)"
  shows "h OR x = h + x"
proof -
  have "take_bit n x = x" using assms(1) by (simp add: word_unat_eq_iff unat_take_bit_word)
  have hx: "\<not> (bit h i \<and> bit x i)" for i
    using bit_take_bit_iff [of n x i] bit_take_bit_iff [of n h i] \<open>take_bit n x = x\<close> assms(2) by auto
  have "h AND x = 0" by (rule bit_eqI) (use hx in \<open>simp add: bit_and_iff\<close>)
  then show ?thesis by (simp add: disjunctive_add_eq_or bit_eq_iff bit_and_iff)
qed

lemma unat_or_byte:
  fixes y :: u32
  assumes "unat y < 2 ^ n" and "take_bit n h = (0 :: u8)" and "unat h + unat y < 256"
  shows "unat (h OR ucast y) = unat h + unat y"
proof -
  have "unat (ucast y :: u8) = unat y" using assms(3) by (simp add: unsigned_ucast_eq take_bit_eq_mod)
  then show ?thesis using or_add_u8 [of "ucast y" n h] assms unat_add_small [of h "ucast y"] by simp
qed

lemma unat_and_3f: "unat ((x :: u32) AND 0x3f) = unat x mod 64"
proof -
  have "x AND 0x3f = take_bit 6 x" by (simp add: take_bit_eq_mask mask_eq_exp_minus_1)
  then show ?thesis by (simp add: unat_take_bit_word)
qed

lemma unat_drop_bit_u32: "unat (drop_bit n (x :: u32)) = unat x div 2 ^ n"
proof -
  have "unat (drop_bit n x) = drop_bit n (unat x)" using u32_less [of x] by (simp add: unsigned_drop_bit_eq take_bit_nat_eq_self)
  then show ?thesis by (simp add: drop_bit_eq_div)
qed

text \<open>The continuation byte and the lead bytes as numbers.\<close>

lemma cont_byte: "unat (0x80 OR ucast (x AND 0x3f :: u32) :: u8) = 128 + unat x mod 64"
  using unat_or_byte [of "x AND 0x3f" 6 "0x80"] by (simp add: unat_and_3f)

lemma lead_bytes:
  "unat x < 32 \<Longrightarrow> unat (0xc0 OR ucast (x :: u32) :: u8) = 192 + unat x"
  "unat x < 16 \<Longrightarrow> unat (0xe0 OR ucast (x :: u32) :: u8) = 224 + unat x"
  "unat x < 8 \<Longrightarrow> unat (0xf0 OR ucast (x :: u32) :: u8) = 240 + unat x"
  using unat_or_byte [of x 5 "0xc0"] unat_or_byte [of x 4 "0xe0"] unat_or_byte [of x 3 "0xf0"] by simp_all

lemmas utf8_bytes = cont_byte lead_bytes unat_drop_bit_u32 unat_and_3f

lemma utf8_two:
  fixes c :: u32
  assumes "0x80 \<le> unat c" and "unat c < 0x800"
  shows "utf8_valid ([0xc0 OR ucast (drop_bit 6 c), 0x80 OR ucast (c AND 0x3f)] @ bs) \<longleftrightarrow> utf8_valid bs"
proof -
  have q: "2 \<le> unat c div 64" "unat c div 64 < 32" using assms by linarith+
  then have a: "unat (0xc0 OR ucast (drop_bit 6 c) :: u8) = 192 + unat c div 64"
    using lead_bytes(1) [of "drop_bit 6 c"] by (simp add: unat_drop_bit_u32)
  have "unat c mod 64 \<le> 63" using mod_less_divisor [of 64 "unat c"] by linarith
  then show ?thesis using a q cont_byte [of c] by (simp add: word_le_nat_alt utf8_cont_def)
qed

lemma utf8_three:
  fixes c :: u32
  assumes "0x800 \<le> unat c" and "unat c < 0x10000" and "unat c < 0xd800 \<or> 0xdfff < unat c"
  shows "utf8_valid ([0xe0 OR ucast (drop_bit 12 c), 0x80 OR ucast (drop_bit 6 c AND 0x3f), 0x80 OR ucast (c AND 0x3f)] @ bs)
    \<longleftrightarrow> utf8_valid bs"
proof -
  define q where "q = unat c div 4096"
  define r where "r = unat c div 64 mod 64"
  have q: "q < 16" using assms(2) unfolding q_def by linarith
  have r: "r < 64" and m: "unat c mod 64 < 64" by (simp_all add: r_def)
  have c: "unat c div 64 = q * 64 + r" unfolding q_def r_def using div_mult_mod_eq [of "unat c div 64" 64]
    by (simp add: div_mult2_eq [symmetric])
  have b1: "q = 0 \<Longrightarrow> 32 \<le> r" using assms(1) c by linarith
  have b2: "q = 13 \<Longrightarrow> r \<le> 31" using assms(3) c r by (elim disjE) linarith+
  have a: "unat (0xe0 OR ucast (drop_bit 12 c) :: u8) = 224 + q"
    using q lead_bytes(2) [of "drop_bit 12 c"] by (simp add: unat_drop_bit_u32 q_def)
  have b: "unat (0x80 OR ucast (drop_bit 6 c AND 0x3f) :: u8) = 128 + r"
    using cont_byte [of "drop_bit 6 c"] by (simp add: unat_drop_bit_u32 r_def)
  show ?thesis using a b q r b1 b2 m cont_byte [of c]
    by (auto simp: word_le_nat_alt utf8_cont_def word_unat_eq_iff)
qed

lemma utf8_four:
  fixes c :: u32
  assumes "0x10000 \<le> unat c" and "unat c \<le> 0x10ffff"
  shows "utf8_valid ([0xf0 OR ucast (drop_bit 18 c), 0x80 OR ucast (drop_bit 12 c AND 0x3f),
      0x80 OR ucast (drop_bit 6 c AND 0x3f), 0x80 OR ucast (c AND 0x3f)] @ bs) \<longleftrightarrow> utf8_valid bs"
proof -
  define q where "q = unat c div 262144"
  define r where "r = unat c div 4096 mod 64"
  have q: "q \<le> 4" using assms(2) unfolding q_def by linarith
  have r: "r < 64" and m: "unat c mod 64 < 64" "unat c div 64 mod 64 < 64" by (simp_all add: r_def)
  have c: "unat c div 4096 = q * 64 + r" unfolding q_def r_def using div_mult_mod_eq [of "unat c div 4096" 64]
    by (simp add: div_mult2_eq [symmetric])
  have b1: "q = 0 \<Longrightarrow> 16 \<le> r" using assms(1) c by linarith
  have b2: "q = 4 \<Longrightarrow> r \<le> 15" using assms(2) c by linarith
  have a: "unat (0xf0 OR ucast (drop_bit 18 c) :: u8) = 240 + q"
    using q lead_bytes(3) [of "drop_bit 18 c"] by (simp add: unat_drop_bit_u32 q_def)
  have b: "unat (0x80 OR ucast (drop_bit 12 c AND 0x3f) :: u8) = 128 + r"
    "unat (0x80 OR ucast (drop_bit 6 c AND 0x3f) :: u8) = 128 + unat c div 64 mod 64"
    using cont_byte [of "drop_bit 12 c"] cont_byte [of "drop_bit 6 c"] by (simp_all add: unat_drop_bit_u32 r_def)
  show ?thesis using a b q r b1 b2 m cont_byte [of c]
    by (auto simp: word_le_nat_alt utf8_cont_def word_unat_eq_iff)
qed

lemma utf8_valid_encode:
  assumes "scalar c"
  shows "utf8_valid (encode_utf8 c @ bs) \<longleftrightarrow> utf8_valid bs"
proof -
  have s: "unat c < 0xd800 \<or> 0xdfff < unat c \<and> unat c \<le> 0x10ffff"
    using assms by (simp add: scalar_def word_less_nat_alt word_le_nat_alt)
  consider "unat c < 0x80" | "0x80 \<le> unat c" "unat c < 0x800" | "0x800 \<le> unat c" "unat c < 0x10000" | "0x10000 \<le> unat c"
    by linarith
  then show ?thesis
  proof cases
    case 1
    then have "unat (ucast c :: u8) = unat c" by (simp add: unsigned_ucast_eq take_bit_eq_mod)
    then show ?thesis using 1 by (simp add: encode_utf8_def word_less_nat_alt word_le_nat_alt)
  next
    case 2
    then show ?thesis using utf8_two [OF 2, of bs] by (simp add: encode_utf8_def word_less_nat_alt del: utf8_valid.simps)
  next
    case 3
    then show ?thesis using utf8_three [OF 3, of bs] s
      by (auto simp add: encode_utf8_def word_less_nat_alt simp del: utf8_valid.simps)
  next
    case 4
    then show ?thesis using utf8_four [of c bs] s
      by (auto simp add: encode_utf8_def word_less_nat_alt simp del: utf8_valid.simps)
  qed
qed

lemma utf8_valid_scalars: "\<forall>c \<in> set cs. scalar c \<Longrightarrow> utf8_valid (concat (map encode_utf8 cs))"
  by (induction cs) (simp_all add: utf8_valid_encode)

text \<open>UTF-16 and the decoding loop.\<close>

definition utf16 :: "u32 \<Rightarrow> u16 list" where
  "utf16 c = (if c < 0x10000 then [ucast c]
     else [0xd800 + ucast (drop_bit 10 (c - 0x10000)), 0xdc00 + ucast (take_bit 10 (c - 0x10000))])"

text \<open>Characters a long name can hold: not the terminator and not the padding value.\<close>

definition name_char :: "u32 \<Rightarrow> bool" where
  "name_char c \<longleftrightarrow> scalar c \<and> c \<noteq> 0 \<and> c \<noteq> 0xffff"

lemma unat_surrogate:
  assumes "unat x < 2 ^ 10" and "unat b + 2 ^ 10 \<le> 2 ^ 16"
  shows "unat (b + ucast (x :: u32) :: u16) = unat b + unat x"
proof -
  have "unat (ucast x :: u16) = unat x" using assms(1) by (simp add: unsigned_ucast_eq take_bit_eq_mod)
  then show ?thesis using assms unat_add_small [of b "ucast x"] by simp
qed

lemma surrogate_pair:
  fixes c :: u32
  assumes "0x10000 \<le> c" and "c \<le> 0x10ffff"
  defines "x \<equiv> c - 0x10000"
  shows "unat (0xd800 + ucast (drop_bit 10 x) :: u16) = 0xd800 + unat x div 1024" and "unat x div 1024 < 1024"
    and "unat (0xdc00 + ucast (take_bit 10 x) :: u16) = 0xdc00 + unat x mod 1024"
    and "0x10000 + (push_bit 10 (ucast (0xd800 + ucast (drop_bit 10 x) :: u16) - 0xd800)
           OR (ucast (0xdc00 + ucast (take_bit 10 x) :: u16) - 0xdc00)) = c"
proof -
  have ux: "unat x = unat c - 0x10000" using assms(1) unat_sub_le [of "0x10000" c] by (simp add: x_def)
  have "unat c \<le> 0x10ffff" using assms(2) by (simp add: word_le_nat_alt)
  then have lt: "unat x < 1048576" using ux by simp
  then show q: "unat x div 1024 < 1024" by linarith
  have d: "unat (drop_bit 10 x) = unat x div 1024" by (simp add: unat_drop_bit_u32)
  have t: "unat (take_bit 10 x) = unat x mod 1024" by (simp add: unat_take_bit_word)
  show h: "unat (0xd800 + ucast (drop_bit 10 x) :: u16) = 0xd800 + unat x div 1024"
    using unat_surrogate [of "drop_bit 10 x" "0xd800"] d q by simp
  show l: "unat (0xdc00 + ucast (take_bit 10 x) :: u16) = 0xdc00 + unat x mod 1024"
    using unat_surrogate [of "take_bit 10 x" "0xdc00"] t by simp
  have up: "(ucast (w :: u16) :: u32) - of_nat k = v" if "unat w = k + unat v" "k < 2 ^ 16" for w k and v :: u32
  proof -
    have "unat (ucast w :: u32) = unat w" by (simp add: unat_ucast_up)
    then have "unat ((ucast w :: u32) - of_nat k) = unat v"
      using that unat_sub_le [of "of_nat k" "ucast w :: u32"] by (simp add: word_le_nat_alt unat_of_nat)
    then show ?thesis by (simp add: word_unat_eq_iff)
  qed
  have h': "(ucast (0xd800 + ucast (drop_bit 10 x) :: u16) :: u32) - 0xd800 = drop_bit 10 x"
    using up [of _ "0xd800" "drop_bit 10 x"] h d by simp
  have l': "(ucast (0xdc00 + ucast (take_bit 10 x) :: u16) :: u32) - 0xdc00 = take_bit 10 x"
    using up [of _ "0xdc00" "take_bit 10 x"] l t by simp
  have "push_bit 10 (drop_bit 10 x) OR take_bit 10 x = x"
    by (rule bit_word_eqI) (auto simp: bit_simps)
  then show "0x10000 + (push_bit 10 (ucast (0xd800 + ucast (drop_bit 10 x) :: u16) - 0xd800)
           OR (ucast (0xdc00 + ucast (take_bit 10 x) :: u16) - 0xdc00)) = c"
    unfolding h' l' by (simp add: x_def)
qed

lemma length_encode_utf8: "length (encode_utf8 c) \<le> 3 * length (utf16 c)"
  by (simp add: encode_utf8_def utf16_def)

lemma to_utf8_char:
  assumes "name_char c" and "length out + length (encode_utf8 c) \<le> 780"
  shows "to_utf8_loop (utf16 c @ rest) out = to_utf8_loop rest (out @ encode_utf8 c)"
proof (cases "c < 0x10000")
  case True
  have u: "unat (ucast c :: u16) = unat c"
    using True by (simp add: unsigned_ucast_eq take_bit_eq_mod word_less_nat_alt)
  have bk: "(ucast (ucast c :: u16) :: u32) = c" using u by (simp add: word_unat_eq_iff unat_ucast_up)
  have n: "unat c < 0xd800 \<or> 0xdfff < unat c" "unat c \<noteq> 0" "unat c \<noteq> 0xffff" and ch: "char_from_u32 c = Some c"
    using assms(1) by (auto simp: name_char_def scalar_def word_less_nat_alt word_unat_eq_iff char_from_u32_Some)
  have "(ucast c :: u16) \<noteq> 0" "(ucast c :: u16) \<noteq> 0xffff" "\<not> (0xd800 \<le> (ucast c :: u16) \<and> (ucast c :: u16) \<le> 0xdbff)"
    "\<not> (0xdc00 \<le> (ucast c :: u16) \<and> (ucast c :: u16) \<le> 0xdfff)"
    using n by (auto simp: word_unat_eq_iff word_le_nat_alt u)
  then show ?thesis using True assms(2) bk ch by (auto simp: utf16_def fat_sizes)
next
  case False
  then have c: "0x10000 \<le> c" "c \<le> 0x10ffff"
    using assms(1) by (auto simp: name_char_def scalar_def word_less_nat_alt word_le_nat_alt)
  define hi :: u16 where "hi = 0xd800 + ucast (drop_bit 10 (c - 0x10000))"
  define lo :: u16 where "lo = 0xdc00 + ucast (take_bit 10 (c - 0x10000))"
  note p = surrogate_pair [OF c, folded hi_def lo_def]
  have "unat (c - 0x10000) mod 1024 < 1024" by simp
  then have "hi \<noteq> 0" "hi \<noteq> 0xffff" "0xd800 \<le> hi" "hi \<le> 0xdbff" "0xdc00 \<le> lo" "lo \<le> 0xdfff"
    using p(1-3) by (auto simp: word_unat_eq_iff word_le_nat_alt simp del: mod_less_divisor)
  moreover have "utf16 c = [hi, lo]" using False by (simp add: utf16_def hi_def lo_def)
  moreover have "char_from_u32 c = Some c" using assms(1) by (simp add: char_from_u32_Some name_char_def)
  ultimately show ?thesis using assms(2) p(4) by (simp add: fat_sizes Let_def)
qed

lemma to_utf8_name:
  assumes "\<forall>c \<in> set cs. name_char c" and "length out + 3 * length (concat (map utf16 cs)) \<le> 780"
    and "rest = [] \<or> hd rest = 0 \<or> hd rest = 0xffff"
  shows "to_utf8_loop (concat (map utf16 cs) @ rest) out = Inr (out @ concat (map encode_utf8 cs))"
  using assms(1,2)
proof (induction cs arbitrary: out)
  case Nil
  then show ?case using assms(3) by (cases rest) auto
next
  case (Cons c cs)
  have le: "length out + length (encode_utf8 c) \<le> 780"
      "length (out @ encode_utf8 c) + 3 * length (concat (map utf16 cs)) \<le> 780"
    using Cons.prems(2) length_encode_utf8 [of c] by simp_all
  have "to_utf8_loop (utf16 c @ concat (map utf16 cs) @ rest) out
      = to_utf8_loop (concat (map utf16 cs) @ rest) (out @ encode_utf8 c)"
    using to_utf8_char [of c out] le(1) Cons.prems(1) by simp
  also have "\<dots> = Inr ((out @ encode_utf8 c) @ concat (map encode_utf8 cs))"
    using Cons.prems(1) le(2) by (intro Cons.IH) simp_all
  finally show ?case by simp
qed

section \<open>Long-name entries\<close>

text \<open>A long-name entry with 13 code units, and the entries of a name in the order they are stored.\<close>

definition lfn_bytes :: "u8 \<Rightarrow> u8 \<Rightarrow> u16 list \<Rightarrow> u8 list" where
  "lfn_bytes ord_byte chk us = [ord_byte] @ concat (map (to_le_bytes 2) (take 5 us)) @ [0x0f, 0, chk]
     @ concat (map (to_le_bytes 2) (take 6 (drop 5 us))) @ [0, 0] @ concat (map (to_le_bytes 2) (drop 11 us))"

definition ordinal_byte :: "nat \<Rightarrow> nat \<Rightarrow> u8" where
  "ordinal_byte k j = (if j = k then of_nat j OR 0x40 else of_nat j)"

text \<open>The entries of the chunks \<open>j - 1\<close> down to 0.\<close>

fun lfn_entries_from :: "u16 list list \<Rightarrow> u8 \<Rightarrow> nat \<Rightarrow> u8 list list" where
  "lfn_entries_from ks chk 0 = []"
| "lfn_entries_from ks chk (Suc j) =
     lfn_bytes (ordinal_byte (length ks) (Suc j)) chk (ks ! j) # lfn_entries_from ks chk j"

definition lfn_entries :: "u16 list list \<Rightarrow> u8 \<Rightarrow> u8 list list" where
  "lfn_entries ks chk = lfn_entries_from ks chk (length ks)"

lemma le2_pair: "to_le_bytes 2 (w :: u16) = [of_nat (unat w mod 256), of_nat (unat w div 256 mod 256)]"
  by (simp add: to_le_bytes_def numeral_2_eq_2)

lemma from_le2: "from_le_bytes [of_nat (unat w mod 256), of_nat (unat w div 256 mod 256)] = (w :: u16)"
  using from_le_to_le [of 2 w] by (simp add: le2_pair)

lemma list13: "length us = 13 \<Longrightarrow> \<exists>a b c d e f g h i j k l m. us = [a, b, c, d, e, f, g, h, i, j, k, l, m]"
  by (simp add: numeral_eq_Suc length_Suc_conv) blast

lemma lfn_bytes_fields:
  assumes "length us = 13"
  shows "length (lfn_bytes o1 chk us) = 32" and "lfn_bytes o1 chk us ! 0 = o1" and "lfn_bytes o1 chk us ! 11 = 0x0f"
    and "lfn_bytes o1 chk us ! 13 = chk" and "copy_lfn_code_units (lfn_bytes o1 chk us) = us"
proof -
  obtain a b c d e f g h i j k l m where us: "us = [a, b, c, d, e, f, g, h, i, j, k, l, m]"
    using list13 [OF assms] by blast
  show "length (lfn_bytes o1 chk us) = 32" "lfn_bytes o1 chk us ! 0 = o1" "lfn_bytes o1 chk us ! 11 = 0x0f"
    "lfn_bytes o1 chk us ! 13 = chk" "copy_lfn_code_units (lfn_bytes o1 chk us) = us"
    by (simp_all add: us lfn_bytes_def le2_pair copy_lfn_code_units_def from_le2)
qed

lemma ordinal_bytes:
  assumes "0 < k" and "k \<le> 20"
  shows "(of_nat k OR 0x40) AND 0x1f = (of_nat k :: u8)" "(of_nat k OR 0x40) AND 0x40 \<noteq> (0 :: u8)"
    "of_nat k AND 0x1f = (of_nat k :: u8)" "of_nat k AND 0x40 = (0 :: u8)" "unat (of_nat k :: u8) = k"
    "(of_nat k :: u8) - 1 = of_nat (k - 1)" "saturating_sub (of_nat k) 1 = (of_nat (k - 1) :: u8)" "(of_nat k :: u8) \<noteq> 0"
proof -
  have "list_all (\<lambda>k. (of_nat k OR 0x40) AND 0x1f = (of_nat k :: u8) \<and> (of_nat k OR 0x40) AND 0x40 \<noteq> (0 :: u8)
    \<and> of_nat k AND 0x1f = (of_nat k :: u8) \<and> of_nat k AND 0x40 = (0 :: u8)) [1..<21]"
    by code_simp
  then have "k \<in> set [1..<21] \<Longrightarrow> (of_nat k OR 0x40) AND 0x1f = (of_nat k :: u8) \<and> (of_nat k OR 0x40) AND 0x40 \<noteq> (0 :: u8)
    \<and> of_nat k AND 0x1f = (of_nat k :: u8) \<and> of_nat k AND 0x40 = (0 :: u8)"
    unfolding list_all_iff by blast
  then show "(of_nat k OR 0x40) AND 0x1f = (of_nat k :: u8)" "(of_nat k OR 0x40) AND 0x40 \<noteq> (0 :: u8)"
    "of_nat k AND 0x1f = (of_nat k :: u8)" "of_nat k AND 0x40 = (0 :: u8)"
    using assms by auto
  show u: "unat (of_nat k :: u8) = k" using assms by (simp add: unat_of_nat)
  show d: "(of_nat k :: u8) - 1 = of_nat (k - 1)" using assms by (simp add: of_nat_diff)
  show "saturating_sub (of_nat k) 1 = (of_nat (k - 1) :: u8)"
    using d u assms by (simp add: saturating_sub_def word_le_nat_alt)
  show "(of_nat k :: u8) \<noteq> 0" using u assms by (metis unat_0 less_irrefl)
qed

text \<open>The assembly state while the chunks \<open>j - 1\<close> down to 0 are still to come.\<close>

definition assembling :: "u16 list list \<Rightarrow> u8 \<Rightarrow> nat \<Rightarrow> LongNameState" where
  "assembling ks chk j =
     \<lparr>code_units = replicate (j * 13) 0xffff @ concat (drop j ks) @ replicate (260 - length ks * 13) 0xffff,
      max_ordinal = of_nat (length ks), next_ordinal = of_nat j, ordinal_mask = push_bit j (mask (length ks - j)),
      checksum = chk, active = True\<rparr>"

definition chunks_ok :: "u16 list list \<Rightarrow> bool" where
  "chunks_ok ks \<longleftrightarrow> ks \<noteq> [] \<and> length ks \<le> 20 \<and> (\<forall>us \<in> set ks. length us = 13)"

lemma length_concat_13: "\<forall>us \<in> set ks. length us = 13 \<Longrightarrow> length (concat ks) = length ks * 13"
  by (induction ks) auto

lemma mask_step:
  assumes "j < k" and "k \<le> 20"
  shows "push_bit (Suc j) (mask (k - Suc j)) OR push_bit j 1 = (push_bit j (mask (k - j)) :: u32)"
proof (rule bit_word_eqI)
  fix n
  assume "n < LENGTH(32)"
  then show "bit (push_bit (Suc j) (mask (k - Suc j)) OR push_bit j 1 :: u32) n = bit (push_bit j (mask (k - j)) :: u32) n"
    using assms by (auto simp: bit_simps simp del: push_bit_Suc)
qed

text \<open>The general step, on a state that expects the ordinal of the entry.\<close>

lemma push_expected:
  assumes ok: "chunks_ok ks" and j: "j < length ks"
    and b: "ord_byte AND 0x1f = of_nat (Suc j)" "ord_byte AND 0x40 = 0 \<or> Suc j = length ks"
    and st: "ord_byte AND 0x40 = 0 \<Longrightarrow> st = assembling ks chk (Suc j)"
  shows "lfn_push st (lfn_bytes ord_byte chk (ks ! j)) = (Inr (), assembling ks chk j)"
proof -
  have len: "length (ks ! j) = 13" "length ks \<le> 20" "\<forall>us \<in> set ks. length us = 13"
    using ok j by (auto simp: chunks_ok_def)
  note f = lfn_bytes_fields [OF len(1), of ord_byte chk]
  have o: "unat (of_nat (Suc j) :: u8) = Suc j" "(of_nat (Suc j) :: u8) - 1 = of_nat j"
      "saturating_sub (of_nat (Suc j)) 1 = (of_nat j :: u8)" "(of_nat (Suc j) :: u8) \<noteq> 0"
    using ordinal_bytes [of "Suc j"] j len(2) by simp_all
  have uj: "unat (of_nat j :: u8) = j" using j len(2) by (simp add: unat_of_nat)
  have top: "(of_nat (Suc j) :: u8) \<le> of_nat (length ks)"
  proof -
    have "0 < length ks" using j by linarith
    then show ?thesis using o(1) ordinal_bytes(5) [of "length ks"] j len(2) by (auto simp: word_le_nat_alt)
  qed
  define st' where "st' = (if ord_byte AND 0x40 \<noteq> 0
    then (lfn_clear st)\<lparr>active := True, max_ordinal := of_nat (Suc j), next_ordinal := of_nat (Suc j), checksum := chk\<rparr> else st)"
  have st': "st' = assembling ks chk (Suc j)"
  proof (cases "ord_byte AND 0x40 = 0")
    case True
    then show ?thesis using st by (simp add: st'_def)
  next
    case False
    then have k: "length ks = Suc j" using b(2) by simp
    have "replicate 260 (0xffff :: u16) = replicate (Suc j * 13) 0xffff @ replicate (260 - Suc j * 13) 0xffff"
      using k len(2) by (simp add: replicate_add [symmetric])
    then show ?thesis using False k by (simp add: st'_def assembling_def lfn_clear_def fat_sizes)
  qed
  have cu: "code_units (assembling ks chk (Suc j))
      = replicate (j * 13) 0xffff @ replicate 13 0xffff @ concat (drop (Suc j) ks) @ replicate (260 - length ks * 13) 0xffff"
    by (simp add: assembling_def replicate_add add.commute [of 13])
  have "length (concat (drop (Suc j) ks)) = (length ks - Suc j) * 13"
    using len(3) length_concat_13 [of "drop (Suc j) ks"] by (auto dest: in_set_dropD)
  then have long: "length (code_units (assembling ks chk (Suc j))) = 260"
    unfolding cu using j len(2) by simp
  have upd: "take (j * 13) (code_units (assembling ks chk (Suc j))) @ ks ! j @ drop (j * 13 + 13) (code_units (assembling ks chk (Suc j)))
      = code_units (assembling ks chk j)"
    unfolding cu using Cons_nth_drop_Suc [OF j, symmetric] by (simp add: assembling_def)
  have fields: "active (assembling ks chk (Suc j))" "max_ordinal (assembling ks chk (Suc j)) = of_nat (length ks)"
      "checksum (assembling ks chk (Suc j)) = chk" "next_ordinal (assembling ks chk (Suc j)) = of_nat (Suc j)"
      "ordinal_mask (assembling ks chk (Suc j)) = push_bit (Suc j) (mask (length ks - Suc j))"
    by (simp_all only: assembling_def LongNameState.simps)
  have step: "lfn_push st (lfn_bytes ord_byte chk (ks ! j)) = (Inr (), st'\<lparr>
      code_units := take (j * 13) (code_units st') @ ks ! j @ drop (j * 13 + 13) (code_units st'),
      ordinal_mask := ordinal_mask st' OR push_bit j 1, next_ordinal := of_nat j\<rparr>)"
  proof -
    have g: "\<not> (\<not> active st' \<or> max_ordinal st' < of_nat (Suc j) \<or> chk \<noteq> checksum st')"
        "next_ordinal st' = of_nat (Suc j)" "\<not> length (code_units st') < j * 13 + 13"
      using fields top long j len(2) by (simp_all only: st' not_less) simp_all
    show ?thesis
      unfolding lfn_push_def Let_def f b(1) st'_def [symmetric]
      using g o uj by (simp del: of_nat_Suc)
  qed
  show ?thesis
    unfolding step st' upd fields mask_step [OF j len(2)]
    by (simp add: assembling_def)
qed

lemma push_first:
  assumes "chunks_ok ks"
  shows "snd (lfn_push st (lfn_bytes (ordinal_byte (length ks) (length ks)) chk (ks ! (length ks - 1)))) = assembling ks chk (length ks - 1)"
proof -
  obtain j where j: "length ks = Suc j" "Suc j \<le> 20" using assms by (cases "length ks") (auto simp: chunks_ok_def)
  have "lfn_push st (lfn_bytes (ordinal_byte (Suc j) (Suc j)) chk (ks ! j)) = (Inr (), assembling ks chk j)"
    using ordinal_bytes(1,2) [of "Suc j"] j assms
    by (intro push_expected) (simp_all add: ordinal_byte_def del: of_nat_Suc)
  then show ?thesis using j by simp
qed

lemma push_rest:
  assumes "chunks_ok ks" and "j < length ks"
  shows "fold (\<lambda>e st. snd (lfn_push st e)) (lfn_entries_from ks chk j) (assembling ks chk j) = assembling ks chk 0"
  using assms(2)
proof (induction j)
  case (Suc j)
  have b: "Suc j \<le> 20" "Suc j \<noteq> length ks" "j < length ks" using assms(1) Suc.prems by (auto simp: chunks_ok_def)
  have "lfn_push (assembling ks chk (Suc j)) (lfn_bytes (ordinal_byte (length ks) (Suc j)) chk (ks ! j)) = (Inr (), assembling ks chk j)"
    using ordinal_bytes(3,4) [of "Suc j"] b assms(1)
    by (intro push_expected) (simp_all add: ordinal_byte_def del: of_nat_Suc)
  then show ?case using Suc.IH b(3) by simp
qed simp

lemma push_all:
  assumes "chunks_ok ks"
  shows "fold (\<lambda>e st. snd (lfn_push st e)) (lfn_entries ks chk) st = assembling ks chk 0"
proof -
  obtain j where j: "length ks = Suc j" using assms by (cases "length ks") (auto simp: chunks_ok_def)
  show ?thesis using push_first [OF assms, of st chk] push_rest [OF assms, of j chk] j
    by (simp add: lfn_entries_def)
qed

lemma matches_assembled:
  assumes "chunks_ok ks"
  shows "matches_entry (assembling ks chk 0) e \<longleftrightarrow> chk = short_name_checksum (take 11 e)"
proof -
  have k: "0 < length ks" "length ks \<le> 20" using assms by (auto simp: chunks_ok_def)
  note u = ordinal_bytes(5,8) [OF k]
  have "\<not> 20 < (of_nat (length ks) :: u8)" using u k by (simp add: word_less_nat_alt)
  moreover have "push_bit (length ks) 1 - 1 = (mask (length ks) :: u32)" by (simp add: mask_eq_exp_minus_1 push_bit_eq_mult)
  ultimately show ?thesis using u by (simp add: matches_entry_def assembling_def)
qed

section \<open>Encoding a name\<close>

text \<open>Names are stored in groups of 13 UTF-16 units; a partial last group is ended by a zero and filled with
  \<open>0xffff\<close>.\<close>

fun chunks13 :: "u16 list \<Rightarrow> u16 list list" where
  "chunks13 us = (if us = [] then [] else take 13 us # chunks13 (drop 13 us))"

declare chunks13.simps [simp del]

definition padded_name :: "u32 list \<Rightarrow> u16 list" where
  "padded_name cs =
     (let us = concat (map utf16 cs); r = length us mod 13
      in if r = 0 then us else us @ 0 # replicate (12 - r) 0xffff)"

definition encode_name :: "u32 list \<Rightarrow> u8 \<Rightarrow> u8 list list" where
  "encode_name cs chk = lfn_entries (chunks13 (padded_name cs)) chk"

lemma chunks13_props:
  assumes "length us = 13 * k"
  shows "length (chunks13 us) = k" "\<forall>ys \<in> set (chunks13 us). length ys = 13" "concat (chunks13 us) = us"
  using assms
proof (induction k arbitrary: us)
  case (Suc k)
  { case 1 show ?case using Suc.IH(1) [of "drop 13 us"] 1 by (subst chunks13.simps) auto
  next
    case 2 show ?case using Suc.IH(2) [of "drop 13 us"] 2 by (subst chunks13.simps) auto
  next
    case 3 show ?case using Suc.IH(3) [of "drop 13 us"] 3 by (subst chunks13.simps) auto
  }
qed (auto simp: chunks13.simps)

lemma length_padded_name:
  fixes cs :: "u32 list"
  defines "n \<equiv> length (concat (map utf16 cs))"
  shows "length (padded_name cs) = (if n mod 13 = 0 then n else 13 * Suc (n div 13))"
proof -
  have "length (padded_name cs) = (if n mod 13 = 0 then n else n + 1 + (12 - n mod 13))"
    unfolding padded_name_def Let_def n_def [symmetric] by (simp add: n_def [symmetric])
  moreover have "n + 1 + (12 - n mod 13) = 13 * Suc (n div 13)"
  proof -
    have "n mod 13 < 13" by simp
    then show ?thesis using mult_div_mod_eq [of 13 n] unfolding mult_Suc_right by linarith
  qed
  ultimately show ?thesis by simp
qed

lemma length_padded: "\<exists>k. length (padded_name cs) = 13 * k"
  unfolding length_padded_name by (auto simp: mod_eq_0_iff_dvd simp del: mult_Suc_right)

lemma utf16_Nil: "utf16 c \<noteq> []"
  by (simp add: utf16_def)

lemma encode_name_chunks:
  assumes "cs \<noteq> []" and "length (concat (map utf16 cs)) \<le> 260"
  shows "chunks_ok (chunks13 (padded_name cs))" and "concat (chunks13 (padded_name cs)) = padded_name cs"
    and "length (padded_name cs) \<le> 260"
proof -
  obtain k where k: "length (padded_name cs) = 13 * k" using length_padded by blast
  have ne: "concat (map utf16 cs) \<noteq> []" using assms(1) utf16_Nil by (cases cs) auto
  define n where "n = length (concat (map utf16 cs))"
  have n: "n \<le> 260" "0 < n" using assms(2) ne by (simp_all add: n_def)
  have "13 * Suc (n div 13) \<le> 260" if "n mod 13 \<noteq> 0"
  proof -
    have "n div 13 < 20" using that n(1) mult_div_mod_eq [of 13 n] by linarith
    then show ?thesis by simp
  qed
  then have b: "length (padded_name cs) \<le> 260" "0 < length (padded_name cs)"
    using n unfolding length_padded_name n_def [symmetric] by auto
  show "length (padded_name cs) \<le> 260" by (rule b)
  show "concat (chunks13 (padded_name cs)) = padded_name cs" by (rule chunks13_props(3) [OF k])
  show "chunks_ok (chunks13 (padded_name cs))"
    using chunks13_props(1,2) [OF k] b k by (auto simp: chunks_ok_def)
qed

text \<open>Decoding the assembled units gives the name back.\<close>

lemma to_utf8_assembled:
  assumes "cs \<noteq> []" and "length (concat (map utf16 cs)) \<le> 260" and "\<forall>c \<in> set cs. name_char c"
  shows "to_utf8 (assembling (chunks13 (padded_name cs)) chk 0) = Inr (concat (map encode_utf8 cs))"
proof -
  note k = encode_name_chunks [OF assms(1,2)]
  define pad where "pad = replicate (260 - length (chunks13 (padded_name cs)) * 13) (0xffff :: u16)"
  have cu: "code_units (assembling (chunks13 (padded_name cs)) chk 0) = padded_name cs @ pad"
    using k(2) by (simp add: assembling_def pad_def)
  obtain rest where rest: "padded_name cs @ pad = concat (map utf16 cs) @ rest" "rest = [] \<or> hd rest = 0 \<or> hd rest = 0xffff"
  proof (cases "length (concat (map utf16 cs)) mod 13 = 0")
    case True
    then have "padded_name cs = concat (map utf16 cs)" by (simp add: padded_name_def Let_def)
    moreover have "pad = [] \<or> hd pad = 0xffff" by (cases "260 - length (chunks13 (padded_name cs)) * 13") (simp_all add: pad_def)
    ultimately show ?thesis using that by auto
  next
    case False
    then show ?thesis using that [of "0 # replicate (12 - length (concat (map utf16 cs)) mod 13) 0xffff @ pad"]
      unfolding padded_name_def Let_def by simp
  qed
  have "to_utf8_loop (concat (map utf16 cs) @ rest) [] = Inr ([] @ concat (map encode_utf8 cs))"
    using assms(2) by (intro to_utf8_name [OF assms(3) _ rest(2)]) simp
  moreover have "from_utf8 (concat (map encode_utf8 cs)) = Some (concat (map encode_utf8 cs))"
    using assms(3) utf8_valid_scalars [of cs] by (simp add: from_utf8_def name_char_def)
  ultimately show ?thesis by (simp add: to_utf8_def cu rest(1) ok_or_def)
qed

section \<open>Scanning a sector\<close>

lemma length_lfn_entries:
  assumes "chunks_ok ks" and "j \<le> length ks"
  shows "\<forall>e \<in> set (lfn_entries_from ks chk j). length e = 32 \<and> e ! 0 \<noteq> 0 \<and> e ! 0 \<noteq> 0xe5 \<and> e ! 11 = 0x0f"
  using assms(2)
proof (induction j)
  case (Suc j)
  have j: "Suc j \<le> 20" "length (ks ! j) = 13" using assms(1) Suc.prems by (auto simp: chunks_ok_def)
  note f = lfn_bytes_fields [OF j(2), of "ordinal_byte (length ks) (Suc j)" chk]
  have "list_all (\<lambda>k. of_nat k OR 0x40 \<noteq> (0 :: u8) \<and> of_nat k OR 0x40 \<noteq> (0xe5 :: u8) \<and> of_nat k \<noteq> (0 :: u8)
      \<and> of_nat k \<noteq> (0xe5 :: u8)) [1..<21]" by code_simp
  then have "ordinal_byte (length ks) (Suc j) \<noteq> 0 \<and> ordinal_byte (length ks) (Suc j) \<noteq> 0xe5"
    using j(1) unfolding list_all_iff ordinal_byte_def by (auto simp del: of_nat_Suc)
  then show ?case using f Suc by simp
qed simp

lemma sector_entry_at:
  assumes "drop offset sector = e @ rest" and "length e = 32"
  shows "sector_entry sector offset = Some e" and "offset < length sector" and "drop (offset + 32) sector = rest"
proof -
  have l: "length (drop offset sector) = 32 + length rest" using assms by simp
  then show "offset < length sector" by simp
  have "offset + 32 \<le> length sector" using l unfolding length_drop by linarith
  then show "sector_entry sector offset = Some e"
    using assms by (simp add: sector_entry_def slice_get_def fat_sizes)
  show "drop (offset + 32) sector = rest"
    using assms by (simp only: add.commute [of offset] drop_drop [symmetric]) simp
qed

text \<open>Long-name entries are pushed one after the other.\<close>

lemma scan_pushes:
  assumes "\<forall>e \<in> set es. length e = 32 \<and> e ! 0 \<noteq> 0 \<and> e ! 0 \<noteq> 0xe5 \<and> e ! 11 = 0x0f"
    and "drop offset sector = concat es @ rest"
  shows "scan_entries sector component offset st
      = scan_entries sector component (offset + 32 * length es) (fold (\<lambda>e st. snd (lfn_push st e)) es st)
    \<and> drop (offset + 32 * length es) sector = rest"
  using assms
proof (induction es arbitrary: offset st)
  case (Cons e es)
  have d: "drop offset sector = e @ concat es @ rest" using Cons.prems(2) by simp
  have e: "length e = 32" "e ! 0 \<noteq> 0" "e ! 0 \<noteq> 0xe5" "e ! 11 = 0x0f" using Cons.prems(1) by auto
  note s = sector_entry_at [OF d e(1)]
  have "scan_entries sector component offset st = scan_entries sector component (offset + 32) (snd (lfn_push st e))"
    using s(1,2) e by (subst scan_entries.simps) (simp add: FAT_ATTRIBUTE_LONG_NAME_def fat_sizes)
  then show ?case using Cons.IH [of "offset + 32" "snd (lfn_push st e)"] Cons.prems(1) s(3) by (simp add: algebra_simps)
qed simp

lemma parse_directory_entry_32:
  assumes "length e = 32"
  shows "parse_directory_entry e = Inr \<lparr>entry_attributes = e ! 11,
    first_cluster = push_bit 16 (ucast (from_le_bytes (take 2 (drop 20 e)) :: u16)) OR ucast (from_le_bytes (take 2 (drop 26 e)) :: u16),
    file_size = from_le_bytes (drop 28 e)\<rparr>"
  using assms by (simp add: parse_directory_entry_def fat_read_u16_def fat_read_u32_def slice_get_def ok_or_def)

lemma lfn_clear_new: "lfn_clear st = LongNameState_new"
  by (simp add: lfn_clear_def LongNameState_new_def)

text \<open>The short entry \<open>e\<close> that ends the sequence, with its decoded cluster and size.\<close>

definition decoded_entry :: "u8 list \<Rightarrow> FatDirectoryEntry" where
  "decoded_entry e = \<lparr>entry_attributes = e ! 11,
    first_cluster = push_bit 16 (ucast (from_le_bytes (take 2 (drop 20 e)) :: u16)) OR ucast (from_le_bytes (take 2 (drop 26 e)) :: u16),
    file_size = from_le_bytes (drop 28 e)\<rparr>"

text \<open>
  C23: Long file names survive the trip through the directory. Wherever a directory sector holds the VFAT entries
  that encode a name (1 to 260 UTF-16 units of any scalar values but the two fillers) with the checksum of the
  short entry that follows them, and whatever long-name fragment was pending before, the scan compares exactly the
  UTF-8 form of that name, ignoring ASCII case, with the wanted component: on a match it returns the short entry's
  cluster, size and attributes, otherwise it goes on behind the short entry; both leave the assembly state empty.
\<close>

theorem long_name_roundtrip:
  assumes name: "cs \<noteq> []" "length (concat (map utf16 cs)) \<le> 260" "\<forall>c \<in> set cs. name_char c"
    and e: "length e = 32" "e ! 0 \<noteq> 0" "e ! 0 \<noteq> 0xe5" "e ! 11 AND 0x08 = 0"
    and d: "drop offset sector = concat (encode_name cs (short_name_checksum (take 11 e))) @ e @ rest"
  shows "scan_entries sector component offset st =
    (if eq_ignore_ascii_case (concat (map encode_utf8 cs)) component
     then (Inr (Found (decoded_entry e)), LongNameState_new)
     else scan_entries sector component (length sector - length rest) LongNameState_new)"
proof -
  define chk where "chk = short_name_checksum (take 11 e)"
  define ks where "ks = chunks13 (padded_name cs)"
  have ks: "chunks_ok ks" using encode_name_chunks(1) [OF name(1,2)] by (simp add: ks_def)
  define n where "n = offset + 32 * length (lfn_entries ks chk)"
  have es: "\<forall>e \<in> set (lfn_entries ks chk). length e = 32 \<and> e ! 0 \<noteq> 0 \<and> e ! 0 \<noteq> 0xe5 \<and> e ! 11 = 0x0f"
    using length_lfn_entries [OF ks, of "length ks" chk] by (simp add: lfn_entries_def)
  have p: "scan_entries sector component offset st = scan_entries sector component n (assembling ks chk 0)"
      "drop n sector = e @ rest"
    using scan_pushes [OF es, of offset sector "e @ rest" component st] d push_all [OF ks, of chk st]
    by (simp_all add: n_def encode_name_def ks_def chk_def)
  note s = sector_entry_at [OF p(2) e(1)]
  have attr: "e ! 11 \<noteq> 0x0f"
  proof
    assume "e ! 11 = 0x0f"
    moreover have "(0x0f :: u8) AND 0x08 \<noteq> 0" by simp
    ultimately show False using e(4) by simp
  qed
  have end_: "n + 32 = length sector - length rest"
    using arg_cong [OF s(3), of length] arg_cong [OF p(2), of length] e(1) by simp
  have m: "matches_entry (assembling ks chk 0) e" using matches_assembled [OF ks] by (simp add: chk_def)
  have u: "to_utf8 (assembling ks chk 0) = Inr (concat (map encode_utf8 cs))"
    using to_utf8_assembled [OF name] by (simp add: ks_def)
  show ?thesis unfolding p(1)
    using s(1,2) e attr m u parse_directory_entry_32 [OF e(1)]
    by (subst scan_entries.simps)
      (simp add: FAT_ATTRIBUTE_LONG_NAME_def FAT_ATTRIBUTE_VOLUME_ID_def fat_sizes lfn_clear_new end_ [symmetric] decoded_entry_def)
qed

text \<open>The name \<open>a.efi\<close> on the short entry \<open>A~1.EFI\<close>.\<close>

definition sample_entry :: "u8 list" where
  "sample_entry = [0x41, 0x7e, 0x31, 0x20, 0x20, 0x20, 0x20, 0x20, 0x45, 0x46, 0x49, 0x20] @ replicate 8 0 @ [0, 0] @ replicate 4 0
     @ [3, 0, 0x10, 0, 0, 0]"

definition sample_name :: "u32 list" where
  "sample_name = [0x61, 0x2e, 0x65, 0x66, 0x69]"

theorem long_name_roundtrip_witness:
  "fst (scan_entries (concat (encode_name sample_name (short_name_checksum (take 11 sample_entry))) @ sample_entry)
      [0x41, 0x2e, 0x45, 0x46, 0x49] 0 LongNameState_new)
    = Inr (Found \<lparr>entry_attributes = 0x20, first_cluster = 3, file_size = 0x10\<rparr>)"
proof -
  have "sample_name \<noteq> []" "length (concat (map utf16 sample_name)) \<le> 260" "\<forall>c \<in> set sample_name. name_char c"
    "length sample_entry = 32" "sample_entry ! 0 \<noteq> 0" "sample_entry ! 0 \<noteq> 0xe5" "sample_entry ! 11 AND 0x08 = 0"
    by (simp_all add: sample_name_def sample_entry_def utf16_def name_char_def scalar_def)
  note t = long_name_roundtrip [OF this, where offset = 0 and rest = "[]" and component = "[0x41, 0x2e, 0x45, 0x46, 0x49]" and st = LongNameState_new]
  have n: "eq_ignore_ascii_case (concat (map encode_utf8 sample_name)) [0x41, 0x2e, 0x45, 0x46, 0x49]" by code_simp
  have d: "decoded_entry sample_entry = \<lparr>entry_attributes = 0x20, first_cluster = 3, file_size = 0x10\<rparr>" by code_simp
  show ?thesis by (subst t) (simp_all add: n d)
qed

section \<open>Short names\<close>

text \<open>What the 8.3 decoder gives: an entry without extension is always decoded as \<open>-\<close>, whatever its base name is.\<close>

theorem decode_short_name_no_extension:
  assumes "length entry = 32" and "take 3 (drop 8 entry) = [0x20, 0x20, 0x20]"
  shows "decode_short_name entry = [0x2d]"
  using assms by (simp add: decode_short_name_def Let_def)

text \<open>With an extension, the parts before the padding are joined with a dot.\<close>

lemma decode_short_name_extension:
  assumes "list_all (\<lambda>b. b \<noteq> 0x20) stem" "list_all (\<lambda>b. b \<noteq> 0x20) ext" "ext \<noteq> []" "length stem \<le> 8" "length ext \<le> 3"
    and "entry = stem @ replicate (8 - length stem) 0x20 @ ext @ replicate (3 - length ext) 0x20 @ rest" "hd stem \<noteq> 0x05"
    "list_all (\<lambda>b. b \<noteq> 0x05) (tl stem)"
  shows "decode_short_name entry = stem @ [0x2e] @ ext"
proof -
  have tw: "takeWhile (\<lambda>b. b \<noteq> 0x20) (xs @ replicate n 0x20) = xs" if "list_all (\<lambda>b. b \<noteq> 0x20) xs" for n and xs :: "u8 list"
    using that by (induction xs) (auto simp: takeWhile_replicate)
  have t8: "take 8 entry = stem @ replicate (8 - length stem) 0x20" using assms(4,6) by simp
  have t3: "take 3 (drop 8 entry) = ext @ replicate (3 - length ext) 0x20" using assms(4,5,6) by simp
  have "map (\<lambda>b. if b = 0x05 then 0xe5 else b) stem = stem"
    using assms(7,8) by (cases stem) (auto simp: list_all_iff intro: map_idI)
  moreover have "list_ex (\<lambda>b. b \<noteq> 0x20) (ext @ replicate (3 - length ext) 0x20)" using assms(2,3) by (cases ext) auto
  ultimately show ?thesis unfolding decode_short_name_def t8 t3 tw [OF assms(1)] tw [OF assms(2)] by simp
qed

end
