(* ===== verification/Ext4.thy ===== *)
theory Ext4
  imports Filesystem
begin

unbundle bit_operations_syntax

text \<open>
  The read-only ext4 reader (\<open>src/ext4.rs\<close>).

  A mounted volume is a record with the fields of \<open>Ext4Volume\<close>; the device is one of them. Block numbers are
  words, so the unchecked sums and products of the source wrap. Scratch buffers are only written and returned, so
  the decoders return the bytes written; an array of extents with a count is the list of the extents collected.

  The recursion over an extent tree is not bounded by the source: \<open>fuel\<close> is the nesting it may use, and \<open>None\<close> a run
  that needs more (\<open>Ext4Spec\<close> shows six to be enough for every tree whose depth field decreases, and that a block
  that refers to itself exhausts every fuel). Path resolution is a total function: each symbolic link raises the
  depth, which is bounded, and every other step shortens the path. The directory walk is bounded by the length of
  the path it builds.
\<close>

section \<open>Constants and data\<close>

definition EXT4_SUPER_MAGIC :: u16 where "EXT4_SUPER_MAGIC = 0xef53"
definition EXT4_MAX_BLOCK_SIZE :: nat where "EXT4_MAX_BLOCK_SIZE = 4096"
definition EXT4_MAX_INODE_SIZE :: nat where "EXT4_MAX_INODE_SIZE = 512"
definition EXT4_PATH_BYTES :: nat where "EXT4_PATH_BYTES = 1024"
definition EXT4_ROOT_INODE :: u32 where "EXT4_ROOT_INODE = 2"
definition EXT4_MAX_SYMLINK_DEPTH :: nat where "EXT4_MAX_SYMLINK_DEPTH = 8"
definition EXT4_MAX_EXTENTS :: nat where "EXT4_MAX_EXTENTS = 128"
definition EXT4_MAX_EXTENT_DEPTH :: u16 where "EXT4_MAX_EXTENT_DEPTH = 5"
definition EXT4_EXTENT_MAGIC :: u16 where "EXT4_EXTENT_MAGIC = 0xf30a"
definition EXT4_FEATURE_INCOMPAT_FILETYPE :: u32 where "EXT4_FEATURE_INCOMPAT_FILETYPE = 0x0002"
definition EXT4_FEATURE_INCOMPAT_RECOVER :: u32 where "EXT4_FEATURE_INCOMPAT_RECOVER = 0x0004"
definition EXT4_FEATURE_INCOMPAT_EXTENTS :: u32 where "EXT4_FEATURE_INCOMPAT_EXTENTS = 0x0040"
definition EXT4_FEATURE_INCOMPAT_64BIT :: u32 where "EXT4_FEATURE_INCOMPAT_64BIT = 0x0080"
definition EXT4_FEATURE_INCOMPAT_FLEX_BG :: u32 where "EXT4_FEATURE_INCOMPAT_FLEX_BG = 0x0200"

definition EXT4_SUPPORTED_INCOMPAT_FEATURES :: u32 where
  "EXT4_SUPPORTED_INCOMPAT_FEATURES = EXT4_FEATURE_INCOMPAT_FILETYPE OR EXT4_FEATURE_INCOMPAT_RECOVER
     OR EXT4_FEATURE_INCOMPAT_EXTENTS OR EXT4_FEATURE_INCOMPAT_64BIT OR EXT4_FEATURE_INCOMPAT_FLEX_BG"

definition EXT4_INODE_FLAG_EXTENTS :: u32 where "EXT4_INODE_FLAG_EXTENTS = 0x00080000"
definition EXT4_MODE_REGULAR :: u16 where "EXT4_MODE_REGULAR = 0x8000"
definition EXT4_MODE_DIRECTORY :: u16 where "EXT4_MODE_DIRECTORY = 0x4000"
definition EXT4_MODE_SYMLINK :: u16 where "EXT4_MODE_SYMLINK = 0xa000"
definition EXT4_MODE_TYPE_MASK :: u16 where "EXT4_MODE_TYPE_MASK = 0xf000"

lemmas ext4_sizes = EXT4_MAX_BLOCK_SIZE_def EXT4_MAX_INODE_SIZE_def EXT4_PATH_BYTES_def EXT4_MAX_SYMLINK_DEPTH_def
  EXT4_MAX_EXTENTS_def EXT4_MAX_EXTENT_DEPTH_def EXT4_ROOT_INODE_def EXT4_EXTENT_MAGIC_def EXT4_SUPER_MAGIC_def

lemmas ext4_modes = EXT4_MODE_REGULAR_def EXT4_MODE_DIRECTORY_def EXT4_MODE_SYMLINK_def EXT4_MODE_TYPE_MASK_def
  EXT4_INODE_FLAG_EXTENTS_def

datatype Ext4Error =
    Ext4Device VirtioError | Ext4Memory MemoryError | InvalidSuperblock | UnsupportedBlockSize u32
  | UnsupportedInodeSize u16 | UnsupportedIncompatibleFeatures u32 | UnsupportedMapping | Ext4InvalidPath
  | Ext4NotFound | Ext4NotDirectory | Ext4IsDirectory | Ext4BufferTooSmall | InvalidInode u32 | InvalidExtentTree
  | InvalidDirectoryEntry | Ext4NameTooLong | SymlinkLoop | UnsupportedFileType u16

record Ext4Volume =
  ext4_device :: BlockDevice
  ext4_start_lba :: u64
  block_size :: nat
  sectors_per_block :: u64
  inodes_per_group :: u32
  inode_size :: u16
  group_descriptor_size :: u16
  group_descriptor_table_block :: u64

record Ext4Inode =
  inode_number :: u32
  inode_mode :: u16
  inode_size_bytes :: u64
  inode_flags :: u32
  block_data :: "u8 list"

record Ext4Extent =
  logical_block :: u32
  block_count :: u16
  physical_block :: u64

record Ext4File =
  ext4_volume :: Ext4Volume
  ext4_inode :: Ext4Inode

primrec ext4_from_device :: "VirtioError + 'a \<Rightarrow> Ext4Error + 'a" where
  "ext4_from_device (Inl e) = Inl (Ext4Device e)"
| "ext4_from_device (Inr x) = Inr x"

definition ext4_is_directory :: "Ext4Inode \<Rightarrow> bool" where
  "ext4_is_directory self \<longleftrightarrow> inode_mode self AND EXT4_MODE_TYPE_MASK = EXT4_MODE_DIRECTORY"

definition is_regular_file :: "Ext4Inode \<Rightarrow> bool" where
  "is_regular_file self \<longleftrightarrow> inode_mode self AND EXT4_MODE_TYPE_MASK = EXT4_MODE_REGULAR"

definition is_symlink :: "Ext4Inode \<Rightarrow> bool" where
  "is_symlink self \<longleftrightarrow> inode_mode self AND EXT4_MODE_TYPE_MASK = EXT4_MODE_SYMLINK"

definition uses_extents :: "Ext4Inode \<Rightarrow> bool" where
  "uses_extents self \<longleftrightarrow> inode_flags self AND EXT4_INODE_FLAG_EXTENTS \<noteq> 0"

definition ext4_file_type :: "Ext4Inode \<Rightarrow> Ext4Error + FileType" where
  "ext4_file_type self =
     (if ext4_is_directory self then Inr Directory
      else if is_regular_file self then Inr File
      else Inl (UnsupportedFileType (inode_mode self)))"

definition Ext4File_info :: "Ext4File \<Rightarrow> FileInfo" where
  "Ext4File_info self =
     FileInfo_new (case ext4_file_type (ext4_inode self) of Inl _ \<Rightarrow> File | Inr ty \<Rightarrow> ty) (unat (inode_size_bytes (ext4_inode self)))"

section \<open>Bytes\<close>

definition ext4_read_u16 :: "u8 list \<Rightarrow> nat \<Rightarrow> u16 option" where
  "ext4_read_u16 bytes offset = map_option from_le_bytes (slice_get bytes offset (offset + 2))"

definition ext4_read_u32 :: "u8 list \<Rightarrow> nat \<Rightarrow> u32 option" where
  "ext4_read_u32 bytes offset = map_option from_le_bytes (slice_get bytes offset (offset + 4))"

text \<open>The sector loop for unaligned ranges; \<open>out\<close> is \<open>buffer[..copied]\<close>.\<close>

function device_bytes_loop :: "BlockDevice \<Rightarrow> u64 \<Rightarrow> u64 \<Rightarrow> nat \<Rightarrow> nat \<Rightarrow> u8 list \<Rightarrow> Ext4Error + u8 list" where
  "device_bytes_loop device start byte_offset n copied out =
     (if copied < n then
        let absolute_offset = byte_offset + of_nat copied;
            sector_index = absolute_offset div of_nat VIRTIO_SECTOR_SIZE;
            sector_offset = unat (absolute_offset mod of_nat VIRTIO_SECTOR_SIZE)
        in case read_blocks device (start + sector_index) VIRTIO_SECTOR_SIZE of
             Inl e \<Rightarrow> Inl (Ext4Device e)
           | Inr sector \<Rightarrow>
               let taken = min (n - copied) (VIRTIO_SECTOR_SIZE - sector_offset)
               in device_bytes_loop device start byte_offset n (copied + taken) (out @ take taken (drop sector_offset sector))
      else Inr out)"
  by pat_completeness auto
termination
proof (relation "measure (\<lambda>(_, _, _, n, copied, _). n - copied)", goal_cases)
  case (2 device start byte_offset n copied out abs idx off sector taken)
  have "off < 512" using 2(4) by (simp add: unat_mod)
  then have "0 < taken" using 2(1,6) by simp
  then show ?case using 2(1) by simp
qed simp

declare device_bytes_loop.simps [simp del]

definition read_device_bytes :: "BlockDevice \<Rightarrow> u64 \<Rightarrow> u64 \<Rightarrow> nat \<Rightarrow> Ext4Error + u8 list" where
  "read_device_bytes device start byte_offset n =
     (if n = 0 then Inr []
      else if unat byte_offset mod VIRTIO_SECTOR_SIZE = 0 \<and> n mod VIRTIO_SECTOR_SIZE = 0
      then ext4_from_device (read_blocks device (start + byte_offset div of_nat VIRTIO_SECTOR_SIZE) n)
      else device_bytes_loop device start byte_offset n 0 [])"

section \<open>Mounting\<close>

text \<open>\<open>1024u32.checked_shl\<close>: the shift count must be below 32; bits shifted out are lost.\<close>

definition ext4_block_size :: "u32 \<Rightarrow> u32 option" where
  "ext4_block_size log = (if unat log < 32 then Some (push_bit (unat log) 1024) else None)"

definition Ext4Volume_new :: "BlockDevice \<Rightarrow> u64 \<Rightarrow> Ext4Error + Ext4Volume" where
  "Ext4Volume_new device start =
     rbind (read_device_bytes device start 1024 1024) (\<lambda>superblock_bytes.
     rbind (ok_or InvalidSuperblock (ext4_read_u16 superblock_bytes 0x38)) (\<lambda>magic.
     if magic \<noteq> EXT4_SUPER_MAGIC then Inl InvalidSuperblock else
     rbind (ok_or InvalidSuperblock (ext4_read_u32 superblock_bytes 0x18)) (\<lambda>log_block_size.
     rbind (ok_or InvalidSuperblock (ext4_block_size log_block_size)) (\<lambda>bs.
     if EXT4_MAX_BLOCK_SIZE < unat bs \<or> bs < of_nat VIRTIO_SECTOR_SIZE \<or> unat bs mod VIRTIO_SECTOR_SIZE \<noteq> 0
     then Inl (UnsupportedBlockSize bs) else
     rbind (ok_or InvalidSuperblock (ext4_read_u16 superblock_bytes 0x58)) (\<lambda>isize.
     if isize = 0 \<or> EXT4_MAX_INODE_SIZE < unat isize then Inl (UnsupportedInodeSize isize) else
     rbind (ok_or InvalidSuperblock (ext4_read_u32 superblock_bytes 0x60)) (\<lambda>incompat_features.
     let unsupported = incompat_features AND NOT EXT4_SUPPORTED_INCOMPAT_FEATURES in
     if unsupported \<noteq> 0 then Inl (UnsupportedIncompatibleFeatures unsupported) else
     rbind (ok_or InvalidSuperblock (ext4_read_u32 superblock_bytes 0x20)) (\<lambda>blocks_per_group.
     rbind (ok_or InvalidSuperblock (ext4_read_u32 superblock_bytes 0x28)) (\<lambda>ipg.
     if blocks_per_group = 0 \<or> ipg = 0 then Inl InvalidSuperblock else
     rbind (ok_or InvalidSuperblock (ext4_read_u16 superblock_bytes 0xfe)) (\<lambda>gds.
     let gds = (if gds = 0 then 32 else gds) in
     if gds \<noteq> 32 \<and> gds \<noteq> 64 then Inl InvalidSuperblock else
     Inr \<lparr>ext4_device = device, ext4_start_lba = start, block_size = unat bs,
          sectors_per_block = ucast bs div of_nat VIRTIO_SECTOR_SIZE, inodes_per_group = ipg, inode_size = isize,
          group_descriptor_size = gds, group_descriptor_table_block = (if bs = 1024 then 2 else 1)\<rparr>)))))))))"

section \<open>Blocks and inodes\<close>

definition block_to_lba :: "Ext4Volume \<Rightarrow> u64 \<Rightarrow> u64" where
  "block_to_lba self block_number = ext4_start_lba self + block_number * sectors_per_block self"

definition read_block :: "Ext4Volume \<Rightarrow> u64 \<Rightarrow> Ext4Error + u8 list" where
  "read_block self block_number =
     ext4_from_device (read_blocks (ext4_device self) (block_to_lba self block_number) (block_size self))"

definition read_volume_bytes :: "Ext4Volume \<Rightarrow> u64 \<Rightarrow> nat \<Rightarrow> Ext4Error + u8 list" where
  "read_volume_bytes self byte_offset n = read_device_bytes (ext4_device self) (ext4_start_lba self) byte_offset n"

definition inode_table_block :: "Ext4Volume \<Rightarrow> u32 \<Rightarrow> Ext4Error + u64" where
  "inode_table_block self grp =
     rbind (ok_or InvalidSuperblock (Option.bind (checked_mul (group_descriptor_table_block self) (of_nat (block_size self)))
       (\<lambda>v. checked_add v (ucast grp * ucast (group_descriptor_size self))))) (\<lambda>descriptor_offset.
     rbind (read_volume_bytes self descriptor_offset (unat (group_descriptor_size self))) (\<lambda>bs.
     let descriptor = bs @ replicate (64 - length bs) 0 in
     rbind (ok_or InvalidSuperblock (ext4_read_u32 descriptor 8)) (\<lambda>table_low.
     rbind (if 44 \<le> group_descriptor_size self then ok_or InvalidSuperblock (ext4_read_u32 descriptor 0x28) else Inr 0) (\<lambda>table_high.
     Inr (push_bit 32 (ucast table_high) OR ucast table_low)))))"

definition read_inode :: "Ext4Volume \<Rightarrow> u32 \<Rightarrow> Ext4Error + Ext4Inode" where
  "read_inode self number =
     (if number = 0 then Inl (InvalidInode number) else
      let grp = (number - 1) div inodes_per_group self; index = (number - 1) mod inodes_per_group self in
      rbind (inode_table_block self grp) (\<lambda>table_block.
      rbind (ok_or (InvalidInode number) (Option.bind (checked_mul table_block (of_nat (block_size self)))
        (\<lambda>v. checked_add v (ucast index * ucast (inode_size self))))) (\<lambda>inode_offset.
      rbind (read_volume_bytes self inode_offset (unat (inode_size self))) (\<lambda>bs.
      let inode_bytes = bs @ replicate (EXT4_MAX_INODE_SIZE - length bs) 0 in
      rbind (ok_or (InvalidInode number) (ext4_read_u16 inode_bytes 0)) (\<lambda>md.
      rbind (ok_or (InvalidInode number) (ext4_read_u32 inode_bytes 4)) (\<lambda>size_low.
      rbind (ok_or (InvalidInode number) (ext4_read_u32 inode_bytes 0x20)) (\<lambda>fl.
      let size_high = (case ext4_read_u32 inode_bytes 0x6c of Some w \<Rightarrow> w | None \<Rightarrow> 0) in
      Inr \<lparr>inode_number = number, inode_mode = md, inode_size_bytes = ucast size_low OR push_bit 32 (ucast size_high),
           inode_flags = fl, block_data = take 60 (drop 0x28 inode_bytes)\<rparr>)))))))"

section \<open>Extents\<close>

text \<open>The leaf loop.\<close>

function leaf_loop :: "u8 list \<Rightarrow> nat \<Rightarrow> nat \<Rightarrow> Ext4Extent list \<Rightarrow> (Ext4Error, unit, Ext4Extent list) outcome" where
  "leaf_loop node entry_count index extents =
     (if index < entry_count then
        let offset = 12 + index * 12 in
        case rbind (ok_or InvalidExtentTree (ext4_read_u32 node offset)) (\<lambda>lb.
             rbind (ok_or InvalidExtentTree (ext4_read_u16 node (offset + 4))) (\<lambda>raw_length.
             if raw_length AND 0x8000 \<noteq> 0 then Inl InvalidExtentTree else
             rbind (ok_or InvalidExtentTree (ext4_read_u16 node (offset + 6))) (\<lambda>high.
             rbind (ok_or InvalidExtentTree (ext4_read_u32 node (offset + 8))) (\<lambda>low.
             if EXT4_MAX_EXTENTS \<le> length extents then Inl InvalidExtentTree else
             Inr \<lparr>logical_block = lb, block_count = raw_length, physical_block = push_bit 32 (ucast high) OR ucast low\<rparr>)))) of
          Inl e \<Rightarrow> (Inl e, extents)
        | Inr extent \<Rightarrow> leaf_loop node entry_count (index + 1) (extents @ [extent])
      else (Inr (), extents))"
  by pat_completeness auto
termination
  by (relation "measure (\<lambda>(_, entry_count, index, _). entry_count - index)") auto

declare leaf_loop.simps [simp del]

text \<open>The loop over the children of an index node, with the collection of a child as a parameter.\<close>

function index_loop ::
  "(u8 list \<Rightarrow> Ext4Extent list \<Rightarrow> (Ext4Error, unit, Ext4Extent list) outcome option) \<Rightarrow> Ext4Volume \<Rightarrow> u8 list \<Rightarrow> nat \<Rightarrow> nat
   \<Rightarrow> Ext4Extent list \<Rightarrow> (Ext4Error, unit, Ext4Extent list) outcome option" where
  "index_loop collect self node entry_count index extents =
     (if index < entry_count then
        let offset = 12 + index * 12 in
        case rbind (ok_or InvalidExtentTree (ext4_read_u32 node (offset + 4))) (\<lambda>low.
             rbind (ok_or InvalidExtentTree (ext4_read_u16 node (offset + 8))) (\<lambda>high.
             read_block self (push_bit 32 (ucast high) OR ucast low))) of
          Inl e \<Rightarrow> Some (Inl e, extents)
        | Inr child \<Rightarrow>
            (case collect child extents of
               None \<Rightarrow> None
             | Some (Inl e, extents) \<Rightarrow> Some (Inl e, extents)
             | Some (Inr _, extents) \<Rightarrow> index_loop collect self node entry_count (index + 1) extents)
      else Some (Inr (), extents))"
  by pat_completeness auto
termination
  by (relation "measure (\<lambda>(_, _, _, entry_count, index, _). entry_count - index)") auto

declare index_loop.simps [simp del]

text \<open>The checks on the header of an extent node: its entry count and depth.\<close>

definition extent_header :: "u8 list \<Rightarrow> Ext4Error + nat \<times> u16" where
  "extent_header node =
     rbind (ok_or InvalidExtentTree (ext4_read_u16 node 0)) (\<lambda>magic.
     if magic \<noteq> EXT4_EXTENT_MAGIC then Inl InvalidExtentTree else
     rbind (ok_or InvalidExtentTree (ext4_read_u16 node 2)) (\<lambda>entry_count.
     rbind (ok_or InvalidExtentTree (ext4_read_u16 node 6)) (\<lambda>depth.
     if EXT4_MAX_EXTENT_DEPTH < depth then Inl InvalidExtentTree
     else if length node < 12 + unat entry_count * 12 then Inl InvalidExtentTree
     else Inr (unat entry_count, depth))))"

fun collect_extent_node ::
  "nat \<Rightarrow> Ext4Volume \<Rightarrow> u8 list \<Rightarrow> Ext4Extent list \<Rightarrow> (Ext4Error, unit, Ext4Extent list) outcome option" where
  "collect_extent_node 0 self node extents = None"
| "collect_extent_node (Suc fuel) self node extents =
     (case extent_header node of
        Inl e \<Rightarrow> Some (Inl e, extents)
      | Inr (entry_count, depth) \<Rightarrow>
          if depth = 0 then Some (leaf_loop node entry_count 0 extents)
          else index_loop (collect_extent_node fuel self) self node entry_count 0 extents)"

definition collect_inode_extents :: "nat \<Rightarrow> Ext4Volume \<Rightarrow> Ext4Inode \<Rightarrow> (Ext4Error + Ext4Extent list) option" where
  "collect_inode_extents fuel self inode =
     (if \<not> uses_extents inode then Some (Inl UnsupportedMapping) else
      case collect_extent_node fuel self (block_data inode) [] of
        None \<Rightarrow> None
      | Some (Inl e, _) \<Rightarrow> Some (Inl e)
      | Some (Inr _, extents) \<Rightarrow> Some (Inr extents))"

section \<open>File contents\<close>

definition overwrite :: "u8 list \<Rightarrow> nat \<Rightarrow> u8 list \<Rightarrow> u8 list" where
  "overwrite buffer offset bs = take offset buffer @ bs @ drop (offset + length bs) buffer"

text \<open>The loop over the extents; \<open>buffer\<close> is the zero-filled start of the caller's buffer.\<close>

fun extents_loop :: "Ext4Volume \<Rightarrow> nat \<Rightarrow> Ext4Extent list \<Rightarrow> u8 list \<Rightarrow> Ext4Error + u8 list" where
  "extents_loop self nbytes [] buffer = Inr buffer"
| "extents_loop self nbytes (extent # extents) buffer =
     (let file_offset = unat (logical_block extent) * block_size self in
      if nbytes \<le> file_offset then Inr buffer else
      let extent_capacity = unat (block_count extent) * block_size self;
          extent_bytes = min (nbytes - file_offset) extent_capacity;
          full_blocks = extent_bytes div block_size self in
      rbind (if full_blocks \<noteq> 0
             then rbind (ext4_from_device (read_blocks (ext4_device self) (block_to_lba self (physical_block extent))
                           (full_blocks * block_size self)))
                    (\<lambda>bs. Inr (overwrite buffer file_offset bs))
             else Inr buffer) (\<lambda>buffer.
      let tail_bytes = extent_bytes mod block_size self in
      rbind (if tail_bytes \<noteq> 0
             then rbind (read_block self (physical_block extent + of_nat full_blocks))
                    (\<lambda>block. Inr (overwrite buffer (file_offset + full_blocks * block_size self) (take tail_bytes block)))
             else Inr buffer) (\<lambda>buffer.
      extents_loop self nbytes extents buffer)))"

text \<open>The bytes written to the start of a buffer of \<open>buffer_len\<close> bytes.\<close>

definition read_inode_contents :: "nat \<Rightarrow> Ext4Volume \<Rightarrow> Ext4Inode \<Rightarrow> nat \<Rightarrow> (Ext4Error + u8 list) option" where
  "read_inode_contents fuel self inode buffer_len =
     (if ext4_is_directory inode then Some (Inl Ext4IsDirectory) else
      let nbytes = unat (inode_size_bytes inode) in
      if buffer_len < nbytes then Some (Inl Ext4BufferTooSmall)
      else if nbytes = 0 then Some (Inr [])
      else (case collect_inode_extents fuel self inode of
              None \<Rightarrow> None
            | Some (Inl e) \<Rightarrow> Some (Inl e)
            | Some (Inr extents) \<Rightarrow> Some (extents_loop self nbytes extents (replicate nbytes 0))))"

section \<open>Directories\<close>

text \<open>The fields of the entry at an offset, after the checks on its lengths: inode number, name and record length.\<close>

definition directory_entry_at :: "nat \<Rightarrow> u8 list \<Rightarrow> nat \<Rightarrow> Ext4Error + u32 \<times> u8 list \<times> nat" where
  "directory_entry_at bsize block entry_offset =
     rbind (ok_or InvalidDirectoryEntry (ext4_read_u32 block entry_offset)) (\<lambda>number.
     rbind (ok_or InvalidDirectoryEntry (ext4_read_u16 block (entry_offset + 4))) (\<lambda>rl.
     rbind (ok_or InvalidDirectoryEntry (if entry_offset + 6 < length block then Some (block ! (entry_offset + 6)) else None)) (\<lambda>nl.
     let record_length = unat rl; name_length = unat nl in
     if record_length < 8 \<or> record_length mod 4 \<noteq> 0 \<or> bsize < entry_offset + record_length \<or> record_length - 8 < name_length
     then Inl InvalidDirectoryEntry
     else Inr (number, take name_length (drop (entry_offset + 8) block), record_length))))"

lemma directory_entry_progress: "directory_entry_at bsize block k = Inr (number, name, rl) \<Longrightarrow> 8 \<le> rl"
  by (auto simp: directory_entry_at_def Let_def split: if_splits)

function find_in_block :: "nat \<Rightarrow> u8 list \<Rightarrow> u8 list \<Rightarrow> nat \<Rightarrow> Ext4Error + u32 option" where
  "find_in_block bsize block component entry_offset =
     (if entry_offset + 8 \<le> bsize then
        (case directory_entry_at bsize block entry_offset of
           Inl e \<Rightarrow> Inl e
         | Inr (number, name, record_length) \<Rightarrow>
             if number \<noteq> 0 \<and> name = component then Inr (Some number)
             else find_in_block bsize block component (entry_offset + record_length))
      else Inr None)"
  by pat_completeness auto
termination
  by (relation "measure (\<lambda>(bsize, _, _, entry_offset). bsize - entry_offset)") (auto dest!: directory_entry_progress)

declare find_in_block.simps [simp del]

lemma u16_step_less: "index < count \<Longrightarrow> unat count - unat (index + 1) < unat count - unat (index :: u16)"
proof -
  assume l: "index < count"
  have "unat count < 2 ^ 16" using unsigned_less [of count] by simp
  then show ?thesis using l unat_add_small [of index 1] by (simp add: word_less_nat_alt)
qed

text \<open>The blocks \<open>physical_block + offset\<close> of an extent.\<close>

function find_in_extent :: "Ext4Volume \<Rightarrow> u8 list \<Rightarrow> Ext4Extent \<Rightarrow> u16 \<Rightarrow> Ext4Error + u32 option" where
  "find_in_extent self component extent offset_in_extent =
     (if offset_in_extent < block_count extent then
        (case read_block self (physical_block extent + ucast offset_in_extent) of
           Inl e \<Rightarrow> Inl e
         | Inr block \<Rightarrow>
             (case find_in_block (block_size self) block component 0 of
                Inr None \<Rightarrow> find_in_extent self component extent (offset_in_extent + 1)
              | r \<Rightarrow> r))
      else Inr None)"
  by pat_completeness auto
termination
  by (relation "measure (\<lambda>(_, _, extent, offset). unat (block_count extent) - unat offset)") (auto intro: u16_step_less)

declare find_in_extent.simps [simp del]

fun find_in_extents :: "Ext4Volume \<Rightarrow> u8 list \<Rightarrow> Ext4Extent list \<Rightarrow> Ext4Error + u32" where
  "find_in_extents self component [] = Inl Ext4NotFound"
| "find_in_extents self component (extent # extents) =
     (case find_in_extent self component extent 0 of
        Inl e \<Rightarrow> Inl e
      | Inr (Some number) \<Rightarrow> Inr number
      | Inr None \<Rightarrow> find_in_extents self component extents)"

definition ext4_find_directory_entry :: "nat \<Rightarrow> Ext4Volume \<Rightarrow> Ext4Inode \<Rightarrow> u8 list \<Rightarrow> (Ext4Error + u32) option" where
  "ext4_find_directory_entry fuel self directory_inode component =
     (case collect_inode_extents fuel self directory_inode of
        None \<Rightarrow> None
      | Some (Inl e) \<Rightarrow> Some (Inl e)
      | Some (Inr extents) \<Rightarrow> Some (find_in_extents self component extents))"

section \<open>Paths\<close>

definition trim_leading_separators :: "u8 list \<Rightarrow> u8 list" where
  "trim_leading_separators path = dropWhile (\<lambda>b. b = 0x2f) path"

definition split_path_component :: "u8 list \<Rightarrow> Ext4Error + u8 list \<times> u8 list" where
  "split_path_component path =
     (let path = trim_leading_separators path in
      if path = [] then Inl Ext4InvalidPath
      else if 0x2f \<in> set path
      then Inr (takeWhile (\<lambda>b. b \<noteq> 0x2f) path, trim_leading_separators (tl (dropWhile (\<lambda>b. b \<noteq> 0x2f) path)))
      else Inr (path, []))"

definition read_symlink_target :: "nat \<Rightarrow> Ext4Volume \<Rightarrow> Ext4Inode \<Rightarrow> (Ext4Error + u8 list) option" where
  "read_symlink_target fuel self inode =
     (let sz = unat (inode_size_bytes inode) in
      if EXT4_PATH_BYTES < sz then Some (Inl Ext4NameTooLong)
      else if \<not> uses_extents inode \<and> sz \<le> length (block_data inode) then Some (Inr (take sz (block_data inode)))
      else read_inode_contents fuel self inode sz)"

definition read_symlink_path :: "nat \<Rightarrow> Ext4Volume \<Rightarrow> Ext4Inode \<Rightarrow> u8 list \<Rightarrow> (Ext4Error + u8 list) option" where
  "read_symlink_path fuel self inode tail =
     (case read_symlink_target fuel self inode of
        None \<Rightarrow> None
      | Some (Inl e) \<Rightarrow> Some (Inl e)
      | Some (Inr target) \<Rightarrow>
          let tail = trim_leading_separators tail in
          if tail = [] then Some (Inr target)
          else if target \<noteq> [] \<and> last target \<noteq> 0x2f \<and> EXT4_PATH_BYTES \<le> length target then Some (Inl Ext4NameTooLong)
          else let target = (if target \<noteq> [] \<and> last target \<noteq> 0x2f then target @ [0x2f] else target) in
          if EXT4_PATH_BYTES < length target + length tail then Some (Inl Ext4NameTooLong)
          else Some (Inr (target @ tail)))"

lemma split_path_component_shorter:
  assumes "split_path_component path = Inr (component, rest)" and "path \<noteq> []"
  shows "length rest < length path"
proof -
  have t: "length (trim_leading_separators p) \<le> length p" for p
    by (simp add: trim_leading_separators_def length_dropWhile_le)
  have d: "length (dropWhile (\<lambda>b. b \<noteq> 0x2f) p) \<le> length p" for p :: "u8 list" by (rule length_dropWhile_le)
  let ?p = "trim_leading_separators path"
  have p: "?p \<noteq> []" using assms(1) by (auto simp: split_path_component_def Let_def split: if_splits)
  show ?thesis
  proof (cases "0x2f \<in> set ?p")
    case True
    then have "rest = trim_leading_separators (tl (dropWhile (\<lambda>b. b \<noteq> 0x2f) ?p))"
      using assms(1) p by (simp add: split_path_component_def Let_def)
    then have "length rest \<le> length (dropWhile (\<lambda>b. b \<noteq> 0x2f) ?p) - 1"
      using t [of "tl (dropWhile (\<lambda>b. b \<noteq> 0x2f) ?p)"] by simp
    then show ?thesis using d [of ?p] t [of path] p by (cases ?p) auto
  next
    case False
    then show ?thesis using assms p by (simp add: split_path_component_def Let_def)
  qed
qed

text \<open>\<open>resolve_path_from\<close>: the loop over the remaining path from a directory. A symbolic link restarts it on the
  expanded path with a higher depth.\<close>

function resolve_loop :: "nat \<Rightarrow> Ext4Volume \<Rightarrow> u32 \<Rightarrow> u8 list \<Rightarrow> nat \<Rightarrow> (Ext4Error + u32 \<times> Ext4Inode) option" where
  "resolve_loop fuel self current remaining depth =
     (case read_inode self current of
        Inl e \<Rightarrow> Some (Inl e)
      | Inr current_inode \<Rightarrow>
          if remaining = [] then Some (Inr (current, current_inode))
          else if \<not> ext4_is_directory current_inode then Some (Inl Ext4NotDirectory)
          else (case split_path_component remaining of
                  Inl e \<Rightarrow> Some (Inl e)
                | Inr (component, rest) \<Rightarrow>
                    if component = str ''.'' then resolve_loop fuel self current rest depth
                    else if component = str ''..'' then Some (Inl Ext4InvalidPath)
                    else (case ext4_find_directory_entry fuel self current_inode component of
                            None \<Rightarrow> None
                          | Some (Inl e) \<Rightarrow> Some (Inl e)
                          | Some (Inr number) \<Rightarrow>
                              (case read_inode self number of
                                 Inl e \<Rightarrow> Some (Inl e)
                               | Inr child_inode \<Rightarrow>
                                   if is_symlink child_inode then
                                     if EXT4_MAX_SYMLINK_DEPTH \<le> depth then Some (Inl SymlinkLoop)
                                     else (case read_symlink_path fuel self child_inode rest of
                                             None \<Rightarrow> None
                                           | Some (Inl e) \<Rightarrow> Some (Inl e)
                                           | Some (Inr expanded) \<Rightarrow>
                                               if \<not> utf8_valid expanded then Some (Inl Ext4InvalidPath)
                                               else resolve_loop fuel self
                                                      (if expanded \<noteq> [] \<and> hd expanded = 0x2f then EXT4_ROOT_INODE else current)
                                                      (trim_leading_separators expanded) (depth + 1))
                                   else resolve_loop fuel self number rest depth))))"
  by pat_completeness auto
termination
  by (relation "measures [\<lambda>(_, _, _, _, depth). EXT4_MAX_SYMLINK_DEPTH - depth, \<lambda>(_, _, _, remaining, _). length remaining]")
     (auto dest: split_path_component_shorter)

declare resolve_loop.simps [simp del]

definition resolve_path_from :: "nat \<Rightarrow> Ext4Volume \<Rightarrow> u32 \<Rightarrow> u8 list \<Rightarrow> nat \<Rightarrow> (Ext4Error + u32 \<times> Ext4Inode) option" where
  "resolve_path_from fuel self start path depth =
     resolve_loop fuel self (if path \<noteq> [] \<and> hd path = 0x2f then EXT4_ROOT_INODE else start) (trim_leading_separators path) depth"

definition resolve_path :: "nat \<Rightarrow> Ext4Volume \<Rightarrow> u8 list \<Rightarrow> nat \<Rightarrow> (Ext4Error + u32 \<times> Ext4Inode) option" where
  "resolve_path fuel self path depth = resolve_path_from fuel self EXT4_ROOT_INODE path depth"

definition ext4_open :: "nat \<Rightarrow> Ext4Volume \<Rightarrow> u8 list \<Rightarrow> (Ext4Error + Ext4File) option" where
  "ext4_open fuel self path =
     (case resolve_path fuel self path 0 of
        None \<Rightarrow> None
      | Some (Inl e) \<Rightarrow> Some (Inl e)
      | Some (Inr (_, inode)) \<Rightarrow> Some (Inr \<lparr>ext4_volume = self, ext4_inode = inode\<rparr>))"

definition ext4_read_file :: "nat \<Rightarrow> Ext4Volume \<Rightarrow> u8 list \<Rightarrow> nat \<Rightarrow> (Ext4Error + u8 list) option" where
  "ext4_read_file fuel self path buffer_len =
     (case resolve_path fuel self path 0 of
        None \<Rightarrow> None
      | Some (Inl e) \<Rightarrow> Some (Inl e)
      | Some (Inr (_, inode)) \<Rightarrow> read_inode_contents fuel self inode buffer_len)"

section \<open>Walking\<close>

definition ext4_append_path_component :: "u8 list \<Rightarrow> u8 list \<Rightarrow> Ext4Error + u8 list" where
  "ext4_append_path_component path component =
     rbind (ok_or Ext4NameTooLong (us_checked_add (length path) 1)) (\<lambda>len.
     rbind (ok_or Ext4NameTooLong (us_checked_add len (length component))) (\<lambda>next_len.
     if EXT4_PATH_BYTES < next_len then Inl Ext4NameTooLong else Inr (path @ [0x2f] @ component)))"

text \<open>The entries of one block; \<open>visit\<close> handles an entry with a non-zero inode and threads the visitor's state.\<close>

function walk_block ::
  "nat \<Rightarrow> u8 list \<Rightarrow> (u32 \<Rightarrow> u8 list \<Rightarrow> 's \<Rightarrow> (Ext4Error, unit, 's) outcome option) \<Rightarrow> nat \<Rightarrow> 's
   \<Rightarrow> (Ext4Error, unit, 's) outcome option" where
  "walk_block bsize block visit entry_offset s =
     (if entry_offset + 8 \<le> bsize then
        (case directory_entry_at bsize block entry_offset of
           Inl e \<Rightarrow> Some (Inl e, s)
         | Inr (number, name, record_length) \<Rightarrow>
             (case (if number \<noteq> 0 then visit number name s else Some (Inr (), s)) of
                None \<Rightarrow> None
              | Some (Inl e, s) \<Rightarrow> Some (Inl e, s)
              | Some (Inr _, s) \<Rightarrow> walk_block bsize block visit (entry_offset + record_length) s))
      else Some (Inr (), s))"
  by pat_completeness auto
termination
  by (relation "measure (\<lambda>(bsize, _, _, entry_offset, _). bsize - entry_offset)") (auto dest!: directory_entry_progress)

declare walk_block.simps [simp del]

function walk_extent ::
  "Ext4Volume \<Rightarrow> (u32 \<Rightarrow> u8 list \<Rightarrow> 's \<Rightarrow> (Ext4Error, unit, 's) outcome option) \<Rightarrow> Ext4Extent \<Rightarrow> u16 \<Rightarrow> 's
   \<Rightarrow> (Ext4Error, unit, 's) outcome option" where
  "walk_extent self visit extent offset_in_extent s =
     (if offset_in_extent < block_count extent then
        (case read_block self (physical_block extent + ucast offset_in_extent) of
           Inl e \<Rightarrow> Some (Inl e, s)
         | Inr block \<Rightarrow>
             (case walk_block (block_size self) block visit 0 s of
                Some (Inr _, s) \<Rightarrow> walk_extent self visit extent (offset_in_extent + 1) s
              | r \<Rightarrow> r))
      else Some (Inr (), s))"
  by pat_completeness auto
termination
  by (relation "measure (\<lambda>(_, _, extent, offset, _). unat (block_count extent) - unat offset)") (auto intro: u16_step_less)

declare walk_extent.simps [simp del]

fun walk_extents ::
  "Ext4Volume \<Rightarrow> (u32 \<Rightarrow> u8 list \<Rightarrow> 's \<Rightarrow> (Ext4Error, unit, 's) outcome option) \<Rightarrow> Ext4Extent list \<Rightarrow> 's
   \<Rightarrow> (Ext4Error, unit, 's) outcome option" where
  "walk_extents self visit [] s = Some (Inr (), s)"
| "walk_extents self visit (extent # extents) s =
     (case walk_extent self visit extent 0 s of
        Some (Inr _, s) \<Rightarrow> walk_extents self visit extents s
      | r \<Rightarrow> r)"

text \<open>One directory entry of a walk, with the walk of a subdirectory as a parameter.\<close>

definition ext4_visit_entry ::
  "(Ext4Inode \<Rightarrow> u8 list \<Rightarrow> 's \<Rightarrow> (Ext4Error, unit, 's) outcome option) \<Rightarrow> Ext4Volume \<Rightarrow> (u8 list \<Rightarrow> u64 \<Rightarrow> 's \<Rightarrow> 's) \<Rightarrow> u8 list
   \<Rightarrow> u32 \<Rightarrow> u8 list \<Rightarrow> 's \<Rightarrow> (Ext4Error, unit, 's) outcome option" where
  "ext4_visit_entry walk self visitor path number name s =
     (if name = str ''.'' \<or> name = str ''..'' then Some (Inr (), s)
      else (case ext4_append_path_component path name of
              Inl e \<Rightarrow> Some (Inl e, s)
            | Inr full_path \<Rightarrow>
                (case read_inode self number of
                   Inl e \<Rightarrow> Some (Inl e, s)
                 | Inr child_inode \<Rightarrow>
                     if ext4_is_directory child_inode then walk child_inode full_path s
                     else if utf8_valid full_path then Some (Inr (), visitor full_path (inode_size_bytes child_inode) s)
                     else Some (Inl InvalidDirectoryEntry, s))))"

text \<open>\<open>levels\<close> bounds the nesting of directories; every level makes the path longer, so more levels than
  \<open>EXT4_PATH_BYTES\<close> are never used.\<close>

fun ext4_walk_directory ::
  "nat \<Rightarrow> nat \<Rightarrow> Ext4Volume \<Rightarrow> (u8 list \<Rightarrow> u64 \<Rightarrow> 's \<Rightarrow> 's) \<Rightarrow> Ext4Inode \<Rightarrow> u8 list \<Rightarrow> 's \<Rightarrow> (Ext4Error, unit, 's) outcome option" where
  "ext4_walk_directory fuel 0 self visitor directory_inode path s = None"
| "ext4_walk_directory fuel (Suc levels) self visitor directory_inode path s =
     (case collect_inode_extents fuel self directory_inode of
        None \<Rightarrow> None
      | Some (Inl e) \<Rightarrow> Some (Inl e, s)
      | Some (Inr extents) \<Rightarrow>
          walk_extents self (ext4_visit_entry (ext4_walk_directory fuel levels self visitor) self visitor path) extents s)"

definition walk_files_in_directory ::
  "nat \<Rightarrow> Ext4Volume \<Rightarrow> u8 list \<Rightarrow> (u8 list \<Rightarrow> u64 \<Rightarrow> 's \<Rightarrow> 's) \<Rightarrow> 's \<Rightarrow> (Ext4Error, unit, 's) outcome option" where
  "walk_files_in_directory fuel self path visitor s =
     (case resolve_path fuel self path 0 of
        None \<Rightarrow> None
      | Some (Inl e) \<Rightarrow> Some (Inl e, s)
      | Some (Inr (_, inode)) \<Rightarrow>
          if \<not> ext4_is_directory inode then Some (Inl Ext4NotDirectory, s) else
          let trimmed_path = trim_leading_separators path in
          if trimmed_path \<noteq> [] \<and> EXT4_PATH_BYTES < length trimmed_path + 1 then Some (Inl Ext4NameTooLong, s)
          else ext4_walk_directory fuel (EXT4_PATH_BYTES + 2) self visitor inode
                 (if trimmed_path = [] then [] else 0x2f # trimmed_path) s)"

section \<open>Loading\<close>

definition ext4_file_size_to_page_count :: "nat \<Rightarrow> Ext4Error + nat" where
  "ext4_file_size_to_page_count n =
     rbind (ok_or Ext4BufferTooSmall (us_checked_add n (unat EFI_PAGE_SIZE - 1))) (\<lambda>t. Inr (t div unat EFI_PAGE_SIZE))"

text \<open>The zero fill and the read into the allocated pages. After a failed read the contents of the pages are not
  described, and the pages stay allocated.\<close>

definition ext4_load_contents ::
  "nat \<Rightarrow> Ext4File \<Rightarrow> PageAllocator \<Rightarrow> memory \<Rightarrow> u64 \<Rightarrow> nat \<Rightarrow> ((Ext4Error + LoadedFile \<times> memory) \<times> PageAllocator) option" where
  "ext4_load_contents fuel self allocator mem start pages =
     (let n = unat (inode_size_bytes (ext4_inode self));
          mem = write_memory mem start (replicate (pages * unat EFI_PAGE_SIZE mod USIZE_LIMIT) 0) in
      case read_inode_contents fuel (ext4_volume self) (ext4_inode self) n of
        None \<Rightarrow> None
      | Some (Inl e) \<Rightarrow> Some (Inl e, allocator)
      | Some (Inr bs) \<Rightarrow> Some (Inr (LoadedFile_new start pages n, write_memory mem start bs), allocator))"

definition ext4_load_into_allocated_pages ::
  "nat \<Rightarrow> Ext4File \<Rightarrow> PageAllocator \<Rightarrow> memory \<Rightarrow> ((Ext4Error + LoadedFile \<times> memory) \<times> PageAllocator) option" where
  "ext4_load_into_allocated_pages fuel self allocator mem =
     (if ext4_is_directory (ext4_inode self) then Some (Inl Ext4IsDirectory, allocator) else
      case ext4_file_size_to_page_count (unat (inode_size_bytes (ext4_inode self))) of
        Inl e \<Rightarrow> Some (Inl e, allocator)
      | Inr pages \<Rightarrow>
          (case allocate_pages_for_size allocator EfiBootServicesData (inode_size_bytes (ext4_inode self)) of
             (Inl e, allocator) \<Rightarrow> Some (Inl (Ext4Memory e), allocator)
           | (Inr start, allocator) \<Rightarrow> ext4_load_contents fuel self allocator mem start (max 1 pages)))"

definition ext4_load_into_pages ::
  "nat \<Rightarrow> Ext4File \<Rightarrow> PageAllocator \<Rightarrow> memory \<Rightarrow> EFI_ALLOCATE_TYPE \<Rightarrow> u64
   \<Rightarrow> ((Ext4Error + LoadedFile \<times> memory) \<times> PageAllocator) option" where
  "ext4_load_into_pages fuel self allocator mem allocation_type requested_start =
     (if ext4_is_directory (ext4_inode self) then Some (Inl Ext4IsDirectory, allocator) else
      case ext4_file_size_to_page_count (unat (inode_size_bytes (ext4_inode self))) of
        Inl e \<Rightarrow> Some (Inl e, allocator)
      | Inr pages \<Rightarrow>
          (case AllocatePages allocator allocation_type EfiBootServicesData (of_nat (max 1 pages)) requested_start of
             (Inl e, allocator) \<Rightarrow> Some (Inl (Ext4Memory e), allocator)
           | (Inr start, allocator) \<Rightarrow> ext4_load_contents fuel self allocator mem start (max 1 pages)))"

definition ext4_load :: "nat \<Rightarrow> Ext4File \<Rightarrow> PageAllocator \<Rightarrow> memory \<Rightarrow> ((Ext4Error + LoadedFile \<times> memory) \<times> PageAllocator) option" where
  "ext4_load fuel self allocator mem = ext4_load_into_allocated_pages fuel self allocator mem"

definition ext4_load_at ::
  "nat \<Rightarrow> Ext4File \<Rightarrow> PageAllocator \<Rightarrow> memory \<Rightarrow> u64 \<Rightarrow> ((Ext4Error + LoadedFile \<times> memory) \<times> PageAllocator) option" where
  "ext4_load_at fuel self allocator mem start = ext4_load_into_pages fuel self allocator mem AllocateAddress start"

end
