(* ===== verification/Ext4Blocks.thy ===== *)
theory Ext4Blocks
  imports Ext4 FatSpec
begin

unbundle bit_operations_syntax

text \<open>
  The ext4 reader on the bytes of the disk, below the directories: byte ranges of any alignment, blocks, the
  contents of a file given its extents (bytes of the disk inside an extent, zeros in a hole) and extent trees.
\<close>

section \<open>Byte ranges of the device\<close>

text \<open>The bytes of a disk from a byte offset on.\<close>

definition byte_range :: "u8 list \<Rightarrow> nat \<Rightarrow> nat \<Rightarrow> u8 list" where
  "byte_range disk offset n = take n (drop offset disk)"

lemma disk_bytes_range: "disk_bytes disk s n = byte_range disk (s * 512) n"
  by (simp add: disk_bytes_def byte_range_def)

lemma byte_range_append: "byte_range disk p (n + m) = byte_range disk p n @ byte_range disk (p + n) m"
  unfolding byte_range_def take_add drop_drop by (simp only: add.commute)

lemma byte_range_inside: "off + n \<le> m \<Longrightarrow> take n (drop off (byte_range disk p m)) = byte_range disk (p + off) n"
  by (simp add: byte_range_def drop_take min_def add.commute)

lemma length_byte_range: "p + n \<le> length disk \<Longrightarrow> length (byte_range disk p n) = n"
  by (simp add: byte_range_def)

context reliable_device
begin

lemma sector_lba:
  assumes "unat start * 512 + unat (pos :: u64) < length disk"
  shows "unat (start + pos div 512) = unat start + unat pos div 512" and "start + pos div 512 < sector_count dev"
proof -
  have d: "unat (pos div 512) = unat pos div 512" by (simp add: unat_div)
  have lt: "unat start + unat pos div 512 < unat (sector_count dev)" using assms disk_size by linarith
  then show u: "unat (start + pos div 512) = unat start + unat pos div 512"
    using u64_less [of "sector_count dev"] unat_add_small [of start "pos div 512"] d by simp
  show "start + pos div 512 < sector_count dev" using lt u by (simp add: word_less_nat_alt)
qed

lemma device_bytes_loop_ok:
  assumes "unat start * 512 + unat off + n \<le> length disk" and "unat off + n < 2 ^ 64" and "copied \<le> n"
  shows "device_bytes_loop dev start off n copied out
    = Inr (out @ byte_range disk (unat start * 512 + unat off + copied) (n - copied))"
  using assms
proof (induction "n - copied" arbitrary: copied out rule: less_induct)
  case less
  show ?case
  proof (cases "copied < n")
    case False
    then show ?thesis by (subst device_bytes_loop.simps) (simp add: byte_range_def)
  next
    case True
    define pos where "pos = off + of_nat copied"
    have pos: "unat pos = unat off + copied"
      using True less.prems(2) unat_add_small [of off "of_nat copied"] by (simp add: pos_def unat_of_nat)
    define so where "so = unat pos mod 512"
    define k where "k = min (n - copied) (512 - so)"
    have so: "so < 512" by (simp add: so_def)
    have k: "0 < k" "copied + k \<le> n" "so + k \<le> 512" using True so by (auto simp: k_def)
    have "unat start * 512 + unat pos < length disk" using less.prems(1) True pos by linarith
    note lba = sector_lba [OF this]
    have rd: "read_blocks dev (start + pos div 512) 512 = Inr (byte_range disk ((unat start + unat pos div 512) * 512) 512)"
      using read_sector [OF lba(2)] lba(1) by (simp add: disk_bytes_range)
    have at: "(unat start + unat pos div 512) * 512 + so = unat start * 512 + unat off + copied"
      using pos mult_div_mod_eq [of 512 "unat pos"] unfolding so_def by (simp add: algebra_simps)
    have piece: "take k (drop so (byte_range disk ((unat start + unat pos div 512) * 512) 512))
        = byte_range disk (unat start * 512 + unat off + copied) k"
      unfolding byte_range_inside [OF k(3)] at ..
    have "device_bytes_loop dev start off n copied out
        = device_bytes_loop dev start off n (copied + k) (out @ byte_range disk (unat start * 512 + unat off + copied) k)"
      using True rd piece
      by (subst device_bytes_loop.simps) (simp add: Let_def pos_def [symmetric] unat_mod so_def [symmetric] k_def [symmetric])
    also have "\<dots> = Inr ((out @ byte_range disk (unat start * 512 + unat off + copied) k)
        @ byte_range disk (unat start * 512 + unat off + (copied + k)) (n - (copied + k)))"
      using k less.prems by (intro less.hyps) auto
    also have "\<dots> = Inr (out @ byte_range disk (unat start * 512 + unat off + copied) (n - copied))"
      using byte_range_append [of disk "unat start * 512 + unat off + copied" k "n - (copied + k)"] k
      by (simp add: add.assoc)
    finally show ?thesis .
  qed
qed

lemma read_device_bytes_ok:
  assumes "unat start * 512 + unat off + n \<le> length disk" and "unat off + n < 2 ^ 64"
  shows "read_device_bytes dev start off n = Inr (byte_range disk (unat start * 512 + unat off) n)"
proof (cases "n \<noteq> 0 \<and> unat off mod 512 = 0 \<and> n mod 512 = 0")
  case True
  then obtain k j where k: "n = k * 512" "0 < k" and j: "unat off = j * 512"
    by (auto elim!: dvdE simp: mult.commute simp flip: dvd_eq_mod_eq_0)
  have "unat start * 512 + unat off < length disk" using assms(1) k by linarith
  note lba = sector_lba [OF this]
  have "unat start + unat off div 512 + k \<le> unat (sector_count dev)"
    using assms(1) k j disk_size by simp
  then have "read_blocks dev (start + off div 512) n = Inr (disk_bytes disk (unat start + unat off div 512) n)"
    using read_ok [OF k(2), of "start + off div 512"] lba(1) assms(2) k(1) by simp
  then show ?thesis using True j by (simp add: read_device_bytes_def disk_bytes_range algebra_simps)
next
  case False
  then show ?thesis using device_bytes_loop_ok [of start off n 0 "[]"] assms
    by (cases "n = 0") (auto simp: read_device_bytes_def byte_range_def)
qed

end

section \<open>Blocks of the volume\<close>

text \<open>A mounted volume on a disk, the byte position of a block, and blocks that lie on the disk.\<close>

definition ext4_on :: "u8 list \<Rightarrow> Ext4Volume \<Rightarrow> bool" where
  "ext4_on disk vol \<longleftrightarrow> reliable_device (ext4_device vol) disk \<and> sectors_per_block vol \<noteq> 0
     \<and> block_size vol = unat (sectors_per_block vol) * 512 \<and> block_size vol \<le> EXT4_MAX_BLOCK_SIZE"

definition block_pos :: "Ext4Volume \<Rightarrow> u64 \<Rightarrow> nat" where
  "block_pos vol b = unat (ext4_start_lba vol) * 512 + unat b * block_size vol"

definition blocks_inside :: "u8 list \<Rightarrow> Ext4Volume \<Rightarrow> u64 \<Rightarrow> nat \<Rightarrow> bool" where
  "blocks_inside disk vol b k \<longleftrightarrow> block_pos vol b + k * block_size vol \<le> length disk"

definition block_bytes :: "u8 list \<Rightarrow> Ext4Volume \<Rightarrow> u64 \<Rightarrow> u8 list" where
  "block_bytes disk vol b = byte_range disk (block_pos vol b) (block_size vol)"

lemma block_size_pos: "ext4_on disk vol \<Longrightarrow> 0 < block_size vol"
  by (simp add: ext4_on_def unat_gt_0)

lemma read_blocks_on:
  assumes on: "ext4_on disk vol" and k: "0 < k" "k * block_size vol < 2 ^ 64" and ins: "blocks_inside disk vol b k"
  shows "read_blocks (ext4_device vol) (block_to_lba vol b) (k * block_size vol)
    = Inr (byte_range disk (block_pos vol b) (k * block_size vol))"
proof -
  let ?s = "unat (sectors_per_block vol)" and ?dev = "ext4_device vol"
  have dev: "reliable_device ?dev disk" and bs: "block_size vol = ?s * 512" and s: "0 < ?s"
    using on by (auto simp: ext4_on_def unat_gt_0)
  have len: "length disk = unat (sector_count ?dev) * 512" using dev by (simp add: reliable_device_def block_device_def)
  have "(unat (ext4_start_lba vol) + unat b * ?s + k * ?s) * 512 \<le> unat (sector_count ?dev) * 512"
    using ins len by (simp add: blocks_inside_def block_pos_def bs algebra_simps)
  then have le: "unat (ext4_start_lba vol) + unat b * ?s + k * ?s \<le> unat (sector_count ?dev)" by simp
  then have lt: "unat (ext4_start_lba vol) + unat b * ?s < 2 ^ 64" using u64_less [of "sector_count ?dev"] by linarith
  then have m: "unat (b * sectors_per_block vol) = unat b * ?s" using unat_mult_small [of b "sectors_per_block vol"] by simp
  then have lba: "unat (block_to_lba vol b) = unat (ext4_start_lba vol) + unat b * ?s"
    using lt unat_add_small [of "ext4_start_lba vol" "b * sectors_per_block vol"] by (simp add: block_to_lba_def)
  have "read_blocks ?dev (block_to_lba vol b) (k * ?s * 512) = Inr (disk_bytes disk (unat (block_to_lba vol b)) (k * ?s * 512))"
    using k s le lba by (intro reliable_device.read_ok [OF dev]) (auto simp: bs mult.assoc)
  then show ?thesis unfolding disk_bytes_range lba by (simp add: bs block_pos_def algebra_simps)
qed

lemma read_block_on:
  assumes "ext4_on disk vol" and "blocks_inside disk vol b 1"
  shows "read_block vol b = Inr (block_bytes disk vol b)"
  using read_blocks_on [OF assms(1), of 1 b] assms
  by (simp add: read_block_def block_bytes_def ext4_on_def EXT4_MAX_BLOCK_SIZE_def)

section \<open>File contents\<close>

definition extent_covers :: "Ext4Volume \<Rightarrow> Ext4Extent \<Rightarrow> nat \<Rightarrow> bool" where
  "extent_covers vol e i \<longleftrightarrow> unat (logical_block e) * block_size vol \<le> i
     \<and> i < (unat (logical_block e) + unat (block_count e)) * block_size vol"

text \<open>The byte \<open>i\<close> of a file with the given extents: a byte of the disk inside an extent, zero in a hole.\<close>

definition file_byte :: "u8 list \<Rightarrow> Ext4Volume \<Rightarrow> Ext4Extent list \<Rightarrow> nat \<Rightarrow> u8" where
  "file_byte disk vol extents i =
     (case find (\<lambda>e. extent_covers vol e i) extents of
        None \<Rightarrow> 0
      | Some e \<Rightarrow> disk ! (block_pos vol (physical_block e) + (i - unat (logical_block e) * block_size vol)))"

text \<open>Extents in ascending order of their logical blocks, without overlap.\<close>

definition ascending :: "Ext4Extent list \<Rightarrow> bool" where
  "ascending extents \<longleftrightarrow> sorted_wrt (\<lambda>e f. unat (logical_block e) + unat (block_count e) \<le> unat (logical_block f)) extents"

lemma length_overwrite: "offset + length bs \<le> length buffer \<Longrightarrow> length (overwrite buffer offset bs) = length buffer"
  by (simp add: overwrite_def)

lemma nth_overwrite:
  assumes "offset + length bs \<le> length buffer" and "i < length buffer"
  shows "overwrite buffer offset bs ! i
    = (if offset \<le> i \<and> i < offset + length bs then bs ! (i - offset) else buffer ! i)"
  using assms by (auto simp: overwrite_def nth_append min_def not_le not_less intro!: arg_cong [where f = "nth buffer"])

lemma overwrite_overwrite:
  assumes "offset + length xs + length ys \<le> length buffer"
  shows "overwrite (overwrite buffer offset xs) (offset + length xs) ys = overwrite buffer offset (xs @ ys)"
proof -
  have "min (length buffer) offset = offset" using assms by simp
  moreover have "drop (length ys) (drop (offset + length xs) buffer) = drop (offset + length (xs @ ys)) buffer"
    unfolding drop_drop length_append by (simp only: ac_simps)
  ultimately show ?thesis by (simp add: overwrite_def add.assoc)
qed

lemma overwrite_Nil: "offset \<le> length buffer \<Longrightarrow> overwrite buffer offset [] = buffer"
  by (simp add: overwrite_def)

lemma blocks_inside_le: "blocks_inside disk vol b k \<Longrightarrow> j \<le> k \<Longrightarrow> blocks_inside disk vol b j"
  unfolding blocks_inside_def using mult_le_mono1 [of j k "block_size vol"] by linarith

text \<open>The block at a distance from another, for blocks on the disk.\<close>

lemma block_offset:
  assumes on: "ext4_on disk vol" and ins: "blocks_inside disk vol b k" and j: "j < k"
  shows "block_pos vol (b + of_nat j) = block_pos vol b + j * block_size vol"
    and "blocks_inside disk vol (b + of_nat j) 1"
proof -
  let ?s = "unat (sectors_per_block vol)" and ?dev = "ext4_device vol"
  have len: "length disk = unat (sector_count ?dev) * 512" and bs: "block_size vol = ?s * 512" and s: "0 < ?s"
    using on by (auto simp: ext4_on_def unat_gt_0 reliable_device_def block_device_def)
  have "(unat b + k) * (?s * 512) \<le> unat (sector_count ?dev) * 512"
    using ins len by (simp add: blocks_inside_def block_pos_def bs algebra_simps)
  then have "(unat b + k) * ?s \<le> unat (sector_count ?dev)" by simp
  moreover have "unat b + k \<le> (unat b + k) * ?s" using s by simp
  ultimately have "unat b + k < 2 ^ 64" using u64_less [of "sector_count ?dev"] by linarith
  then have u: "unat (b + of_nat j) = unat b + j" using j unat_add_small [of b "of_nat j"] by (simp add: unat_of_nat)
  then show p: "block_pos vol (b + of_nat j) = block_pos vol b + j * block_size vol" by (simp add: block_pos_def algebra_simps)
  have "(j + 1) * block_size vol \<le> k * block_size vol" using j by (intro mult_le_mono1) simp
  then show "blocks_inside disk vol (b + of_nat j) 1" using ins by (simp add: blocks_inside_def p)
qed

lemma read_extent_bytes:
  assumes on: "ext4_on disk vol" and ins: "blocks_inside disk vol b k"
    and m: "m \<le> k * block_size vol" "m < 2 ^ 64" and len: "off + m \<le> length buffer"
  shows "rbind (if m div block_size vol \<noteq> 0
             then rbind (ext4_from_device (read_blocks (ext4_device vol) (block_to_lba vol b)
                           (m div block_size vol * block_size vol)))
                    (\<lambda>bs. Inr (overwrite buffer off bs))
             else Inr buffer) (\<lambda>buffer.
      rbind (if m mod block_size vol \<noteq> 0
             then rbind (read_block vol (b + of_nat (m div block_size vol)))
                    (\<lambda>block. Inr (overwrite buffer (off + m div block_size vol * block_size vol) (take (m mod block_size vol) block)))
             else Inr buffer) f)
    = f (overwrite buffer off (byte_range disk (block_pos vol b) m))"
proof -
  let ?bs = "block_size vol"
  define q r where "q = m div ?bs" and "r = m mod ?bs"
  have bs: "0 < ?bs" by (rule block_size_pos [OF on])
  have mq: "m = q * ?bs + r" and r: "r < ?bs" using bs by (simp_all add: q_def r_def)
  have "q * ?bs \<le> k * ?bs" using m(1) mq by linarith
  then have qk: "q \<le> k" using bs by simp
  note ins_q = blocks_inside_le [OF ins qk]
  define xs where "xs = byte_range disk (block_pos vol b) (q * ?bs)"
  have lx: "length xs = q * ?bs" using ins_q by (simp add: xs_def length_byte_range blocks_inside_def)
  have full: "(if q \<noteq> 0 then rbind (ext4_from_device (read_blocks (ext4_device vol) (block_to_lba vol b) (q * ?bs)))
                    (\<lambda>bs. Inr (overwrite buffer off bs)) else Inr buffer) = Inr (overwrite buffer off xs)"
  proof (cases "q = 0")
    case True
    then show ?thesis using len by (simp add: xs_def byte_range_def overwrite_Nil)
  next
    case False
    then have "read_blocks (ext4_device vol) (block_to_lba vol b) (q * ?bs) = Inr xs"
      unfolding xs_def using m(2) mq ins_q by (intro read_blocks_on [OF on]) auto
    then show ?thesis using False by simp
  qed
  have tail: "(if r \<noteq> 0 then rbind (read_block vol (b + of_nat q))
                    (\<lambda>block. Inr (overwrite (overwrite buffer off xs) (off + q * ?bs) (take r block)))
             else Inr (overwrite buffer off xs)) = Inr (overwrite buffer off (byte_range disk (block_pos vol b) m))"
  proof (cases "r = 0")
    case True
    then show ?thesis by (simp add: xs_def mq)
  next
    case False
    have "q < k"
    proof (rule ccontr)
      assume "\<not> q < k"
      then have "k = q" using qk by simp
      then show False using m(1) mq False by simp
    qed
    note o = block_offset [OF on ins this]
    have rd: "read_block vol (b + of_nat q) = Inr (byte_range disk (block_pos vol b + q * ?bs) ?bs)"
      using read_block_on [OF on o(2)] o(1) by (simp add: block_bytes_def)
    have tk: "take r (byte_range disk (block_pos vol b + q * ?bs) ?bs) = byte_range disk (block_pos vol b + q * ?bs) r"
      using r by (simp add: byte_range_def min_def)
    have lr: "length (byte_range disk (block_pos vol b + q * ?bs) r) = r"
      using o(2) r by (intro length_byte_range) (simp add: blocks_inside_def o(1))
    have "overwrite (overwrite buffer off xs) (off + q * ?bs) (byte_range disk (block_pos vol b + q * ?bs) r)
        = overwrite buffer off (xs @ byte_range disk (block_pos vol b + q * ?bs) r)"
      using overwrite_overwrite [of off xs "byte_range disk (block_pos vol b + q * ?bs) r" buffer] lx lr len mq
      by simp
    also have "xs @ byte_range disk (block_pos vol b + q * ?bs) r = byte_range disk (block_pos vol b) m"
      unfolding mq xs_def byte_range_append ..
    finally show ?thesis using False rd tk by simp
  qed
  show ?thesis unfolding q_def [symmetric] r_def [symmetric] full using tail by simp
qed

lemma find_covers_none:
  assumes "\<forall>e \<in> set extents. i < unat (logical_block e) * block_size vol"
  shows "find (\<lambda>e. extent_covers vol e i) extents = None"
  using assms by (auto simp: find_None_iff extent_covers_def)

lemma extents_loop_ok:
  assumes on: "ext4_on disk vol" and n: "n < 2 ^ 64"
    and "ascending extents" and "\<forall>e \<in> set extents. blocks_inside disk vol (physical_block e) (unat (block_count e))"
    and "length buffer = n"
  shows "extents_loop vol n extents buffer = Inr (map (\<lambda>i. case find (\<lambda>e. extent_covers vol e i) extents of
      None \<Rightarrow> buffer ! i
    | Some e \<Rightarrow> disk ! (block_pos vol (physical_block e) + (i - unat (logical_block e) * block_size vol))) [0..<n])"
  using assms(3-)
proof (induction extents arbitrary: buffer)
  case Nil
  then show ?case using map_nth [of buffer] by simp
next
  case (Cons e es)
  let ?bs = "block_size vol" and ?lb = "unat (logical_block e)" and ?c = "unat (block_count e)"
  have bs: "0 < ?bs" by (rule block_size_pos [OF on])
  have after: "\<forall>f \<in> set es. (?lb + ?c) * ?bs \<le> unat (logical_block f) * ?bs"
    using Cons.prems(1) by (auto simp: ascending_def)
  have asc: "ascending es" using Cons.prems(1) by (simp add: ascending_def)
  show ?case
  proof (cases "n \<le> ?lb * ?bs")
    case True
    have "find (\<lambda>f. extent_covers vol f i) (e # es) = None" if "i < n" for i
      using after True that by (intro find_covers_none) (auto simp: algebra_simps)
    then have "map (\<lambda>i. case find (\<lambda>f. extent_covers vol f i) (e # es) of None \<Rightarrow> buffer ! i
        | Some e \<Rightarrow> disk ! (block_pos vol (physical_block e) + (i - unat (logical_block e) * ?bs))) [0..<n]
      = map ((!) buffer) [0..<n]" by (intro map_cong) simp_all
    also have "\<dots> = buffer" using Cons.prems(3) map_nth [of buffer] by simp
    finally have eq: "map (\<lambda>i. case find (\<lambda>f. extent_covers vol f i) (e # es) of None \<Rightarrow> buffer ! i
        | Some e \<Rightarrow> disk ! (block_pos vol (physical_block e) + (i - unat (logical_block e) * ?bs))) [0..<n] = buffer" .
    show ?thesis unfolding eq using True by (simp add: Let_def)
  next
    case False
    define m where "m = min (n - ?lb * ?bs) (?c * ?bs)"
    define bytes where "bytes = byte_range disk (block_pos vol (physical_block e)) m"
    have m: "m \<le> ?c * ?bs" "m < 2 ^ 64" "?lb * ?bs + m \<le> n" using n False by (auto simp: m_def)
    have ins: "blocks_inside disk vol (physical_block e) ?c" using Cons.prems(2) by simp
    have lb: "length bytes = m" using ins m(1) by (simp add: bytes_def length_byte_range blocks_inside_def)
    have len: "length (overwrite buffer (?lb * ?bs) bytes) = n"
      using m(3) Cons.prems(3) lb by (simp add: length_overwrite)
    have "extents_loop vol n (e # es) buffer = extents_loop vol n es (overwrite buffer (?lb * ?bs) bytes)"
      unfolding extents_loop.simps Let_def if_not_P [OF False] m_def [symmetric] bytes_def
      using m(3) Cons.prems(3) by (intro read_extent_bytes [OF on ins m(1,2)]) simp
    also have "\<dots> = Inr (map (\<lambda>i. case find (\<lambda>e. extent_covers vol e i) es of
        None \<Rightarrow> overwrite buffer (?lb * ?bs) bytes ! i
      | Some e \<Rightarrow> disk ! (block_pos vol (physical_block e) + (i - unat (logical_block e) * ?bs))) [0..<n])"
      using Cons.prems(2) len by (intro Cons.IH [OF asc]) auto
    also have "\<dots> = Inr (map (\<lambda>i. case find (\<lambda>e. extent_covers vol e i) (e # es) of
        None \<Rightarrow> buffer ! i
      | Some e \<Rightarrow> disk ! (block_pos vol (physical_block e) + (i - unat (logical_block e) * ?bs))) [0..<n])"
    proof -
      have "(case find (\<lambda>e. extent_covers vol e i) es of None \<Rightarrow> overwrite buffer (?lb * ?bs) bytes ! i
          | Some e \<Rightarrow> disk ! (block_pos vol (physical_block e) + (i - unat (logical_block e) * ?bs)))
        = (case find (\<lambda>e. extent_covers vol e i) (e # es) of None \<Rightarrow> buffer ! i
          | Some e \<Rightarrow> disk ! (block_pos vol (physical_block e) + (i - unat (logical_block e) * ?bs)))" if i: "i < n" for i
      proof (cases "extent_covers vol e i")
        case True
        then have c: "?lb * ?bs \<le> i" "i < (?lb + ?c) * ?bs" by (simp_all add: extent_covers_def)
        then have none: "find (\<lambda>e. extent_covers vol e i) es = None" using after by (intro find_covers_none ballI less_le_trans [OF c(2)]) blast
        have im: "i - ?lb * ?bs < m" using c i by (auto simp: m_def algebra_simps)
        then have il: "i < ?lb * ?bs + m" using c(1) by linarith
        have "overwrite buffer (?lb * ?bs) bytes ! i = bytes ! (i - ?lb * ?bs)"
          using nth_overwrite [of "?lb * ?bs" bytes buffer i] c(1) il i m(3) lb Cons.prems(3) by simp
        also have "\<dots> = disk ! (block_pos vol (physical_block e) + (i - ?lb * ?bs))"
          using im lb by (simp add: bytes_def byte_range_def)
        finally show ?thesis using True none by simp
      next
        case nc: False
        have "i < ?lb * ?bs \<or> ?lb * ?bs + m \<le> i" using nc m(1) by (auto simp: extent_covers_def algebra_simps)
        then have "overwrite buffer (?lb * ?bs) bytes ! i = buffer ! i"
          using nth_overwrite [of "?lb * ?bs" bytes buffer i] i m(3) lb Cons.prems(3) by auto
        then show ?thesis using nc by (simp split: option.split)
      qed
      then show ?thesis by simp
    qed
    finally show ?thesis .
  qed
qed

section \<open>Extent trees\<close>

lemma ext4_read_eq:
  "o2 + 2 \<le> length bs \<Longrightarrow> ext4_read_u16 bs o2 = Some (of_nat (le_field bs o2 2))"
  "o4 + 4 \<le> length bs \<Longrightarrow> ext4_read_u32 bs o4 = Some (of_nat (le_field bs o4 4))"
  by (simp_all add: ext4_read_u16_def ext4_read_u32_def slice_get_def from_le_bytes_def le_field_def)

lemma unat_read:
  "unat (of_nat (le_field bs off 2) :: u16) = le_field bs off 2" "unat (of_nat (le_field bs off 4) :: u32) = le_field bs off 4"
  using le_field_less [of bs off 2] le_field_less [of bs off 4] by (simp_all add: unat_of_nat)

lemma join_words: "push_bit 32 (ucast (h :: u16)) OR ucast (l :: u32) = (of_nat (unat h * 2 ^ 32 + unat l) :: u64)"
proof -
  have a: "push_bit 32 (ucast h :: u64) AND ucast l = 0"
    by (rule bit_word_eqI) (auto simp: bit_simps dest: bit_imp_le_length)
  have b: "(of_nat (unat h) :: u64) = ucast h" "(of_nat (unat l) :: u64) = ucast l" by simp_all
  show ?thesis unfolding disjunctive_add_eq_or [OF a, symmetric] of_nat_add of_nat_mult b
    by (simp add: push_bit_eq_mult mult.commute)
qed

lemma join_read:
  "push_bit 32 (ucast (of_nat (le_field bs p 2) :: u16)) OR ucast (of_nat (le_field bs q 4) :: u32)
    = (of_nat (le_field bs p 2 * 2 ^ 32 + le_field bs q 4) :: u64)"
  unfolding join_words unat_read ..

text \<open>The header of an extent node with its entry count and depth, the extents of a leaf and the children of an index.\<close>

definition extent_node :: "u8 list \<Rightarrow> nat \<Rightarrow> nat \<Rightarrow> bool" where
  "extent_node node n d \<longleftrightarrow> le_field node 0 2 = 0xf30a \<and> le_field node 2 2 = n \<and> le_field node 6 2 = d
     \<and> 12 + n * 12 \<le> length node"

definition leaf_extent :: "u8 list \<Rightarrow> nat \<Rightarrow> Ext4Extent" where
  "leaf_extent node i =
     \<lparr>logical_block = of_nat (le_field node (12 + i * 12) 4), block_count = of_nat (le_field node (12 + i * 12 + 4) 2),
      physical_block = of_nat (le_field node (12 + i * 12 + 6) 2 * 2 ^ 32 + le_field node (12 + i * 12 + 8) 4)\<rparr>"

definition child_block :: "u8 list \<Rightarrow> nat \<Rightarrow> u64" where
  "child_block node i = of_nat (le_field node (12 + i * 12 + 8) 2 * 2 ^ 32 + le_field node (12 + i * 12 + 4) 4)"

text \<open>\<open>node\<close> is the root of an extent tree of depth \<open>d\<close> on the disk whose leaves hold \<open>extents\<close>, from left to right.\<close>

primrec extent_tree :: "u8 list \<Rightarrow> Ext4Volume \<Rightarrow> nat \<Rightarrow> u8 list \<Rightarrow> Ext4Extent list \<Rightarrow> bool" where
  "extent_tree disk vol 0 node extents \<longleftrightarrow> extent_node node (length extents) 0
     \<and> extents = map (leaf_extent node) [0..<length extents] \<and> (\<forall>e \<in> set extents. unat (block_count e) < 2 ^ 15)"
| "extent_tree disk vol (Suc d) node extents \<longleftrightarrow>
     (\<exists>parts. extent_node node (length parts) (Suc d) \<and> extents = concat parts
       \<and> (\<forall>i < length parts. blocks_inside disk vol (child_block node i) 1
            \<and> extent_tree disk vol d (block_bytes disk vol (child_block node i)) (parts ! i)))"

lemma extent_header_node: "extent_node node n d \<Longrightarrow> d \<le> 5 \<Longrightarrow> extent_header node = Inr (n, of_nat d)"
  using unat_read(1) [of node 6] unat_read(1) [of node 2]
  by (auto simp: extent_header_def extent_node_def ext4_read_eq EXT4_EXTENT_MAGIC_def EXT4_MAX_EXTENT_DEPTH_def
      word_less_nat_alt)

lemma bit15_clear: "unat (w :: u16) < 2 ^ 15 \<Longrightarrow> w AND 0x8000 = 0"
proof -
  assume "unat w < 2 ^ 15"
  then have "take_bit 15 w = w" by (simp add: word_unat_eq_iff unat_take_bit_word)
  then have "w AND 0x8000 = (w AND mask 15) AND 0x8000" by (simp add: take_bit_eq_mask)
  also have "\<dots> = w AND (mask 15 AND 0x8000)" by (simp add: and.assoc)
  also have "mask 15 AND 0x8000 = (0 :: u16)" by (simp add: mask_eq_exp_minus_1)
  finally show ?thesis by simp
qed

lemma leaf_loop_ok:
  assumes node: "12 + n * 12 \<le> length node" and cnt: "\<forall>i < n. le_field node (12 + i * 12 + 4) 2 < 2 ^ 15"
    and "length acc + (n - k) \<le> 128" and "k \<le> n"
  shows "leaf_loop node n k acc = (Inr (), acc @ map (leaf_extent node) [k..<n])"
  using assms(3,4)
proof (induction "n - k" arbitrary: k acc)
  case 0
  then show ?case by (subst leaf_loop.simps) simp
next
  case (Suc j)
  then have k: "k < n" by simp
  then have "(k + 1) * 12 \<le> n * 12" by (intro mult_le_mono1) simp
  then have in_node: "12 + k * 12 + 12 \<le> length node" using node by simp
  have len: "length acc < 128" using Suc.prems(1) k by simp
  have bit: "of_nat (le_field node (12 + k * 12 + 4) 2) AND 0x8000 = (0 :: u16)"
    using cnt k by (intro bit15_clear) (simp add: unat_read)
  have "leaf_loop node n k acc = leaf_loop node n (k + 1) (acc @ [leaf_extent node k])"
    using k in_node len bit
    by (subst leaf_loop.simps) (simp add: Let_def ext4_read_eq EXT4_MAX_EXTENTS_def join_read leaf_extent_def add.assoc
        del: of_nat_add of_nat_mult)
  also have "\<dots> = (Inr (), (acc @ [leaf_extent node k]) @ map (leaf_extent node) [k + 1..<n])"
    using Suc k by (intro Suc.hyps(1)) auto
  finally show ?case using k by (simp add: upt_conv_Cons)
qed

lemma index_loop_ok:
  assumes on: "ext4_on disk vol" and node: "12 + length parts * 12 \<le> length node"
    and child: "\<And>i acc. i < length parts \<Longrightarrow> length acc + length (parts ! i) \<le> 128 \<Longrightarrow>
      blocks_inside disk vol (child_block node i) 1
      \<and> collect (block_bytes disk vol (child_block node i)) acc = Some (Inr (), acc @ parts ! i)"
    and "length acc + length (concat (drop k parts)) \<le> 128" and "k \<le> length parts"
  shows "index_loop collect vol node (length parts) k acc = Some (Inr (), acc @ concat (drop k parts))"
  using assms(4,5)
proof (induction "length parts - k" arbitrary: k acc)
  case 0
  then show ?case by (subst index_loop.simps) simp
next
  case (Suc j)
  then have k: "k < length parts" by simp
  then have "(k + 1) * 12 \<le> length parts * 12" by (intro mult_le_mono1) simp
  then have in_node: "12 + k * 12 + 12 \<le> length node" using node by simp
  have dk: "drop k parts = parts ! k # drop (k + 1) parts" using k by (simp add: Cons_nth_drop_Suc)
  have c: "blocks_inside disk vol (child_block node k) 1"
    "collect (block_bytes disk vol (child_block node k)) acc = Some (Inr (), acc @ parts ! k)"
    using child [OF k, of acc] Suc.prems(1) dk by auto
  have rd: "read_block vol (push_bit 32 (ucast (of_nat (le_field node (12 + k * 12 + 8) 2) :: u16))
      OR ucast (of_nat (le_field node (12 + k * 12 + 4) 4) :: u32)) = Inr (block_bytes disk vol (child_block node k))"
    unfolding join_read child_block_def [symmetric] by (rule read_block_on [OF on c(1)])
  have "index_loop collect vol node (length parts) k acc = index_loop collect vol node (length parts) (k + 1) (acc @ parts ! k)"
    using k in_node c(2) rd by (subst index_loop.simps) (simp add: Let_def ext4_read_eq add.assoc)
  also have "\<dots> = Some (Inr (), (acc @ parts ! k) @ concat (drop (k + 1) parts))"
    using Suc k dk by (intro Suc.hyps(1)) auto
  finally show ?case by (simp add: dk)
qed

lemma collect_extent_node_ok:
  assumes on: "ext4_on disk vol"
  shows "extent_tree disk vol d node extents \<Longrightarrow> d \<le> 5 \<Longrightarrow> d < fuel \<Longrightarrow> length acc + length extents \<le> 128
    \<Longrightarrow> collect_extent_node fuel vol node acc = Some (Inr (), acc @ extents)"
proof (induction d arbitrary: node extents fuel acc)
  case 0
  then obtain f where f: "fuel = Suc f" by (cases fuel) auto
  let ?n = "length extents"
  have ex: "extents = map (leaf_extent node) [0..<?n]" and node: "extent_node node ?n 0"
    and small: "\<forall>e \<in> set extents. unat (block_count e) < 2 ^ 15" using "0.prems"(1) by auto
  have "le_field node (12 + i * 12 + 4) 2 < 2 ^ 15" if "i < ?n" for i
  proof -
    have "leaf_extent node i \<in> set extents" by (subst ex) (use that in simp)
    then show ?thesis using small unat_read(1) [of node "12 + i * 12 + 4"] by (auto simp: leaf_extent_def)
  qed
  then have "leaf_loop node ?n 0 acc = (Inr (), acc @ extents)"
    using leaf_loop_ok [of ?n node acc 0] node "0.prems"(4) ex by (simp add: extent_node_def)
  then show ?case using extent_header_node [OF node] f by simp
next
  case (Suc d)
  then obtain f where f: "fuel = Suc f" "d < f" by (cases fuel) auto
  from Suc.prems(1) obtain parts where p: "extent_node node (length parts) (Suc d)" "extents = concat parts"
    "\<forall>i < length parts. blocks_inside disk vol (child_block node i) 1
       \<and> extent_tree disk vol d (block_bytes disk vol (child_block node i)) (parts ! i)" by auto
  have nz: "(of_nat (Suc d) :: u16) \<noteq> 0" using Suc.prems(2) by (simp add: word_unat_eq_iff unat_of_nat del: of_nat_Suc)
  have "index_loop (collect_extent_node f vol) vol node (length parts) 0 acc = Some (Inr (), acc @ concat (drop 0 parts))"
  proof (rule index_loop_ok [OF on])
    show "12 + length parts * 12 \<le> length node" using p(1) by (simp add: extent_node_def)
    show "length acc + length (concat (drop 0 parts)) \<le> 128" using Suc.prems(4) p(2) by simp
  qed (use p(3) Suc.IH [OF _ _ f(2)] Suc.prems(2) in auto)
  then show ?case using extent_header_node [OF p(1) Suc.prems(2)] nz f(1) p(2) by (simp del: of_nat_Suc)
qed

text \<open>A node whose first child is the node itself: the recursion has no bottom.\<close>

lemma collect_self_child:
  assumes header: "extent_header node = Inr (n, d)" and "0 < n" and "d \<noteq> 0" and len: "24 \<le> length node"
    and self: "read_block vol (child_block node 0) = Inr node"
  shows "collect_extent_node fuel vol node acc = None"
proof (induction fuel arbitrary: acc)
  case (Suc fuel)
  have rd: "read_block vol (push_bit 32 (ucast (of_nat (le_field node 20 2) :: u16))
      OR ucast (of_nat (le_field node 16 4) :: u32)) = Inr node"
    using self unfolding join_read by (simp add: child_block_def)
  have "index_loop (collect_extent_node fuel vol) vol node n 0 acc = None"
    using assms(2) len rd Suc.IH by (subst index_loop.simps) (simp add: Let_def ext4_read_eq)
  then show ?case using header assms(3) by simp
qed simp

end
