(* ===== verification/Ext4Spec.thy ===== *)
theory Ext4Spec
  imports Ext4Blocks
begin

text \<open>
  What the ext4 reader promises, on the bytes of the disk.
\<close>

section \<open>Directories\<close>

text \<open>The entries of a directory block from an offset on: records that fill the block to its end.\<close>

definition entry_at :: "u8 list \<Rightarrow> nat \<Rightarrow> u32 \<Rightarrow> u8 list \<Rightarrow> nat \<Rightarrow> bool" where
  "entry_at block off number name rl \<longleftrightarrow>
     le_field block off 4 = unat number \<and> le_field block (off + 4) 2 = rl \<and> le_field block (off + 6) 1 = length name
     \<and> take (length name) (drop (off + 8) block) = name
     \<and> 8 + length name \<le> rl \<and> 4 dvd rl \<and> off + rl \<le> length block"

fun directory_block :: "u8 list \<Rightarrow> nat \<Rightarrow> (u32 \<times> u8 list) list \<Rightarrow> bool" where
  "directory_block block off [] \<longleftrightarrow> off = length block"
| "directory_block block off ((number, name) # es) \<longleftrightarrow>
     entry_at block off number name (le_field block (off + 4) 2) \<and> directory_block block (off + le_field block (off + 4) 2) es"

definition lookup_entry :: "(u32 \<times> u8 list) list \<Rightarrow> u8 list \<Rightarrow> u32 option" where
  "lookup_entry es component = map_option fst (find (\<lambda>(number, name). number \<noteq> 0 \<and> name = component) es)"

lemma lookup_entry_simps [simp]:
  "lookup_entry [] component = None"
  "lookup_entry ((number, name) # es) component
     = (if number \<noteq> 0 \<and> name = component then Some number else lookup_entry es component)"
  by (simp_all add: lookup_entry_def)

lemma lookup_entry_append:
  "lookup_entry (xs @ ys) component = (case lookup_entry xs component of None \<Rightarrow> lookup_entry ys component | Some n \<Rightarrow> Some n)"
  by (induction xs) auto

lemma directory_entry_at_ok:
  assumes "entry_at block off number name rl"
  shows "directory_entry_at (length block) block off = Inr (number, name, rl)"
proof -
  have lens: "8 + length name \<le> rl" "rl mod 4 = 0" "off + rl \<le> length block" using assms by (auto simp: entry_at_def dvd_eq_mod_eq_0)
  have n: "of_nat (le_field block off 4) = number" using assms by (simp add: entry_at_def)
  have r: "unat (of_nat (le_field block (off + 4) 2) :: u16) = rl" using assms unat_read(1) [of block "off + 4"] by (simp add: entry_at_def)
  have "take 1 (drop (off + 6) block) = [block ! (off + 6)]" using lens by (simp add: take_Suc_conv_app_nth)
  then have b: "unat (block ! (off + 6)) = length name" using assms by (simp add: entry_at_def le_field_def)
  have name: "take (length name) (drop (off + 8) block) = name" using assms by (simp add: entry_at_def)
  show ?thesis using lens n r b name by (simp add: directory_entry_at_def ext4_read_eq Let_def)
qed

lemma directory_block_end: "directory_block block off es \<Longrightarrow> off \<le> length block"
  by (cases es) (auto simp: entry_at_def)

lemma find_in_block_ok:
  assumes "directory_block block off es"
  shows "find_in_block (length block) block component off = Inr (lookup_entry es component)"
  using assms
proof (induction es arbitrary: off)
  case Nil
  then show ?case by (subst find_in_block.simps) simp
next
  case (Cons e es)
  obtain number name where e: "e = (number, name)" by (cases e)
  let ?rl = "le_field block (off + 4) 2"
  have at: "entry_at block off number name ?rl" and rest: "directory_block block (off + ?rl) es" using Cons.prems e by auto
  have "off + 8 \<le> length block" using at by (auto simp: entry_at_def)
  then show ?case using directory_entry_at_ok [OF at] Cons.IH [OF rest]
    by (subst find_in_block.simps) (simp add: e)
qed

text \<open>The blocks of an extent, the entries of a list of blocks and of a directory.\<close>

definition extent_blocks :: "Ext4Extent \<Rightarrow> u64 list" where
  "extent_blocks e = map (\<lambda>j. physical_block e + of_nat j) [0..<unat (block_count e)]"

fun blocks_hold :: "u8 list \<Rightarrow> Ext4Volume \<Rightarrow> u64 list \<Rightarrow> (u32 \<times> u8 list) list \<Rightarrow> bool" where
  "blocks_hold disk vol [] es \<longleftrightarrow> es = []"
| "blocks_hold disk vol (b # bs) es \<longleftrightarrow>
     (\<exists>xs ys. es = xs @ ys \<and> blocks_inside disk vol b 1 \<and> directory_block (block_bytes disk vol b) 0 xs
       \<and> blocks_hold disk vol bs ys)"

lemma blocks_hold_append:
  "blocks_hold disk vol (bs @ cs) es \<Longrightarrow> \<exists>xs ys. es = xs @ ys \<and> blocks_hold disk vol bs xs \<and> blocks_hold disk vol cs ys"
proof (induction bs arbitrary: es)
  case (Cons b bs)
  from Cons.prems obtain xs ys where x: "es = xs @ ys" "blocks_inside disk vol b 1"
    "directory_block (block_bytes disk vol b) 0 xs" "blocks_hold disk vol (bs @ cs) ys" by auto
  from Cons.IH [OF x(4)] obtain us vs where "ys = us @ vs" "blocks_hold disk vol bs us" "blocks_hold disk vol cs vs" by blast
  then have "es = (xs @ us) @ vs" "blocks_hold disk vol (b # bs) (xs @ us)" using x by auto
  then show ?case using \<open>blocks_hold disk vol cs vs\<close> by blast
qed simp

lemma length_block_bytes: "blocks_inside disk vol b 1 \<Longrightarrow> length (block_bytes disk vol b) = block_size vol"
  by (simp add: block_bytes_def blocks_inside_def length_byte_range)

lemma u16_Suc: "k < c \<Longrightarrow> unat (k + 1) = Suc (unat (k :: u16))"
proof -
  assume "k < c"
  moreover have "unat c < 2 ^ 16" using unsigned_less [of c] by simp
  ultimately show ?thesis using unat_add_small [of k 1] by (simp add: word_less_nat_alt)
qed

lemma find_in_extent_ok:
  assumes on: "ext4_on disk vol"
    and "blocks_hold disk vol (map (\<lambda>j. physical_block e + of_nat j) [unat k..<unat (block_count e)]) es"
    and "k \<le> block_count e"
  shows "find_in_extent vol component e k = Inr (lookup_entry es component)"
  using assms(2,3)
proof (induction "unat (block_count e) - unat k" arbitrary: k es rule: less_induct)
  case less
  show ?case
  proof (cases "k < block_count e")
    case False
    then show ?thesis using less.prems by (subst find_in_extent.simps) (simp add: word_less_nat_alt)
  next
    case True
    then have k: "unat k < unat (block_count e)" by (simp add: word_less_nat_alt)
    note k1 = u16_Suc [OF True]
    have uk: "(of_nat (unat k) :: u64) = ucast k" by simp
    obtain xs ys where es: "es = xs @ ys" "blocks_inside disk vol (physical_block e + ucast k) 1"
      "directory_block (block_bytes disk vol (physical_block e + ucast k)) 0 xs"
      "blocks_hold disk vol (map (\<lambda>j. physical_block e + of_nat j) [unat (k + 1)..<unat (block_count e)]) ys"
      using less.prems(1) unfolding upt_conv_Cons [OF k] list.map uk k1 blocks_hold.simps by blast
    have IH: "find_in_extent vol component e (k + 1) = Inr (lookup_entry ys component)"
      using es(4) k k1 by (intro less.hyps) (auto simp: word_le_nat_alt)
    show ?thesis
      using True read_block_on [OF on es(2)] find_in_block_ok [OF es(3), of component] length_block_bytes [OF es(2)] IH
      by (subst find_in_extent.simps) (simp add: es(1) lookup_entry_append split: option.split)
  qed
qed

lemma find_in_extents_ok:
  assumes "ext4_on disk vol" and "blocks_hold disk vol (concat (map extent_blocks extents)) es"
  shows "find_in_extents vol component extents
    = (case lookup_entry es component of None \<Rightarrow> Inl Ext4NotFound | Some number \<Rightarrow> Inr number)"
  using assms(2)
proof (induction extents arbitrary: es)
  case (Cons e extents)
  from Cons.prems have "blocks_hold disk vol (extent_blocks e @ concat (map extent_blocks extents)) es" by simp
  from blocks_hold_append [OF this] obtain xs ys where es: "es = xs @ ys" "blocks_hold disk vol (extent_blocks e) xs"
    "blocks_hold disk vol (concat (map extent_blocks extents)) ys" by blast
  have "find_in_extent vol component e 0 = Inr (lookup_entry xs component)"
    using es(2) by (intro find_in_extent_ok [OF assms(1)]) (simp_all add: extent_blocks_def)
  then show ?case using Cons.IH [OF es(3)] by (simp add: es(1) lookup_entry_append split: option.split)
qed simp

text \<open>An inode that is a directory with the given entries.\<close>

definition ext4_directory :: "u8 list \<Rightarrow> Ext4Volume \<Rightarrow> Ext4Inode \<Rightarrow> (u32 \<times> u8 list) list \<Rightarrow> bool" where
  "ext4_directory disk vol inode es \<longleftrightarrow> uses_extents inode
     \<and> (\<exists>d extents. d \<le> 5 \<and> extent_tree disk vol d (block_data inode) extents \<and> length extents \<le> 128
          \<and> blocks_hold disk vol (concat (map extent_blocks extents)) es)"

lemma collect_inode_extents_ok:
  assumes "ext4_on disk vol" and "uses_extents inode" and "extent_tree disk vol d (block_data inode) extents"
    and "d \<le> 5" and "d < fuel" and "length extents \<le> 128"
  shows "collect_inode_extents fuel vol inode = Some (Inr extents)"
  using assms(2) collect_extent_node_ok [OF assms(1,3-5), of "[]"] assms(6) by (simp add: collect_inode_extents_def)

lemma find_directory_entry_ok:
  assumes on: "ext4_on disk vol" and dir: "ext4_directory disk vol inode es" and "5 < fuel"
  shows "ext4_find_directory_entry fuel vol inode component
    = Some (case lookup_entry es component of None \<Rightarrow> Inl Ext4NotFound | Some number \<Rightarrow> Inr number)"
proof -
  from dir obtain d extents where d: "uses_extents inode" "d \<le> 5" "extent_tree disk vol d (block_data inode) extents"
    "length extents \<le> 128" "blocks_hold disk vol (concat (map extent_blocks extents)) es"
    by (auto simp: ext4_directory_def)
  then have "collect_inode_extents fuel vol inode = Some (Inr extents)"
    using assms(3) by (intro collect_inode_extents_ok [OF on d(1,3,2)]) simp_all
  then show ?thesis using find_in_extents_ok [OF on d(5)] by (simp add: ext4_find_directory_entry_def)
qed

section \<open>Paths\<close>

text \<open>The components of a path: the non-empty parts between slashes.\<close>

definition path_components :: "u8 list \<Rightarrow> u8 list list" where
  "path_components path = filter (\<lambda>c. c \<noteq> []) (split_slash path)"

lemma split_slash_nonempty: "split_slash bs \<noteq> []"
  by (cases bs) (auto split: list.split)

lemma path_components_slash: "path_components (0x2f # path) = path_components path"
  by (simp add: path_components_def)

lemma path_components_trim: "path_components (trim_leading_separators path) = path_components path"
  by (induction path) (simp_all add: trim_leading_separators_def path_components_slash)

lemma path_components_split:
  assumes "0x2f \<notin> set c" and "c \<noteq> []"
  shows "path_components c = [c]" and "path_components (c @ 0x2f # rest) = c # path_components rest"
  using assms split_slash_plain [of c "[]"] split_slash_plain [of c "0x2f # rest"]
  by (simp_all add: path_components_def)

lemma split_path_component_ok:
  assumes "trim_leading_separators path = path" and "path \<noteq> []"
  obtains c rest where "split_path_component path = Inr (c, rest)" and "path_components path = c # path_components rest"
    and "trim_leading_separators rest = rest"
proof (cases "0x2f \<in> set path")
  case True
  define c rest where "c = takeWhile (\<lambda>b. b \<noteq> 0x2f) path" and "rest = tl (dropWhile (\<lambda>b. b \<noteq> 0x2f) path)"
  have "dropWhile (\<lambda>b. b \<noteq> 0x2f) path \<noteq> []" using True by (simp add: dropWhile_eq_Nil_conv)
  moreover have "hd (dropWhile (\<lambda>b. b \<noteq> 0x2f) path) = 0x2f" using hd_dropWhile [OF calculation] by simp
  ultimately have p: "path = c @ 0x2f # rest"
    using takeWhile_dropWhile_id [of "\<lambda>b. b \<noteq> 0x2f" path] unfolding c_def rest_def by (metis list.collapse)
  have c1: "0x2f \<notin> set c" by (auto simp: c_def dest: set_takeWhileD)
  have "dropWhile (\<lambda>b. b = 0x2f) path \<noteq> []" using assms by (simp add: trim_leading_separators_def)
  from hd_dropWhile [OF this] have "hd path \<noteq> 0x2f" using assms(1) by (simp add: trim_leading_separators_def)
  then have c2: "c \<noteq> []" using p by auto
  show ?thesis
  proof (rule that)
    show "split_path_component path = Inr (c, trim_leading_separators rest)"
      using True assms by (simp add: split_path_component_def c_def rest_def)
    show "path_components path = c # path_components (trim_leading_separators rest)"
      using path_components_split(2) [OF c1 c2, of rest] p by (simp add: path_components_trim)
    show "trim_leading_separators (trim_leading_separators rest) = trim_leading_separators rest"
      by (simp add: trim_leading_separators_def dropWhile_idem)
  qed
next
  case False
  then show ?thesis using assms path_components_split(1) [of path]
    by (intro that [of path "[]"]) (simp_all add: split_path_component_def trim_leading_separators_def path_components_def)
qed

text \<open>A file system as inodes with directory entries, and the disk that holds it.\<close>

type_synonym inode_map = "u32 \<rightharpoonup> Ext4Inode \<times> (u32 \<times> u8 list) list"

definition represents :: "u8 list \<Rightarrow> Ext4Volume \<Rightarrow> inode_map \<Rightarrow> bool" where
  "represents disk vol fs \<longleftrightarrow> (\<forall>n inode es. fs n = Some (inode, es) \<longrightarrow>
     read_inode vol n = Inr inode \<and> \<not> is_symlink inode
     \<and> (ext4_is_directory inode \<longrightarrow> ext4_directory disk vol inode es
          \<and> (\<forall>(m, name) \<in> set es. m \<noteq> 0 \<longrightarrow> m \<in> dom fs)))"

text \<open>Looking a path up in the file system.\<close>

fun lookup_path :: "inode_map \<Rightarrow> u32 \<Rightarrow> u8 list list \<Rightarrow> Ext4Error + u32" where
  "lookup_path fs n [] = Inr n"
| "lookup_path fs n (c # cs) =
     (case fs n of
        None \<Rightarrow> Inl Ext4NotFound
      | Some (inode, es) \<Rightarrow>
          if \<not> ext4_is_directory inode then Inl Ext4NotDirectory
          else if c = str ''.'' then lookup_path fs n cs
          else if c = str ''..'' then Inl Ext4InvalidPath
          else (case lookup_entry es c of
                  None \<Rightarrow> Inl Ext4NotFound
                | Some m \<Rightarrow> lookup_path fs m cs))"

lemma lookup_entry_mem: "lookup_entry es c = Some m \<Longrightarrow> m \<noteq> 0 \<and> (m, c) \<in> set es"
  by (induction es) (auto split: if_splits)

lemma resolve_loop_ok:
  assumes on: "ext4_on disk vol" and rep: "represents disk vol fs" and fuel: "5 < fuel"
    and "n \<in> dom fs" and "trim_leading_separators path = path"
  shows "resolve_loop fuel vol n path depth
    = Some (case lookup_path fs n (path_components path) of Inl e \<Rightarrow> Inl e | Inr m \<Rightarrow> Inr (m, fst (the (fs m))))"
  using assms(4,5)
proof (induction "length path" arbitrary: n path rule: less_induct)
  case less
  from less.prems(1) obtain inode es where n: "fs n = Some (inode, es)" by auto
  then have rd: "read_inode vol n = Inr inode" and sub: "ext4_is_directory inode \<Longrightarrow> ext4_directory disk vol inode es"
    "\<And>m c. ext4_is_directory inode \<Longrightarrow> lookup_entry es c = Some m \<Longrightarrow> m \<in> dom fs"
    using rep unfolding represents_def by (blast, blast, blast dest: lookup_entry_mem)
  show ?case
  proof (cases "path = []")
    case True
    then show ?thesis using n rd by (subst resolve_loop.simps) (simp add: path_components_def)
  next
    case False
    obtain c rest where c: "split_path_component path = Inr (c, rest)" "path_components path = c # path_components rest"
      "trim_leading_separators rest = rest"
      using split_path_component_ok [OF less.prems(2) False] .
    have IH: "m \<in> dom fs \<Longrightarrow> resolve_loop fuel vol m rest depth
      = Some (case lookup_path fs m (path_components rest) of Inl e \<Rightarrow> Inl e | Inr m \<Rightarrow> Inr (m, fst (the (fs m))))" for m
      using split_path_component_shorter [OF c(1) False] c(3) by (intro less.hyps)
    show ?thesis
    proof (cases "ext4_is_directory inode \<and> c \<noteq> str ''.'' \<and> c \<noteq> str ''..''")
      case False
      then show ?thesis using rd \<open>path \<noteq> []\<close> c(1,2) n IH [OF less.prems(1)]
        by (subst resolve_loop.simps) auto
    next
      case dir: True
      then have fe: "ext4_find_directory_entry fuel vol inode c
          = Some (case lookup_entry es c of None \<Rightarrow> Inl Ext4NotFound | Some number \<Rightarrow> Inr number)"
        using find_directory_entry_ok [OF on sub(1) fuel] by simp
      show ?thesis
      proof (cases "lookup_entry es c")
        case None
        then show ?thesis using rd \<open>path \<noteq> []\<close> c(1,2) n dir fe by (subst resolve_loop.simps) simp
      next
        case (Some m)
        then have m: "m \<in> dom fs" using sub(2) dir by simp
        then obtain child es' where "fs m = Some (child, es')" by auto
        then have "read_inode vol m = Inr child" "\<not> is_symlink child" using rep by (auto simp: represents_def)
        then show ?thesis using rd \<open>path \<noteq> []\<close> c(1,2) n dir fe Some IH [OF m]
          by (subst resolve_loop.simps) simp
      qed
    qed
  qed
qed

lemma resolve_path_ok:
  assumes "ext4_on disk vol" and "represents disk vol fs" and "5 < fuel" and "EXT4_ROOT_INODE \<in> dom fs"
  shows "resolve_path fuel vol path depth = Some (case lookup_path fs EXT4_ROOT_INODE (path_components path) of
      Inl e \<Rightarrow> Inl e | Inr m \<Rightarrow> Inr (m, fst (the (fs m))))"
proof -
  have "trim_leading_separators (trim_leading_separators path) = trim_leading_separators path"
    by (simp add: trim_leading_separators_def dropWhile_idem)
  from resolve_loop_ok [OF assms this, of depth] show ?thesis
    by (simp add: resolve_path_def resolve_path_from_def path_components_trim)
qed

lemma lookup_path_dom:
  assumes "represents disk vol fs"
  shows "n \<in> dom fs \<Longrightarrow> lookup_path fs n cs = Inr m \<Longrightarrow> m \<in> dom fs"
proof (induction cs arbitrary: n)
  case (Cons c cs)
  from Cons.prems(1) obtain inode es where n: "fs n = Some (inode, es)" by auto
  then have "ext4_is_directory inode \<Longrightarrow> lookup_entry es c = Some k \<Longrightarrow> k \<in> dom fs" for k
    using assms unfolding represents_def by (blast dest: lookup_entry_mem)
  then show ?case using Cons n by (auto split: if_splits option.splits)
qed simp

section \<open>Walks\<close>

text \<open>A walk over a directory handles its entries one by one.\<close>

definition and_then ::
  "(Ext4Error, unit, 's) outcome option \<Rightarrow> ('s \<Rightarrow> (Ext4Error, unit, 's) outcome option) \<Rightarrow> (Ext4Error, unit, 's) outcome option" where
  "and_then r f = (case r of None \<Rightarrow> None | Some (Inl e, s) \<Rightarrow> Some (Inl e, s) | Some (Inr _, s) \<Rightarrow> f s)"

lemma and_then_simps [simp]: "and_then None f = None" "and_then (Some (Inl e, s)) f = Some (Inl e, s)" "and_then (Some (Inr u, s)) f = f s"
  by (simp_all add: and_then_def)

lemma and_then_assoc: "and_then (and_then r f) g = and_then r (\<lambda>s. and_then (f s) g)"
  by (auto simp: and_then_def split: option.split prod.split sum.split)

lemma and_then_None: "and_then r f = None \<longleftrightarrow> r = None \<or> (\<exists>u s. r = Some (Inr u, s) \<and> f s = None)"
  by (auto simp: and_then_def split: option.splits prod.splits sum.splits)

fun visit_entries ::
  "(u32 \<Rightarrow> u8 list \<Rightarrow> 's \<Rightarrow> (Ext4Error, unit, 's) outcome option) \<Rightarrow> (u32 \<times> u8 list) list \<Rightarrow> 's
   \<Rightarrow> (Ext4Error, unit, 's) outcome option" where
  "visit_entries visit [] s = Some (Inr (), s)"
| "visit_entries visit ((number, name) # es) s =
     and_then (if number \<noteq> 0 then visit number name s else Some (Inr (), s)) (visit_entries visit es)"

lemma visit_entries_append: "visit_entries visit (xs @ ys) s = and_then (visit_entries visit xs s) (visit_entries visit ys)"
proof (induction xs arbitrary: s)
  case (Cons x xs)
  then have "visit_entries visit (xs @ ys) = (\<lambda>s. and_then (visit_entries visit xs s) (visit_entries visit ys))" by blast
  then show ?case by (cases x) (simp add: and_then_assoc)
qed simp

lemma visit_entries_returns:
  assumes "\<And>m name s. (m, name) \<in> set es \<Longrightarrow> m \<noteq> 0 \<Longrightarrow> visit m name s \<noteq> None"
  shows "visit_entries visit es s \<noteq> None"
  using assms
proof (induction es arbitrary: s)
  case (Cons e es)
  obtain m name where e: "e = (m, name)" by (cases e)
  have es: "visit_entries visit es s \<noteq> None" for s using Cons.prems by (intro Cons.IH) auto
  have "(if m \<noteq> 0 then visit m name s else Some (Inr (), s)) \<noteq> None" using Cons.prems [of m name s] e by auto
  then show ?case using es unfolding e visit_entries.simps and_then_None by blast
qed simp

lemma walk_block_ok:
  assumes "directory_block block off es"
  shows "walk_block (length block) block visit off s = visit_entries visit es s"
  using assms
proof (induction es arbitrary: off s)
  case Nil
  then show ?case by (subst walk_block.simps) simp
next
  case (Cons e es)
  obtain number name where e: "e = (number, name)" by (cases e)
  let ?rl = "le_field block (off + 4) 2"
  have at: "entry_at block off number name ?rl" and rest: "directory_block block (off + ?rl) es" using Cons.prems e by auto
  have off: "off + 8 \<le> length block" using at by (auto simp: entry_at_def)
  have "walk_block (length block) block visit off s
      = and_then (if number \<noteq> 0 then visit number name s else Some (Inr (), s)) (walk_block (length block) block visit (off + ?rl))"
    using off directory_entry_at_ok [OF at] by (subst walk_block.simps) (simp add: and_then_def)
  moreover have "walk_block (length block) block visit (off + ?rl) = visit_entries visit es" using Cons.IH [OF rest] by blast
  ultimately show ?case by (simp add: e)
qed

lemma walk_extent_ok:
  assumes on: "ext4_on disk vol"
    and "blocks_hold disk vol (map (\<lambda>j. physical_block e + of_nat j) [unat k..<unat (block_count e)]) es"
  shows "walk_extent vol visit e k s = visit_entries visit es s"
  using assms(2)
proof (induction "unat (block_count e) - unat k" arbitrary: k es s rule: less_induct)
  case less
  show ?case
  proof (cases "k < block_count e")
    case False
    then show ?thesis using less.prems by (subst walk_extent.simps) (simp add: word_less_nat_alt)
  next
    case True
    then have k: "unat k < unat (block_count e)" by (simp add: word_less_nat_alt)
    note k1 = u16_Suc [OF True]
    have uk: "(of_nat (unat k) :: u64) = ucast k" by simp
    obtain xs ys where es: "es = xs @ ys" "blocks_inside disk vol (physical_block e + ucast k) 1"
      "directory_block (block_bytes disk vol (physical_block e + ucast k)) 0 xs"
      "blocks_hold disk vol (map (\<lambda>j. physical_block e + of_nat j) [unat (k + 1)..<unat (block_count e)]) ys"
      using less.prems(1) unfolding upt_conv_Cons [OF k] list.map uk k1 blocks_hold.simps by blast
    have IH: "walk_extent vol visit e (k + 1) = visit_entries visit ys"
      using es(4) k k1 by (intro ext less.hyps) auto
    have "walk_extent vol visit e k s = and_then (visit_entries visit xs s) (walk_extent vol visit e (k + 1))"
      using True read_block_on [OF on es(2)] walk_block_ok [OF es(3), of visit s] length_block_bytes [OF es(2)]
      by (subst walk_extent.simps) (auto simp: and_then_def split: option.split prod.split sum.split)
    then show ?thesis by (simp add: es(1) visit_entries_append IH)
  qed
qed

lemma walk_extents_ok:
  assumes "ext4_on disk vol" and "blocks_hold disk vol (concat (map extent_blocks extents)) es"
  shows "walk_extents vol visit extents s = visit_entries visit es s"
  using assms(2)
proof (induction extents arbitrary: es s)
  case (Cons e extents)
  from Cons.prems have "blocks_hold disk vol (extent_blocks e @ concat (map extent_blocks extents)) es" by simp
  from blocks_hold_append [OF this] obtain xs ys where es: "es = xs @ ys" "blocks_hold disk vol (extent_blocks e) xs"
    "blocks_hold disk vol (concat (map extent_blocks extents)) ys" by blast
  have "walk_extent vol visit e 0 s = visit_entries visit xs s"
    using es(2) by (intro walk_extent_ok [OF assms(1)]) (simp add: extent_blocks_def)
  moreover have "walk_extents vol visit extents = visit_entries visit ys" using Cons.IH [OF es(3)] by blast
  ultimately show ?case
    by (auto simp: es(1) visit_entries_append and_then_def split: option.split prod.split sum.split)
qed simp

text \<open>Every directory below another one has a longer path, so the limit on the length of paths bounds the nesting.\<close>

lemma walk_directory_returns:
  assumes on: "ext4_on disk vol" and rep: "represents disk vol fs" and fuel: "5 < fuel"
    and "fs n = Some (inode, es)" and "ext4_is_directory inode" and "EXT4_PATH_BYTES < length path + levels"
    and "length path \<le> EXT4_PATH_BYTES"
  shows "ext4_walk_directory fuel levels vol visitor inode path s \<noteq> None"
  using assms(4-)
proof (induction levels arbitrary: n inode es path s)
  case (Suc levels)
  have dir: "ext4_directory disk vol inode es" and child: "\<And>m name. (m, name) \<in> set es \<Longrightarrow> m \<noteq> 0 \<Longrightarrow> m \<in> dom fs"
    using rep Suc.prems(1,2) unfolding represents_def by (blast, blast)
  from dir obtain d extents where d: "uses_extents inode" "d \<le> 5" "extent_tree disk vol d (block_data inode) extents"
    "length extents \<le> 128" "blocks_hold disk vol (concat (map extent_blocks extents)) es"
    by (auto simp: ext4_directory_def)
  have c: "collect_inode_extents fuel vol inode = Some (Inr extents)"
    using fuel d(2,4) by (intro collect_inode_extents_ok [OF on d(1,3)]) simp_all
  let ?visit = "ext4_visit_entry (ext4_walk_directory fuel levels vol visitor) vol visitor path"
  have "?visit m name s \<noteq> None" if "(m, name) \<in> set es" "m \<noteq> 0" for m name s
  proof -
    from child [OF that] obtain i es' where i: "fs m = Some (i, es')" by auto
    have "ext4_walk_directory fuel levels vol visitor i full s \<noteq> None"
      if "ext4_append_path_component path name = Inr full" "ext4_is_directory i" for full
    proof (rule Suc.IH [OF i that(2)])
      show "EXT4_PATH_BYTES < length full + levels"
        using that(1) Suc.prems(3) by (auto simp: ext4_append_path_component_def us_checked_add_Some split: if_splits)
      show "length full \<le> EXT4_PATH_BYTES"
        using that(1) by (auto simp: ext4_append_path_component_def us_checked_add_Some split: if_splits)
    qed
    then show ?thesis using rep i unfolding represents_def
      by (auto simp: ext4_visit_entry_def split: sum.split)
  qed
  then have "visit_entries ?visit es s \<noteq> None" by (rule visit_entries_returns)
  then show ?case using c walk_extents_ok [OF on d(5), of ?visit s] by simp
qed simp

section \<open>Properties\<close>

text \<open>A byte range of a device is read as the bytes of the disk, whatever its alignment: the fast path for whole
  sectors and the sector-by-sector copy give the same bytes.\<close>

theorem read_device_bytes_correct:
  assumes "reliable_device dev disk" and "unat start * 512 + unat byte_offset + n \<le> length disk"
    and "unat byte_offset + n < 2 ^ 64"
  shows "read_device_bytes dev start byte_offset n = Inr (byte_range disk (unat start * 512 + unat byte_offset) n)"
  by (rule reliable_device.read_device_bytes_ok [OF assms])

text \<open>The extents of an extent tree on the disk are collected from left to right, index blocks of any depth up to
  the limit included, and a recursion one deeper than the tree is enough.\<close>

theorem collect_extent_node_correct:
  assumes "ext4_on disk vol" and "extent_tree disk vol d node extents" and "d \<le> 5" and "length extents \<le> 128"
    and "d < fuel"
  shows "collect_extent_node fuel vol node [] = Some (Inr (), extents)"
  using collect_extent_node_ok [OF assms(1-3,5), of "[]"] assms(4) by simp

text \<open>C30: nothing makes the depth decrease: an index block whose first entry refers to the block itself is entered
  again and again, so the collection of its extents never returns.\<close>

theorem collect_extent_node_cycle:
  assumes "read_block vol (child_block node 0) = Inr node" and "extent_header node = Inr (n, d)" and "0 < n" and "d \<noteq> 0"
  shows "\<forall>fuel. collect_extent_node fuel vol node [] = None"
proof -
  have "12 + n * 12 \<le> length node" using assms(2) by (auto simp: extent_header_def split: if_splits)
  then have "24 \<le> length node" using assms(3) by simp
  then show ?thesis using collect_self_child [OF assms(2-4) _ assms(1)] by blast
qed


lemma read_inode_contents_ok:
  assumes "ext4_on disk vol" and "5 < fuel" and "\<not> ext4_is_directory inode" and "uses_extents inode"
    and "extent_tree disk vol d (block_data inode) extents" and "d \<le> 5" and "length extents \<le> 128"
    and "ascending extents" and "\<forall>e \<in> set extents. blocks_inside disk vol (physical_block e) (unat (block_count e))"
    and "unat (inode_size_bytes inode) \<le> buffer_len"
  shows "read_inode_contents fuel vol inode buffer_len
    = Some (Inr (map (file_byte disk vol extents) [0..<unat (inode_size_bytes inode)]))"
proof -
  let ?n = "unat (inode_size_bytes inode)"
  have "collect_inode_extents fuel vol inode = Some (Inr extents)"
    using assms(2,6) by (intro collect_inode_extents_ok [OF assms(1,4,5,6) _ assms(7)]) simp
  moreover have "extents_loop vol ?n extents (replicate ?n 0) = Inr (map (file_byte disk vol extents) [0..<?n])"
  proof -
    have "map (\<lambda>i. case find (\<lambda>e. extent_covers vol e i) extents of None \<Rightarrow> replicate ?n 0 ! i
        | Some e \<Rightarrow> disk ! (block_pos vol (physical_block e) + (i - unat (logical_block e) * block_size vol))) [0..<?n]
      = map (file_byte disk vol extents) [0..<?n]"
      by (auto simp: file_byte_def split: option.split)
    then show ?thesis using extents_loop_ok [OF assms(1) u64_less assms(8,9), of "replicate ?n 0"] by simp
  qed
  ultimately show ?thesis using assms(3,10) by (auto simp: read_inode_contents_def Let_def)
qed

text \<open>C28: reading a file by its path gives the bytes of the disk its extents map, and zeros where no extent maps the
  file, up to its size.\<close>

theorem ext4_read_file_correct:
  assumes "ext4_on disk vol" and "represents disk vol fs" and "EXT4_ROOT_INODE \<in> dom fs" and "5 < fuel"
    and "lookup_path fs EXT4_ROOT_INODE (path_components path) = Inr n" and "fs n = Some (inode, es)"
    and "\<not> ext4_is_directory inode" and "uses_extents inode"
    and "extent_tree disk vol d (block_data inode) extents" and "d \<le> 5" and "length extents \<le> 128"
    and "ascending extents" and "\<forall>e \<in> set extents. blocks_inside disk vol (physical_block e) (unat (block_count e))"
    and "unat (inode_size_bytes inode) \<le> buffer_len"
  shows "ext4_read_file fuel vol path buffer_len
    = Some (Inr (map (file_byte disk vol extents) [0..<unat (inode_size_bytes inode)]))"
proof -
  have "resolve_path fuel vol path 0 = Some (Inr (n, inode))"
    using resolve_path_ok [OF assms(1,2,4,3), of path 0] assms(5,6) by simp
  then show ?thesis using read_inode_contents_ok [OF assms(1,4,7-14)] by (simp add: ext4_read_file_def)
qed


section \<open>An example volume\<close>

text \<open>Nine blocks of 1024 bytes: two unused, a group descriptor, the inode table, the root directory, the first block of
  a file, the leaf of its extent tree, its last block and an index block that refers to itself. The file \<open>/vmlinuz\<close> has
  2051 bytes, block 1 of it is a hole.\<close>

definition demo_inode :: "u8 list \<Rightarrow> u8 list \<Rightarrow> u8 list \<Rightarrow> u8 list" where
  "demo_inode md sz node = md @ [0, 0] @ sz @ replicate 24 0 @ [0, 0, 8, 0] @ replicate 4 0 @ node @ replicate 64 0"

definition demo_header :: "u8 \<Rightarrow> u8 \<Rightarrow> u8 list" where
  "demo_header n d = [0x0a, 0xf3, n, 0, 4, 0, d, 0, 0, 0, 0, 0]"

definition demo_root_node :: "u8 list" where
  "demo_root_node = demo_header 1 0 @ [0, 0, 0, 0, 1, 0, 0, 0, 4, 0, 0, 0]"

definition demo_file_node :: "u8 list" where
  "demo_file_node = demo_header 1 1 @ [0, 0, 0, 0, 6, 0, 0, 0, 0, 0, 0, 0]"

definition demo_leaf :: "u8 list" where
  "demo_leaf = demo_header 2 0 @ [0, 0, 0, 0, 1, 0, 0, 0, 5, 0, 0, 0] @ [2, 0, 0, 0, 1, 0, 0, 0, 7, 0, 0, 0] @ replicate 988 0"

definition demo_cycle :: "u8 list" where
  "demo_cycle = demo_header 1 1 @ [0, 0, 0, 0, 8, 0, 0, 0, 0, 0, 0, 0] @ replicate 1000 0"

definition demo_directory :: "u8 list" where
  "demo_directory = [2, 0, 0, 0, 12, 0, 1, 2, 0x2e, 0, 0, 0] @ [3, 0, 0, 0, 0xf4, 3, 7, 1] @ str ''vmlinuz'' @ replicate 997 0"

text \<open>The first block of the file, with the two magic numbers of a Linux boot image.\<close>

definition demo_block :: "u8 list" where
  "demo_block = replicate 48 0x41 @ [0x52, 0x49, 0x53, 0x43, 0x56, 0, 0, 0] @ [0x52, 0x53, 0x43, 0x05] @ replicate 964 0x41"

definition demo_disk :: "u8 list" where
  "demo_disk = replicate 2048 0 @ (replicate 8 0 @ [3, 0, 0, 0] @ replicate 1012 0)
     @ (replicate 128 0 @ demo_inode [0, 0x40] [0, 4, 0, 0] demo_root_node @ demo_inode [0, 0x80] [3, 8, 0, 0] demo_file_node
        @ replicate 640 0)
     @ demo_directory @ demo_block @ demo_leaf @ replicate 1024 0x42 @ demo_cycle"

definition demo_volume :: Ext4Volume where
  "demo_volume = \<lparr>ext4_device = FileBlockDevice demo_disk, ext4_start_lba = 0, block_size = 1024, sectors_per_block = 2,
     inodes_per_group = 8, inode_size = 128, group_descriptor_size = 32, group_descriptor_table_block = 2\<rparr>"

definition demo_root :: Ext4Inode where
  "demo_root = \<lparr>inode_number = 2, inode_mode = 0x4000, inode_size_bytes = 1024, inode_flags = 0x80000,
     block_data = demo_root_node @ replicate 36 0\<rparr>"

definition demo_file :: Ext4Inode where
  "demo_file = \<lparr>inode_number = 3, inode_mode = 0x8000, inode_size_bytes = 2051, inode_flags = 0x80000,
     block_data = demo_file_node @ replicate 36 0\<rparr>"

definition demo_fs :: inode_map where
  "demo_fs = [2 \<mapsto> (demo_root, [(2, str ''.''), (3, str ''vmlinuz'')]), 3 \<mapsto> (demo_file, [])]"

definition demo_extents :: "Ext4Extent list" where
  "demo_extents = [\<lparr>logical_block = 0, block_count = 1, physical_block = 5\<rparr>,
     \<lparr>logical_block = 2, block_count = 1, physical_block = 7\<rparr>]"

lemma demo_lengths:
  "length demo_root_node = 24" "length demo_file_node = 24" "length demo_leaf = 1024" "length demo_cycle = 1024"
  "length demo_directory = 1024" "length demo_block = 1024" "length (demo_inode [a, b] [c, d, e, f] node) = 104 + length node"
  by (simp_all add: demo_root_node_def demo_file_node_def demo_leaf_def demo_cycle_def demo_directory_def
      demo_block_def str_def demo_inode_def demo_header_def)

lemma demo_length: "length demo_disk = 9216"
  by (simp add: demo_disk_def demo_lengths)

lemma demo_on: "ext4_on demo_disk demo_volume"
proof -
  have "image_ok demo_disk" using demo_length by (auto simp: image_ok_def)
  then have "reliable_device (FileBlockDevice demo_disk) demo_disk" by (rule FileBlockDevice_reliable)
  then show ?thesis by (simp add: ext4_on_def demo_volume_def EXT4_MAX_BLOCK_SIZE_def)
qed

lemma demo_ranges:
  "byte_range demo_disk 2048 32 = replicate 8 0 @ [3, 0, 0, 0] @ replicate 20 0"
  "byte_range demo_disk 3200 128 = demo_inode [0, 0x40] [0, 4, 0, 0] demo_root_node"
  "byte_range demo_disk 3328 128 = demo_inode [0, 0x80] [3, 8, 0, 0] demo_file_node"
  "byte_range demo_disk 4096 1024 = demo_directory" "byte_range demo_disk 6144 1024 = demo_leaf"
  "byte_range demo_disk 8192 1024 = demo_cycle"
  by (simp_all add: byte_range_def demo_disk_def demo_lengths)

lemma demo_blocks:
  "block_bytes demo_disk demo_volume 4 = demo_directory" "block_bytes demo_disk demo_volume 6 = demo_leaf"
  "block_bytes demo_disk demo_volume 8 = demo_cycle"
  by (simp_all add: block_bytes_def block_pos_def demo_volume_def demo_ranges)

lemma demo_inside: "unat b + k \<le> 9 \<Longrightarrow> blocks_inside demo_disk demo_volume b k"
  by (simp add: blocks_inside_def block_pos_def demo_volume_def demo_length)

lemma demo_bytes:
  assumes "unat off + n \<le> 9216"
  shows "read_volume_bytes demo_volume off n = Inr (byte_range demo_disk (unat off) n)"
proof -
  have "reliable_device (FileBlockDevice demo_disk) demo_disk" using demo_on by (simp add: ext4_on_def demo_volume_def)
  from reliable_device.read_device_bytes_ok [OF this, of 0 off n] show ?thesis
    using assms demo_length by (simp add: read_volume_bytes_def demo_volume_def)
qed

lemma demo_table: "inode_table_block demo_volume 0 = Inr 3"
proof -
  have v: "group_descriptor_size demo_volume = 32" "group_descriptor_table_block demo_volume = 2" "block_size demo_volume = 1024"
    by (simp_all add: demo_volume_def)
  show ?thesis
    using demo_bytes [of 2048 32]
    by (simp add: inode_table_block_def v checked_mul_def checked_add_def demo_ranges Let_def ext4_read_u32_def slice_get_def
        from_le_bytes_def)
qed

lemma demo_inode_read:
  assumes "read_volume_bytes self off 128 = Inr (demo_inode [a, b] [c, d, 0, 0] node)" and "length node = 24"
  shows "ext4_read_u16 (demo_inode [a, b] [c, d, 0, 0] node @ replicate 384 0) 0 = Some (from_le_bytes [a, b])"
    and "ext4_read_u32 (demo_inode [a, b] [c, d, 0, 0] node @ replicate 384 0) 4 = Some (from_le_bytes [c, d, 0, 0])"
    and "ext4_read_u32 (demo_inode [a, b] [c, d, 0, 0] node @ replicate 384 0) 0x20 = Some 0x80000"
    and "ext4_read_u32 (demo_inode [a, b] [c, d, 0, 0] node @ replicate 384 0) 0x6c = Some 0"
    and "take 60 (drop 0x28 (demo_inode [a, b] [c, d, 0, 0] node @ replicate 384 0)) = node @ replicate 36 0"
  using assms(2)
  by (simp_all add: ext4_read_u16_def ext4_read_u32_def slice_get_def demo_inode_def from_le_bytes_def le_nat_zeros
      flip: replicate_add)

lemma demo_read_root: "read_inode demo_volume 2 = Inr demo_root"
  and demo_read_file: "read_inode demo_volume 3 = Inr demo_file"
proof -
  have v: "inodes_per_group demo_volume = 8" "inode_size demo_volume = 128" "block_size demo_volume = 1024"
    by (simp_all add: demo_volume_def)
  have r: "read_volume_bytes demo_volume 3200 128 = Inr (demo_inode [0, 0x40] [0, 4, 0, 0] demo_root_node)"
    "read_volume_bytes demo_volume 3328 128 = Inr (demo_inode [0, 0x80] [3, 8, 0, 0] demo_file_node)"
    using demo_bytes [of 3200 128] demo_bytes [of 3328 128] by (simp_all add: demo_ranges)
  show "read_inode demo_volume 2 = Inr demo_root"
    using r(1) demo_inode_read [OF r(1) demo_lengths(1)]
    by (simp add: read_inode_def v demo_table checked_mul_def checked_add_def demo_lengths EXT4_MAX_INODE_SIZE_def Let_def
        demo_root_def from_le_bytes_def)
  show "read_inode demo_volume 3 = Inr demo_file"
    using r(2) demo_inode_read [OF r(2) demo_lengths(2)]
    by (simp add: read_inode_def v demo_table checked_mul_def checked_add_def demo_lengths EXT4_MAX_INODE_SIZE_def Let_def
        demo_file_def from_le_bytes_def)
qed

lemma demo_flags:
  "ext4_is_directory demo_root" "\<not> ext4_is_directory demo_file" "\<not> is_symlink demo_root" "\<not> is_symlink demo_file"
  "uses_extents demo_root" "uses_extents demo_file"
  by (simp_all add: ext4_is_directory_def is_symlink_def uses_extents_def ext4_modes demo_root_def demo_file_def)

lemma demo_root_tree:
  "extent_tree demo_disk demo_volume 0 (block_data demo_root) [\<lparr>logical_block = 0, block_count = 1, physical_block = 4\<rparr>]"
  by (simp add: extent_node_def leaf_extent_def le_field_def demo_root_def demo_root_node_def demo_header_def)

lemma demo_file_tree: "extent_tree demo_disk demo_volume 1 (block_data demo_file) demo_extents"
proof -
  have c: "child_block (block_data demo_file) 0 = 6"
    by (simp add: child_block_def le_field_def demo_file_def demo_file_node_def demo_header_def)
  have node: "extent_node (block_data demo_file) 1 1"
    by (simp add: extent_node_def le_field_def demo_file_def demo_file_node_def demo_header_def)
  have "extent_tree demo_disk demo_volume 0 demo_leaf demo_extents"
    by (simp add: extent_node_def leaf_extent_def le_field_def demo_leaf_def demo_header_def demo_extents_def)
  then show ?thesis using c node demo_inside [of 6 1] demo_blocks(2)
    by (simp add: exI [of _ "[demo_extents]"] del: extent_tree.simps(1))
qed

lemma demo_entries: "directory_block demo_directory 0 [(2, str ''.''), (3, str ''vmlinuz'')]"
  by (simp add: entry_at_def le_field_def demo_directory_def str_def of_char_def)

lemma demo_represents: "represents demo_disk demo_volume demo_fs"
proof -
  have "blocks_hold demo_disk demo_volume [4] [(2, str ''.''), (3, str ''vmlinuz'')]"
    using demo_entries demo_inside [of 4 1] demo_blocks(1) by simp
  then have "ext4_directory demo_disk demo_volume demo_root [(2, str ''.''), (3, str ''vmlinuz'')]"
    unfolding ext4_directory_def
    by (intro conjI demo_flags(5) exI [of _ 0] exI [of _ "[\<lparr>logical_block = 0, block_count = 1, physical_block = 4\<rparr>]"]
        demo_root_tree) (simp_all add: extent_blocks_def del: directory_block.simps blocks_hold.simps)
  then show ?thesis using demo_read_root demo_read_file demo_flags
    by (auto simp: represents_def demo_fs_def split: if_splits)
qed

lemma demo_root_known: "EXT4_ROOT_INODE \<in> dom demo_fs"
  by (simp add: demo_fs_def EXT4_ROOT_INODE_def)

lemma demo_lookup: "lookup_path demo_fs EXT4_ROOT_INODE (path_components (str ''/./vmlinuz/'')) = Inr 3"
  using demo_flags(1) by (simp add: EXT4_ROOT_INODE_def demo_fs_def path_components_def str_def of_char_def)

theorem read_device_bytes_correct_witness:
  "read_device_bytes (FileBlockDevice demo_disk) 0 3200 128 = Inr (demo_inode [0, 0x40] [0, 4, 0, 0] demo_root_node)
   \<and> read_device_bytes (FileBlockDevice demo_disk) 2 3072 1024 = Inr demo_directory"
proof -
  have dev: "reliable_device (FileBlockDevice demo_disk) demo_disk" using demo_on by (simp add: ext4_on_def demo_volume_def)
  show ?thesis
    using read_device_bytes_correct [OF dev, of 0 3200 128] read_device_bytes_correct [OF dev, of 2 3072 1024]
    by (simp add: demo_length demo_ranges)
qed

theorem collect_extent_node_correct_witness:
  "collect_extent_node 2 demo_volume (block_data demo_file) [] = Some (Inr (), demo_extents)"
  using collect_extent_node_correct [OF demo_on demo_file_tree, of 2] by (simp add: demo_extents_def)

theorem collect_extent_node_cycle_witness:
  "\<forall>fuel. collect_extent_node fuel demo_volume demo_cycle [] = None"
proof -
  have "child_block demo_cycle 0 = 8" by (simp add: child_block_def le_field_def demo_cycle_def demo_header_def)
  then have "read_block demo_volume (child_block demo_cycle 0) = Inr demo_cycle"
    using read_block_on [OF demo_on demo_inside [of 8 1]] demo_blocks(3) by simp
  moreover have "extent_node demo_cycle 1 1" by (simp add: extent_node_def le_field_def demo_cycle_def demo_header_def)
  then have "extent_header demo_cycle = Inr (1, 1)" using extent_header_node [of demo_cycle 1 1] by simp
  ultimately show ?thesis using collect_extent_node_cycle [of demo_volume demo_cycle 1 1] by simp
qed


theorem ext4_read_file_correct_witness:
  "ext4_read_file 6 demo_volume (str ''/./vmlinuz/'') 4096 = Some (Inr (map (file_byte demo_disk demo_volume demo_extents) [0..<2051]))
   \<and> file_byte demo_disk demo_volume demo_extents 1023 = 0x41 \<and> file_byte demo_disk demo_volume demo_extents 1024 = 0
   \<and> file_byte demo_disk demo_volume demo_extents 2050 = 0x42"
proof -
  have sz: "unat (inode_size_bytes demo_file) = 2051" by (simp add: demo_file_def)
  have fs: "demo_fs 3 = Some (demo_file, [])" by (simp add: demo_fs_def)
  have asc: "ascending demo_extents" by (simp add: ascending_def demo_extents_def)
  have ins: "\<forall>e \<in> set demo_extents. blocks_inside demo_disk demo_volume (physical_block e) (unat (block_count e))"
    by (auto simp: demo_extents_def intro: demo_inside)
  have "ext4_read_file 6 demo_volume (str ''/./vmlinuz/'') 4096
      = Some (Inr (map (file_byte demo_disk demo_volume demo_extents) [0..<unat (inode_size_bytes demo_file)]))"
    by (rule ext4_read_file_correct [OF demo_on demo_represents demo_root_known _ demo_lookup fs demo_flags(2,6)
          demo_file_tree _ _ asc ins]) (simp_all add: sz demo_extents_def)
  moreover have "demo_disk ! 6143 = 0x41" "demo_disk ! 7170 = 0x42"
    by (simp_all add: demo_disk_def nth_append demo_lengths) (simp add: demo_block_def nth_append)
  ultimately show ?thesis
    by (simp add: sz file_byte_def extent_covers_def demo_extents_def block_pos_def) (simp add: demo_volume_def)
qed


end
