(* ===== verification/FileSystems.thy ===== *)
theory FileSystems
  imports FatSpec Ext4Spec
begin

text \<open>
  The file-system interface of \<open>src/filesystem.rs\<close> (\<open>trait FileSystem\<close>, \<open>trait FileHandle\<close>), the probe for the
  file system of a partition and the search for the first file that can be loaded.

  A file system is given by its \<open>open\<close> and by the \<open>load\<close> of its handles, with the types of the FAT and the ext4
  model; \<open>None\<close> is a call that does not return. Console messages are not modelled. A load that fails after it
  has taken pages leaves bytes in them that the readers do not describe: \<open>leftover\<close> gives an arbitrary memory for
  each path, and everything that was free before the failed load holds its bytes afterwards.
\<close>

type_synonym ('e, 'h) opener = "u8 list \<Rightarrow> ('e + 'h) option"
type_synonym ('e, 'h) loader = "'h \<Rightarrow> PageAllocator \<Rightarrow> memory \<Rightarrow> (('e + LoadedFile \<times> memory) \<times> PageAllocator) option"

type_synonym leftovers = "u8 list \<Rightarrow> memory"

datatype DetectedFilesystem = DetectedFat | DetectedExt4 | DetectedUnknown

definition detect_partition_filesystem :: "BlockDevice \<Rightarrow> u64 \<Rightarrow> DetectedFilesystem" where
  "detect_partition_filesystem device start =
     (if (case FatVolume_new device start of Inr _ \<Rightarrow> True | Inl _ \<Rightarrow> False) then DetectedFat
      else if (case Ext4Volume_new device start of Inr _ \<Rightarrow> True | Inl _ \<Rightarrow> False) then DetectedExt4
      else DetectedUnknown)"

definition after_failed_load :: "memory \<Rightarrow> PageAllocator \<Rightarrow> memory \<Rightarrow> memory" where
  "after_failed_load leftover allocator mem =
     (\<lambda>a. if map_type allocator (unat a) = Some (type_u32 EfiConventionalMemory) then leftover a else mem a)"

text \<open>\<open>load_first_file\<close>: the candidates are numbered from zero until there is none.\<close>

partial_function (option) load_first_loop ::
  "leftovers \<Rightarrow> ('e, 'h) opener \<Rightarrow> ('e, 'h) loader \<Rightarrow> (nat \<Rightarrow> u8 list option) \<Rightarrow> nat \<Rightarrow> PageAllocator \<times> memory
   \<Rightarrow> ((u8 list \<times> LoadedFile) option \<times> PageAllocator \<times> memory) option" where
  "load_first_loop leftover fs_open fs_load candidate_path index s =
     (case candidate_path index of
        None \<Rightarrow> Some (None, s)
      | Some path \<Rightarrow>
          (case fs_open path of
             None \<Rightarrow> None
           | Some (Inl e) \<Rightarrow> load_first_loop leftover fs_open fs_load candidate_path (index + 1) s
           | Some (Inr handle) \<Rightarrow>
               (case fs_load handle (fst s) (snd s) of
                  None \<Rightarrow> None
                | Some (Inl e, allocator) \<Rightarrow>
                    load_first_loop leftover fs_open fs_load candidate_path (index + 1)
                      (allocator, after_failed_load (leftover path) (fst s) (snd s))
                | Some (Inr (loaded, mem), allocator) \<Rightarrow> Some (Some (path, loaded), allocator, mem))))"

definition load_first_file ::
  "leftovers \<Rightarrow> ('e, 'h) opener \<Rightarrow> ('e, 'h) loader \<Rightarrow> (nat \<Rightarrow> u8 list option) \<Rightarrow> PageAllocator \<times> memory
   \<Rightarrow> ((u8 list \<times> LoadedFile) option \<times> PageAllocator \<times> memory) option" where
  "load_first_file leftover fs_open fs_load candidate_path s = load_first_loop leftover fs_open fs_load candidate_path 0 s"

section \<open>The contract of a loader\<close>

text \<open>A file in pages that were free: only those pages change, in the map and in memory.\<close>

definition stored :: "PageAllocator \<Rightarrow> PageAllocator \<Rightarrow> memory \<Rightarrow> memory \<Rightarrow> LoadedFile \<Rightarrow> bool" where
  "stored a a' mem mem' lf \<longleftrightarrow>
     (let p = unat (physical_start lf); n = page_count lf * 4096 in
      normal a' \<and> 4096 dvd p \<and> 0 < page_count lf \<and> size_bytes lf \<le> n \<and> p + n < 2 ^ 64 \<and> free_at a p n
      \<and> map_type a' = (\<lambda>x. if p \<le> x \<and> x < p + n then Some (type_u32 EfiBootServicesData) else map_type a x)
      \<and> (\<forall>x. n \<le> unat (x - physical_start lf) \<longrightarrow> mem' x = mem x))"

locale file_system =
  fixes fs_open :: "('e, 'h) opener" and fs_load :: "('e, 'h) loader"
  assumes load_stored: "normal a \<Longrightarrow> fs_open path = Some (Inr h) \<Longrightarrow> fs_load h a mem = Some (Inr (lf, mem'), a') \<Longrightarrow>
      stored a a' mem mem' lf"
    and load_failed: "normal a \<Longrightarrow> fs_open path = Some (Inr h) \<Longrightarrow> fs_load h a mem = Some (Inl e, a') \<Longrightarrow>
      normal a' \<and> (a' = a \<or> claims a a')"

lemma allocate_for_size_pages:
  assumes "allocate_pages_for_size self t n = (Inr start, self')"
  obtains P where "AllocatePages self AllocateAnyPages t P 0 = (Inr start, self')" and "unat P = pages_of (unat n)"
proof -
  from assms obtain P where P: "pages_for_size n = Inr P" "AllocatePages self AllocateAnyPages t P 0 = (Inr start, self')"
    by (auto simp: allocate_pages_for_size_def sbind_def split: sum.splits if_splits)
  note b = pages_for_size_Inr [OF P(1)] pages_of_bounds [of "unat n"]
  have "unat P = pages_of (unat n)"
  proof (cases "n = 0")
    case True
    then have "unat P = 1" using b(2,3) unat_gt_0 [of P] by auto
    then show ?thesis using True by (simp add: pages_of_def)
  next
    case False
    then have "unat n \<noteq> 0" by (simp add: unat_eq_zero)
    then show ?thesis using b False by auto
  qed
  then show ?thesis using that P(2) by blast
qed

text \<open>Both readers allocate for the size of the file, fill the pages with zeros and write at most the size.\<close>

lemma stored_load:
  assumes n: "normal a" and al: "allocate_pages_for_size a EfiBootServicesData sz = (Inr start, a')"
    and len: "length bs \<le> unat sz" and k: "k = pages_of (unat sz) * 4096"
  shows "stored a a' mem (write_memory (write_memory mem start (replicate k 0)) start bs)
    (LoadedFile_new start (pages_of (unat sz)) (unat sz))"
proof -
  obtain P where P: "AllocatePages a AllocateAnyPages EfiBootServicesData P 0 = (Inr start, a')" "unat P = pages_of (unat sz)"
    using allocate_for_size_pages [OF al] by blast
  note eff = AllocatePages_effect [OF n P(1)] AllocatePages_aligned [OF n P(1)]
  have "unat sz \<le> k" using pages_of_bounds(1) [of "unat sz"] k by simp
  then have "write_memory (write_memory mem start (replicate k 0)) start bs x = mem x" if "k \<le> unat (x - start)" for x
    using that len by (simp add: write_memory_def)
  then show ?thesis using eff P(2) \<open>unat sz \<le> k\<close> k by (simp add: stored_def LoadedFile_new_def Let_def)
qed

section \<open>FAT volumes as file systems\<close>

lemma from_device_Inr: "from_device r = Inr x \<Longrightarrow> r = Inr x"
  by (cases r) auto

lemma contents_loop_length:
  assumes dev: "block_device (fat_device vol) disk" and spc: "sectors_per_cluster vol \<noteq> 0"
    and r: "contents_loop vol c n out = Some (Inr bs)" and n: "n < 2 ^ 32"
  shows "length bs = length out + n"
  using r n
proof (induction n arbitrary: c out rule: less_induct)
  case (less n)
  let ?spc = "unat (sectors_per_cluster vol)"
  define k where "k = min (n div 512) ?spc"
  have kn: "k * 512 \<le> n" by (auto simp: k_def min_def)
  show ?case
  proof (cases "n = 0")
    case True
    then show ?thesis using less.prems(1) by (subst (asm) contents_loop.simps) simp
  next
    case False
    have pos: "0 < ?spc" using spc by (simp add: unat_gt_0)
    have len: "read_blocks (fat_device vol) s j = Inr xs \<Longrightarrow> j < 2 ^ 64 \<Longrightarrow> length xs = j" for s j xs
      using block_device.read_length [OF dev] by blast
    define tl_len where "tl_len = (if k < ?spc then min (n - k * 512) 512 else 0)"
    note run = less.prems(1) [unfolded contents_loop.simps [of vol c n out] Let_def if_not_P [OF False]
        VIRTIO_SECTOR_SIZE_eq k_def [symmetric] tl_len_def [symmetric]]
    obtain first where f: "cluster_first_sector vol c = Inr first"
      using run by (cases "cluster_first_sector vol c") auto
    note run1 = run [unfolded f sum.case]
    obtain chunk where ch: "(if k \<noteq> 0 then read_relative_blocks_multi vol first (k * 512) else Inr []) = Inr chunk"
      using run1 by (cases "if k \<noteq> 0 then read_relative_blocks_multi vol first (k * 512) else Inr []")
        (simp_all only: sum.case option.inject sum.distinct)
    note rest = run1 [unfolded ch sum.case append_assoc]
    have lc: "length chunk = k * 512"
      using ch len kn less.prems(2) by (auto simp: read_relative_blocks_multi_def split: if_splits dest!: from_device_Inr)
    show ?thesis
    proof (cases "n - k * 512 = 0")
      case True
      then show ?thesis using rest lc kn by auto
    next
      case more: False
      obtain tail where t: "(if k < ?spc then rbind (read_relative_blocks vol (first + of_nat k))
          (\<lambda>t. Inr (take (min (n - k * 512) 512) t)) else Inr []) = Inr tail"
        using rest more by (cases "if k < ?spc then rbind (read_relative_blocks vol (first + of_nat k))
          (\<lambda>t. Inr (take (min (n - k * 512) 512) t)) else Inr []") (simp_all only: sum.case option.inject sum.distinct if_False)
      note rest2 = rest [unfolded if_not_P [OF more] t sum.case]
      have lt: "length tail = tl_len"
        using t len by (auto simp: tl_len_def read_relative_blocks_def split: if_splits dest!: from_device_Inr)
      have le: "k * 512 + tl_len \<le> n" using kn by (auto simp: tl_len_def)
      show ?thesis
      proof (cases "n - k * 512 - tl_len = 0")
        case True
        then show ?thesis using rest2 lc lt le by auto
      next
        case again: False
        then obtain nx where "contents_loop vol nx (n - k * 512 - tl_len) (out @ chunk @ tail) = Some (Inr bs)"
          using rest2 by (auto split: sum.splits if_splits)
        moreover have "n - k * 512 - tl_len < n" using False pos kn by (auto simp: tl_len_def k_def min_def)
        ultimately have "length bs = length (out @ chunk @ tail) + (n - k * 512 - tl_len)"
          using less.prems(2) by (intro less.IH) auto
        then show ?thesis using lc lt le by simp
      qed
    qed
  qed
qed

lemma for_size_step:
  assumes "normal a" and "allocate_pages_for_size a t n = (r, a')"
  shows "normal a' \<and> (a' = a \<or> claims a a')"
  using for_size_cases(1) [OF assms(2)] AllocatePages_step [OF assms(1)] assms(1) by blast

lemma fat_file_system:
  assumes dev: "block_device (fat_device vol) disk" and spc: "sectors_per_cluster vol \<noteq> 0"
  shows "file_system (fat_open vol) fat_load"
proof
  fix a a' :: PageAllocator and path h mem mem' lf
  assume n: "normal a" and o: "fat_open vol path = Some (Inr h)" and l: "fat_load h a mem = Some (Inr (lf, mem'), a')"
  have v: "file_volume h = vol" using o by (auto simp: fat_open_def run_bind_def split: option.splits sum.splits)
  let ?sz = "file_size (file_entry h)"
  have pc: "max 1 ((unat ?sz + 4095) div 4096) = pages_of (unat ?sz)" by (simp add: pages_of_def)
  have small: "pages_of (unat ?sz) * 4096 < 2 ^ 64" using pages_of_small [OF u32_less [of ?sz]] by simp
  from l obtain start a2 where al2: "allocate_pages_for_size a EfiBootServicesData (ucast ?sz) = (Inr start, a2)"
    and c2: "load_contents h a2 mem start (pages_of (unat ?sz)) = Some (Inr (lf, mem'), a')"
    by (auto simp: fat_load_def load_into_allocated_pages_def file_pages simp flip: pc
        split: if_splits prod.splits sum.splits option.splits)
  have "a2 = a'" using c2 by (auto simp: load_contents_def Let_def split: sum.splits option.splits)
  with al2 c2 have al: "allocate_pages_for_size a EfiBootServicesData (ucast ?sz) = (Inr start, a')"
    and c: "load_contents h a' mem start (pages_of (unat ?sz)) = Some (Inr (lf, mem'), a')" by simp_all
  from c small obtain bs where rd: "read_file_contents vol (first_cluster (file_entry h)) ?sz = Some (Inr bs)"
    and lf: "lf = LoadedFile_new start (pages_of (unat ?sz)) (unat ?sz)"
    and m: "mem' = write_memory (write_memory mem start (replicate (pages_of (unat ?sz) * 4096) 0)) start bs"
    by (auto simp: load_contents_def allocation_size_bytes_def us_checked_mul_def v Let_def split: option.splits sum.splits)
  have "length bs = unat ?sz"
    using rd contents_loop_length [OF dev spc, of _ "unat ?sz" "[]" bs] u32_less [of ?sz]
    by (auto simp: read_file_contents_def split: if_splits)
  then show "stored a a' mem mem' lf"
    using stored_load [OF n al, of bs "pages_of (unat ?sz) * 4096" mem] by (simp add: lf m unat_ucast_up)
next
  fix a a' :: PageAllocator and path h mem e
  assume n: "normal a" and l: "fat_load h a mem = Some (Inl e, a')"
  then show "normal a' \<and> (a' = a \<or> claims a a')"
    using for_size_step [OF n]
    by (fastforce simp: fat_load_def load_into_allocated_pages_def load_contents_def Let_def
        split: if_splits prod.splits sum.splits option.splits)
qed

section \<open>ext4 volumes as file systems\<close>

lemma ext4_from_device_Inr: "ext4_from_device r = Inr x \<Longrightarrow> r = Inr x"
  by (cases r) auto

lemma extents_loop_length:
  assumes dev: "block_device (ext4_device vol) disk" and bs: "0 < block_size vol" "block_size vol < 2 ^ 64" and n: "n < 2 ^ 64"
  shows "extents_loop vol n extents buffer = Inr r \<Longrightarrow> length buffer = n \<Longrightarrow> length r = n"
proof (induction extents arbitrary: buffer)
  case (Cons e extents)
  let ?b = "block_size vol" and ?off = "unat (logical_block e) * block_size vol"
  show ?case
  proof (cases "n \<le> ?off")
    case True
    then show ?thesis using Cons.prems by (simp add: Let_def)
  next
    case False
    define k where "k = min (n - ?off) (unat (block_count e) * ?b)"
    have "?off + k \<le> n" using False by (auto simp: k_def)
    moreover have "k div ?b * ?b + k mod ?b = k" by simp
    ultimately have kb: "?off + k div ?b * ?b + k mod ?b \<le> n" by linarith
    then have kn: "?off + k div ?b * ?b \<le> n" "k div ?b * ?b < 2 ^ 64" using n by linarith+
    have len: "read_blocks (ext4_device vol) s j = Inr xs \<Longrightarrow> j < 2 ^ 64 \<Longrightarrow> length xs = j" for s j xs
      using block_device.read_length [OF dev] by blast
    from Cons.prems(1) False obtain b1 b2 where
      b1: "(if k div ?b \<noteq> 0 then rbind (ext4_from_device (read_blocks (ext4_device vol) (block_to_lba vol (physical_block e))
               (k div ?b * ?b))) (\<lambda>bs. Inr (overwrite buffer ?off bs)) else Inr buffer) = Inr b1"
      and b2: "(if k mod ?b \<noteq> 0 then rbind (read_block vol (physical_block e + of_nat (k div ?b)))
               (\<lambda>block. Inr (overwrite b1 (?off + k div ?b * ?b) (take (k mod ?b) block))) else Inr b1) = Inr b2"
      and r: "extents_loop vol n extents b2 = Inr r"
      unfolding extents_loop.simps Let_def if_not_P [OF False] k_def [symmetric] rbind_eq_Inr by blast
    have "length b1 = n"
      using b1 Cons.prems(2) kn by (auto simp: length_overwrite dest!: ext4_from_device_Inr len split: if_splits)
    then have "length b2 = n"
      using b2 kb bs mod_less_divisor [OF bs(1), of k] by (auto simp: read_block_def length_overwrite min_def dest!: ext4_from_device_Inr len split: if_splits)
    then show ?thesis using Cons.IH [OF r] by simp
  qed
qed simp

lemma ext4_file_system:
  assumes dev: "block_device (ext4_device vol) disk" and bs: "0 < block_size vol" "block_size vol < 2 ^ 64"
  shows "file_system (ext4_open fuel vol) (ext4_load fuel)"
proof
  fix a a' :: PageAllocator and path h mem mem' lf
  assume n: "normal a" and o: "ext4_open fuel vol path = Some (Inr h)" and l: "ext4_load fuel h a mem = Some (Inr (lf, mem'), a')"
  have v: "ext4_volume h = vol" using o by (auto simp: ext4_open_def split: option.splits sum.splits)
  let ?sz = "inode_size_bytes (ext4_inode h)"
  from l obtain pages start a2 where pg: "ext4_file_size_to_page_count (unat ?sz) = Inr pages"
    and al2: "allocate_pages_for_size a EfiBootServicesData ?sz = (Inr start, a2)"
    and c2: "ext4_load_contents fuel h a2 mem start (max 1 pages) = Some (Inr (lf, mem'), a')"
    by (auto simp: ext4_load_def ext4_load_into_allocated_pages_def split: if_splits prod.splits sum.splits option.splits)
  have "a2 = a'" using c2 by (auto simp: ext4_load_contents_def Let_def split: sum.splits option.splits)
  with al2 c2 have al: "allocate_pages_for_size a EfiBootServicesData ?sz = (Inr start, a')"
    and c: "ext4_load_contents fuel h a' mem start (max 1 pages) = Some (Inr (lf, mem'), a')" by simp_all
  have pc: "max 1 pages = pages_of (unat ?sz)"
    using pg by (auto simp: ext4_file_size_to_page_count_def pages_of_def us_checked_add_Some)
  obtain P where P: "AllocatePages a AllocateAnyPages EfiBootServicesData P 0 = (Inr start, a')" "unat P = pages_of (unat ?sz)"
    using allocate_for_size_pages [OF al] by blast
  have "pages_of (unat ?sz) * 4096 < 2 ^ 64" using AllocatePages_effect(3) [OF n P(1)] P(2) by simp
  then obtain bs where rd: "read_inode_contents fuel vol (ext4_inode h) (unat ?sz) = Some (Inr bs)"
    and lf: "lf = LoadedFile_new start (pages_of (unat ?sz)) (unat ?sz)"
    and m: "mem' = write_memory (write_memory mem start (replicate (pages_of (unat ?sz) * 4096) 0)) start bs"
    using c unfolding pc by (auto simp: ext4_load_contents_def v Let_def split: option.splits sum.splits)
  have "length bs = unat ?sz"
    using rd extents_loop_length [OF dev bs u64_less [of ?sz]]
    by (auto simp: read_inode_contents_def Let_def split: if_splits option.splits sum.splits)
  then show "stored a a' mem mem' lf"
    using stored_load [OF n al, of bs "pages_of (unat ?sz) * 4096" mem] by (simp add: lf m)
next
  fix a a' :: PageAllocator and path h mem e
  assume n: "normal a" and l: "ext4_load fuel h a mem = Some (Inl e, a')"
  then show "normal a' \<and> (a' = a \<or> claims a a')"
    using for_size_step [OF n]
    by (fastforce simp: ext4_load_def ext4_load_into_allocated_pages_def ext4_load_contents_def Let_def
        split: if_splits prod.splits sum.splits option.splits)
qed

lemma Ext4Volume_new_Inr:
  assumes "Ext4Volume_new dev start = Inr vol"
  shows "ext4_device vol = dev" and "ext4_start_lba vol = start" and "0 < block_size vol" and "block_size vol \<le> 4096"
proof -
  have "0 < unat b" if "\<not> b < (512 :: u32)" for b using that by (simp add: word_less_nat_alt)
  then show "ext4_device vol = dev" "ext4_start_lba vol = start" "0 < block_size vol" "block_size vol \<le> 4096"
    using assms by (auto simp: Ext4Volume_new_def EXT4_MAX_BLOCK_SIZE_def Let_def split: if_splits)
qed

text \<open>Opening a path on a partition of a device: mount and open.\<close>

definition fat_partition_open :: "BlockDevice \<Rightarrow> u64 \<Rightarrow> (FatError, FatFile) opener" where
  "fat_partition_open device lba path = (case FatVolume_new device lba of Inl e \<Rightarrow> Some (Inl e) | Inr vol \<Rightarrow> fat_open vol path)"

definition ext4_partition_open :: "nat \<Rightarrow> BlockDevice \<Rightarrow> u64 \<Rightarrow> (Ext4Error, Ext4File) opener" where
  "ext4_partition_open fuel device lba path = (case Ext4Volume_new device lba of Inl e \<Rightarrow> Some (Inl e) | Inr vol \<Rightarrow> ext4_open fuel vol path)"

lemma fat_mounted_file_system:
  assumes "block_device dev disk" and "FatVolume_new dev lba = Inr vol"
  shows "file_system (fat_open vol) fat_load"
  using fat_file_system [of vol disk] FatVolume_new_spc [OF assms(2)] assms(1) by simp

lemma ext4_mounted_file_system:
  assumes "block_device dev disk" and "Ext4Volume_new dev lba = Inr vol"
  shows "file_system (ext4_open fuel vol) (ext4_load fuel)"
  using ext4_file_system [of vol disk fuel] Ext4Volume_new_Inr [OF assms(2)] assms(1) by simp

lemma no_file_system: "file_system (\<lambda>path. Some (Inl e)) l"
  by standard simp_all

interpretation fat_partition: file_system "fat_partition_open (FileBlockDevice (image_file img)) lba" fat_load
  for img :: disk_image and lba :: u64
proof (cases "FatVolume_new (FileBlockDevice (image_file img)) lba")
  case (Inl e)
  then have "fat_partition_open (FileBlockDevice (image_file img)) lba = (\<lambda>path. Some (Inl e))"
    by (auto simp: fat_partition_open_def)
  then show "file_system (fat_partition_open (FileBlockDevice (image_file img)) lba) fat_load" by (simp only: no_file_system)
next
  case (Inr vol)
  then have "fat_partition_open (FileBlockDevice (image_file img)) lba = fat_open vol" by (auto simp: fat_partition_open_def)
  then show "file_system (fat_partition_open (FileBlockDevice (image_file img)) lba) fat_load"
    using fat_mounted_file_system [OF file_device.block_device_axioms Inr] by simp
qed

interpretation ext4_partition: file_system "ext4_partition_open fuel (FileBlockDevice (image_file img)) lba" "ext4_load fuel"
  for fuel :: nat and img :: disk_image and lba :: u64
proof (cases "Ext4Volume_new (FileBlockDevice (image_file img)) lba")
  case (Inl e)
  then have "ext4_partition_open fuel (FileBlockDevice (image_file img)) lba = (\<lambda>path. Some (Inl e))"
    by (auto simp: ext4_partition_open_def)
  then show "file_system (ext4_partition_open fuel (FileBlockDevice (image_file img)) lba) (ext4_load fuel)"
    by (simp only: no_file_system)
next
  case (Inr vol)
  then have "ext4_partition_open fuel (FileBlockDevice (image_file img)) lba = ext4_open fuel vol"
    by (auto simp: ext4_partition_open_def)
  then show "file_system (ext4_partition_open fuel (FileBlockDevice (image_file img)) lba) (ext4_load fuel)"
    using ext4_mounted_file_system [OF file_device.block_device_axioms Inr] by simp
qed

section \<open>Memory that is not free\<close>

text \<open>Allocations keep the type of every byte that is not free, and the loaders write free memory only.\<close>

abbreviation free_byte :: "PageAllocator \<Rightarrow> nat \<Rightarrow> bool" where
  "free_byte a x \<equiv> map_type a x = Some (type_u32 EfiConventionalMemory)"

definition keeps_types :: "PageAllocator \<Rightarrow> PageAllocator \<Rightarrow> bool" where
  "keeps_types a a' \<longleftrightarrow> (\<forall>x. \<not> free_byte a x \<longrightarrow> map_type a' x = map_type a x)"

definition keeps_bytes :: "PageAllocator \<Rightarrow> memory \<Rightarrow> memory \<Rightarrow> bool" where
  "keeps_bytes a mem mem' \<longleftrightarrow> (\<forall>x. \<not> free_byte a (unat x) \<longrightarrow> mem' x = mem x)"

lemma keeps_refl [simp]: "keeps_types a a" "keeps_bytes a mem mem"
  by (simp_all add: keeps_types_def keeps_bytes_def)

lemma keeps_types_trans: "keeps_types a b \<Longrightarrow> keeps_types b c \<Longrightarrow> keeps_types a c"
  by (metis keeps_types_def)

lemma keeps_bytes_trans: "keeps_bytes a m1 m2 \<Longrightarrow> keeps_types a b \<Longrightarrow> keeps_bytes b m2 m3 \<Longrightarrow> keeps_bytes a m1 m3"
  by (metis keeps_bytes_def keeps_types_def)

lemma claims_keeps: "claims a a' \<Longrightarrow> keeps_types a a'"
  by (auto simp: claims_def keeps_types_def free_at_def)

lemma in_range_word:
  fixes x p :: u64
  assumes "unat p + n \<le> 2 ^ 64"
  shows "unat (x - p) < n \<longleftrightarrow> unat p \<le> unat x \<and> unat x < unat p + n"
proof (cases "p \<le> x")
  case True
  then show ?thesis using unat_sub_le [OF True] by (auto simp: word_le_nat_alt)
next
  case False
  have "unat (x - p) < n \<Longrightarrow> unat (p + (x - p)) = unat p + unat (x - p)"
    using assms unat_add_small [of p "x - p"] by simp
  then show ?thesis using False by (auto simp: word_le_nat_alt)
qed

lemma stored_keeps:
  assumes "stored a a' mem mem' lf"
  shows "normal a'" and "keeps_types a a'" and "keeps_bytes a mem mem'"
proof -
  note s = assms [unfolded stored_def Let_def]
  show "normal a'" "keeps_types a a'" using s by (auto simp: keeps_types_def free_at_def)
  have "mem' x = mem x" if "\<not> free_byte a (unat x)" for x
    using s that in_range_word [of "physical_start lf" "page_count lf * 4096" x] by (fastforce simp: free_at_def not_less)
  then show "keeps_bytes a mem mem'" by (simp add: keeps_bytes_def)
qed

lemma after_failed_load_keeps: "keeps_bytes a mem (after_failed_load leftover a mem)"
  by (simp add: keeps_bytes_def after_failed_load_def)

context file_system
begin

lemma load_first_loop_safe:
  assumes "load_first_loop leftover fs_open fs_load candidates i s = Some r"
  shows "normal (fst s) \<Longrightarrow> normal (fst (snd r)) \<and> keeps_types (fst s) (fst (snd r)) \<and> keeps_bytes (fst s) (snd s) (snd (snd r))
    \<and> (\<forall>p lf. fst r = Some (p, lf) \<longrightarrow> (\<exists>a1 mem1. normal a1 \<and> keeps_types (fst s) a1 \<and> keeps_bytes (fst s) (snd s) mem1
          \<and> stored a1 (fst (snd r)) mem1 (snd (snd r)) lf))"
proof -
  let ?P = "\<lambda>s r. normal (fst s) \<longrightarrow> normal (fst (snd r)) \<and> keeps_types (fst s) (fst (snd r))
    \<and> keeps_bytes (fst s) (snd s) (snd (snd r))
    \<and> (\<forall>p lf. fst r = Some (p, lf) \<longrightarrow> (\<exists>a1 mem1. normal a1 \<and> keeps_types (fst s) a1 \<and> keeps_bytes (fst s) (snd s) mem1
          \<and> stored a1 (fst (snd r)) mem1 (snd (snd r)) lf))"
  have "fs_open = fs_open \<and> fs_load = fs_load \<longrightarrow> ?P s r"
  proof (rule load_first_loop.raw_induct
      [where P = "\<lambda>l opn ld c i s r. opn = fs_open \<and> ld = fs_load \<longrightarrow> ?P s r", OF _ assms])
    fix loop :: "leftovers \<Rightarrow> ('e, 'h) opener \<Rightarrow> ('e, 'h) loader \<Rightarrow> (nat \<Rightarrow> u8 list option) \<Rightarrow> nat \<Rightarrow> PageAllocator \<times> memory
        \<Rightarrow> ((u8 list \<times> LoadedFile) option \<times> PageAllocator \<times> memory) option"
      and l opn ld c i s r
    assume IH: "\<And>l opn ld c i s r. loop l opn ld c i s = Some r \<Longrightarrow> opn = fs_open \<and> ld = fs_load \<longrightarrow> ?P s r"
      and eq: "(case c i of None \<Rightarrow> Some (None, s)
         | Some path \<Rightarrow> (case opn path of None \<Rightarrow> None
            | Some (Inl e) \<Rightarrow> loop l opn ld c (i + 1) s
            | Some (Inr handle) \<Rightarrow> (case ld handle (fst s) (snd s) of None \<Rightarrow> None
               | Some (Inl e, allocator) \<Rightarrow> loop l opn ld c (i + 1) (allocator, after_failed_load (l path) (fst s) (snd s))
               | Some (Inr (loaded, mem), allocator) \<Rightarrow> Some (Some (path, loaded), allocator, mem)))) = Some r"
    show "opn = fs_open \<and> ld = fs_load \<longrightarrow> ?P s r"
    proof (intro impI)
      assume o: "opn = fs_open \<and> ld = fs_load" and n: "normal (fst s)"
      show "normal (fst (snd r)) \<and> keeps_types (fst s) (fst (snd r)) \<and> keeps_bytes (fst s) (snd s) (snd (snd r))
        \<and> (\<forall>p lf. fst r = Some (p, lf) \<longrightarrow> (\<exists>a1 mem1. normal a1 \<and> keeps_types (fst s) a1 \<and> keeps_bytes (fst s) (snd s) mem1
              \<and> stored a1 (fst (snd r)) mem1 (snd (snd r)) lf))"
      proof (cases "c i")
        case None
        then show ?thesis using eq n by auto
      next
        case (Some path)
        then consider (closed) e where "fs_open path = Some (Inl e)" "loop l fs_open fs_load c (i + 1) s = Some r"
          | (failed) h e a where "fs_open path = Some (Inr h)" "fs_load h (fst s) (snd s) = Some (Inl e, a)"
              "loop l fs_open fs_load c (i + 1) (a, after_failed_load (l path) (fst s) (snd s)) = Some r"
          | (loaded) h lf mem a where "fs_open path = Some (Inr h)" "fs_load h (fst s) (snd s) = Some (Inr (lf, mem), a)"
              "r = (Some (path, lf), a, mem)"
          using eq o by (auto split: option.splits sum.splits prod.splits)
        then show ?thesis
        proof cases
          case closed
          then show ?thesis using IH [OF closed(2)] n by blast
        next
          case failed
          have a: "normal a" "keeps_types (fst s) a" using load_failed [OF n failed(1,2)] claims_keeps by auto
          note kb = after_failed_load_keeps [of "fst s" "snd s" "l path"]
          have "?P (a, after_failed_load (l path) (fst s) (snd s)) r" using IH [OF failed(3)] by blast
          then show ?thesis using a kb
            by (auto intro: keeps_types_trans keeps_bytes_trans [OF kb a(2)]) (meson keeps_types_trans keeps_bytes_trans)
        next
          case loaded
          have st: "stored (fst s) a (snd s) mem lf" by (rule load_stored [OF n loaded(1,2)])
          then show ?thesis unfolding loaded(3) fst_conv snd_conv
            using n stored_keeps [OF st] keeps_refl(1) [of "fst s"] keeps_refl(2) [of "fst s" "snd s"] by blast
        qed
      qed
    qed
  qed
  then show "normal (fst s) \<Longrightarrow> ?thesis" by blast
qed

lemma load_first_file_safe:
  assumes "normal a" and "load_first_file leftover fs_open fs_load candidates (a, mem) = Some (r, a', mem')"
  shows "normal a'" and "keeps_types a a'" and "keeps_bytes a mem mem'"
    and "r = Some (p, lf) \<Longrightarrow> \<exists>a1 mem1. normal a1 \<and> keeps_types a a1 \<and> keeps_bytes a mem mem1 \<and> stored a1 a' mem1 mem' lf"
  using load_first_loop_safe [OF assms(2) [unfolded load_first_file_def]] assms(1) by auto

end

end
