(* ===== verification/DtbMemory.thy ===== *)
theory DtbMemory
  imports DtbTree Allocation
begin

unbundle bit_operations_syntax

text \<open>
  The memory queries of \<open>src/dtb_memory.rs\<close> on top of the device-tree reader, and the constructors of
  the page allocator in \<open>src/memory.rs\<close> that take a device tree.

  An \<open>output: &mut [MemoryRegion]\<close> parameter is a list; the functions return the number of regions
  written together with the list after the call, and a subslice \<open>&mut output[count..]\<close> is \<open>drop count\<close>
  spliced back afterwards. Visitors carry their captured state, as in \<open>DtbRead\<close>.
\<close>

section \<open>Decoding regions\<close>

datatype ReservedMemoryType = Reserved | BootServicesData

text \<open>\<open>while index + stride <= reg.len()\<close>; the caller has established \<open>stride \<noteq> 0\<close>.\<close>

function visit_regions_loop ::
  "u8 list \<Rightarrow> nat \<Rightarrow> nat \<Rightarrow> (MemoryRegion \<Rightarrow> 's \<Rightarrow> bool \<times> 's) \<Rightarrow> nat \<Rightarrow> 's \<Rightarrow> bool \<times> 's" where
  "visit_regions_loop reg address_cells size_cells visit index s =
     (let stride = (address_cells + size_cells) * 4 in
      if stride \<noteq> 0 \<and> index + stride \<le> length reg then
        let region_base = read_cells (take (address_cells * 4) (drop index reg)) address_cells;
            sz = read_cells (take (size_cells * 4) (drop (index + address_cells * 4) reg)) size_cells
        in (case visit \<lparr>base = region_base, region_size = sz\<rparr> s of
              (False, s') \<Rightarrow> (False, s')
            | (True, s') \<Rightarrow> visit_regions_loop reg address_cells size_cells visit (index + stride) s')
      else (True, s))"
  by pat_completeness auto
termination
  by (relation "measure (\<lambda>(reg, ac, sc, visit, index, s). length reg - index)") auto

declare visit_regions_loop.simps [simp del]

definition visit_decoded_regions ::
  "u8 list \<Rightarrow> nat \<Rightarrow> nat \<Rightarrow> (MemoryRegion \<Rightarrow> 's \<Rightarrow> bool \<times> 's) \<Rightarrow> 's \<Rightarrow> bool \<times> 's" where
  "visit_decoded_regions reg address_cells size_cells visit s =
     (let stride = (address_cells + size_cells) * 4 in
      if stride = 0 then (True, s) else visit_regions_loop reg address_cells size_cells visit 0 s)"

definition store_region :: "MemoryRegion \<Rightarrow> nat \<times> MemoryRegion list \<Rightarrow> bool \<times> (nat \<times> MemoryRegion list)" where
  "store_region region s =
     (let (count, output) = s in
      if count = length output then (False, (count, output))
      else (True, (count + 1, output[count := region])))"

definition decode_regions ::
  "u8 list \<Rightarrow> nat \<Rightarrow> nat \<Rightarrow> MemoryRegion list \<Rightarrow> nat \<times> MemoryRegion list" where
  "decode_regions reg address_cells size_cells output =
     snd (visit_decoded_regions reg address_cells size_cells store_region (0, output))"

text \<open>\<open>count += decode_regions(\<dots>, &mut output[count..])\<close>.\<close>

definition decode_into ::
  "u8 list \<Rightarrow> nat \<Rightarrow> nat \<Rightarrow> nat \<times> MemoryRegion list \<Rightarrow> nat \<times> MemoryRegion list" where
  "decode_into reg address_cells size_cells s =
     (let (count, output) = s;
          (n, rest) = decode_regions reg address_cells size_cells (drop count output)
      in (count + n, take count output @ rest))"

section \<open>Queries\<close>

definition starts_with :: "u8 list \<Rightarrow> u8 list \<Rightarrow> bool" where
  "starts_with name prefix \<longleftrightarrow> take (length prefix) name = prefix"

definition cells_or :: "Fdt \<Rightarrow> FdtNode \<Rightarrow> string \<Rightarrow> u32 \<Rightarrow> u32" where
  "cells_or fdt node property dflt =
     (case get_property_u32 fdt node (str property) of Some v \<Rightarrow> v | None \<Rightarrow> dflt)"

definition visit_memory_node ::
  "Fdt \<Rightarrow> u32 \<Rightarrow> u32 \<Rightarrow> FdtNode \<Rightarrow> nat \<times> MemoryRegion list \<Rightarrow> bool \<times> (nat \<times> MemoryRegion list)" where
  "visit_memory_node fdt root_address_cells root_size_cells node s =
     (if fst s = length (snd s) then (False, s)
      else if node_name node \<noteq> str ''memory'' \<and> \<not> starts_with (node_name node) (str ''memory@'') then (True, s)
      else if (case get_property_string fdt node (str ''device_type'') of
                 Some device_type \<Rightarrow> device_type \<noteq> str ''memory'' | None \<Rightarrow> False) then (True, s)
      else (case get_property fdt node (str ''reg'') of
              Some reg \<Rightarrow> (True, decode_into reg (unat root_address_cells) (unat root_size_cells) s)
            | None \<Rightarrow> (True, s)))"

definition memory_regions :: "Fdt \<Rightarrow> MemoryRegion list \<Rightarrow> nat \<times> MemoryRegion list" where
  "memory_regions fdt output =
     (case root_node fdt of
        None \<Rightarrow> (0, output)
      | Some root \<Rightarrow>
          let root_address_cells = cells_or fdt root ''#address-cells'' 2;
              root_size_cells = cells_or fdt root ''#size-cells'' 1
          in for_each_child fdt root (visit_memory_node fdt root_address_cells root_size_cells) (0, output))"

text \<open>\<open>while let Some(entry) = fdt.reserve_entry(count)\<close>; \<open>count\<close> never passes the length of the output.\<close>

function reserve_map_loop :: "Fdt \<Rightarrow> nat \<Rightarrow> MemoryRegion list \<Rightarrow> nat \<times> MemoryRegion list" where
  "reserve_map_loop fdt count output =
     (case reserve_entry fdt count of
        None \<Rightarrow> (count, output)
      | Some entry \<Rightarrow>
          if length output \<le> count then (count, output)
          else reserve_map_loop fdt (count + 1)
                 (output[count := \<lparr>base = entry_address entry, region_size = entry_size entry\<rparr>]))"
  by pat_completeness auto
termination
  by (relation "measure (\<lambda>(fdt, count, output). length output - count)") auto

declare reserve_map_loop.simps [simp del]

definition reserve_map_regions :: "Fdt \<Rightarrow> MemoryRegion list \<Rightarrow> nat \<times> MemoryRegion list" where
  "reserve_map_regions fdt output = reserve_map_loop fdt 0 output"

definition visit_reserved_node ::
  "Fdt \<Rightarrow> u32 \<Rightarrow> u32 \<Rightarrow> FdtNode \<Rightarrow> nat \<times> MemoryRegion list \<Rightarrow> bool \<times> (nat \<times> MemoryRegion list)" where
  "visit_reserved_node fdt address_cells size_cells node s =
     (if fst s = length (snd s) then (False, s)
      else (case get_property fdt node (str ''reg'') of
              Some reg \<Rightarrow> (True, decode_into reg (unat address_cells) (unat size_cells) s)
            | None \<Rightarrow> (True, s)))"

definition reserved_memory_regions ::
  "Fdt \<Rightarrow> u32 \<Rightarrow> u32 \<Rightarrow> MemoryRegion list \<Rightarrow> nat \<times> MemoryRegion list" where
  "reserved_memory_regions fdt root_address_cells root_size_cells output =
     (case find_node fdt (str ''/reserved-memory'') of
        None \<Rightarrow> (0, output)
      | Some reserved_node \<Rightarrow>
          let address_cells = cells_or fdt reserved_node ''#address-cells'' root_address_cells;
              size_cells = cells_or fdt reserved_node ''#size-cells'' root_size_cells
          in for_each_child fdt reserved_node (visit_reserved_node fdt address_cells size_cells) (0, output))"

definition reserved_regions :: "Fdt \<Rightarrow> MemoryRegion list \<Rightarrow> nat \<times> MemoryRegion list" where
  "reserved_regions fdt output =
     (case root_node fdt of
        None \<Rightarrow> (0, output)
      | Some root \<Rightarrow>
          let root_address_cells = cells_or fdt root ''#address-cells'' 2;
              root_size_cells = cells_or fdt root ''#size-cells'' 1;
              (count, output) = reserve_map_regions fdt output
          in if count < length output
             then let (n, rest) = reserved_memory_regions fdt root_address_cells root_size_cells (drop count output)
                  in (count + n, take count output @ rest)
             else (count, output))"

definition visit_static_node ::
  "Fdt \<Rightarrow> u32 \<Rightarrow> u32 \<Rightarrow> (MemoryRegion \<Rightarrow> ReservedMemoryType \<Rightarrow> 's \<Rightarrow> bool \<times> 's) \<Rightarrow> FdtNode \<Rightarrow> 's \<Rightarrow> bool \<times> 's" where
  "visit_static_node fdt address_cells size_cells visit node s =
     (case get_property fdt node (str ''reg'') of
        None \<Rightarrow> (True, s)
      | Some reg \<Rightarrow>
          let memory_type = (if get_property fdt node (str ''no-map'') \<noteq> None then Reserved else BootServicesData)
          in visit_decoded_regions reg (unat address_cells) (unat size_cells)
               (\<lambda>region s. visit region memory_type s) s)"

definition for_each_static_reserved_memory_region ::
  "Fdt \<Rightarrow> (MemoryRegion \<Rightarrow> ReservedMemoryType \<Rightarrow> 's \<Rightarrow> bool \<times> 's) \<Rightarrow> 's \<Rightarrow> 's" where
  "for_each_static_reserved_memory_region fdt visit s =
     (case root_node fdt of
        None \<Rightarrow> s
      | Some root \<Rightarrow>
          let root_address_cells = cells_or fdt root ''#address-cells'' 2;
              root_size_cells = cells_or fdt root ''#size-cells'' 1
          in (case find_node fdt (str ''/reserved-memory'') of
                None \<Rightarrow> s
              | Some reserved_node \<Rightarrow>
                  let address_cells = cells_or fdt reserved_node ''#address-cells'' root_address_cells;
                      size_cells = cells_or fdt reserved_node ''#size-cells'' root_size_cells
                  in for_each_child fdt reserved_node
                       (visit_static_node fdt address_cells size_cells visit) s))"

section \<open>Page allocators from a device tree\<close>

definition reserve_original_fdt ::
  "Fdt \<Rightarrow> PageAllocator \<Rightarrow> (MemoryError, unit, PageAllocator) outcome" where
  "reserve_original_fdt fdt allocator =
     reserve_region_with_type allocator
       \<lparr>base = base_ptr fdt, region_size = of_nat (total_size_bytes fdt)\<rparr> EfiACPIReclaimMemory"

fun reserved_memory_type_to_efi :: "ReservedMemoryType \<Rightarrow> EFI_MEMORY_TYPE" where
  "reserved_memory_type_to_efi Reserved = EfiReservedMemoryType"
| "reserved_memory_type_to_efi BootServicesData = EfiBootServicesData"

text \<open>The closure that carves one static region and remembers the first error.\<close>

definition carve_static ::
  "MemoryRegion \<Rightarrow> ReservedMemoryType \<Rightarrow> (MemoryError, unit, PageAllocator) outcome
   \<Rightarrow> bool \<times> (MemoryError, unit, PageAllocator) outcome" where
  "carve_static region memory_type s =
     (case add_reserved_region_with_type (snd s) region (reserved_memory_type_to_efi memory_type) of
        (Inr _, allocator) \<Rightarrow> (True, (fst s, allocator))
      | (Inl error, allocator) \<Rightarrow> (False, (Inl error, allocator)))"

text \<open>The result with the two scratch slices after the call.\<close>

definition from_fdt ::
  "symbols \<Rightarrow> Fdt \<Rightarrow> MemoryRegion list \<Rightarrow> MemoryRegion list \<Rightarrow> EFI_MEMORY_DESCRIPTOR list
   \<Rightarrow> (MemoryError + PageAllocator) \<times> MemoryRegion list \<times> MemoryRegion list" where
  "from_fdt lla fdt memory_scratch reserved_scratch buffer =
     (let (memory_region_count, memory_scratch) = memory_regions fdt memory_scratch;
          (reserve_map_region_count, reserved_scratch) = reserve_map_regions fdt reserved_scratch
      in case sbind (add_memory_regions \<lparr>descriptors = buffer, descriptor_count = 0\<rparr>
                       (take memory_region_count memory_scratch)) (\<lambda>_ allocator.
              sbind (reserve_original_fdt fdt (coalesce allocator)) (\<lambda>_ allocator.
              sbind (add_reserved_regions allocator (take reserve_map_region_count reserved_scratch)) (\<lambda>_ allocator.
              for_each_static_reserved_memory_region fdt carve_static (Inr (), allocator)))) of
           (Inl e, allocator) \<Rightarrow> (Inl e, memory_scratch, reserved_scratch)
         | (Inr _, allocator) \<Rightarrow>
             let (_, reserved_scratch) = reserved_regions fdt reserved_scratch
             in (case add_firmware_regions lla allocator of
                   (Inl e, allocator) \<Rightarrow> (Inl e, memory_scratch, reserved_scratch)
                 | (Inr _, allocator) \<Rightarrow> (Inr (coalesce allocator), memory_scratch, reserved_scratch)))"

definition memory_map_from_fdt ::
  "symbols \<Rightarrow> Fdt \<Rightarrow> MemoryRegion list \<Rightarrow> MemoryRegion list \<Rightarrow> EFI_MEMORY_DESCRIPTOR list \<Rightarrow> MemoryError + nat" where
  "memory_map_from_fdt lla fdt memory_scratch reserved_scratch buffer =
     rbind (fst (from_fdt lla fdt memory_scratch reserved_scratch buffer)) (\<lambda>allocator.
     Inr (descriptor_count allocator))"

definition page_allocator_from_live_fdt ::
  "symbols \<Rightarrow> (u64 \<Rightarrow> u8) \<Rightarrow> u64 \<Rightarrow> MemoryRegion list \<Rightarrow> MemoryRegion list \<Rightarrow> EFI_MEMORY_DESCRIPTOR list
   \<Rightarrow> PageAllocator option" where
  "page_allocator_from_live_fdt lla mem device_tree_ptr memory_scratch reserved_scratch buffer =
     do { fdt \<leftarrow> result_ok (from_ptr mem device_tree_ptr);
          result_ok (fst (from_fdt lla fdt memory_scratch reserved_scratch buffer)) }"

section \<open>Visits as list traversals\<close>

fun visit_all :: "('n \<Rightarrow> 's \<Rightarrow> bool \<times> 's) \<Rightarrow> 'n list \<Rightarrow> 's \<Rightarrow> bool \<times> 's" where
  "visit_all visit [] s = (True, s)"
| "visit_all visit (c # cs) s =
     (case visit c s of (False, s') \<Rightarrow> (False, s') | (True, s') \<Rightarrow> visit_all visit cs s')"

lemma visit_list_all: "visit_list visit cs s = snd (visit_all visit cs s)"
  by (induction cs arbitrary: s) (auto split: prod.splits bool.splits)

lemma visit_all_append:
  "visit_all visit (xs @ ys) s = (case visit_all visit xs s of (False, s') \<Rightarrow> (False, s') | (True, s') \<Rightarrow> visit_all visit ys s')"
  by (induction xs arbitrary: s) (auto split: prod.splits bool.splits)

lemma visit_all_map: "visit_all visit (map f xs) s = visit_all (\<lambda>x. visit (f x)) xs s"
  by (induction xs arbitrary: s) (auto split: prod.splits bool.splits)

lemma visit_all_concat: "visit_all visit (concat (map f xs)) s = visit_all (\<lambda>x. visit_all visit (f x)) xs s"
  by (induction xs arbitrary: s) (auto simp: visit_all_append split: prod.splits bool.splits)

text \<open>The direct children the traversal meets on an arbitrary blob.\<close>

function child_nodes :: "Fdt \<Rightarrow> nat \<Rightarrow> nat \<Rightarrow> FdtNode list" where
  "child_nodes self end_off offset =
     (if offset < end_off then
        (case read_token self offset of
           None \<Rightarrow> []
         | Some token \<Rightarrow>
             if token = FDT_PROP then
               (case after_property self offset of
                  None \<Rightarrow> [] | Some next_offset \<Rightarrow> child_nodes self end_off next_offset)
             else if token = FDT_NOP then child_nodes self end_off (offset + 4)
             else if token = FDT_BEGIN_NODE then
               (case node_at_offset self offset of
                  None \<Rightarrow> []
                | Some child \<Rightarrow> child #
                    (case us_checked_add (end_offset child) 4 of
                       None \<Rightarrow> [] | Some next_offset \<Rightarrow> child_nodes self end_off next_offset))
             else [])
      else [])"
  by pat_completeness auto
termination
  by (relation "measure (\<lambda>(self, end_off, offset). end_off - offset)")
     (auto dest!: after_property_gt node_at_offset_bounds(2) simp: rust_ops)

declare child_nodes.simps [simp del]

lemma child_loop_visits: "child_loop self e visit k s = visit_list visit (child_nodes self e k) s"
proof (induction self e visit k s rule: child_loop.induct)
  case (1 self e visit k s)
  show ?case
  proof (cases "k < e")
    case lt: True
    show ?thesis
    proof (cases "read_token self k")
      case None
      then show ?thesis by (subst child_loop.simps, subst child_nodes.simps) simp
    next
      case (Some t)
      then show ?thesis using lt "1.IH"
        by (subst child_loop.simps, subst child_nodes.simps)
          (auto simp: fdt_tokens split: option.splits prod.splits bool.splits)
    qed
  qed (subst child_loop.simps, subst child_nodes.simps, simp)
qed

definition children_of :: "Fdt \<Rightarrow> FdtNode \<Rightarrow> FdtNode list" where
  "children_of fdt parent =
     (case after_begin_node fdt (begin_offset parent) of
        None \<Rightarrow> [] | Some offset \<Rightarrow> child_nodes fdt (end_offset parent) offset)"

lemma for_each_child_visits: "for_each_child fdt parent visit s = snd (visit_all visit (children_of fdt parent) s)"
  by (simp add: for_each_child_def children_of_def child_loop_visits visit_list_all split: option.splits)

text \<open>The regions of a \<open>reg\<close> property.\<close>

function regions_from :: "u8 list \<Rightarrow> nat \<Rightarrow> nat \<Rightarrow> nat \<Rightarrow> MemoryRegion list" where
  "regions_from reg ac sc index =
     (if (ac + sc) * 4 \<noteq> 0 \<and> index + (ac + sc) * 4 \<le> length reg
      then \<lparr>base = read_cells (take (ac * 4) (drop index reg)) ac,
            region_size = read_cells (take (sc * 4) (drop (index + ac * 4) reg)) sc\<rparr>
           # regions_from reg ac sc (index + (ac + sc) * 4)
      else [])"
  by pat_completeness auto
termination
  by (relation "measure (\<lambda>(reg, ac, sc, index). length reg - index)") auto

declare regions_from.simps [simp del]

lemma visit_regions_loop_visits:
  "visit_regions_loop reg ac sc visit index s = visit_all visit (regions_from reg ac sc index) s"
proof (induction reg ac sc visit index s rule: visit_regions_loop.induct)
  case (1 reg ac sc visit index s)
  show ?case
  proof (cases "(ac + sc) * 4 \<noteq> 0 \<and> index + (ac + sc) * 4 \<le> length reg")
    case True
    then show ?thesis using "1.IH" [OF refl True refl refl]
      by (subst visit_regions_loop.simps, subst regions_from.simps)
        (auto simp: Let_def split: prod.splits bool.splits)
  next
    case False
    then show ?thesis by (subst visit_regions_loop.simps, subst regions_from.simps) auto
  qed
qed

lemma visit_decoded_regions_visits:
  "visit_decoded_regions reg ac sc visit s = visit_all visit (regions_from reg ac sc 0) s"
  using visit_regions_loop_visits [of reg ac sc visit 0 s]
  by (auto simp: visit_decoded_regions_def regions_from.simps)

text \<open>All static regions below \<open>/reserved-memory\<close>, in order, with their classification.\<close>

definition node_static_regions :: "Fdt \<Rightarrow> u32 \<Rightarrow> u32 \<Rightarrow> FdtNode \<Rightarrow> (MemoryRegion \<times> ReservedMemoryType) list" where
  "node_static_regions fdt ac sc node =
     (case get_property fdt node (str ''reg'') of
        None \<Rightarrow> []
      | Some reg \<Rightarrow> map (\<lambda>r. (r, if get_property fdt node (str ''no-map'') \<noteq> None then Reserved else BootServicesData))
                     (regions_from reg (unat ac) (unat sc) 0))"

definition static_regions :: "Fdt \<Rightarrow> (MemoryRegion \<times> ReservedMemoryType) list" where
  "static_regions fdt =
     (case root_node fdt of
        None \<Rightarrow> []
      | Some root \<Rightarrow>
          (case find_node fdt (str ''/reserved-memory'') of
             None \<Rightarrow> []
           | Some node \<Rightarrow>
               let ac = cells_or fdt node ''#address-cells'' (cells_or fdt root ''#address-cells'' 2);
                   sc = cells_or fdt node ''#size-cells'' (cells_or fdt root ''#size-cells'' 1)
               in concat (map (node_static_regions fdt ac sc) (children_of fdt node))))"

lemma visit_static_node_visits:
  "visit_static_node fdt ac sc visit node s = visit_all (\<lambda>(r, t). visit r t) (node_static_regions fdt ac sc node) s"
  by (simp add: visit_static_node_def node_static_regions_def visit_decoded_regions_visits visit_all_map
      Let_def split: option.splits)

lemma for_each_static_visits:
  "for_each_static_reserved_memory_region fdt visit s = snd (visit_all (\<lambda>(r, t). visit r t) (static_regions fdt) s)"
  by (simp add: for_each_static_reserved_memory_region_def static_regions_def for_each_child_visits Let_def
      visit_all_concat visit_static_node_visits [abs_def] split: option.splits)

section \<open>Carving keeps memory out of the free pool\<close>

definition carvable :: "PageAllocator \<Rightarrow> bool" where
  "carvable a \<longleftrightarrow> alloc_ok a \<and> (\<forall>d \<in> set (active a). plain d)"

text \<open>From \<open>a\<close> to \<open>a'\<close> the described bytes stay the same and the free bytes shrink, avoiding \<open>S\<close>.\<close>

definition withdraws :: "PageAllocator \<Rightarrow> (nat \<Rightarrow> bool) \<Rightarrow> PageAllocator \<Rightarrow> bool" where
  "withdraws a S a' \<longleftrightarrow> carvable a' \<and> dom (map_type a') = dom (map_type a)
     \<and> (\<forall>x. map_type a' x = Some (type_u32 EfiConventionalMemory) \<longrightarrow>
            map_type a x = Some (type_u32 EfiConventionalMemory) \<and> \<not> S x)"

lemma withdraws_refl: "carvable a \<Longrightarrow> withdraws a (\<lambda>_. False) a"
  by (simp add: withdraws_def)

lemma withdraws_trans: "withdraws a S b \<Longrightarrow> withdraws b T c \<Longrightarrow> withdraws a (\<lambda>x. S x \<or> T x) c"
  by (auto simp: withdraws_def)

lemma withdraws_coalesce: "withdraws a S b \<Longrightarrow> withdraws a S (coalesce b)"
  using alloc_ok_coalesce [of b] coalesce_list_plain [of "active b"] coalesce_active(1) [of b]
  by (simp add: withdraws_def carvable_def alloc_ok_def)

lemma retyped_withdraws:
  assumes "carvable a'" and "map_type a' = retyped rp S (type_u32 t) (map_type a)"
    and "rp (type_u32 EfiConventionalMemory)" and "t \<noteq> EfiConventionalMemory"
  shows "withdraws a S a'"
proof -
  have "type_u32 t \<noteq> type_u32 EfiConventionalMemory" using assms(4) by (cases t) simp_all
  then show ?thesis using assms(1,3)
    by (auto simp: withdraws_def assms(2) retyped_def dom_def split: if_splits)
qed

lemma reservation_withdraws:
  assumes "carvable a" and "add_reserved_region_with_type a r t = (Inr u, a')" and "t \<noteq> EfiConventionalMemory"
  shows "withdraws a (region_pages True r) a' \<and> (\<exists>q. align_region_to_pages r True = Inr q)"
proof -
  note m = add_reserved_region_with_type_map [OF assms(2)]
  have c: "alloc_ok a" "\<forall>d \<in> set (active a). plain d" using assms(1) by (auto simp: carvable_def)
  have "reservable (type_u32 EfiConventionalMemory)" by (simp add: reservable_def)
  then show ?thesis using retyped_withdraws [of a' reservable "region_pages True r" t a] m [OF c] assms(3)
    by (simp add: carvable_def)
qed

lemma add_reserved_regions_withdraws:
  "carvable a \<Longrightarrow> add_reserved_regions a rs = (Inr u, a') \<Longrightarrow>
   withdraws a (\<lambda>x. \<exists>r \<in> set rs. region_pages True r x) a' \<and> (\<forall>r \<in> set rs. \<exists>q. align_region_to_pages r True = Inr q)"
proof (induction rs arbitrary: a)
  case Nil
  then show ?case using withdraws_refl by simp
next
  case (Cons r rs)
  then obtain b where b: "add_reserved_region_with_type a r EfiReservedMemoryType = (Inr (), b)"
      "add_reserved_regions b rs = (Inr u, a')"
    by (auto simp: sbind_eq_Inr add_reserved_region_def)
  have w: "withdraws a (region_pages True r) b \<and> (\<exists>q. align_region_to_pages r True = Inr q)"
    by (rule reservation_withdraws [OF Cons.prems(1) b(1)]) simp
  then have "carvable b" by (simp add: withdraws_def)
  from Cons.IH [OF this b(2)] w show ?case by (auto simp: withdraws_def)
qed

lemma carve_static_withdraws:
  "carvable a \<Longrightarrow> visit_all (\<lambda>(r, t). carve_static r t) rs (Inr (), a) = (go, (Inr u, a')) \<Longrightarrow>
   withdraws a (\<lambda>x. \<exists>(r, t) \<in> set rs. region_pages True r x) a'
   \<and> (\<forall>(r, t) \<in> set rs. \<exists>q. align_region_to_pages r True = Inr q)"
proof (induction rs arbitrary: a)
  case Nil
  then show ?case using withdraws_refl by simp
next
  case (Cons p rs)
  obtain r t where p: "p = (r, t)" by (cases p)
  obtain q b where q: "add_reserved_region_with_type a r (reserved_memory_type_to_efi t) = (q, b)" by fastforce
  from Cons.prems(2) p q obtain v where qv: "q = Inr v"
    and rest: "visit_all (\<lambda>(r, t). carve_static r t) rs (Inr (), b) = (go, (Inr u, a'))"
    by (cases q) (auto simp: carve_static_def [of r t])
  have "reserved_memory_type_to_efi t \<noteq> EfiConventionalMemory" by (cases t) simp_all
  from reservation_withdraws [OF Cons.prems(1) q [unfolded qv] this]
  have w: "withdraws a (region_pages True r) b" "\<exists>q. align_region_to_pages r True = Inr q" by auto
  then have "carvable b" by (simp add: withdraws_def)
  from Cons.IH [OF this rest] w p show ?case by (auto simp: withdraws_def)
qed

lemma add_linker_region_withdraws:
  assumes "carvable a" and "add_linker_region a s e t = (Inr u, a')" and "t \<noteq> EfiConventionalMemory"
  shows "withdraws a (linker_pages s e) a'"
proof -
  have c: "alloc_ok a" "\<forall>d \<in> set (active a). plain d" using assms(1) by (auto simp: carvable_def)
  note m = add_linker_region_map [OF assms(2) c]
  have "conventional (type_u32 EfiConventionalMemory)" by (simp add: conventional_def)
  then show ?thesis using retyped_withdraws [of a' conventional "linker_pages s e" t a] m assms(3)
    by (simp add: carvable_def)
qed

definition firmware_pages :: "symbols \<Rightarrow> nat \<Rightarrow> bool" where
  "firmware_pages lla x \<longleftrightarrow> linker_pages (firmware_code_start lla) (firmware_code_end lla) x
     \<or> linker_pages (firmware_data_start lla) (firmware_data_end lla) x
     \<or> linker_pages (firmware_heap_start lla) (firmware_heap_end lla) x
     \<or> linker_pages (firmware_stack_bottom lla) (firmware_stack_top lla) x"

lemma add_firmware_regions_withdraws:
  assumes "carvable a" and "add_firmware_regions lla a = (Inr u, a')"
  shows "withdraws a (firmware_pages lla) a'"
proof -
  from assms(2) obtain s1 s2 s3 where
    s1: "add_linker_region a (firmware_code_start lla) (firmware_code_end lla) EfiBootServicesCode = (Inr (), s1)" and
    s2: "add_linker_region s1 (firmware_data_start lla) (firmware_data_end lla) EfiBootServicesData = (Inr (), s2)" and
    s3: "add_linker_region s2 (firmware_heap_start lla) (firmware_heap_end lla) EfiBootServicesData = (Inr (), s3)" and
    s4: "add_linker_region s3 (firmware_stack_bottom lla) (firmware_stack_top lla) EfiBootServicesData = (Inr u, a')"
    by (auto simp: add_firmware_regions_def sbind_eq_Inr)
  note w1 = add_linker_region_withdraws [OF assms(1) s1]
  have w2: "withdraws s1 (linker_pages (firmware_data_start lla) (firmware_data_end lla)) s2"
    by (rule add_linker_region_withdraws [OF _ s2]) (use w1 in \<open>auto simp: withdraws_def\<close>)
  have w3: "withdraws s2 (linker_pages (firmware_heap_start lla) (firmware_heap_end lla)) s3"
    by (rule add_linker_region_withdraws [OF _ s3]) (use w2 in \<open>auto simp: withdraws_def\<close>)
  have w4: "withdraws s3 (linker_pages (firmware_stack_bottom lla) (firmware_stack_top lla)) a'"
    by (rule add_linker_region_withdraws [OF _ s4]) (use w3 in \<open>auto simp: withdraws_def\<close>)
  show ?thesis
    using withdraws_trans [OF withdraws_trans [OF withdraws_trans [OF w1 w2] w3] w4]
    by (simp add: withdraws_def firmware_pages_def)
qed

definition blob_region :: "Fdt \<Rightarrow> MemoryRegion" where
  "blob_region fdt = \<lparr>base = base_ptr fdt, region_size = of_nat (total_size_bytes fdt)\<rparr>"

text \<open>Every phase of \<open>from_fdt\<close> after the RAM phase withdraws memory.\<close>

lemma from_fdt_withdraws:
  assumes "from_fdt lla fdt ms rs buffer = (Inr a, ms', rs')"
  shows "\<exists>ram n k res. memory_regions fdt ms = (n, ms') \<and> ram_phase (set (take n ms')) ram
    \<and> reserve_map_regions fdt rs = (k, res)
    \<and> withdraws (coalesce ram) (\<lambda>x. region_pages True (blob_region fdt) x
        \<or> (\<exists>r \<in> set (take k res). region_pages True r x)
        \<or> (\<exists>(r, t) \<in> set (static_regions fdt). region_pages True r x)
        \<or> firmware_pages lla x) a
    \<and> normal a
    \<and> (\<forall>r \<in> insert (blob_region fdt) (set (take k res) \<union> fst ` set (static_regions fdt)).
         \<exists>q. align_region_to_pages r True = Inr q)"
proof -
  obtain n msx where m: "memory_regions fdt ms = (n, msx)" by fastforce
  obtain k res where r: "reserve_map_regions fdt rs = (k, res)" by fastforce
  from assms m r obtain s1 s2 s3 s4 s5 where
    s1: "add_memory_regions \<lparr>descriptors = buffer, descriptor_count = 0\<rparr> (take n msx) = (Inr (), s1)" and
    s2: "reserve_original_fdt fdt (coalesce s1) = (Inr (), s2)" and
    s3: "add_reserved_regions s2 (take k res) = (Inr (), s3)" and
    s4: "for_each_static_reserved_memory_region fdt carve_static (Inr (), s3) = (Inr (), s4)" and
    s5: "add_firmware_regions lla s4 = (Inr (), s5)" and a: "a = coalesce s5" and msx: "msx = ms'"
    by (auto simp: from_fdt_def sbind_eq_Inr split: prod.split_asm sum.split_asm)
  have "ram_phase {} \<lparr>descriptors = buffer, descriptor_count = 0\<rparr>"
    by (simp add: ram_phase_def buffer_ok_def active_def)
  from add_memory_regions_phase [OF this s1] have ph: "ram_phase (set (take n msx)) s1" by simp
  note c = ram_phase_coalesce [OF ph]
  have car: "carvable (coalesce s1)" using c(1,2) by (auto simp: carvable_def kind_def ram_kind_def plain_def)
  from s2 obtain b where b: "add_reserved_region_with_type (coalesce s1) (blob_region fdt) EfiACPIReclaimMemory = (Inr (), b)"
    and s2b: "s2 = coalesce b"
    by (auto simp: reserve_original_fdt_def reserve_region_with_type_def blob_region_def sbind_eq_Inr)
  note w2 = reservation_withdraws [OF car b]
  have w2': "withdraws (coalesce s1) (region_pages True (blob_region fdt)) s2"
    unfolding s2b by (rule withdraws_coalesce) (use w2 in simp)
  have w3: "withdraws s2 (\<lambda>x. \<exists>r \<in> set (take k res). region_pages True r x) s3
      \<and> (\<forall>r \<in> set (take k res). \<exists>q. align_region_to_pages r True = Inr q)"
    by (rule add_reserved_regions_withdraws [OF _ s3]) (use w2' in \<open>simp add: withdraws_def\<close>)
  obtain go where v: "visit_all (\<lambda>(r, t). carve_static r t) (static_regions fdt) (Inr (), s3) = (go, (Inr (), s4))"
    using s4 unfolding for_each_static_visits by (metis prod.collapse)
  have w4: "withdraws s3 (\<lambda>x. \<exists>(r, t) \<in> set (static_regions fdt). region_pages True r x) s4
      \<and> (\<forall>(r, t) \<in> set (static_regions fdt). \<exists>q. align_region_to_pages r True = Inr q)"
    by (rule carve_static_withdraws [OF _ v]) (use w3 in \<open>simp add: withdraws_def\<close>)
  have w5: "withdraws s4 (firmware_pages lla) s5"
    by (rule add_firmware_regions_withdraws [OF _ s5]) (use w4 in \<open>simp add: withdraws_def\<close>)
  have w: "withdraws (coalesce s1) (\<lambda>x. region_pages True (blob_region fdt) x
        \<or> (\<exists>r \<in> set (take k res). region_pages True r x)
        \<or> (\<exists>(r, t) \<in> set (static_regions fdt). region_pages True r x)
        \<or> firmware_pages lla x) a"
    unfolding a
    using withdraws_trans [OF w2' withdraws_trans [OF conjunct1 [OF w3] withdraws_trans [OF conjunct1 [OF w4] w5]]]
    by (rule withdraws_coalesce)
  have n: "normal a" unfolding a using w5 by (intro normal_coalesce) (auto simp: withdraws_def carvable_def)
  have al: "\<forall>r \<in> insert (blob_region fdt) (set (take k res) \<union> fst ` set (static_regions fdt)).
      \<exists>q. align_region_to_pages r True = Inr q"
    using conjunct2 [OF w2] conjunct2 [OF w3] conjunct2 [OF w4] by fastforce
  show ?thesis
    by (intro exI [of _ s1] exI [of _ n] exI [of _ k] exI [of _ res] conjI
        m [unfolded msx] ph [unfolded msx] r w n al)
qed

lemma coalesce_list_sound:
  "\<forall>d \<in> set ds. wf_desc d \<and> kind d = k \<Longrightarrow> sorted (map dstart ds) \<Longrightarrow> covered (coalesce_list ds) a \<Longrightarrow> covered ds a"
proof (induction ds rule: coalesce_list.induct)
  case (3 c n ds)
  then have wf: "wf_desc c" "wf_desc n" and le: "dstart c \<le> dstart n" and kd: "kind c = kind n" by simp_all
  show ?case
  proof (cases "descriptors_are_compatible c n")
    case True
    then have le2: "dstart n \<le> dend c" using compatible_kind [OF kd wf(1)] by simp
    note m = merge_descriptors_wf [OF wf le]
    have "covered (merge_descriptors c n # ds) a"
      using "3.prems" True m le by (intro "3.IH"(1) [OF True]) auto
    then show ?thesis using m le2 by (auto simp: covered_Cons)
  next
    case False
    then have "dstart c \<le> a \<and> a < dend c \<or> covered (coalesce_list (n # ds)) a"
      using "3.prems"(3) by (simp add: covered_Cons)
    then show ?thesis using "3.IH"(2) [OF False] "3.prems" by (auto simp: covered_Cons)
  qed
qed auto

lemma ram_phase_sound:
  assumes "ram_phase R self" and "map_type (coalesce self) a \<noteq> None"
  shows "\<exists>r \<in> R. region_pages False r a"
proof -
  have ok: "buffer_ok self" and srt: "sorted (map dstart (active self))" using assms(1) by (auto simp: ram_phase_def)
  show ?thesis
    using coalesce_list_sound [OF ram_phase_descs [OF assms(1)] srt] ram_phase_covered [OF assms(1)]
      assms(2) coalesce_active(1) [OF ok] by (simp add: map_type_def covered_type_at)
qed

section \<open>What the allocator built from a device tree guarantees\<close>

definition in_region :: "MemoryRegion \<Rightarrow> nat \<Rightarrow> bool" where
  "in_region r x \<longleftrightarrow> unat (base r) \<le> x \<and> x < unat (base r) + unat (region_size r)"

lemma from_fdt_free:
  assumes f: "from_fdt lla fdt ms rs buffer = (Inr a, ms', rs')"
    and m: "memory_regions fdt ms = (n, ms1)" and r: "reserve_map_regions fdt rs = (k, res)"
    and x: "map_type a x = Some (type_u32 EfiConventionalMemory)"
  shows "normal a \<and> (\<exists>reg \<in> set (take n ms1). in_region reg x)
    \<and> \<not> in_region (blob_region fdt) x \<and> (\<forall>reg \<in> set (take k res). \<not> in_region reg x)
    \<and> (\<forall>(reg, t) \<in> set (static_regions fdt). \<not> in_region reg x) \<and> \<not> firmware_pages lla x"
proof -
  obtain ram where ph: "ram_phase (set (take n ms1)) ram" and nm: "normal a"
    and w: "withdraws (coalesce ram) (\<lambda>x. region_pages True (blob_region fdt) x
        \<or> (\<exists>r \<in> set (take k res). region_pages True r x)
        \<or> (\<exists>(r, t) \<in> set (static_regions fdt). region_pages True r x) \<or> firmware_pages lla x) a"
    and al: "\<forall>r \<in> insert (blob_region fdt) (set (take k res) \<union> fst ` set (static_regions fdt)).
         \<exists>q. align_region_to_pages r True = Inr q"
    using from_fdt_withdraws [OF f] m r by auto
  have out: "region_pages True reg x"
    if "reg \<in> insert (blob_region fdt) (set (take k res) \<union> fst ` set (static_regions fdt))" "in_region reg x" for reg
    using bspec [OF al that(1)] that(2) region_pages_outwards [of reg] by (auto simp: in_region_def)
  have free: "map_type (coalesce ram) x \<noteq> None"
    and no: "\<not> region_pages True (blob_region fdt) x" "\<forall>r \<in> set (take k res). \<not> region_pages True r x"
      "\<forall>(r, t) \<in> set (static_regions fdt). \<not> region_pages True r x" "\<not> firmware_pages lla x"
    using w x by (auto simp: withdraws_def)
  have "\<exists>reg \<in> set (take n ms1). in_region reg x"
    using ram_phase_sound [OF ph free] region_pages_inwards by (auto simp: in_region_def)
  moreover have "\<not> in_region (blob_region fdt) x" using out no(1) by blast
  moreover have "\<forall>reg \<in> set (take k res). \<not> in_region reg x" using out no(2) by blast
  moreover have "\<not> in_region reg x" if "(reg, t) \<in> set (static_regions fdt)" for reg t
  proof -
    have "reg \<in> fst ` set (static_regions fdt)" "\<not> region_pages True reg x" using that no(3) by force+
    then show ?thesis using out by blast
  qed
  then have "\<forall>(reg, t) \<in> set (static_regions fdt). \<not> in_region reg x" by blast
  ultimately show ?thesis using nm no(4) by blast
qed


text \<open>
  The page allocator the firmware boots with never hands out the device tree it was built from:
  every byte of the blob the boot environment passed, of the size its header states, is not
  conventional memory, so no allocation returns it.
\<close>
theorem live_fdt_is_kept:
  assumes l: "page_allocator_from_live_fdt lla mem ptr ms rs buffer = Some a"
    and f: "from_ptr mem ptr = Inr fdt" and i: "i < total_size fdt"
  shows "normal a \<and> map_type a (unat ptr + i) \<noteq> Some (type_u32 EfiConventionalMemory)"
proof -
  obtain ms' rs' where b: "from_fdt lla fdt ms rs buffer = (Inr a, ms', rs')"
    using l f by (auto simp: page_allocator_from_live_fdt_def bind_eq_Some_conv) (metis prod.collapse)
  obtain n ms1 k res where m: "memory_regions fdt ms = (n, ms1)" and r: "reserve_map_regions fdt rs = (k, res)"
    by fastforce
  note s = from_ptr_shape [OF f]
  have "unat (of_nat (total_size fdt) :: u64) = total_size fdt" using s by (simp add: unat_of_nat)
  then have "in_region (blob_region fdt) (unat ptr + i)"
    using i s by (simp add: in_region_def blob_region_def base_ptr_def total_size_bytes_def)
  then show ?thesis using from_fdt_free [OF b m r, of "unat ptr + i"] from_fdt_withdraws [OF b] by blast
qed

section \<open>Region lists\<close>

definition encode_region :: "nat \<Rightarrow> nat \<Rightarrow> MemoryRegion \<Rightarrow> u8 list" where
  "encode_region ac sc r = to_be_bytes (4 * ac) (base r) @ to_be_bytes (4 * sc) (region_size r)"

lemma read_cells_to_be:
  assumes "cells \<le> 2" and "unat w < 256 ^ (4 * cells)"
  shows "read_cells (to_be_bytes (4 * cells) w) cells = (w :: u64)"
  using assms read_cells_value [of cells "to_be_bytes (4 * cells) w"]
  by (simp add: to_be_bytes_def be_nat_rev le_nat_nat_to_le word_unat_eq_iff)

definition cells_fit :: "nat \<Rightarrow> nat \<Rightarrow> MemoryRegion \<Rightarrow> bool" where
  "cells_fit ac sc r \<longleftrightarrow> unat (base r) < 256 ^ (4 * ac) \<and> unat (region_size r) < 256 ^ (4 * sc)"

lemma regions_from_encode:
  assumes c: "ac \<le> 2" "sc \<le> 2" "0 < ac + sc"
  shows "\<forall>r \<in> set rs. cells_fit ac sc r \<Longrightarrow> length pre = i \<Longrightarrow> length post < (ac + sc) * 4 \<Longrightarrow>
    regions_from (pre @ concat (map (encode_region ac sc) rs) @ post) ac sc i = rs"
proof (induction rs arbitrary: pre i)
  case Nil
  then show ?case by (subst regions_from.simps) auto
next
  case (Cons r rs)
  have len: "length (encode_region ac sc r) = (ac + sc) * 4" by (simp add: encode_region_def)
  have "regions_from ((pre @ encode_region ac sc r) @ concat (map (encode_region ac sc) rs) @ post) ac sc
      (i + (ac + sc) * 4) = rs"
    using Cons.prems len by (intro Cons.IH) auto
  moreover have "read_cells (to_be_bytes (4 * ac) (base r)) ac = base r"
    "read_cells (to_be_bytes (4 * sc) (region_size r)) sc = region_size r"
    using Cons.prems(1) c read_cells_to_be by (auto simp: cells_fit_def)
  ultimately show ?case using Cons.prems(2) c(3)
    by (subst regions_from.simps) (simp add: encode_region_def mult.commute)
qed

lemma store_regions:
  "count \<le> length out \<Longrightarrow>
   snd (visit_all store_region rs (count, out)) =
     (let n = min (length rs) (length out - count)
      in (count + n, take count out @ take n rs @ drop (count + n) out))"
proof (induction rs arbitrary: count out)
  case Nil
  then show ?case by simp
next
  case (Cons r rs)
  show ?case
  proof (cases "count = length out")
    case True
    then show ?thesis by (simp add: store_region_def)
  next
    case False
    with Cons.prems have lt: "count < length out" by simp
    have "snd (visit_all store_region (r # rs) (count, out)) = snd (visit_all store_region rs (count + 1, out[count := r]))"
      using False by (simp add: store_region_def)
    also have "\<dots> = (let n = min (length rs) (length out - (count + 1))
      in (count + 1 + n, take (count + 1) (out[count := r]) @ take n rs @ drop (count + 1 + n) (out[count := r])))"
      using Cons.IH [of "count + 1" "out[count := r]"] lt by simp
    finally show ?thesis using lt
      by (simp add: Let_def take_Suc_conv_app_nth min_diff Suc_diff_Suc [symmetric] drop_update_cancel
          take_update_cancel)
  qed
qed

text \<open>
  Decoding the payload of a \<open>reg\<close> property inverts its encoding: for one or two address and size
  cells, \<open>decode_regions\<close> writes exactly the encoded regions, in order, as many as the output holds, and
  leaves the rest of the output alone.
\<close>
theorem decode_regions_roundtrip:
  assumes "ac \<le> 2" "sc \<le> 2" "0 < ac + sc" and "\<forall>r \<in> set rs. cells_fit ac sc r"
  shows "decode_regions (concat (map (encode_region ac sc) rs)) ac sc out =
    (let n = min (length rs) (length out) in (n, take n rs @ drop n out))"
  using store_regions [of 0 out rs] regions_from_encode [OF assms(1-4), of "[]" 0 "[]"] assms(3)
  by (simp add: decode_regions_def visit_decoded_regions_visits)

theorem decode_regions_roundtrip_witness:
  "fst (decode_regions (concat (map (encode_region 2 1) [\<lparr>base = 0x80000000, region_size = 0x1000\<rparr>])) 2 1
      (replicate 3 \<lparr>base = 0, region_size = 0\<rparr>)) = 1"
  using decode_regions_roundtrip [of 2 1 "[\<lparr>base = 0x80000000, region_size = 0x1000\<rparr>]"
      "replicate 3 \<lparr>base = 0, region_size = 0\<rparr>"]
  by (simp add: cells_fit_def)

section \<open>Outputs stay inside the caller's slice\<close>

definition slot_ok :: "nat \<Rightarrow> nat \<times> MemoryRegion list \<Rightarrow> bool" where
  "slot_ok n s \<longleftrightarrow> fst s \<le> length (snd s) \<and> length (snd s) = n"

lemma visit_all_invariant:
  "(\<And>c s. I s \<Longrightarrow> I (snd (visit c s))) \<Longrightarrow> I s \<Longrightarrow> I (snd (visit_all visit cs s))"
proof (induction cs arbitrary: s)
  case (Cons c cs)
  obtain go s' where v: "visit c s = (go, s')" by fastforce
  have "I s'" using Cons.prems(1) [of s c] Cons.prems(2) v by simp
  then show ?case using Cons.IH [of s'] Cons.prems(1) v by (cases go) simp_all
qed simp

lemma decode_into_ok: "slot_ok n s \<Longrightarrow> slot_ok n (decode_into reg ac sc s)"
  using store_regions [of 0 "drop (fst s) (snd s)" "regions_from reg ac sc 0"]
  by (cases s) (auto simp: decode_into_def decode_regions_def visit_decoded_regions_visits slot_ok_def Let_def)

lemma reserve_map_loop_ok: "slot_ok n (count, out) \<Longrightarrow> slot_ok n (reserve_map_loop fdt count out)"
proof (induction fdt count out rule: reserve_map_loop.induct)
  case (1 fdt count out)
  then show ?case by (subst reserve_map_loop.simps) (auto simp: slot_ok_def split: option.splits)
qed

lemma memory_regions_ok: "slot_ok (length out) (memory_regions fdt out)"
proof -
  have "slot_ok (length out) (snd (visit_memory_node fdt ac sc node s))" if "slot_ok (length out) s" for ac sc node s
    using that decode_into_ok by (auto simp: visit_memory_node_def split: option.splits)
  then show ?thesis
    by (auto simp: memory_regions_def for_each_child_visits Let_def slot_ok_def [of _ "(0, out)"]
        intro!: visit_all_invariant [where I = "slot_ok (length out)"] split: option.splits)
qed

lemma reserved_memory_regions_ok: "slot_ok (length out) (reserved_memory_regions fdt ac sc out)"
proof -
  have "slot_ok (length out) (snd (visit_reserved_node fdt ac sc node s))" if "slot_ok (length out) s" for ac sc node s
    using that decode_into_ok by (auto simp: visit_reserved_node_def split: option.splits)
  then show ?thesis
    by (auto simp: reserved_memory_regions_def for_each_child_visits Let_def slot_ok_def [of _ "(0, out)"]
        intro!: visit_all_invariant [where I = "slot_ok (length out)"] split: option.splits)
qed

lemma reserved_memory_regions_slots:
  "reserved_memory_regions fdt ac sc out = (n, rest) \<Longrightarrow> n \<le> length rest \<and> length rest = length out"
  using reserved_memory_regions_ok [of out fdt ac sc] by (simp add: slot_ok_def)

text \<open>
  Whatever the device tree contains, the three collectors write only inside the slice they are
  given: the slice keeps its length and the returned count does not exceed it, so the firmware's
  fixed-size region arrays cannot be overrun and \<open>regions[..count]\<close> does not panic.
\<close>
theorem collectors_in_bounds:
  "slot_ok (length out) (memory_regions fdt out) \<and> slot_ok (length out) (reserve_map_regions fdt out)
   \<and> slot_ok (length out) (reserved_regions fdt out)"
proof -
  obtain k o' where r: "reserve_map_regions fdt out = (k, o')" by fastforce
  have m: "slot_ok (length out) (reserve_map_regions fdt out)"
    unfolding reserve_map_regions_def by (rule reserve_map_loop_ok) (simp add: slot_ok_def)
  have "slot_ok (length out) (reserved_regions fdt out)"
  proof (cases "root_node fdt")
    case None
    then show ?thesis by (simp add: reserved_regions_def slot_ok_def)
  next
    case (Some root)
    obtain n rest where n: "reserved_memory_regions fdt (cells_or fdt root ''#address-cells'' 2) (cells_or fdt root ''#size-cells'' 1)
        (drop k o') = (n, rest)" by fastforce
    have n': "n \<le> length rest" "length rest = length o' - k" using reserved_memory_regions_slots [OF n] by simp_all
    have "k \<le> length o'" "length o' = length out" using m r by (simp_all add: slot_ok_def)
    then show ?thesis using n n' by (simp add: reserved_regions_def slot_ok_def Let_def r Some) arith
  qed
  then show ?thesis using m memory_regions_ok by blast
qed

section \<open>A concrete board\<close>

text \<open>A tree with one \<open>memory\<close> node: sixteen pages at \<open>0x80000000\<close>, the blob stored in its third page.\<close>

definition board_tree :: dt_item where
  "board_tree = NodeItem [] [PropItem 0 [0, 0, 0, 1], PropItem 15 [0, 0, 0, 1],
     NodeItem (str ''memory'') [PropItem 27 [0x80, 0, 0, 0, 0, 1, 0, 0]]]"

definition board_fdt :: Fdt where
  "board_fdt = \<lparr>fdt_base = 0x80002000, total_size = 167, reserve_map = [0, 0, 0, 0, 0, 0, 0, 0, 0, 0, 0, 0, 0, 0, 0, 0],
     struct_block = flatten board_tree,
     strings = str ''#address-cells'' @ [0] @ str ''#size-cells'' @ [0] @ str ''reg'' @ [0]\<rparr>"

lemma board_strings:
  "string_at board_fdt 0 = Some (str ''#address-cells'')" "string_at board_fdt 15 = Some (str ''#size-cells'')"
  "string_at board_fdt 27 = Some (str ''reg'')"
  by (simp_all add: string_at_def board_fdt_def slice_from_def str_def from_utf8_def)

lemma board_length: "length (flatten board_tree) = 80"
  by (simp add: board_tree_def pad4_def align4_def str_def)

lemma board_ok: "block_ok board_fdt" "at_offset board_fdt 0 (flatten board_tree)" "valid_item board_fdt board_tree"
  using board_length by (simp add: block_ok_def board_fdt_def, simp add: at_offset_def board_fdt_def,
    simp add: board_tree_def board_strings, simp add: str_def)

abbreviation board_memory :: dt_item where
  "board_memory \<equiv> NodeItem (str ''memory'') [PropItem 27 [0x80, 0, 0, 0, 0, 1, 0, 0]]"

abbreviation board_items :: "dt_item list" where
  "board_items \<equiv> [PropItem 0 [0, 0, 0, 1], PropItem 15 [0, 0, 0, 1], board_memory]"

lemmas board_at = board_ok(1) board_ok(3) [unfolded board_tree_def] dvd_0_right board_ok(2) [unfolded board_tree_def]

lemma board_content: "content_offset 0 [] = 8"
  by (simp add: content_offset_def align4_def)

lemma board_find: "find_sub 8 board_items (str ''memory'') = Some (40, board_memory)"
  by (simp add: pad4_def align4_def)

lemma board_memory_at: "at_offset board_fdt 40 (flatten board_memory)" "(4::nat) dvd 40" "valid_item board_fdt board_memory"
  using find_sub_at [OF board_find _ _, of board_fdt] node_content(2,3) [OF board_at] board_ok(3)
  by (simp_all add: board_content board_tree_def)

lemma board_root: "root_node board_fdt = Some (node_view 0 board_tree)"
  using node_at_offset_flatten [OF board_at] by (simp add: root_node_def board_tree_def)

lemma board_cells:
  "cells_or board_fdt (node_view 0 board_tree) ''#address-cells'' d = 1"
  "cells_or board_fdt (node_view 0 board_tree) ''#size-cells'' d = 1"
  using get_property_flatten [OF board_at]
  by (simp_all add: cells_or_def get_property_u32_def board_tree_def board_strings str_def
      read_be_u32_from_slice_def slice_get_def from_be_bytes_def)

lemma board_visit:
  "visit_memory_node board_fdt 1 1 (node_view 40 board_memory) (0, z # zs) =
     (True, (1, \<lparr>base = 0x80000000, region_size = 0x10000\<rparr> # zs))"
proof -
  note g = get_property_flatten [OF board_ok(1) board_memory_at(3,2,1)]
  have n: "node_name (node_view 40 board_memory) = str ''memory''" by (simp add: node_view_def)
  have d: "get_property_string board_fdt (node_view 40 board_memory) (str ''device_type'') = None"
    using g by (simp add: get_property_string_def board_strings str_def)
  have r: "get_property board_fdt (node_view 40 board_memory) (str ''reg'') = Some [0x80, 0, 0, 0, 0, 1, 0, 0]"
    using g by (simp add: board_strings)
  have "decode_into [0x80, 0, 0, 0, 0, 1, 0, 0] 1 1 (0, z # zs) = (1, \<lparr>base = 0x80000000, region_size = 0x10000\<rparr> # zs)"
    by (simp add: decode_into_def decode_regions_def visit_decoded_regions_def visit_regions_loop.simps
        store_region_def read_cells_def read_cells_loop.simps read_be_u32_from_slice_def slice_get_def
        from_be_bytes_def Let_def)
  then show ?thesis using n d r by (simp add: visit_memory_node_def)
qed

lemma board_memory_regions:
  "memory_regions board_fdt (z # zs) = (1, \<lparr>base = 0x80000000, region_size = 0x10000\<rparr> # zs)"
proof -
  have "child_views 8 board_items = [node_view 40 board_memory]" by (simp add: pad4_def align4_def)
  then have "for_each_child board_fdt (node_view 0 board_tree) (visit_memory_node board_fdt 1 1) (0, z # zs)
      = (1, \<lparr>base = 0x80000000, region_size = 0x10000\<rparr> # zs)"
    using for_each_child_flatten [OF board_at, of "visit_memory_node board_fdt 1 1" "(0, z # zs)"] board_visit [of z]
    by (simp add: board_content board_tree_def)
  then show ?thesis by (simp add: memory_regions_def board_root board_cells Let_def)
qed

lemma board_no_reserved: "find_node board_fdt (str ''/reserved-memory'') = None"
proof -
  have p: "path_of [str ''reserved-memory''] = str ''/reserved-memory''" by (simp add: path_of_def str_def)
  show ?thesis
    using find_node_flatten [OF board_at(1,2,4), of "[str ''reserved-memory'']"] unfolding p
    by (simp add: str_def board_content)
qed

lemma board_reserve_map: "reserve_map_regions board_fdt (z # zs) = (0, z # zs)"
  by (simp add: reserve_map_regions_def reserve_map_loop.simps reserve_entry_def board_fdt_def us_checked_mul_def
      read_be_u64_from_slice_def slice_get_def from_be_bytes_def)

lemma board_static: "for_each_static_reserved_memory_region board_fdt visit s = s"
  by (simp add: for_each_static_reserved_memory_region_def board_root board_no_reserved Let_def)

definition board_descriptor :: "u32 \<Rightarrow> u64 \<Rightarrow> u64 \<Rightarrow> EFI_MEMORY_DESCRIPTOR" where
  "board_descriptor t start pages =
     \<lparr>Type = t, PhysicalStart = start, VirtualStart = 0, NumberOfPages = pages, Attribute = 0\<rparr>"

definition board_buffer :: "EFI_MEMORY_DESCRIPTOR list \<Rightarrow> EFI_MEMORY_DESCRIPTOR list" where
  "board_buffer T = EMPTY_DESCRIPTOR # EMPTY_DESCRIPTOR # EMPTY_DESCRIPTOR # T"

definition board_ram :: "EFI_MEMORY_DESCRIPTOR list \<Rightarrow> PageAllocator" where
  "board_ram T = \<lparr>descriptors = board_descriptor 7 0x80000000 16 # EMPTY_DESCRIPTOR # EMPTY_DESCRIPTOR # T,
     descriptor_count = 1\<rparr>"

definition board_map :: "EFI_MEMORY_DESCRIPTOR list \<Rightarrow> PageAllocator" where
  "board_map T = \<lparr>descriptors = board_descriptor 7 0x80000000 2 # board_descriptor 9 0x80002000 1
     # board_descriptor 7 0x80003000 13 # T, descriptor_count = 3\<rparr>"

lemmas board_run = board_ram_def board_map_def board_descriptor_def board_buffer_def EMPTY_DESCRIPTOR_def
  coalesce_def coalesce_loop.simps descriptors_are_compatible_def descriptor_end_def checked_end_def
  checked_mul_def checked_add_def align_region_to_pages_def align_down_def align_up_def Let_def
  insert_sorted_def sorted_index.simps insert_descriptor_def shift_up.simps bytes_to_pages_def
  carve_range_for_reserved_region_def carve_loop.simps replace_range_def replace_descriptor_def
  prefix_part_def middle_part_def suffix_part_def shift_tail.simps

lemma board_ram_phase:
  "add_memory_regions \<lparr>descriptors = board_buffer T, descriptor_count = 0\<rparr> [\<lparr>base = 0x80000000, region_size = 0x10000\<rparr>]
     = (Inr (), board_ram T)"
  by (simp add: board_run add_memory_region_def)

lemma board_coalesced: "coalesce (board_ram T) = board_ram T" "coalesce (board_map T) = board_map T"
  by (simp_all add: board_run)

lemma board_blob_phase: "reserve_original_fdt board_fdt (board_ram T) = (Inr (), board_map T)"
proof -
  have "add_reserved_region_with_type (board_ram T) \<lparr>base = 0x80002000, region_size = 167\<rparr> EfiACPIReclaimMemory
      = (Inr (), board_map T)"
    by (simp add: board_run add_reserved_region_with_type_def)
  then show ?thesis using board_coalesced(2)
    by (simp add: reserve_original_fdt_def reserve_region_with_type_def base_ptr_def total_size_bytes_def board_fdt_def)
qed

lemma board_firmware: "add_firmware_regions (\<lambda>_. 0) a = (Inr (), a)"
proof -
  have "add_linker_region s 0 0 t = (Inr (), s)" for s t
    by (simp add: add_linker_region_def linker_region_def add_firmware_region_def)
  then show ?thesis
    by (simp add: add_firmware_regions_def firmware_code_start_def firmware_code_end_def firmware_data_start_def
        firmware_data_end_def firmware_heap_start_def firmware_heap_end_def firmware_stack_bottom_def
        firmware_stack_top_def)
qed

lemma board_from_fdt:
  "\<exists>rs'. from_fdt (\<lambda>_. 0) board_fdt (z # zs) (y # ys) (board_buffer T) =
     (Inr (board_map T), \<lparr>base = 0x80000000, region_size = 0x10000\<rparr> # zs, rs')"
proof -
  obtain n rs' where "reserved_regions board_fdt (y # ys) = (n, rs')" by fastforce
  then show ?thesis
    by (simp add: from_fdt_def board_memory_regions board_reserve_map board_ram_phase board_coalesced
        board_blob_phase board_static board_firmware del: add_memory_regions.simps)
qed

lemma board_type:
  "map_type (board_map T) x = (if 0x80000000 \<le> x \<and> x < 0x80002000 then Some 7
     else if 0x80002000 \<le> x \<and> x < 0x80003000 then Some 9
     else if 0x80003000 \<le> x \<and> x < 0x80010000 then Some 7 else None)"
  by (simp add: map_type_def active_def board_map_def board_descriptor_def dstart_def dend_def dpages_def)

definition board_scratch :: "MemoryRegion list" where
  "board_scratch = [\<lparr>base = 0, region_size = 0\<rparr>]"


text \<open>The blob of the board as it lies in memory.\<close>

definition board_header :: "u8 list" where
  "board_header = [0xd0, 0x0d, 0xfe, 0xed, 0, 0, 0, 167, 0, 0, 0, 40, 0, 0, 0, 120, 0, 0, 0, 151, 0, 0, 0, 17,
     0, 0, 0, 16, 0, 0, 0, 0, 0, 0, 0, 31, 0, 0, 0, 80]"

definition board_blob :: "u8 list" where
  "board_blob = board_header @ struct_block board_fdt @ strings board_fdt @ reserve_map board_fdt"

definition board_bytes :: "u64 \<Rightarrow> u8" where
  "board_bytes a = board_blob ! unat (a - 0x80002000)"

lemma board_section_lengths:
  "length board_header = 40" "length (struct_block board_fdt) = 80" "length (strings board_fdt) = 31"
  "length (reserve_map board_fdt) = 16"
  using board_length by (simp_all add: board_header_def board_fdt_def str_def)

lemma board_blob_length: "length board_blob = 167"
  by (simp add: board_blob_def board_section_lengths)

lemma board_read: "k + n \<le> 167 \<Longrightarrow> read_bytes board_bytes (0x80002000 + of_nat k) n = take n (drop k board_blob)"
proof (rule nth_equalityI)
  fix i assume k: "k + n \<le> 167" and "i < length (read_bytes board_bytes (0x80002000 + of_nat k) n)"
  then have i: "i < n" by simp
  have "unat (0x80002000 + of_nat k + of_nat i - 0x80002000 :: u64) = k + i"
    using i k by (simp add: unat_of_nat flip: of_nat_add)
  then show "read_bytes board_bytes (0x80002000 + of_nat k) n ! i = take n (drop k board_blob) ! i"
    using i k board_blob_length by (simp add: read_bytes_def board_bytes_def)
qed (simp add: board_blob_length)

lemma board_field:
  assumes "k + 4 \<le> 40"
  shows "read_be_u32 board_bytes 0x80002000 k = Some (from_be_bytes (take 4 (drop k board_header)))"
  using assms board_read [of k 4] board_section_lengths(1) by (simp add: read_be_u32_def board_blob_def)

lemma board_from_ptr: "from_ptr board_bytes 0x80002000 = Inr board_fdt"
proof -
  have blob: "read_bytes board_bytes 0x80002000 167 = board_blob"
    using board_read [of 0 167] board_blob_length by simp
  have f: "read_be_u32 board_bytes 0x80002000 0 = Some FDT_MAGIC" "read_be_u32 board_bytes 0x80002000 4 = Some 167"
    "read_be_u32 board_bytes 0x80002000 8 = Some 40" "read_be_u32 board_bytes 0x80002000 12 = Some 120"
    "read_be_u32 board_bytes 0x80002000 16 = Some 151" "read_be_u32 board_bytes 0x80002000 20 = Some 17"
    "read_be_u32 board_bytes 0x80002000 32 = Some 31" "read_be_u32 board_bytes 0x80002000 36 = Some 80"
    by (simp_all add: board_field board_header_def from_be_bytes_def FDT_MAGIC_def)
  have "take 80 (drop 40 board_blob) = struct_block board_fdt" "take 31 (drop 120 board_blob) = strings board_fdt"
    "drop 151 board_blob = reserve_map board_fdt"
    by (simp_all add: board_blob_def board_section_lengths)
  then show ?thesis
    using f blob by (simp add: from_ptr_def validate_dtb_pointer_def FDT_HEADER_SIZE_def us_checked_add_def Let_def)
      (simp add: board_fdt_def)
qed

lemma board_live:
  "page_allocator_from_live_fdt (\<lambda>_. 0) board_bytes 0x80002000 (z # zs) (y # ys) (board_buffer T) = Some (board_map T)"
proof -
  obtain rs' where "from_fdt (\<lambda>_. 0) board_fdt (z # zs) (y # ys) (board_buffer T)
      = (Inr (board_map T), \<lparr>base = 0x80000000, region_size = 0x10000\<rparr> # zs, rs')" using board_from_fdt by blast
  then show ?thesis using board_from_ptr by (simp add: page_allocator_from_live_fdt_def)
qed

theorem live_fdt_is_kept_witness:
  "\<exists>a. page_allocator_from_live_fdt (\<lambda>_. 0) board_bytes 0x80002000 board_scratch board_scratch (board_buffer []) = Some a
     \<and> map_type a 0x80002010 \<noteq> Some 7"
proof -
  note l = board_live [of "\<lparr>base = 0, region_size = 0\<rparr>" "[]" "\<lparr>base = 0, region_size = 0\<rparr>" "[]" "[]",
    folded board_scratch_def]
  show ?thesis using live_fdt_is_kept [OF l board_from_ptr, of 16] l by (simp add: board_fdt_def)
qed

end
