(* ===== verification/Linux.thy ===== *)
theory Linux
  imports FileSystems DtbMemory DtbWriteSpec
begin

unbundle bit_operations_syntax

text \<open>
  The Linux boot method (\<open>src/linux.rs\<close>): finding and loading the kernel and the initrd, checking and relocating
  the kernel, cloning and updating the device tree, and the transfer of control.

  The state is the page allocator and physical memory. \<open>start\<close> never returns: it is the value \<open>Handoff\<close> with the
  address jumped to and the argument registers. Console messages are not modelled.
\<close>

section \<open>Constants and data\<close>

definition RISCV_LINUX_HEADER_SIZE :: nat where "RISCV_LINUX_HEADER_SIZE = 64"
definition LINUX_DTB_EXTRA_SIZE :: nat where "LINUX_DTB_EXTRA_SIZE = 8 * 1024"
definition RISCV_LINUX_MAGIC :: u64 where "RISCV_LINUX_MAGIC = 0x005643534952"
definition RISCV_LINUX_MAGIC2 :: u32 where "RISCV_LINUX_MAGIC2 = 0x05435352"
definition KERNEL_ALIGNMENT :: u64 where "KERNEL_ALIGNMENT = 2 * 1024 * 1024"

record BootPath =
  path_bytes :: "u8 list"
  path_len :: nat

definition BootPath_from_bytes :: "u8 list \<Rightarrow> BootPath option" where
  "BootPath_from_bytes bs =
     (if 64 < length bs then None
      else Some \<lparr>path_bytes = bs @ replicate (64 - length bs) 0, path_len = length bs\<rparr>)"

definition as_str :: "BootPath \<Rightarrow> u8 list" where
  "as_str self = take (path_len self) (path_bytes self)"

record LinuxBootImageHeader =
  code0 :: u32
  code1 :: u32
  text_offset :: u64
  image_size :: u64
  image_flags :: u64
  image_version :: u32
  res1 :: u32
  res2 :: u64
  image_magic :: u64
  image_magic2 :: u32
  res3 :: u32

datatype LinuxBootError =
    KernelIsDirectory | InitrdIsDirectory | KernelImageTooSmall | InvalidKernelMagic | InvalidKernelMagic2
  | InitrdRangeOverflow | DeviceTreeClone DtbError | DeviceTreeUpdate DtbError

record LinuxBootRequest =
  device_tree :: Dtb
  request_command_line :: "u8 list"
  kernel_size_bytes :: nat
  initrd_size_bytes :: "nat option"

record Handoff =
  entry_address :: u64
  register_a0 :: u64
  register_a1 :: u64

section \<open>Boot images\<close>

definition read_le_u32 :: "u8 list \<Rightarrow> nat \<Rightarrow> u32 option" where
  "read_le_u32 bytes offset = map_option from_le_bytes (slice_get bytes offset (offset + 4))"

definition read_le_u64 :: "u8 list \<Rightarrow> nat \<Rightarrow> u64 option" where
  "read_le_u64 bytes offset = map_option from_le_bytes (slice_get bytes offset (offset + 8))"

definition parse_linux_boot_image_header :: "u8 list \<Rightarrow> LinuxBootError + LinuxBootImageHeader" where
  "parse_linux_boot_image_header bytes =
     (if length bytes < RISCV_LINUX_HEADER_SIZE then Inl KernelImageTooSmall else
      rbind (ok_or KernelImageTooSmall (read_le_u32 bytes 0)) (\<lambda>c0.
      rbind (ok_or KernelImageTooSmall (read_le_u32 bytes 4)) (\<lambda>c1.
      rbind (ok_or KernelImageTooSmall (read_le_u64 bytes 8)) (\<lambda>toff.
      rbind (ok_or KernelImageTooSmall (read_le_u64 bytes 16)) (\<lambda>isize.
      rbind (ok_or KernelImageTooSmall (read_le_u64 bytes 24)) (\<lambda>fl.
      rbind (ok_or KernelImageTooSmall (read_le_u32 bytes 32)) (\<lambda>ver.
      rbind (ok_or KernelImageTooSmall (read_le_u32 bytes 36)) (\<lambda>r1.
      rbind (ok_or KernelImageTooSmall (read_le_u64 bytes 40)) (\<lambda>r2.
      rbind (ok_or KernelImageTooSmall (read_le_u64 bytes 48)) (\<lambda>mg.
      rbind (ok_or KernelImageTooSmall (read_le_u32 bytes 56)) (\<lambda>mg2.
      rbind (ok_or KernelImageTooSmall (read_le_u32 bytes 60)) (\<lambda>r3.
      Inr \<lparr>code0 = c0, code1 = c1, text_offset = toff, image_size = isize, image_flags = fl, image_version = ver,
           res1 = r1, res2 = r2, image_magic = mg, image_magic2 = mg2, res3 = r3\<rparr>))))))))))))"

definition check_kernel_header :: "memory \<Rightarrow> LoadedFile \<Rightarrow> LinuxBootError + unit" where
  "check_kernel_header mem kernel_image =
     rbind (parse_linux_boot_image_header (loaded_bytes mem kernel_image)) (\<lambda>header.
     if image_magic header \<noteq> RISCV_LINUX_MAGIC then Inl InvalidKernelMagic
     else if image_magic2 header \<noteq> RISCV_LINUX_MAGIC2 then Inl InvalidKernelMagic2
     else Inr ())"

section \<open>Paths and command line\<close>

definition kernel_candidate_path :: "nat \<Rightarrow> BootPath option" where
  "kernel_candidate_path index =
     (if index = 0 then BootPath_from_bytes (str ''/boot/vmlinuz'')
      else if index = 1 then BootPath_from_bytes (str ''/vmlinuz'')
      else None)"

definition initrd_candidate_path :: "nat \<Rightarrow> BootPath option" where
  "initrd_candidate_path index =
     (if index = 0 then BootPath_from_bytes (str ''/boot/initrd.img'')
      else if index = 1 then BootPath_from_bytes (str ''/initrd.img'')
      else None)"

text \<open>The digit loop: the digits of a number, least significant first.\<close>

function digits_loop :: "u32 \<Rightarrow> u8 list" where
  "digits_loop v = (0x30 + ucast (v mod 10)) # (if v div 10 = 0 then [] else digits_loop (v div 10))"
  by pat_completeness auto
termination
proof (relation "measure unat", goal_cases)
  case (2 v)
  then have "v \<noteq> 0" by auto
  then show ?case by (simp add: unat_div unat_gt_0)
qed simp

declare digits_loop.simps [simp del]

definition root_command_line :: "nat \<Rightarrow> u32 \<Rightarrow> u8 list option" where
  "root_command_line block_device_index partition_number =
     (if 26 \<le> block_device_index then None
      else let prefix = str ''root=/dev/vda'' in
           Some (prefix[length prefix - 1 := 0x61 + of_nat block_device_index] @ rev (digits_loop partition_number)))"

section \<open>The boot request\<close>

text \<open>\<open>map_err\<close> on an operation with state.\<close>

definition map_error :: "('e \<Rightarrow> 'f) \<Rightarrow> ('e, 'a, 's) outcome \<Rightarrow> ('f, 'a, 's) outcome" where
  "map_error f r = (case fst r of Inl e \<Rightarrow> Inl (f e) | Inr x \<Rightarrow> Inr x, snd r)"

definition update_device_tree :: "memory \<Rightarrow> LinuxBootRequest \<Rightarrow> LoadedFile option \<Rightarrow> u8 list \<Rightarrow> (LinuxBootError, unit, memory) outcome" where
  "update_device_tree mem self initrd command_line =
     sbind (map_error DeviceTreeUpdate (create_node mem (device_tree self) (str ''/chosen''))) (\<lambda>_ mem.
     sbind (case initrd of
              None \<Rightarrow> (Inr (), mem)
            | Some initrd \<Rightarrow>
                sbind (pure_op (ok_or InitrdRangeOverflow (checked_add (physical_start initrd) (of_nat (size_bytes initrd)))) mem)
                  (\<lambda>initrd_end mem.
                sbind (map_error DeviceTreeUpdate (set_property_u64 mem (device_tree self) (str ''/chosen'')
                         (str ''linux,initrd-start'') (physical_start initrd))) (\<lambda>_ mem.
                map_error DeviceTreeUpdate (set_property_u64 mem (device_tree self) (str ''/chosen'')
                         (str ''linux,initrd-end'') initrd_end)))) (\<lambda>_ mem.
     map_error DeviceTreeUpdate (set_property_string mem (device_tree self) (str ''/chosen'') (str ''bootargs'') command_line)))"

definition boot ::
  "FileInfo \<Rightarrow> FileInfo option \<Rightarrow> Dtb \<Rightarrow> u8 list \<Rightarrow> PageAllocator \<times> memory
   \<Rightarrow> (LinuxBootError, LinuxBootRequest, PageAllocator \<times> memory) outcome" where
  "boot kernel_file initrd tree command_line s =
     (if info_file_type kernel_file \<noteq> File then (Inl KernelIsDirectory, s)
      else if (case initrd of Some info \<Rightarrow> info_file_type info \<noteq> File | None \<Rightarrow> False) then (Inl InitrdIsDirectory, s)
      else
        sbind (pure_op (ok_or (DeviceTreeClone SizeOverflow) (us_checked_add (dtb_size tree) LINUX_DTB_EXTRA_SIZE)) s) (\<lambda>new_size s.
        sbind (map_error DeviceTreeClone (dtb_clone tree new_size s)) (\<lambda>cloned s.
        (Inr \<lparr>device_tree = cloned, request_command_line = command_line, kernel_size_bytes = info_size_bytes kernel_file,
              initrd_size_bytes = map_option info_size_bytes initrd\<rparr>, s))))"

definition start_kernel :: "LoadedFile \<Rightarrow> u64 \<Rightarrow> u64 \<Rightarrow> Handoff" where
  "start_kernel kernel_image boot_hart updated_device_tree =
     \<lparr>entry_address = physical_start kernel_image, register_a0 = boot_hart, register_a1 = updated_device_tree\<rparr>"

definition boot_and_start ::
  "LoadedFile \<Rightarrow> LoadedFile option \<Rightarrow> Dtb \<Rightarrow> u8 list \<Rightarrow> u64 \<Rightarrow> PageAllocator \<times> memory
   \<Rightarrow> (LinuxBootError, Handoff, PageAllocator \<times> memory) outcome" where
  "boot_and_start kernel_image initrd tree command_line boot_hart s =
     sbind (boot (FileInfo_new File (size_bytes kernel_image)) (map_option (\<lambda>file. FileInfo_new File (size_bytes file)) initrd)
              tree command_line s) (\<lambda>request s.
     case update_device_tree (snd s) request initrd command_line of
       (Inl e, mem) \<Rightarrow> (Inl e, fst s, mem)
     | (Inr _, mem) \<Rightarrow> (Inr (start_kernel kernel_image boot_hart (dtb_pointer (device_tree request))), fst s, mem))"

definition relocate_kernel :: "LoadedFile \<Rightarrow> PageAllocator \<times> memory \<Rightarrow> LoadedFile option \<times> PageAllocator \<times> memory" where
  "relocate_kernel kernel_loaded s =
     (case allocate_aligned_pages_for_size (fst s) EfiBootServicesData (of_nat (size_bytes kernel_loaded)) KERNEL_ALIGNMENT Low of
        (Inl e, allocator) \<Rightarrow> (None, allocator, snd s)
      | (Inr relocated_start, allocator) \<Rightarrow>
          let mem = write_memory (snd s) relocated_start
                      (read_bytes (snd s) (physical_start kernel_loaded) (size_bytes kernel_loaded)) in
          (case FreePages allocator (physical_start kernel_loaded) (of_nat (page_count kernel_loaded)) of
             (Inl e, allocator) \<Rightarrow> (None, allocator, mem)
           | (Inr _, allocator) \<Rightarrow>
               (Some (LoadedFile_new relocated_start (page_count kernel_loaded) (size_bytes kernel_loaded)), allocator, mem)))"

section \<open>Booting from a partition\<close>

definition try_boot_from_filesystem ::
  "leftovers \<Rightarrow> ('e, 'h) opener \<Rightarrow> ('e, 'h) loader \<Rightarrow> nat \<Rightarrow> u32 \<Rightarrow> u64 \<Rightarrow> u64 \<Rightarrow> PageAllocator \<times> memory
   \<Rightarrow> (Handoff option \<times> PageAllocator \<times> memory) option" where
  "try_boot_from_filesystem leftover fs_open fs_load block_device_index partition_number boot_hart device_tree_ptr s =
     (case load_first_file leftover fs_open fs_load (\<lambda>i. map_option as_str (kernel_candidate_path i)) s of
        None \<Rightarrow> None
      | Some (None, s) \<Rightarrow> Some (None, s)
      | Some (Some (_, kernel_loaded), s) \<Rightarrow>
          (case load_first_file leftover fs_open fs_load (\<lambda>i. map_option as_str (initrd_candidate_path i)) s of
             None \<Rightarrow> None
           | Some (initrd_loaded, s) \<Rightarrow>
               (case root_command_line block_device_index partition_number of
                  None \<Rightarrow> Some (None, s)
                | Some command_line \<Rightarrow>
                    (case Dtb_from_ptr (snd s) device_tree_ptr of
                       Inl e \<Rightarrow> Some (None, s)
                     | Inr tree \<Rightarrow>
                         (case check_kernel_header (snd s) kernel_loaded of
                            Inl e \<Rightarrow> Some (None, s)
                          | Inr _ \<Rightarrow>
                              (case relocate_kernel kernel_loaded s of
                                 (None, s) \<Rightarrow> Some (None, s)
                               | (Some kernel_loaded, s) \<Rightarrow>
                                   (case boot_and_start kernel_loaded (map_option snd initrd_loaded) tree command_line boot_hart s of
                                      (Inl e, s) \<Rightarrow> Some (None, s)
                                    | (Inr handoff, s) \<Rightarrow> Some (Some handoff, s))))))))"

definition try_boot_from_volume ::
  "symbols \<Rightarrow> leftovers \<Rightarrow> ('e, 'h) opener \<Rightarrow> ('e, 'h) loader \<Rightarrow> nat \<Rightarrow> u32 \<Rightarrow> u64 \<Rightarrow> u64 \<Rightarrow> memory
   \<Rightarrow> (Handoff option \<times> memory) option" where
  "try_boot_from_volume lla leftover fs_open fs_load block_device_index partition_number boot_hart device_tree_ptr mem =
     (case page_allocator_from_live_fdt lla mem device_tree_ptr (replicate 8 \<lparr>base = 0, region_size = 0\<rparr>)
             (replicate 16 \<lparr>base = 0, region_size = 0\<rparr>) (replicate 32 EMPTY_MEMORY_DESCRIPTOR) of
        None \<Rightarrow> Some (None, mem)
      | Some allocator \<Rightarrow>
          map_option (\<lambda>(handoff, _, mem). (handoff, mem))
            (try_boot_from_filesystem leftover fs_open fs_load block_device_index partition_number boot_hart device_tree_ptr
               (allocator, mem)))"

definition try_boot_from_partition ::
  "symbols \<Rightarrow> nat \<Rightarrow> leftovers \<Rightarrow> BlockDevice \<Rightarrow> GptPartitionEntry \<Rightarrow> DetectedFilesystem \<Rightarrow> nat \<Rightarrow> u32 \<Rightarrow> u64 \<Rightarrow> u64 \<Rightarrow> memory
   \<Rightarrow> (Handoff option \<times> memory) option" where
  "try_boot_from_partition lla fuel leftover device entry filesystem block_device_index partition_number boot_hart device_tree_ptr mem =
     (case filesystem of
        DetectedFat \<Rightarrow>
          (case FatVolume_new device (first_lba entry) of
             Inl e \<Rightarrow> Some (None, mem)
           | Inr volume \<Rightarrow>
               try_boot_from_volume lla leftover (fat_open volume) fat_load block_device_index partition_number boot_hart device_tree_ptr mem)
      | DetectedExt4 \<Rightarrow>
          (case Ext4Volume_new device (first_lba entry) of
             Inl e \<Rightarrow> Some (None, mem)
           | Inr volume \<Rightarrow>
               try_boot_from_volume lla leftover (ext4_open fuel volume) (ext4_load fuel) block_device_index partition_number boot_hart
                 device_tree_ptr mem)
      | DetectedUnknown \<Rightarrow> Some (None, mem))"

end
