(* ===== verification/Virtio.thy ===== *)
theory Virtio
  imports Block Filesystem DtbRead
begin

unbundle bit_operations_syntax

text \<open>
  The VirtIO transport and block driver of \<open>src/virtio.rs\<close>: register access, the queue in memory, the polling
  block driver and the search for devices on the fixed slots.

  The devices are not part of the program: the record \<open>bus\<close> is a parameter that says what they answer to register
  accesses and what they do to memory. The state of the machine is memory and the state of the devices. Devices act
  when a register is written and while the driver spins. The addresses of the driver's static variables are the
  parameter \<open>statics\<close>.
\<close>

section \<open>The machine\<close>

record 'd bus =
  bus_read :: "u64 \<Rightarrow> 'd \<Rightarrow> u32 \<times> 'd"
  bus_read_byte :: "u64 \<Rightarrow> 'd \<Rightarrow> u8 \<times> 'd"
  bus_write :: "u64 \<Rightarrow> u32 \<Rightarrow> memory \<times> 'd \<Rightarrow> memory \<times> 'd"
  bus_idle :: "memory \<times> 'd \<Rightarrow> memory \<times> 'd"

record virtio_statics =
  queue_memory :: u64
  request_header :: u64
  request_status :: u64

section \<open>Constants\<close>

definition VIRTIO_MMIO_MAGIC :: u32 where "VIRTIO_MMIO_MAGIC = 0x74726976"
definition VIRTIO_MMIO_VERSION_1 :: u32 where "VIRTIO_MMIO_VERSION_1 = 2"
definition VIRTIO_DEVICE_ID_BLOCK :: u32 where "VIRTIO_DEVICE_ID_BLOCK = 2"
definition VIRTIO_MMIO_QEMU_VIRT_BASE :: u64 where "VIRTIO_MMIO_QEMU_VIRT_BASE = 0x10001000"
definition VIRTIO_MMIO_QEMU_VIRT_STRIDE :: u64 where "VIRTIO_MMIO_QEMU_VIRT_STRIDE = 0x1000"
definition VIRTIO_MMIO_QEMU_VIRT_COUNT :: nat where "VIRTIO_MMIO_QEMU_VIRT_COUNT = 8"

definition MMIO_MAGIC_VALUE :: u64 where "MMIO_MAGIC_VALUE = 0x000"
definition MMIO_VERSION :: u64 where "MMIO_VERSION = 0x004"
definition MMIO_DEVICE_ID :: u64 where "MMIO_DEVICE_ID = 0x008"
definition MMIO_VENDOR_ID :: u64 where "MMIO_VENDOR_ID = 0x00c"
definition MMIO_DEVICE_FEATURES :: u64 where "MMIO_DEVICE_FEATURES = 0x010"
definition MMIO_DEVICE_FEATURES_SEL :: u64 where "MMIO_DEVICE_FEATURES_SEL = 0x014"
definition MMIO_DRIVER_FEATURES :: u64 where "MMIO_DRIVER_FEATURES = 0x020"
definition MMIO_DRIVER_FEATURES_SEL :: u64 where "MMIO_DRIVER_FEATURES_SEL = 0x024"
definition MMIO_QUEUE_SEL :: u64 where "MMIO_QUEUE_SEL = 0x030"
definition MMIO_QUEUE_NUM_MAX :: u64 where "MMIO_QUEUE_NUM_MAX = 0x034"
definition MMIO_QUEUE_NUM :: u64 where "MMIO_QUEUE_NUM = 0x038"
definition MMIO_QUEUE_READY :: u64 where "MMIO_QUEUE_READY = 0x044"
definition MMIO_QUEUE_NOTIFY :: u64 where "MMIO_QUEUE_NOTIFY = 0x050"
definition MMIO_INTERRUPT_STATUS :: u64 where "MMIO_INTERRUPT_STATUS = 0x060"
definition MMIO_INTERRUPT_ACK :: u64 where "MMIO_INTERRUPT_ACK = 0x064"
definition MMIO_STATUS :: u64 where "MMIO_STATUS = 0x070"
definition MMIO_QUEUE_DESC_LOW :: u64 where "MMIO_QUEUE_DESC_LOW = 0x080"
definition MMIO_QUEUE_DRIVER_LOW :: u64 where "MMIO_QUEUE_DRIVER_LOW = 0x090"
definition MMIO_QUEUE_DEVICE_LOW :: u64 where "MMIO_QUEUE_DEVICE_LOW = 0x0a0"
definition MMIO_CONFIG_GENERATION :: u64 where "MMIO_CONFIG_GENERATION = 0x0fc"

definition VIRTIO_STATUS_ACKNOWLEDGE :: u32 where "VIRTIO_STATUS_ACKNOWLEDGE = 1"
definition VIRTIO_STATUS_DRIVER :: u32 where "VIRTIO_STATUS_DRIVER = 2"
definition VIRTIO_STATUS_DRIVER_OK :: u32 where "VIRTIO_STATUS_DRIVER_OK = 4"
definition VIRTIO_STATUS_FEATURES_OK :: u32 where "VIRTIO_STATUS_FEATURES_OK = 8"
definition VIRTIO_F_VERSION_1_SELECTOR :: u32 where "VIRTIO_F_VERSION_1_SELECTOR = 1"
definition VIRTIO_F_VERSION_1_BIT :: u32 where "VIRTIO_F_VERSION_1_BIT = 1"
definition VIRTIO_BLK_REQUEST_TYPE_IN :: u32 where "VIRTIO_BLK_REQUEST_TYPE_IN = 0"
definition VIRTIO_BLK_STATUS_OK :: u8 where "VIRTIO_BLK_STATUS_OK = 0"
definition VIRTIO_BLOCK_QUEUE :: u32 where "VIRTIO_BLOCK_QUEUE = 0"
definition VIRTIO_BLOCK_QUEUE_SIZE :: u16 where "VIRTIO_BLOCK_QUEUE_SIZE = 4"
definition VIRTIO_BLOCK_REQUEST_POLL_LIMIT :: nat where "VIRTIO_BLOCK_REQUEST_POLL_LIMIT = 10000000"
definition VIRTQ_DESC_F_NEXT :: u16 where "VIRTQ_DESC_F_NEXT = 1"
definition VIRTQ_DESC_F_WRITE :: u16 where "VIRTQ_DESC_F_WRITE = 2"

lemmas mmio_offsets = MMIO_MAGIC_VALUE_def MMIO_VERSION_def MMIO_DEVICE_ID_def MMIO_DEVICE_FEATURES_def
  MMIO_DEVICE_FEATURES_SEL_def MMIO_DRIVER_FEATURES_def MMIO_DRIVER_FEATURES_SEL_def MMIO_QUEUE_SEL_def
  MMIO_QUEUE_NUM_MAX_def MMIO_QUEUE_NUM_def MMIO_QUEUE_READY_def MMIO_QUEUE_NOTIFY_def MMIO_STATUS_def
  MMIO_QUEUE_DESC_LOW_def MMIO_QUEUE_DRIVER_LOW_def MMIO_QUEUE_DEVICE_LOW_def MMIO_CONFIG_GENERATION_def

section \<open>Transport\<close>

record VirtioMmioDevice =
  mmio_base :: u64

definition from_base :: "u64 \<Rightarrow> VirtioMmioDevice option" where
  "from_base addr = (if addr = 0 then None else Some \<lparr>mmio_base = addr\<rparr>)"

definition qemu_virt_base :: "nat \<Rightarrow> u64" where
  "qemu_virt_base index = VIRTIO_MMIO_QEMU_VIRT_BASE + of_nat index * VIRTIO_MMIO_QEMU_VIRT_STRIDE"

definition read_reg :: "'d bus \<Rightarrow> VirtioMmioDevice \<Rightarrow> u64 \<Rightarrow> memory \<times> 'd \<Rightarrow> u32 \<times> memory \<times> 'd" where
  "read_reg bus self offset s = (case bus_read bus (mmio_base self + offset) (snd s) of (v, d) \<Rightarrow> (v, fst s, d))"

definition write_reg :: "'d bus \<Rightarrow> VirtioMmioDevice \<Rightarrow> u64 \<Rightarrow> u32 \<Rightarrow> memory \<times> 'd \<Rightarrow> memory \<times> 'd" where
  "write_reg bus self offset v s = bus_write bus (mmio_base self + offset) v s"

definition write_reg64 :: "'d bus \<Rightarrow> VirtioMmioDevice \<Rightarrow> u64 \<Rightarrow> u64 \<Rightarrow> memory \<times> 'd \<Rightarrow> memory \<times> 'd" where
  "write_reg64 bus self offset_low v s =
     write_reg bus self (offset_low + 4) (ucast (drop_bit 32 v)) (write_reg bus self offset_low (ucast v) s)"

text \<open>The register accessors. A read may change the device, so it returns the state too.\<close>

definition magic_value :: "'d bus \<Rightarrow> VirtioMmioDevice \<Rightarrow> memory \<times> 'd \<Rightarrow> u32 \<times> memory \<times> 'd" where
  "magic_value bus self s = read_reg bus self MMIO_MAGIC_VALUE s"

definition device_version :: "'d bus \<Rightarrow> VirtioMmioDevice \<Rightarrow> memory \<times> 'd \<Rightarrow> u32 \<times> memory \<times> 'd" where
  "device_version bus self s = read_reg bus self MMIO_VERSION s"

definition device_id :: "'d bus \<Rightarrow> VirtioMmioDevice \<Rightarrow> memory \<times> 'd \<Rightarrow> u32 \<times> memory \<times> 'd" where
  "device_id bus self s = read_reg bus self MMIO_DEVICE_ID s"

definition vendor_id :: "'d bus \<Rightarrow> VirtioMmioDevice \<Rightarrow> memory \<times> 'd \<Rightarrow> u32 \<times> memory \<times> 'd" where
  "vendor_id bus self s = read_reg bus self MMIO_VENDOR_ID s"

definition queue_num_max :: "'d bus \<Rightarrow> VirtioMmioDevice \<Rightarrow> memory \<times> 'd \<Rightarrow> u32 \<times> memory \<times> 'd" where
  "queue_num_max bus self s = read_reg bus self MMIO_QUEUE_NUM_MAX s"

definition queue_ready :: "'d bus \<Rightarrow> VirtioMmioDevice \<Rightarrow> memory \<times> 'd \<Rightarrow> u32 \<times> memory \<times> 'd" where
  "queue_ready bus self s = read_reg bus self MMIO_QUEUE_READY s"

definition interrupt_status :: "'d bus \<Rightarrow> VirtioMmioDevice \<Rightarrow> memory \<times> 'd \<Rightarrow> u32 \<times> memory \<times> 'd" where
  "interrupt_status bus self s = read_reg bus self MMIO_INTERRUPT_STATUS s"

definition device_status :: "'d bus \<Rightarrow> VirtioMmioDevice \<Rightarrow> memory \<times> 'd \<Rightarrow> u32 \<times> memory \<times> 'd" where
  "device_status bus self s = read_reg bus self MMIO_STATUS s"

definition config_generation :: "'d bus \<Rightarrow> VirtioMmioDevice \<Rightarrow> memory \<times> 'd \<Rightarrow> u32 \<times> memory \<times> 'd" where
  "config_generation bus self s = read_reg bus self MMIO_CONFIG_GENERATION s"

definition select_queue :: "'d bus \<Rightarrow> VirtioMmioDevice \<Rightarrow> u32 \<Rightarrow> memory \<times> 'd \<Rightarrow> memory \<times> 'd" where
  "select_queue bus self queue_index s = write_reg bus self MMIO_QUEUE_SEL queue_index s"

definition set_queue_num :: "'d bus \<Rightarrow> VirtioMmioDevice \<Rightarrow> u32 \<Rightarrow> memory \<times> 'd \<Rightarrow> memory \<times> 'd" where
  "set_queue_num bus self queue_size_value s = write_reg bus self MMIO_QUEUE_NUM queue_size_value s"

definition notify_queue :: "'d bus \<Rightarrow> VirtioMmioDevice \<Rightarrow> u32 \<Rightarrow> memory \<times> 'd \<Rightarrow> memory \<times> 'd" where
  "notify_queue bus self queue_index s = write_reg bus self MMIO_QUEUE_NOTIFY queue_index s"

definition acknowledge_interrupt :: "'d bus \<Rightarrow> VirtioMmioDevice \<Rightarrow> u32 \<Rightarrow> memory \<times> 'd \<Rightarrow> memory \<times> 'd" where
  "acknowledge_interrupt bus self bits s = write_reg bus self MMIO_INTERRUPT_ACK bits s"

definition set_queue_ready :: "'d bus \<Rightarrow> VirtioMmioDevice \<Rightarrow> bool \<Rightarrow> memory \<times> 'd \<Rightarrow> memory \<times> 'd" where
  "set_queue_ready bus self ready s = write_reg bus self MMIO_QUEUE_READY (if ready then 1 else 0) s"

definition device_reset :: "'d bus \<Rightarrow> VirtioMmioDevice \<Rightarrow> memory \<times> 'd \<Rightarrow> memory \<times> 'd" where
  "device_reset bus self s = write_reg bus self MMIO_STATUS 0 s"

lemmas register_defs [simp] = magic_value_def device_version_def device_id_def vendor_id_def queue_num_max_def queue_ready_def interrupt_status_def device_status_def config_generation_def
  select_queue_def set_queue_num_def notify_queue_def acknowledge_interrupt_def set_queue_ready_def device_reset_def

definition is_present_device :: "'d bus \<Rightarrow> VirtioMmioDevice \<Rightarrow> memory \<times> 'd \<Rightarrow> bool \<times> memory \<times> 'd" where
  "is_present_device bus self s =
     (case magic_value bus self s of (found, s) \<Rightarrow>
      if found \<noteq> VIRTIO_MMIO_MAGIC then (False, s) else
      case device_version bus self s of (version_value, s) \<Rightarrow>
      if version_value \<noteq> VIRTIO_MMIO_VERSION_1 then (False, s) else
      case device_id bus self s of (id_value, s) \<Rightarrow> (id_value \<noteq> 0, s))"

definition is_block_device :: "'d bus \<Rightarrow> VirtioMmioDevice \<Rightarrow> memory \<times> 'd \<Rightarrow> bool \<times> memory \<times> 'd" where
  "is_block_device bus self s =
     (case is_present_device bus self s of (present, s) \<Rightarrow>
      if \<not> present then (False, s) else
      case device_id bus self s of (id_value, s) \<Rightarrow> (id_value = VIRTIO_DEVICE_ID_BLOCK, s))"

definition device_features :: "'d bus \<Rightarrow> VirtioMmioDevice \<Rightarrow> u32 \<Rightarrow> memory \<times> 'd \<Rightarrow> u32 \<times> memory \<times> 'd" where
  "device_features bus self selector s =
     read_reg bus self MMIO_DEVICE_FEATURES (write_reg bus self MMIO_DEVICE_FEATURES_SEL selector s)"

definition set_driver_features :: "'d bus \<Rightarrow> VirtioMmioDevice \<Rightarrow> u32 \<Rightarrow> u32 \<Rightarrow> memory \<times> 'd \<Rightarrow> memory \<times> 'd" where
  "set_driver_features bus self selector features s =
     write_reg bus self MMIO_DRIVER_FEATURES features (write_reg bus self MMIO_DRIVER_FEATURES_SEL selector s)"

definition set_queue_addresses :: "'d bus \<Rightarrow> VirtioMmioDevice \<Rightarrow> u64 \<Rightarrow> u64 \<Rightarrow> u64 \<Rightarrow> memory \<times> 'd \<Rightarrow> memory \<times> 'd" where
  "set_queue_addresses bus self desc driver device s =
     write_reg64 bus self MMIO_QUEUE_DEVICE_LOW device
       (write_reg64 bus self MMIO_QUEUE_DRIVER_LOW driver (write_reg64 bus self MMIO_QUEUE_DESC_LOW desc s))"

definition add_status :: "'d bus \<Rightarrow> VirtioMmioDevice \<Rightarrow> u32 \<Rightarrow> memory \<times> 'd \<Rightarrow> memory \<times> 'd" where
  "add_status bus self status s =
     (case device_status bus self s of (current, s) \<Rightarrow> write_reg bus self MMIO_STATUS (current OR status) s)"

text \<open>\<open>read_config_u64_le\<close>: read until the configuration did not change meanwhile.\<close>

fun config_bytes :: "'d bus \<Rightarrow> VirtioMmioDevice \<Rightarrow> u64 \<Rightarrow> nat \<Rightarrow> memory \<times> 'd \<Rightarrow> u8 list \<times> memory \<times> 'd" where
  "config_bytes bus self offset 0 s = ([], s)"
| "config_bytes bus self offset (Suc n) s =
     (case bus_read_byte bus (mmio_base self + 0x100 + offset) (snd s) of (b, d) \<Rightarrow>
      case config_bytes bus self (offset + 1) n (fst s, d) of (bs, s) \<Rightarrow> (b # bs, s))"

partial_function (option) read_config_u64_le ::
  "'d bus \<Rightarrow> VirtioMmioDevice \<Rightarrow> u64 \<Rightarrow> memory \<times> 'd \<Rightarrow> (u64 \<times> memory \<times> 'd) option" where
  "read_config_u64_le bus self offset s =
     (case config_generation bus self s of (before, s) \<Rightarrow>
      case config_bytes bus self offset 8 s of (bytes, s) \<Rightarrow>
      case config_generation bus self s of (after, s) \<Rightarrow>
      if before = after then Some (from_le_bytes bytes, s) else read_config_u64_le bus self offset s)"

section \<open>The queue in memory\<close>

record VirtqDescriptor =
  desc_addr :: u64
  desc_len :: u32
  desc_flags :: u16
  desc_next :: u16

record VirtqUsedElem =
  used_elem_id :: u32
  used_elem_len :: u32

record VirtQueueLayout =
  layout_queue_size :: u16
  layout_event_idx :: bool
  desc_offset :: nat
  avail_offset :: nat
  used_offset :: nat
  total_size_of_queue :: nat

definition virtio_align_up :: "nat \<Rightarrow> nat \<Rightarrow> nat" where
  "virtio_align_up v a = unat ((of_nat v + (of_nat a - 1)) AND NOT (of_nat a - 1) :: u64)"

definition VirtQueueLayout_new :: "u16 \<Rightarrow> bool \<Rightarrow> VirtQueueLayout" where
  "VirtQueueLayout_new queue_size event_idx =
     (let desc = 0;
          desc_size = 16 * unat queue_size;
          avail = desc + desc_size;
          avail_size = 4 + unat queue_size * 2 + (if event_idx then 2 else 0);
          used = virtio_align_up (avail + avail_size) 4;
          used_size = 4 + unat queue_size * 8 + (if event_idx then 2 else 0) in
      \<lparr>layout_queue_size = queue_size, layout_event_idx = event_idx, desc_offset = desc, avail_offset = avail,
       used_offset = used, total_size_of_queue = used + used_size\<rparr>)"

record VirtQueue =
  queue_base :: u64
  layout_of_queue :: VirtQueueLayout

definition VirtQueue_from_ptr :: "u64 \<Rightarrow> u16 \<Rightarrow> bool \<Rightarrow> VirtQueue option" where
  "VirtQueue_from_ptr addr queue_size event_idx =
     (if addr = 0 then None else Some \<lparr>queue_base = addr, layout_of_queue = VirtQueueLayout_new queue_size event_idx\<rparr>)"

text \<open>Addresses of the fields.\<close>

definition descriptor_ptr :: "VirtQueue \<Rightarrow> u16 \<Rightarrow> u64" where
  "descriptor_ptr self index = queue_base self + of_nat (desc_offset (layout_of_queue self) + unat index * 16)"

definition avail_flags_ptr :: "VirtQueue \<Rightarrow> u64" where
  "avail_flags_ptr self = queue_base self + of_nat (avail_offset (layout_of_queue self))"

definition avail_idx_ptr :: "VirtQueue \<Rightarrow> u64" where
  "avail_idx_ptr self = queue_base self + of_nat (avail_offset (layout_of_queue self) + 2)"

definition avail_ring_ptr :: "VirtQueue \<Rightarrow> u16 \<Rightarrow> u64" where
  "avail_ring_ptr self slot = queue_base self + of_nat (avail_offset (layout_of_queue self) + 4 + unat slot * 2)"

definition used_flags_ptr :: "VirtQueue \<Rightarrow> u64" where
  "used_flags_ptr self = queue_base self + of_nat (used_offset (layout_of_queue self))"

definition used_idx_ptr :: "VirtQueue \<Rightarrow> u64" where
  "used_idx_ptr self = queue_base self + of_nat (used_offset (layout_of_queue self) + 2)"

definition used_ring_ptr :: "VirtQueue \<Rightarrow> u16 \<Rightarrow> u64" where
  "used_ring_ptr self slot = queue_base self + of_nat (used_offset (layout_of_queue self) + 4 + unat slot * 8)"

definition used_event_ptr :: "VirtQueue \<Rightarrow> u64" where
  "used_event_ptr self =
     queue_base self + of_nat (avail_offset (layout_of_queue self) + 4 + unat (layout_queue_size (layout_of_queue self)) * 2)"

definition avail_event_ptr :: "VirtQueue \<Rightarrow> u64" where
  "avail_event_ptr self =
     queue_base self + of_nat (used_offset (layout_of_queue self) + 4 + unat (layout_queue_size (layout_of_queue self)) * 8)"

text \<open>Volatile accesses: little-endian fields and the C layout of the two structures.\<close>

definition read_u16_at :: "memory \<Rightarrow> u64 \<Rightarrow> u16" where
  "read_u16_at mem p = from_le_bytes (read_bytes mem p 2)"

definition write_u16_at :: "memory \<Rightarrow> u64 \<Rightarrow> u16 \<Rightarrow> memory" where
  "write_u16_at mem p v = write_memory mem p (to_le_bytes 2 v)"

definition descriptor_bytes :: "VirtqDescriptor \<Rightarrow> u8 list" where
  "descriptor_bytes d = to_le_bytes 8 (desc_addr d) @ to_le_bytes 4 (desc_len d) @ to_le_bytes 2 (desc_flags d)
     @ to_le_bytes 2 (desc_next d)"

definition descriptor_of_bytes :: "u8 list \<Rightarrow> VirtqDescriptor" where
  "descriptor_of_bytes bs = \<lparr>desc_addr = from_le_bytes (take 8 bs), desc_len = from_le_bytes (take 4 (drop 8 bs)),
     desc_flags = from_le_bytes (take 2 (drop 12 bs)), desc_next = from_le_bytes (take 2 (drop 14 bs))\<rparr>"

definition used_elem_bytes :: "VirtqUsedElem \<Rightarrow> u8 list" where
  "used_elem_bytes e = to_le_bytes 4 (used_elem_id e) @ to_le_bytes 4 (used_elem_len e)"

definition used_elem_of_bytes :: "u8 list \<Rightarrow> VirtqUsedElem" where
  "used_elem_of_bytes bs = \<lparr>used_elem_id = from_le_bytes (take 4 bs), used_elem_len = from_le_bytes (take 4 (drop 4 bs))\<rparr>"

definition read_descriptor :: "memory \<Rightarrow> VirtQueue \<Rightarrow> u16 \<Rightarrow> VirtqDescriptor" where
  "read_descriptor mem self index =
     descriptor_of_bytes (read_bytes mem (descriptor_ptr self index) 16)"

definition write_descriptor :: "memory \<Rightarrow> VirtQueue \<Rightarrow> u16 \<Rightarrow> VirtqDescriptor \<Rightarrow> memory" where
  "write_descriptor mem self index descriptor = write_memory mem (descriptor_ptr self index) (descriptor_bytes descriptor)"

definition avail_flags :: "memory \<Rightarrow> VirtQueue \<Rightarrow> u16" where
  "avail_flags mem self = read_u16_at mem (avail_flags_ptr self)"

definition set_avail_flags :: "memory \<Rightarrow> VirtQueue \<Rightarrow> u16 \<Rightarrow> memory" where
  "set_avail_flags mem self flags = write_u16_at mem (avail_flags_ptr self) flags"

definition queue_avail_idx :: "memory \<Rightarrow> VirtQueue \<Rightarrow> u16" where
  "queue_avail_idx mem self = read_u16_at mem (avail_idx_ptr self)"

definition set_avail_idx :: "memory \<Rightarrow> VirtQueue \<Rightarrow> u16 \<Rightarrow> memory" where
  "set_avail_idx mem self index = write_u16_at mem (avail_idx_ptr self) index"

definition avail_ring :: "memory \<Rightarrow> VirtQueue \<Rightarrow> u16 \<Rightarrow> u16" where
  "avail_ring mem self slot = read_u16_at mem (avail_ring_ptr self slot)"

definition set_avail_ring :: "memory \<Rightarrow> VirtQueue \<Rightarrow> u16 \<Rightarrow> u16 \<Rightarrow> memory" where
  "set_avail_ring mem self slot descriptor_index = write_u16_at mem (avail_ring_ptr self slot) descriptor_index"

definition used_flags :: "memory \<Rightarrow> VirtQueue \<Rightarrow> u16" where
  "used_flags mem self = read_u16_at mem (used_flags_ptr self)"

definition set_used_flags :: "memory \<Rightarrow> VirtQueue \<Rightarrow> u16 \<Rightarrow> memory" where
  "set_used_flags mem self flags = write_u16_at mem (used_flags_ptr self) flags"

definition queue_used_idx :: "memory \<Rightarrow> VirtQueue \<Rightarrow> u16" where
  "queue_used_idx mem self = read_u16_at mem (used_idx_ptr self)"

definition set_used_idx :: "memory \<Rightarrow> VirtQueue \<Rightarrow> u16 \<Rightarrow> memory" where
  "set_used_idx mem self index = write_u16_at mem (used_idx_ptr self) index"

definition used_elem :: "memory \<Rightarrow> VirtQueue \<Rightarrow> u16 \<Rightarrow> VirtqUsedElem" where
  "used_elem mem self slot = used_elem_of_bytes (read_bytes mem (used_ring_ptr self slot) 8)"

definition set_used_elem :: "memory \<Rightarrow> VirtQueue \<Rightarrow> u16 \<Rightarrow> VirtqUsedElem \<Rightarrow> memory" where
  "set_used_elem mem self slot elem = write_memory mem (used_ring_ptr self slot) (used_elem_bytes elem)"

definition used_event :: "memory \<Rightarrow> VirtQueue \<Rightarrow> u16 option" where
  "used_event mem self =
     (if \<not> layout_event_idx (layout_of_queue self) then None else Some (read_u16_at mem (used_event_ptr self)))"

definition set_used_event :: "memory \<Rightarrow> VirtQueue \<Rightarrow> u16 \<Rightarrow> memory" where
  "set_used_event mem self event = write_u16_at mem (used_event_ptr self) event"

definition avail_event :: "memory \<Rightarrow> VirtQueue \<Rightarrow> u16 option" where
  "avail_event mem self =
     (if \<not> layout_event_idx (layout_of_queue self) then None else Some (read_u16_at mem (avail_event_ptr self)))"

definition set_avail_event :: "memory \<Rightarrow> VirtQueue \<Rightarrow> u16 \<Rightarrow> memory" where
  "set_avail_event mem self event = write_u16_at mem (avail_event_ptr self) event"

section \<open>The block driver\<close>

record VirtioBlockDriver =
  driver_device :: VirtioMmioDevice
  capacity_sectors :: u64
  driver_queue :: VirtQueue
  driver_avail_idx :: u16
  driver_used_idx :: u16

definition VirtioBlockDriver_new ::
  "'d bus \<Rightarrow> virtio_statics \<Rightarrow> VirtioMmioDevice \<Rightarrow> memory \<times> 'd \<Rightarrow> (VirtioError, VirtioBlockDriver, memory \<times> 'd) outcome option" where
  "VirtioBlockDriver_new bus statics device s =
     (case is_block_device bus device s of (block, s) \<Rightarrow>
      if \<not> block then Some (Inl NotBlockDevice, s) else
      case read_config_u64_le bus device 0 s of None \<Rightarrow> None | Some (sectors, s) \<Rightarrow>
      let s = device_reset bus device s;
          s = add_status bus device VIRTIO_STATUS_ACKNOWLEDGE s;
          s = add_status bus device VIRTIO_STATUS_DRIVER s in
      case device_features bus device VIRTIO_F_VERSION_1_SELECTOR s of (device_features_hi, s) \<Rightarrow>
      if device_features_hi AND VIRTIO_F_VERSION_1_BIT = 0 then Some (Inl MissingVersion1, s) else
      let s = set_driver_features bus device 0 0 s;
          s = set_driver_features bus device VIRTIO_F_VERSION_1_SELECTOR VIRTIO_F_VERSION_1_BIT s;
          s = add_status bus device VIRTIO_STATUS_FEATURES_OK s in
      case device_status bus device s of (status, s) \<Rightarrow>
      if status AND VIRTIO_STATUS_FEATURES_OK = 0 then Some (Inl FeatureNegotiationFailed, s) else
      let s = select_queue bus device VIRTIO_BLOCK_QUEUE s in
      case queue_num_max bus device s of (num_max, s) \<Rightarrow>
      if num_max < ucast VIRTIO_BLOCK_QUEUE_SIZE then Some (Inl QueueTooSmall, s) else
      let queue_layout = VirtQueueLayout_new VIRTIO_BLOCK_QUEUE_SIZE False;
          qb = queue_memory statics in
      if 4096 < total_size_of_queue queue_layout then Some (Inl QueueTooSmall, s) else
      let s = (write_memory (fst s) qb (replicate 4096 0), snd s) in
      case VirtQueue_from_ptr qb VIRTIO_BLOCK_QUEUE_SIZE False of
        None \<Rightarrow> Some (Inl QueueCreationFailed, s)
      | Some queue \<Rightarrow>
          let s = set_queue_num bus device (ucast VIRTIO_BLOCK_QUEUE_SIZE) s;
              s = set_queue_addresses bus device (qb + of_nat (desc_offset queue_layout))
                    (qb + of_nat (avail_offset queue_layout)) (qb + of_nat (used_offset queue_layout)) s;
              s = set_queue_ready bus device True s;
              s = add_status bus device VIRTIO_STATUS_DRIVER_OK s in
          Some (Inr \<lparr>driver_device = device, capacity_sectors = sectors, driver_queue = queue,
                     driver_avail_idx = 0, driver_used_idx = 0\<rparr>, s))"

text \<open>The request header: type, a reserved field and the sector.\<close>

definition header_of_request :: "u64 \<Rightarrow> u8 list" where
  "header_of_request sector = to_le_bytes 4 VIRTIO_BLK_REQUEST_TYPE_IN @ to_le_bytes 4 (0 :: u32) @ to_le_bytes 8 sector"

text \<open>The polling loop; the counter is the number of polls left. It returns whether the device has completed a request.\<close>

function poll_used :: "'d bus \<Rightarrow> VirtQueue \<Rightarrow> u16 \<Rightarrow> nat \<Rightarrow> memory \<times> 'd \<Rightarrow> bool \<times> memory \<times> 'd" where
  "poll_used bus queue used_index left s =
     (if queue_used_idx (fst s) queue \<noteq> used_index then (True, s)
      else if left = 0 then (False, s)
      else poll_used bus queue used_index (left - 1) (bus_idle bus s))"
  by pat_completeness auto
termination by (relation "measure (\<lambda>(_, _, _, left, _). left)") auto

declare poll_used.simps [simp del]

text \<open>Writing the request into the queue and publishing it.\<close>

definition publish_request ::
  "virtio_statics \<Rightarrow> VirtioBlockDriver \<Rightarrow> u64 \<Rightarrow> u64 \<Rightarrow> u32 \<Rightarrow> memory \<Rightarrow> memory" where
  "publish_request statics self sector buffer buffer_len mem =
     (let q = driver_queue self;
          mem = write_memory mem (request_header statics) (header_of_request sector);
          mem = write_memory mem (request_status statics) [0xff];
          mem = write_descriptor mem q 0 \<lparr>desc_addr = request_header statics, desc_len = 16,
                  desc_flags = VIRTQ_DESC_F_NEXT, desc_next = 1\<rparr>;
          mem = write_descriptor mem q 1 \<lparr>desc_addr = buffer, desc_len = buffer_len,
                  desc_flags = VIRTQ_DESC_F_WRITE OR VIRTQ_DESC_F_NEXT, desc_next = 2\<rparr>;
          mem = write_descriptor mem q 2 \<lparr>desc_addr = request_status statics, desc_len = 1,
                  desc_flags = VIRTQ_DESC_F_WRITE, desc_next = 0\<rparr>;
          mem = set_avail_ring mem q (driver_avail_idx self mod VIRTIO_BLOCK_QUEUE_SIZE) 0 in
      set_avail_idx mem q (driver_avail_idx self + 1))"

text \<open>\<open>read_blocks\<close> into a buffer of \<open>n\<close> bytes at an address.\<close>

definition virtio_read_blocks ::
  "'d bus \<Rightarrow> virtio_statics \<Rightarrow> u64 \<Rightarrow> u64 \<Rightarrow> nat \<Rightarrow> VirtioBlockDriver \<Rightarrow> memory \<times> 'd
   \<Rightarrow> (VirtioError, unit, VirtioBlockDriver \<times> memory \<times> 'd) outcome" where
  "virtio_read_blocks bus statics sector buffer n self s =
     (if n = 0 \<or> n mod VIRTIO_SECTOR_SIZE \<noteq> 0 then (Inl InvalidBufferLength, self, s)
      else if 2 ^ 32 \<le> n then (Inl InvalidBufferLength, self, s)
      else
        let s = (publish_request statics self sector buffer (of_nat n) (fst s), snd s);
            self = self\<lparr>driver_avail_idx := driver_avail_idx self + 1\<rparr>;
            s = notify_queue bus (driver_device self) VIRTIO_BLOCK_QUEUE s in
        case poll_used bus (driver_queue self) (driver_used_idx self) VIRTIO_BLOCK_REQUEST_POLL_LIMIT s of
          (False, s) \<Rightarrow> (Inl RequestTimeout, self, s)
        | (True, s) \<Rightarrow>
            let elem = used_elem (fst s) (driver_queue self) (driver_used_idx self mod VIRTIO_BLOCK_QUEUE_SIZE) in
            if used_elem_id elem \<noteq> 0 then (Inl (UnexpectedUsedId (used_elem_id elem)), self, s)
            else
              let self = self\<lparr>driver_used_idx := driver_used_idx self + 1\<rparr>;
                  status = fst s (request_status statics) in
              if status = VIRTIO_BLK_STATUS_OK then (Inr (), self, s)
              else (Inl (BlockRequestFailed status), self, s))"

section \<open>Finding devices\<close>

record VirtioMmioProbe =
  probe_slot :: nat
  probe_device :: VirtioMmioDevice

text \<open>\<open>QemuVirtBlockDevices\<close> is the number of the next slot; \<open>next_device\<close> is its \<open>next\<close>.\<close>

function next_device :: "'d bus \<Rightarrow> nat \<Rightarrow> memory \<times> 'd \<Rightarrow> (VirtioMmioProbe option \<times> nat) \<times> memory \<times> 'd" where
  "next_device bus slot s =
     (if slot < VIRTIO_MMIO_QEMU_VIRT_COUNT then
        case from_base (qemu_virt_base slot) of
          None \<Rightarrow> ((None, slot + 1), s)
        | Some device \<Rightarrow>
            (case is_block_device bus device s of (block, s) \<Rightarrow>
             if block then ((Some \<lparr>probe_slot = slot, probe_device = device\<rparr>, slot + 1), s)
             else next_device bus (slot + 1) s)
      else ((None, slot), s))"
  by pat_completeness auto
termination by (relation "measure (\<lambda>(_, slot, _). VIRTIO_MMIO_QEMU_VIRT_COUNT - slot)") auto

declare next_device.simps [simp del]

definition probe_qemu_virt_block_device :: "'d bus \<Rightarrow> memory \<times> 'd \<Rightarrow> VirtioMmioDevice option \<times> memory \<times> 'd" where
  "probe_qemu_virt_block_device bus s =
     (case next_device bus 0 s of ((probe, _), s) \<Rightarrow> (map_option probe_device probe, s))"

end
