(* ===== verification/Firmware.thy ===== *)
theory Firmware
  imports Linux Virtio
begin

text \<open>
  The firmware's control flow: the probe of all block devices and partitions (\<open>probe_virtio\<close> in \<open>src/virtio.rs\<close>),
  the relocation of the firmware image and the main routine (\<open>src/main.rs\<close>), the trap vector
  (\<open>src/interrupts.rs\<close>) and the system reset calls (\<open>src/sbi.rs\<close>).

  None of these functions returns to its caller in the end: the value \<open>Outcome\<close> says how the firmware leaves. The
  parameter \<open>readers\<close> gives the block device the readers see through a driver; \<open>lla\<close> gives the run-time
  addresses of the linker symbols and \<open>linked\<close> their link-time values. Console output is not modelled here.
\<close>

section \<open>Probing devices and partitions\<close>

lemma index_step: "unat index < unat count \<Longrightarrow> unat (index + 1) = Suc (unat index)" for index count :: u32
  using unat_add_small [of index 1] u32_less [of count] by simp

text \<open>The loop over the partitions of one device. The result is a hand-over, or none when no partition was booted.\<close>

function probe_partitions ::
  "symbols \<Rightarrow> nat \<Rightarrow> (u32 \<Rightarrow> leftovers) \<Rightarrow> BlockDevice \<Rightarrow> nat \<Rightarrow> u64 \<Rightarrow> u64 \<Rightarrow> u32 \<Rightarrow> GptPartitionTable \<Rightarrow> u32 \<Rightarrow> memory
   \<Rightarrow> (Handoff option \<times> memory) option" where
  "probe_partitions lla fuel leftover driver device_index boot_hart tree_ptr count partitions index mem =
     (if index < count then
        case partition_at partitions index of
          None \<Rightarrow> Some (None, mem)
        | Some entry \<Rightarrow>
            if \<not> is_present entry
            then probe_partitions lla fuel leftover driver device_index boot_hart tree_ptr count partitions (index + 1) mem
            else
              (case (if bootable entry
                     then try_boot_from_partition lla fuel (leftover (index + 1)) driver entry
                            (detect_partition_filesystem driver (first_lba entry)) device_index (index + 1) boot_hart tree_ptr mem
                     else Some (None, mem)) of
                 None \<Rightarrow> None
               | Some (Some handoff, mem) \<Rightarrow> Some (Some handoff, mem)
               | Some (None, mem) \<Rightarrow>
                   (case GptPartitionTable_new driver of
                      None \<Rightarrow> Some (None, mem)
                    | Some partitions \<Rightarrow>
                        probe_partitions lla fuel leftover driver device_index boot_hart tree_ptr count partitions (index + 1) mem))
      else Some (None, mem))"
  by pat_completeness auto
termination
  by (relation "measure (\<lambda>(_, _, _, _, _, _, _, count, _, index, _). unat count - unat index)")
    (auto simp: word_less_nat_alt index_step)

declare probe_partitions.simps [simp del]

lemma next_device_slot: "next_device bus slot s = ((Some probe, slot'), s') \<Longrightarrow> slot < slot' \<and> slot < VIRTIO_MMIO_QEMU_VIRT_COUNT"
proof (induction bus slot s rule: next_device.induct)
  case (1 bus slot s)
  note eq = "1.prems" [unfolded next_device.simps [of bus slot s]]
  show ?case
  proof (cases "from_base (qemu_virt_base slot)")
    case None
    then show ?thesis using eq by (auto split: if_splits)
  next
    case (Some device)
    obtain b t where b: "is_block_device bus device s = (b, t)" by (metis surj_pair)
    have slot: "slot < VIRTIO_MMIO_QEMU_VIRT_COUNT" using eq by (auto split: if_splits)
    show ?thesis
    proof (cases b)
      case True
      then show ?thesis using eq slot Some b by auto
    next
      case False
      then have "next_device bus (slot + 1) t = ((Some probe, slot'), s')" using eq slot Some b by auto
      then show ?thesis using "1.IH" [OF slot Some b [symmetric] False] slot by simp
    qed
  qed
qed

text \<open>The loop over the block devices; \<open>device_index\<close> counts the devices found so far.\<close>

function probe_devices ::
  "'d bus \<Rightarrow> virtio_statics \<Rightarrow> (VirtioBlockDriver \<Rightarrow> BlockDevice) \<Rightarrow> symbols \<Rightarrow> nat \<Rightarrow> (nat \<Rightarrow> u32 \<Rightarrow> leftovers) \<Rightarrow> u64 \<Rightarrow> u64 \<Rightarrow> nat \<Rightarrow> nat
   \<Rightarrow> memory \<times> 'd \<Rightarrow> (Handoff option \<times> memory \<times> 'd) option" where
  "probe_devices bus statics readers lla fuel leftover boot_hart tree_ptr slot device_index s =
     (case next_device bus slot s of
        ((None, _), s) \<Rightarrow> Some (None, s)
      | ((Some probe, slot'), s) \<Rightarrow>
          (case VirtioBlockDriver_new bus statics (probe_device probe) s of
             None \<Rightarrow> None
           | Some (Inl e, s) \<Rightarrow>
               probe_devices bus statics readers lla fuel leftover boot_hart tree_ptr slot' (device_index + 1) s
           | Some (Inr driver, s) \<Rightarrow>
               (case GptPartitionTable_new (readers driver) of
                  None \<Rightarrow> probe_devices bus statics readers lla fuel leftover boot_hart tree_ptr slot' (device_index + 1) s
                | Some partitions \<Rightarrow>
                    (case probe_partitions lla fuel (leftover device_index) (readers driver) device_index boot_hart tree_ptr
                            (partition_count partitions) partitions 0 (fst s) of
                       None \<Rightarrow> None
                     | Some (Some handoff, mem) \<Rightarrow> Some (Some handoff, mem, snd s)
                     | Some (None, mem) \<Rightarrow>
                         probe_devices bus statics readers lla fuel leftover boot_hart tree_ptr slot' (device_index + 1) (mem, snd s)))))"
  by pat_completeness auto
termination
  by (relation "measure (\<lambda>(_, _, _, _, _, _, _, _, slot, _, _). VIRTIO_MMIO_QEMU_VIRT_COUNT - slot)")
    (auto dest!: sym [of _ "next_device _ _ _"] next_device_slot)

declare probe_devices.simps [simp del]

definition probe_virtio ::
  "'d bus \<Rightarrow> virtio_statics \<Rightarrow> (VirtioBlockDriver \<Rightarrow> BlockDevice) \<Rightarrow> symbols \<Rightarrow> nat \<Rightarrow> (nat \<Rightarrow> u32 \<Rightarrow> leftovers) \<Rightarrow> u64 \<Rightarrow> u64
   \<Rightarrow> memory \<times> 'd \<Rightarrow> (Handoff option \<times> memory \<times> 'd) option" where
  "probe_virtio bus statics readers lla fuel leftover boot_hart tree_ptr s =
     probe_devices bus statics readers lla fuel leftover boot_hart tree_ptr 0 0 s"

section \<open>Leaving the firmware\<close>

definition SBI_SRST_RESET_TYPE_SHUTDOWN :: u64 where "SBI_SRST_RESET_TYPE_SHUTDOWN = 0"
definition SBI_SRST_RESET_REASON_NONE :: u64 where "SBI_SRST_RESET_REASON_NONE = 0"
definition SBI_SRST_RESET_REASON_SYSTEM_FAILURE :: u64 where "SBI_SRST_RESET_REASON_SYSTEM_FAILURE = 1"
definition SBI_EXT_SRST :: u64 where "SBI_EXT_SRST = 0x53525354"
definition SBI_SRST_SYSTEM_RESET :: u64 where "SBI_SRST_SYSTEM_RESET = 0"
definition SBI_EXT_DBCN :: u64 where "SBI_EXT_DBCN = 0x4442434e"
definition SBI_DBCN_CONSOLE_WRITE :: u64 where "SBI_DBCN_CONSOLE_WRITE = 0"

text \<open>The registers of an environment call: \<open>a0\<close> to \<open>a5\<close>, the function and the extension.\<close>

record SbiCall =
  sbi_args :: "u64 list"
  sbi_fid :: u64
  sbi_eid :: u64

definition ecall :: "u64 \<Rightarrow> u64 \<Rightarrow> u64 \<Rightarrow> u64 \<Rightarrow> u64 \<Rightarrow> u64 \<Rightarrow> u64 \<Rightarrow> u64 \<Rightarrow> SbiCall" where
  "ecall arg0 arg1 arg2 arg3 arg4 arg5 fid eid = \<lparr>sbi_args = [arg0, arg1, arg2, arg3, arg4, arg5], sbi_fid = fid, sbi_eid = eid\<rparr>"

definition puts_call :: "u64 \<Rightarrow> u64 \<Rightarrow> SbiCall" where
  "puts_call len addr = ecall len addr 0 0 0 0 SBI_DBCN_CONSOLE_WRITE SBI_EXT_DBCN"

record Jump =
  jump_entry :: u64
  jump_a0 :: u64
  jump_a1 :: u64
  jump_a2 :: u64

text \<open>How the firmware leaves: it requests a reset and halts, jumps to its copy, or jumps to the kernel.\<close>

datatype Outcome = ResetAndHalt SbiCall | EnterCopy Jump | StartKernel Handoff

definition system_reset :: "u64 \<Rightarrow> u64 \<Rightarrow> Outcome" where
  "system_reset reset_type reset_reason =
     ResetAndHalt (ecall reset_type reset_reason 0 0 0 0 SBI_SRST_SYSTEM_RESET SBI_EXT_SRST)"

definition poweroff :: Outcome where
  "poweroff = system_reset SBI_SRST_RESET_TYPE_SHUTDOWN SBI_SRST_RESET_REASON_NONE"

definition poweroff_on_failure :: Outcome where
  "poweroff_on_failure = system_reset SBI_SRST_RESET_TYPE_SHUTDOWN SBI_SRST_RESET_REASON_SYSTEM_FAILURE"

section \<open>The trap vector\<close>

definition smode_trap_vector_offset :: "symbols \<Rightarrow> u64" where
  "smode_trap_vector_offset linked = linked ''smode_trap_vector''"

text \<open>\<open>None\<close> is the panic of \<open>unwrap\<close>.\<close>

definition trap_vector_address :: "symbols \<Rightarrow> u64 \<Rightarrow> u64 option" where
  "trap_vector_address linked runtime_base = checked_add runtime_base (smode_trap_vector_offset linked)"

section \<open>Relocation\<close>

definition PRIMARY_FIRMWARE_LOAD_ADDRESS :: u64 where "PRIMARY_FIRMWARE_LOAD_ADDRESS = 0x80200000"

definition firmware_runtime_base :: "symbols \<Rightarrow> u64" where
  "firmware_runtime_base lla = lla ''__firmware_code_start''"

definition firmware_runtime_size :: "symbols \<Rightarrow> u64" where
  "firmware_runtime_size linked = linked ''__heap_end''"

definition relocated_entry_offset :: "symbols \<Rightarrow> u64" where
  "relocated_entry_offset linked = linked ''relocated_entry''"

definition enter_relocated_copy :: "symbols \<Rightarrow> u64 \<Rightarrow> u64 \<Rightarrow> u64 \<Rightarrow> u64 \<Rightarrow> Jump option" where
  "enter_relocated_copy linked relocated_base boot_hart tree_ptr entry_stack =
     map_option (\<lambda>entry. \<lparr>jump_entry = entry, jump_a0 = boot_hart, jump_a1 = tree_ptr, jump_a2 = entry_stack\<rparr>)
       (checked_add relocated_base (relocated_entry_offset linked))"

text \<open>The result is \<open>None\<close> when relocation is unavailable; otherwise the copy is entered, or \<open>unwrap\<close> panics.\<close>

definition try_relocate_firmware ::
  "symbols \<Rightarrow> symbols \<Rightarrow> u64 \<Rightarrow> u64 \<Rightarrow> u64 \<Rightarrow> memory \<Rightarrow> Jump option option \<times> memory" where
  "try_relocate_firmware lla linked boot_hart tree_ptr entry_stack mem =
     (case page_allocator_from_live_fdt lla mem tree_ptr (replicate 8 \<lparr>base = 0, region_size = 0\<rparr>)
             (replicate 16 \<lparr>base = 0, region_size = 0\<rparr>) (replicate 32 EMPTY_MEMORY_DESCRIPTOR) of
        None \<Rightarrow> (None, mem)
      | Some allocator \<Rightarrow>
          let runtime_base = firmware_runtime_base lla;
              runtime_size = unat (firmware_runtime_size linked);
              runtime_pages = (runtime_size + 4095) div 4096 in
          (case AllocatePages allocator AllocateMaxAddress EfiBootServicesData (of_nat runtime_pages) (- 1) of
             (Inl e, allocator) \<Rightarrow> (None, mem)
           | (Inr relocated_base, allocator) \<Rightarrow>
               (Some (enter_relocated_copy linked relocated_base boot_hart tree_ptr entry_stack),
                write_memory mem relocated_base (read_bytes mem runtime_base runtime_size))))"

section \<open>The main routine\<close>

text \<open>The value written to \<open>stvec\<close>, how the firmware leaves, and the machine then; the panic handler powers off.\<close>

definition run_firmware ::
  "'d bus \<Rightarrow> virtio_statics \<Rightarrow> (VirtioBlockDriver \<Rightarrow> BlockDevice) \<Rightarrow> symbols \<Rightarrow> symbols \<Rightarrow> nat \<Rightarrow> (nat \<Rightarrow> u32 \<Rightarrow> leftovers)
   \<Rightarrow> u64 \<Rightarrow> u64 \<Rightarrow> u64 \<Rightarrow> memory \<times> 'd \<Rightarrow> (u64 option \<times> Outcome \<times> memory \<times> 'd) option" where
  "run_firmware bus statics readers lla linked fuel leftover boot_hart tree_ptr entry_stack s =
     (case trap_vector_address linked (firmware_runtime_base lla) of
        None \<Rightarrow> Some (None, poweroff_on_failure, s)
      | Some stvec \<Rightarrow>
          if firmware_runtime_base lla = PRIMARY_FIRMWARE_LOAD_ADDRESS then
            (case try_relocate_firmware lla linked boot_hart tree_ptr entry_stack (fst s) of
               (None, mem) \<Rightarrow> Some (Some stvec, poweroff, mem, snd s)
             | (Some None, mem) \<Rightarrow> Some (Some stvec, poweroff_on_failure, mem, snd s)
             | (Some (Some jump), mem) \<Rightarrow> Some (Some stvec, EnterCopy jump, mem, snd s))
          else
            (case probe_virtio bus statics readers lla fuel leftover boot_hart tree_ptr s of
               None \<Rightarrow> None
             | Some (Some handoff, s) \<Rightarrow> Some (Some stvec, StartKernel handoff, s)
             | Some (None, s) \<Rightarrow> Some (Some stvec, poweroff, s)))"

text \<open>The two entry points, which both run the main routine.\<close>

definition rust_entry ::
  "'d bus \<Rightarrow> virtio_statics \<Rightarrow> (VirtioBlockDriver \<Rightarrow> BlockDevice) \<Rightarrow> symbols \<Rightarrow> symbols \<Rightarrow> nat \<Rightarrow> (nat \<Rightarrow> u32 \<Rightarrow> leftovers)
   \<Rightarrow> u64 \<Rightarrow> u64 \<Rightarrow> u64 \<Rightarrow> memory \<times> 'd \<Rightarrow> (u64 option \<times> Outcome \<times> memory \<times> 'd) option" where
  "rust_entry bus statics readers lla linked fuel leftover boot_hart tree_ptr entry_stack s =
     run_firmware bus statics readers lla linked fuel leftover boot_hart tree_ptr entry_stack s"

definition rust_relocated_entry ::
  "'d bus \<Rightarrow> virtio_statics \<Rightarrow> (VirtioBlockDriver \<Rightarrow> BlockDevice) \<Rightarrow> symbols \<Rightarrow> symbols \<Rightarrow> nat \<Rightarrow> (nat \<Rightarrow> u32 \<Rightarrow> leftovers)
   \<Rightarrow> u64 \<Rightarrow> u64 \<Rightarrow> u64 \<Rightarrow> memory \<times> 'd \<Rightarrow> (u64 option \<times> Outcome \<times> memory \<times> 'd) option" where
  "rust_relocated_entry bus statics readers lla linked fuel leftover boot_hart tree_ptr entry_stack s =
     run_firmware bus statics readers lla linked fuel leftover boot_hart tree_ptr entry_stack s"

text \<open>The assembly in front of them: the stack pointer becomes the third argument, whatever \<open>a2\<close> holds.\<close>

definition start_entry ::
  "'d bus \<Rightarrow> virtio_statics \<Rightarrow> (VirtioBlockDriver \<Rightarrow> BlockDevice) \<Rightarrow> symbols \<Rightarrow> symbols \<Rightarrow> nat \<Rightarrow> (nat \<Rightarrow> u32 \<Rightarrow> leftovers)
   \<Rightarrow> u64 \<Rightarrow> u64 \<Rightarrow> u64 \<Rightarrow> u64 \<Rightarrow> memory \<times> 'd \<Rightarrow> (u64 option \<times> Outcome \<times> memory \<times> 'd) option" where
  "start_entry bus statics readers lla linked fuel leftover a0 a1 a2 sp s =
     (let a2 = sp in rust_entry bus statics readers lla linked fuel leftover a0 a1 a2 s)"

definition relocated_entry ::
  "'d bus \<Rightarrow> virtio_statics \<Rightarrow> (VirtioBlockDriver \<Rightarrow> BlockDevice) \<Rightarrow> symbols \<Rightarrow> symbols \<Rightarrow> nat \<Rightarrow> (nat \<Rightarrow> u32 \<Rightarrow> leftovers)
   \<Rightarrow> u64 \<Rightarrow> u64 \<Rightarrow> u64 \<Rightarrow> u64 \<Rightarrow> memory \<times> 'd \<Rightarrow> (u64 option \<times> Outcome \<times> memory \<times> 'd) option" where
  "relocated_entry bus statics readers lla linked fuel leftover a0 a1 a2 sp s =
     (let a2 = sp in rust_relocated_entry bus statics readers lla linked fuel leftover a0 a1 a2 s)"

end
