(* ===== verification/LinuxSpec.thy ===== *)
theory LinuxSpec
  imports Linux
begin

unbundle bit_operations_syntax

text \<open>
  What the Linux boot method promises: the command line, the updated device tree, the relocated kernel, and the
  state of the machine when control is handed to the kernel.
\<close>

section \<open>The device tree\<close>

text \<open>A blob that holds a valid tree and whose strings block is a sequence of strings.\<close>

definition tree_blob :: "memory \<Rightarrow> Dtb \<Rightarrow> contents \<Rightarrow> u8 list \<Rightarrow> dt_item list \<Rightarrow> u8 list \<Rightarrow> u8 list list \<Rightarrow> bool" where
  "tree_blob mem dtb c nm items Z ss \<longleftrightarrow> encodes mem dtb c nm items Z \<and> c_strings c = strings_block ss \<and> names_ok ss"

text \<open>The length of an updated tree.\<close>

lemma length_set_prop:
  "length (flatten_all (set_prop fdt name n v items)) \<le> length (flatten_all items) + 12 + align4 (length v)"
proof -
  obtain pre found post where p: "prop_split fdt name items = (pre, found, post)" by (cases "prop_split fdt name items") auto
  have i: "items = pre @ found @ post" using prop_split_items [OF p] by simp
  have s: "set_prop fdt name n v items = pre @ PropItem n v # post" by (simp add: set_prop_def p)
  show ?thesis unfolding s by (simp add: i length_be32 length_pad4)
qed

lemma length_update:
  assumes r: "resolve 0 (NodeItem nm items) cs = Some (k, j)"
  shows "length (flatten (update_at cs (set_node_prop fdt name n v) (NodeItem nm items)))
    \<le> length (flatten (NodeItem nm items)) + 12 + align4 (length v)"
proof -
  let ?f = "set_node_prop fdt name n v"
  obtain pre post tn its where p: "flatten (NodeItem nm items) = pre @ flatten j @ post" "j = NodeItem tn its"
      "\<And>f its'. f j = NodeItem tn its' \<Longrightarrow> flatten (update_at cs f (NodeItem nm items)) = pre @ flatten (f j) @ post"
    using resolve_split [OF r, of fdt] by blast
  have fj: "?f j = NodeItem tn (set_prop fdt name n v its)" by (simp add: set_node_prop_def p(2))
  have "length (flatten (?f j)) \<le> length (flatten j) + 12 + align4 (length v)"
    unfolding fj unfolding p(2) flatten_node using length_set_prop [of fdt name n v its] by simp
  then show ?thesis unfolding p(1) p(3) [of ?f, OF fj] by simp
qed

lemma with_name_ok: "names_ok ss \<Longrightarrow> name_ok name \<Longrightarrow> names_ok (with_name ss name)"
  by (auto simp: names_ok_def with_name_def name_ok_def)

text \<open>One property set on a node given by its path.\<close>

lemma set_property_step:
  assumes t: "tree_blob mem dtb c nm items Z ss" and name: "name_ok name" and v: "length v < 2 ^ 32" and cs: "components_ok cs"
    and r: "resolve 0 (NodeItem nm items) cs = Some (k, j)"
    and room: "used c + length name + 13 + align4 (length v) \<le> dtb_size dtb"
  obtains mem' c' items' ss' k' j' where "set_property_bytes mem dtb (abs_path cs) name v = (Inr (), mem')"
    and "frame dtb mem mem'" and "tree_blob mem' dtb c' nm items' Z ss'"
    and "resolve 0 (NodeItem nm items') cs = Some (k', j')"
    and "used c' \<le> used c + length name + 13 + align4 (length v)"
    and "get_property (view mem' dtb c') (node_view k' j') name = Some v"
    and "\<forall>other. other \<noteq> name \<longrightarrow>
      get_property (view mem' dtb c') (node_view k' j') other = get_property (view mem dtb c) (node_view k j) other"
proof -
  have e: "encodes mem dtb c nm items Z" and s: "c_strings c = strings_block ss" "names_ok ss"
    using t by (simp_all add: tree_blob_def)
  define fdt where "fdt = view mem dtb c"
  define c' where "c' = c\<lparr>c_strings := strings_block (with_name ss name),
    c_struct := flatten (update_at cs (set_node_prop fdt name (name_offset ss name) v) (NodeItem nm items)) @ Z\<rparr>"
  have add: "added ss name \<le> length name + 1" by (simp add: added_def)
  then have "property_fits dtb c ss name (length v) (old_record fdt name j)"
    using room by (simp add: property_fits_def)
  then obtain mem' where m: "set_property_bytes mem dtb (abs_path cs) name v = (Inr (), mem')" "holds mem' dtb c'" "frame dtb mem mem'"
    using set_property_spec(1) [OF e s name v cs r] by (auto simp: fdt_def c'_def)
  note u = updated_reads [OF e s name v cs r, folded fdt_def, folded c'_def, OF m(2)]
  from u(1) obtain items' where e': "encodes mem' dtb c' nm items' Z" by blast
  from u(2) obtain node where n: "find_node (view mem' dtb c') (abs_path cs) = Some node"
      "get_property (view mem' dtb c') node name = Some v"
      "\<forall>other. other \<noteq> name \<longrightarrow> get_property (view mem' dtb c') node other = get_property fdt (node_view k j) other" by blast
  then obtain k' j' where kj: "resolve 0 (NodeItem nm items') cs = Some (k', j')" "node = node_view k' j'"
    using find_node_encodes [OF e' cs] by auto
  have "c_strings c' = strings_block (with_name ss name)" by (simp add: c'_def)
  then have t': "tree_blob mem' dtb c' nm items' Z (with_name ss name)"
    using e' with_name_ok [OF s(2) name] by (simp add: tree_blob_def)
  have "c_struct c = flatten (NodeItem nm items) @ Z" using e by (simp add: encodes_def node_at_def)
  then have "used c' \<le> used (c\<lparr>c_strings := strings_block (with_name ss name)\<rparr>) + 12 + align4 (length v)"
    using length_update [OF r, of fdt name "name_offset ss name" v] by (simp add: used_def c'_def)
  then have "used c' \<le> used c + length name + 13 + align4 (length v)"
    using used_with_strings [OF s(1), of name] add by simp
  then show ?thesis using that [OF m(1,3) t' kj(1)] n(2,3) kj(2) by (simp add: fdt_def)
qed

text \<open>The node \<open>/chosen\<close>, created when it is missing.\<close>

lemma create_chosen_step:
  assumes t: "tree_blob mem dtb c nm items Z ss" and room: "used c + 16 \<le> dtb_size dtb"
  obtains mem' c' items' k' j' where "create_node mem dtb (str ''/chosen'') = (Inr (), mem')"
    and "frame dtb mem mem'" and "tree_blob mem' dtb c' nm items' Z ss"
    and "resolve 0 (NodeItem nm items') [str ''chosen''] = Some (k', j')" and "used c' \<le> used c + 16"
proof -
  let ?n = "str ''chosen''"
  have e: "encodes mem dtb c nm items Z" and s: "c_strings c = strings_block ss" "names_ok ss"
    using t by (simp_all add: tree_blob_def)
  define items' where "items' = (if has_child items ?n then items else items @ [NodeItem ?n []])"
  have mf: "map_first name (\<lambda>i. i) its = its" for name its by (induction name "\<lambda>i :: dt_item. i" its rule: map_first.induct) auto
  have "create_at [] = (\<lambda>i. i)" by (simp add: fun_eq_iff)
  then have at: "create_at [?n] (NodeItem nm items) = NodeItem nm items'" by (simp add: items'_def mf)
  have len: "length (flatten (NodeItem nm items')) \<le> length (flatten (NodeItem nm items)) + 16"
    unfolding flatten_node by (simp add: items'_def length_be32 pad4_def str_def align4_def)
  have cok: "create_ok [?n]" by (simp add: create_ok_def str_def)
  have p: "path_of [?n] = str ''/chosen''" by (simp add: path_of_def str_def)
  define c' where "c' = c\<lparr>c_struct := flatten (NodeItem nm items') @ Z\<rparr>"
  obtain mem' where m: "create_node mem dtb (str ''/chosen'') = (Inr (), mem')" "holds mem' dtb c'" "frame dtb mem mem'"
    using create_node_spec [OF e cok, unfolded at p] len room by (auto simp: c'_def)
  have v: "valid_item (view mem dtb c) (NodeItem nm items)" and st: "c_struct c = flatten (NodeItem nm items) @ Z"
    using e by (simp_all add: encodes_def node_at_def)
  have "valid_item (view mem dtb c) (NodeItem nm items')" using v by (auto simp: items'_def str_def)
  then have "valid_item (view mem' dtb c') (NodeItem nm items')"
    by (rule valid_item_strings) (simp add: view_def c'_def)
  then have e': "encodes mem' dtb c' nm items' Z" using m(2) by (simp add: encodes_def node_at_def c'_def)
  have hc: "has_child (its @ [NodeItem name []]) name" for its name by (induction its name rule: has_child.induct) auto
  then have "has_child items' ?n" by (simp add: items'_def)
  then obtain k' j' where "resolve 0 (NodeItem nm items') [?n] = Some (k', j')"
    by (auto simp: has_child_find_sub [of _ _ "content_offset 0 nm"])
  moreover have "tree_blob mem' dtb c' nm items' Z ss" using e' s by (simp add: tree_blob_def c'_def)
  moreover have "used c' \<le> used c + 16" using len st by (simp add: used_def c'_def)
  ultimately show ?thesis using that m by blast
qed

text \<open>A tree blob with a node \<open>/chosen\<close>.\<close>

definition chosen_blob :: "memory \<Rightarrow> Dtb \<Rightarrow> contents \<Rightarrow> FdtNode \<Rightarrow> bool" where
  "chosen_blob mem dtb c node \<longleftrightarrow> (\<exists>nm items Z ss k j. tree_blob mem dtb c nm items Z ss
     \<and> resolve 0 (NodeItem nm items) [str ''chosen''] = Some (k, j) \<and> node = node_view k j)"

lemma create_chosen:
  assumes "tree_blob mem dtb c nm items Z ss" and "used c + 16 \<le> dtb_size dtb"
  shows "\<exists>mem' c' node. create_node mem dtb (str ''/chosen'') = (Inr (), mem') \<and> frame dtb mem mem'
    \<and> chosen_blob mem' dtb c' node \<and> used c' \<le> used c + 16"
  by (rule create_chosen_step [OF assms]) (unfold chosen_blob_def, blast)

lemma set_chosen:
  assumes h: "chosen_blob mem dtb c node" and name: "name_ok name" and v: "length v < 2 ^ 32"
    and n: "length name + 13 + align4 (length v) \<le> n" and room: "used c + n \<le> dtb_size dtb"
  shows "\<exists>mem' c' node'. set_property_bytes mem dtb (str ''/chosen'') name v = (Inr (), mem') \<and> frame dtb mem mem'
    \<and> chosen_blob mem' dtb c' node' \<and> used c' \<le> used c + n
    \<and> get_property (view mem' dtb c') node' name = Some v
    \<and> (\<forall>other. other \<noteq> name \<longrightarrow> get_property (view mem' dtb c') node' other = get_property (view mem dtb c) node other)"
proof -
  obtain nm items Z ss k j where t: "tree_blob mem dtb c nm items Z ss"
    and r: "resolve 0 (NodeItem nm items) [str ''chosen''] = Some (k, j)" and node: "node = node_view k j"
    using h unfolding chosen_blob_def by blast
  have cs: "components_ok [str ''chosen'']" and p: "abs_path [str ''chosen''] = str ''/chosen''"
    by (simp_all add: str_def components_ok_def abs_path_def path_of_def)
  have le: "used c + length name + 13 + align4 (length v) \<le> used c + n" using n by simp
  show ?thesis
  proof (rule set_property_step [OF t name v cs r le_trans [OF le room], unfolded p])
    fix mem' c' items' ss' k' j'
    assume m: "set_property_bytes mem dtb (str ''/chosen'') name v = (Inr (), mem')" "frame dtb mem mem'"
      and b: "tree_blob mem' dtb c' nm items' Z ss'" "resolve 0 (NodeItem nm items') [str ''chosen''] = Some (k', j')"
      and u: "used c' \<le> used c + length name + 13 + align4 (length v)"
      and g: "get_property (view mem' dtb c') (node_view k' j') name = Some v" "\<forall>other. other \<noteq> name \<longrightarrow>
        get_property (view mem' dtb c') (node_view k' j') other = get_property (view mem dtb c) (node_view k j) other"
    have "chosen_blob mem' dtb c' (node_view k' j')" unfolding chosen_blob_def using b by blast
    then show ?thesis using m g le_trans [OF u le] unfolding node by blast
  qed
qed

lemma chosen_reads:
  assumes "chosen_blob mem dtb c node"
  shows "from_ptr mem (dtb_pointer dtb) = Inr (view mem dtb c)" and "find_node (view mem dtb c) (str ''/chosen'') = Some node"
proof -
  obtain nm items Z ss k j where t: "tree_blob mem dtb c nm items Z ss"
    and r: "resolve 0 (NodeItem nm items) [str ''chosen''] = Some (k, j)" and node: "node = node_view k j"
    using assms unfolding chosen_blob_def by blast
  have e: "encodes mem dtb c nm items Z" using t by (simp add: tree_blob_def)
  have cs: "components_ok [str ''chosen'']" and p: "abs_path [str ''chosen''] = str ''/chosen''"
    by (simp_all add: str_def components_ok_def abs_path_def path_of_def)
  show "from_ptr mem (dtb_pointer dtb) = Inr (view mem dtb c)" using from_ptr_holds e by (simp only: encodes_def node_at_def)
  show "find_node (view mem dtb c) (str ''/chosen'') = Some node"
    using find_node_encodes [OF e cs] unfolding p r node by simp
qed

definition initrd_end :: "LoadedFile \<Rightarrow> u64" where
  "initrd_end lf = physical_start lf + of_nat (size_bytes lf)"

text \<open>What \<open>/chosen\<close> says about the initrd.\<close>

definition initrd_described :: "Fdt \<Rightarrow> FdtNode \<Rightarrow> LoadedFile option \<Rightarrow> bool" where
  "initrd_described fdt node initrd \<longleftrightarrow> (\<forall>lf. initrd = Some lf \<longrightarrow>
     get_property fdt node (str ''linux,initrd-start'') = Some (to_be_bytes 8 (physical_start lf))
     \<and> get_property fdt node (str ''linux,initrd-end'') = Some (to_be_bytes 8 (initrd_end lf)))"

lemma chosen_names:
  "name_ok (str ''linux,initrd-start'')" "name_ok (str ''linux,initrd-end'')" "name_ok (str ''bootargs'')"
  "length (str ''linux,initrd-start'') = 18" "length (str ''linux,initrd-end'') = 16" "length (str ''bootargs'') = 8"
  "str ''linux,initrd-start'' \<noteq> str ''linux,initrd-end''" "str ''bootargs'' \<noteq> str ''linux,initrd-start''"
  "str ''bootargs'' \<noteq> str ''linux,initrd-end''" "str ''linux,initrd-end'' \<noteq> str ''linux,initrd-start''"
  "str ''linux,initrd-start'' \<noteq> str ''bootargs''" "str ''linux,initrd-end'' \<noteq> str ''bootargs''"
  by (simp_all add: name_ok_def str_def)

text \<open>The part of \<open>update_device_tree\<close> for the initrd.\<close>

definition describe_initrd :: "memory \<Rightarrow> Dtb \<Rightarrow> LoadedFile option \<Rightarrow> (LinuxBootError, unit, memory) outcome" where
  "describe_initrd mem dtb initrd =
     (case initrd of
        None \<Rightarrow> (Inr (), mem)
      | Some initrd \<Rightarrow>
          sbind (pure_op (ok_or InitrdRangeOverflow (checked_add (physical_start initrd) (of_nat (size_bytes initrd)))) mem)
            (\<lambda>initrd_end mem.
          sbind (map_error DeviceTreeUpdate (set_property_u64 mem dtb (str ''/chosen'')
                   (str ''linux,initrd-start'') (physical_start initrd))) (\<lambda>_ mem.
          map_error DeviceTreeUpdate (set_property_u64 mem dtb (str ''/chosen'')
                   (str ''linux,initrd-end'') initrd_end))))"

lemma describe_initrd_ok:
  assumes h: "chosen_blob mem dtb c node" and room: "used c + 100 \<le> dtb_size dtb"
    and ok: "\<forall>lf. initrd = Some lf \<longrightarrow> unat (physical_start lf) + size_bytes lf < 2 ^ 64"
  shows "\<exists>mem' c' node'. describe_initrd mem dtb initrd = (Inr (), mem') \<and> frame dtb mem mem'
    \<and> chosen_blob mem' dtb c' node' \<and> used c' \<le> used c + 76 \<and> initrd_described (view mem' dtb c') node' initrd"
proof (cases initrd)
  case None
  then have "describe_initrd mem dtb initrd = (Inr (), mem)" "initrd_described (view mem dtb c) node initrd"
    by (simp_all add: describe_initrd_def initrd_described_def)
  moreover have "used c \<le> used c + 76" by simp
  ultimately show ?thesis using h frame_refl by blast
next
  case (Some lf)
  have l8: "length (to_be_bytes 8 w) = 8" "align4 8 = 8" for w :: u64 by (simp_all add: align4_def)
  have "unat (of_nat (size_bytes lf) :: u64) = size_bytes lf" using ok Some by (simp add: unat_of_nat)
  then have end_ok: "checked_add (physical_start lf) (of_nat (size_bytes lf)) = Some (initrd_end lf)"
    using ok Some by (simp add: checked_add_def initrd_end_def)
  obtain m1 c1 n1 where s1: "set_property_bytes mem dtb (str ''/chosen'') (str ''linux,initrd-start'')
        (to_be_bytes 8 (physical_start lf)) = (Inr (), m1)"
      "frame dtb mem m1" "chosen_blob m1 dtb c1 n1" "used c1 \<le> used c + 39"
      "get_property (view m1 dtb c1) n1 (str ''linux,initrd-start'') = Some (to_be_bytes 8 (physical_start lf))"
    using set_chosen [OF h chosen_names(1), of "to_be_bytes 8 (physical_start lf)" 39] room
    by (auto simp: chosen_names l8)
  obtain m2 c2 n2 where s2: "set_property_bytes m1 dtb (str ''/chosen'') (str ''linux,initrd-end'')
        (to_be_bytes 8 (initrd_end lf)) = (Inr (), m2)"
      "frame dtb m1 m2" "chosen_blob m2 dtb c2 n2" "used c2 \<le> used c1 + 37"
      "get_property (view m2 dtb c2) n2 (str ''linux,initrd-end'') = Some (to_be_bytes 8 (initrd_end lf))"
      "\<forall>other. other \<noteq> str ''linux,initrd-end'' \<longrightarrow> get_property (view m2 dtb c2) n2 other = get_property (view m1 dtb c1) n1 other"
    using set_chosen [OF s1(3) chosen_names(2), of "to_be_bytes 8 (initrd_end lf)" 37] room s1(4)
    by (auto simp: chosen_names l8)
  have "initrd_described (view m2 dtb c2) n2 initrd"
    using s1(5) s2(5,6) chosen_names by (simp add: initrd_described_def Some)
  moreover have "used c2 \<le> used c + 76" using s1(4) s2(4) by simp
  moreover have "describe_initrd mem dtb initrd = (Inr (), m2)"
    using s1(1) s2(1) by (simp add: describe_initrd_def Some pure_op_def end_ok set_property_u64_def map_error_def)
  ultimately show ?thesis using frame_trans [OF s1(2) s2(2)] s2(3) by blast
qed

lemma update_device_tree_ok:
  assumes t: "tree_blob mem (device_tree req) c nm items Z ss" and room: "used c + 400 \<le> dtb_size (device_tree req)"
    and cmd: "length cmd \<le> 255" and ok: "\<forall>lf. initrd = Some lf \<longrightarrow> unat (physical_start lf) + size_bytes lf < 2 ^ 64"
  shows "\<exists>mem' fdt node. update_device_tree mem req initrd cmd = (Inr (), mem') \<and> frame (device_tree req) mem mem'
    \<and> from_ptr mem' (dtb_pointer (device_tree req)) = Inr fdt \<and> find_node fdt (str ''/chosen'') = Some node
    \<and> get_property fdt node (str ''bootargs'') = Some (cmd @ [0]) \<and> initrd_described fdt node initrd"
proof -
  let ?d = "device_tree req"
  obtain m1 c1 n1 where s1: "create_node mem ?d (str ''/chosen'') = (Inr (), m1)" "frame ?d mem m1"
      "chosen_blob m1 ?d c1 n1" "used c1 \<le> used c + 16"
    using create_chosen [OF t] room by auto
  obtain m2 c2 n2 where s2: "describe_initrd m1 ?d initrd = (Inr (), m2)" "frame ?d m1 m2" "chosen_blob m2 ?d c2 n2"
      "used c2 \<le> used c1 + 76" "initrd_described (view m2 ?d c2) n2 initrd"
    using describe_initrd_ok [OF s1(3) _ ok] s1(4) room by auto
  have al: "align4 (length (cmd @ [0])) \<le> 259" using cmd by (simp add: align4_def)
  obtain m3 c3 n3 where s3: "set_property_bytes m2 ?d (str ''/chosen'') (str ''bootargs'') (cmd @ [0]) = (Inr (), m3)"
      "frame ?d m2 m3" "chosen_blob m3 ?d c3 n3" "get_property (view m3 ?d c3) n3 (str ''bootargs'') = Some (cmd @ [0])"
      "\<forall>other. other \<noteq> str ''bootargs'' \<longrightarrow> get_property (view m3 ?d c3) n3 other = get_property (view m2 ?d c2) n2 other"
    using set_chosen [OF s2(3) chosen_names(3), of "cmd @ [0]" 280] cmd al room s1(4) s2(4)
    by (auto simp: chosen_names)
  have str: "set_property_string m2 ?d (str ''/chosen'') (str ''bootargs'') cmd = (Inr (), m3)"
    using s3(1) cmd by (simp add: set_property_string_def us_checked_add_def MAX_PROPERTY_STRING_LEN_def)
  have "update_device_tree mem req initrd cmd = (Inr (), m3)"
    unfolding update_device_tree_def s1(1) describe_initrd_def [symmetric] using s2(1) str by (simp add: map_error_def)
  moreover have "frame ?d mem m3" using s1(2) s2(2) s3(2) frame_trans by blast
  moreover have "initrd_described (view m3 ?d c3) n3 initrd"
    using s2(5) s3(5) chosen_names by (simp add: initrd_described_def)
  ultimately show ?thesis using chosen_reads [OF s3(3)] s3(4) by blast
qed

section \<open>The command line\<close>

definition decimal_value :: "u8 list \<Rightarrow> nat" where
  "decimal_value ds = foldl (\<lambda>v d. v * 10 + unat (d - 0x30)) 0 ds"

definition decimal_digits :: "u8 list \<Rightarrow> bool" where
  "decimal_digits ds \<longleftrightarrow> ds \<noteq> [] \<and> (\<forall>d \<in> set ds. 0x30 \<le> d \<and> d \<le> 0x39) \<and> (hd ds = 0x30 \<longrightarrow> length ds = 1)"

lemma digit_byte:
  fixes v :: u32
  defines "d \<equiv> (0x30 + ucast (v mod 10) :: u8)"
  shows "unat (d - 0x30) = unat v mod 10" and "0x30 \<le> d" and "d \<le> 0x39" and "d = 0x30 \<longleftrightarrow> unat v mod 10 = 0"
proof -
  have lt: "unat v mod 10 < 10" by simp
  have u: "unat (ucast (v mod 10) :: u8) = unat v mod 10"
    using lt by (simp add: unsigned_ucast_eq take_bit_nat_def unat_mod)
  then have d: "unat d = 48 + unat v mod 10" using lt unat_add_small [of "0x30 :: u8" "ucast (v mod 10)"] by (simp add: d_def)
  show "unat (d - 0x30) = unat v mod 10" by (simp add: d_def u)
  show "0x30 \<le> d" "d \<le> 0x39" using d lt by (simp_all add: word_le_nat_alt)
  show "d = 0x30 \<longleftrightarrow> unat v mod 10 = 0" using d by (simp add: word_unat_eq_iff)
qed

lemma digits_loop_value:
  "decimal_value (rev (digits_loop v)) = unat v \<and> decimal_digits (rev (digits_loop v))
   \<and> (v \<noteq> 0 \<longrightarrow> hd (rev (digits_loop v)) \<noteq> 0x30)"
proof (induction v rule: digits_loop.induct)
  case (1 v)
  note d = digit_byte [of v]
  show ?case
  proof (cases "v div 10 = 0")
    case True
    then have "unat (v div 10) = 0" by simp
    then have "unat v div 10 = 0" by (simp add: unat_div)
    then have small: "unat v mod 10 = unat v" by (simp add: div_eq_0_iff)
    have "rev (digits_loop v) = [0x30 + ucast (v mod 10)]" using True by (subst digits_loop.simps) simp
    then show ?thesis using d small by (auto simp: decimal_value_def decimal_digits_def unat_eq_zero)
  next
    case False
    then have r: "rev (digits_loop v) = rev (digits_loop (v div 10)) @ [0x30 + ucast (v mod 10)]"
      by (subst digits_loop.simps) simp
    have IH: "decimal_value (rev (digits_loop (v div 10))) = unat v div 10" "decimal_digits (rev (digits_loop (v div 10)))"
        "hd (rev (digits_loop (v div 10))) \<noteq> 0x30"
      using "1.IH" [OF False] False by (simp_all add: unat_div)
    have "decimal_value (rev (digits_loop v)) = unat v div 10 * 10 + unat v mod 10"
      unfolding r using IH(1) d(1) by (simp add: decimal_value_def)
    then show ?thesis unfolding r using IH(2,3) d(2,3) by (auto simp: decimal_digits_def hd_append)
  qed
qed

lemma digits_loop_length: "unat v < 10 ^ n \<Longrightarrow> 0 < n \<Longrightarrow> length (digits_loop v) \<le> n"
proof (induction n arbitrary: v)
  case (Suc n)
  show ?case
  proof (cases "v div 10 = 0")
    case True
    then show ?thesis by (subst digits_loop.simps) simp
  next
    case False
    then have "unat (v div 10) \<noteq> 0" by (simp add: unat_eq_zero)
    then have nz: "unat v div 10 \<noteq> 0" by (simp add: unat_div)
    then have "0 < n" using Suc.prems(1) by (cases n) auto
    moreover have "unat (v div 10) < 10 ^ n" using Suc.prems(1) by (simp add: unat_div less_mult_imp_div_less mult.commute)
    ultimately show ?thesis using Suc.IH [of "v div 10"] False by (subst digits_loop.simps) simp
  qed
qed simp

section \<open>Bytes that stay\<close>

text \<open>The bytes of a range that never wraps; \<open>held\<close> says that none of them is free.\<close>

definition held :: "PageAllocator \<Rightarrow> u64 \<Rightarrow> nat \<Rightarrow> bool" where
  "held a p n \<longleftrightarrow> unat p + n \<le> 2 ^ 64 \<and> (\<forall>x. unat p \<le> x \<and> x < unat p + n \<longrightarrow> \<not> free_byte a x)"

lemma range_addr: "unat p + n \<le> 2 ^ 64 \<Longrightarrow> i < n \<Longrightarrow> unat (p + of_nat i) = unat p + i" for p :: u64
  using unat_add_small [of p "of_nat i"] by (simp add: unat_of_nat)

lemma read_bytes_cong: "(\<And>i. i < n \<Longrightarrow> mem' (p + of_nat i) = mem (p + of_nat i)) \<Longrightarrow> read_bytes mem' p n = read_bytes mem p n"
  by (simp add: read_bytes_def)

lemma keeps_read:
  assumes "keeps_bytes a mem mem'" and "held a p n"
  shows "read_bytes mem' p n = read_bytes mem p n"
proof (rule read_bytes_cong)
  fix i assume i: "i < n"
  then have "\<not> free_byte a (unat (p + of_nat i))" using assms(2) range_addr [of p n i] by (simp add: held_def)
  then show "mem' (p + of_nat i) = mem (p + of_nat i)" using assms(1) by (simp add: keeps_bytes_def)
qed

lemma keeps_held: "keeps_types a b \<Longrightarrow> held a p n \<Longrightarrow> held b p n"
  by (simp add: keeps_types_def held_def)

lemma held_le: "held a p n \<Longrightarrow> m \<le> n \<Longrightarrow> held a p m"
  by (simp add: held_def)

text \<open>Memory that changes only inside free pages.\<close>

lemma outside_free:
  assumes f: "free_at a (unat q) m" and q: "unat q + m \<le> 2 ^ 64" and h: "held a p n"
    and out: "\<And>x. m \<le> unat (x - q) \<Longrightarrow> mem' x = mem x"
  shows "read_bytes mem' p n = read_bytes mem p n"
proof (rule read_bytes_cong)
  fix i assume i: "i < n"
  then have "\<not> free_byte a (unat (p + of_nat i))" using h range_addr [of p n i] by (simp add: held_def)
  then have "\<not> unat (p + of_nat i - q) < m" using f in_range_word [OF q, of "p + of_nat i"] by (auto simp: free_at_def)
  then show "mem' (p + of_nat i) = mem (p + of_nat i)" by (intro out) simp
qed

lemma loaded_read: "loaded_bytes mem lf = read_bytes mem (physical_start lf) (size_bytes lf)"
  by (simp add: loaded_bytes_def read_bytes_def)

lemma stored_held:
  assumes "stored a a' mem mem' lf"
  shows "held a' (physical_start lf) (page_count lf * 4096)" and "held a' (physical_start lf) (size_bytes lf)"
proof -
  show h: "held a' (physical_start lf) (page_count lf * 4096)"
    using assms by (auto simp: stored_def held_def Let_def)
  show "held a' (physical_start lf) (size_bytes lf)" using held_le [OF h] assms by (simp add: stored_def Let_def)
qed

section \<open>Relocation\<close>

lemma relocate_kernel_ok:
  assumes n: "normal a" and h: "held a (physical_start lf) (page_count lf * 4096)" and sz: "size_bytes lf \<le> page_count lf * 4096"
    and lim: "size_bytes lf < 2 ^ 64" "page_count lf * 4096 < 2 ^ 64"
    and r: "relocate_kernel lf (a, mem) = (Some k, a', mem')"
  shows "normal a'" and "size_bytes k = size_bytes lf" and "2 ^ 21 dvd unat (physical_start k)"
    and "held a' (physical_start k) (size_bytes k)"
    and "read_bytes mem' (physical_start k) (size_bytes k) = read_bytes mem (physical_start lf) (size_bytes lf)"
    and "\<And>p m. held a p m \<Longrightarrow> read_bytes mem' p m = read_bytes mem p m"
    and "\<And>x. \<not> free_byte a x \<Longrightarrow> \<not> (unat (physical_start lf) \<le> x \<and> x < unat (physical_start lf) + page_count lf * 4096)
      \<Longrightarrow> map_type a' x = map_type a x"
proof -
  let ?p = "physical_start lf" and ?n = "page_count lf * 4096" and ?sz = "size_bytes lf"
  have un: "unat (of_nat ?sz :: u64) = ?sz" "unat (of_nat (page_count lf) :: u64) = page_count lf"
    using lim by (simp_all add: unat_of_nat)
  from r obtain q a1 where al: "allocate_aligned_pages_for_size a EfiBootServicesData (of_nat ?sz) KERNEL_ALIGNMENT Low = (Inr q, a1)"
    and fr: "FreePages a1 ?p (of_nat (page_count lf)) = (Inr (), a')"
    and k: "k = LoadedFile_new q (page_count lf) ?sz" and m': "mem' = write_memory mem q (read_bytes mem ?p ?sz)"
    by (auto simp: relocate_kernel_def Let_def split: prod.splits sum.splits)
  from al obtain P where P: "pages_for_size (of_nat ?sz) = Inr P"
    "allocate_aligned_pages a EfiBootServicesData P (2 ^ 21) Low = (Inr q, a1)"
    by (auto simp: allocate_aligned_pages_for_size_def KERNEL_ALIGNMENT_def sbind_def split: sum.splits if_splits)
  have szP: "?sz \<le> unat P * 4096" using pages_for_size_Inr(1) [OF P(1)] un by simp
  note i = allocate_aligned_pages_Inr [OF P(2)]
  have ok: "alloc_ok a" using n by (simp add: normal_def)
  note f = find_aligned_allocation_Inr [OF n i(1) _ i(3), simplified]
  note x = allocate_exact_range_Inr [OF ok i(2,1,4)]
  have n1: "normal a1" by (rule allocate_exact_range_normal [OF n i(2,1,4)])
  note e = FreePages_effect [OF n1 fr]
  show "normal a'" by (rule e(1))
  show "size_bytes k = ?sz" "2 ^ 21 dvd unat (physical_start k)" using f(2) by (simp_all add: k LoadedFile_new_def)
  have fa: "free_at a (unat q) (unat P * 4096)" by (rule f(1))
  have disj: "\<not> (unat ?p \<le> y \<and> y < unat ?p + ?n)" if "unat q \<le> y" "y < unat q + unat P * 4096" for y
    using that fa h by (auto simp: free_at_def held_def)
  have a': "map_type a' y = (if unat ?p \<le> y \<and> y < unat ?p + ?n then Some (type_u32 EfiConventionalMemory)
      else if unat q \<le> y \<and> y < unat q + unat P * 4096 then Some (type_u32 EfiBootServicesData) else map_type a y)" for y
    using e(4) x(2) un by simp
  have "held a' q (unat P * 4096)" using x(4) disj unfolding held_def a' by (auto simp:)
  then show "held a' (physical_start k) (size_bytes k)"
    using held_le szP by (simp add: k LoadedFile_new_def)
  show "read_bytes mem' (physical_start k) (size_bytes k) = read_bytes mem ?p ?sz"
    using read_write_memory [of "read_bytes mem ?p ?sz" mem q] lim(1)
    by (simp add: k LoadedFile_new_def m' read_bytes_def)
  show "read_bytes mem' p m = read_bytes mem p m" if "held a p m" for p m
    using x(4) szP by (intro outside_free [OF fa _ that]) (auto simp: m' write_memory_def)
  show "map_type a' x = map_type a x" if "\<not> free_byte a x" "\<not> (unat ?p \<le> x \<and> x < unat ?p + ?n)" for x
    using a' that fa by (auto simp: free_at_def)
qed

section \<open>The blob elsewhere in memory\<close>

lemma tree_blob_cong:
  assumes "tree_blob mem dtb c nm items Z ss" and "blob mem' dtb = blob mem dtb"
  shows "tree_blob mem' dtb c nm items Z ss"
proof -
  have "view mem' dtb c = view mem dtb c" "holds mem' dtb c = holds mem dtb c"
    using assms(2) by (simp_all add: view_def holds_def rep_def)
  then show ?thesis using assms(1) by (simp add: tree_blob_def encodes_def node_at_def)
qed

lemma tree_blob_moved:
  assumes "tree_blob mem dtb c nm items Z ss" and "holds mem' d c"
  shows "tree_blob mem' d c nm items Z ss"
proof -
  have v: "valid_item (view mem dtb c) (NodeItem nm items)" and st: "c_struct c = flatten (NodeItem nm items) @ Z"
    using assms(1) by (simp_all add: tree_blob_def encodes_def node_at_def)
  have "valid_item (view mem' d c) (NodeItem nm items)" by (rule valid_item_strings [OF v]) (simp add: view_def)
  then show ?thesis using assms st by (simp add: tree_blob_def encodes_def node_at_def)
qed

lemma tree_blob_size:
  assumes "tree_blob mem dtb c nm items Z ss"
  shows "holds mem dtb c" and "used c \<le> dtb_size dtb" and "unat (dtb_pointer dtb) + dtb_size dtb \<le> 2 ^ 64"
    and "Dtb_from_ptr mem (dtb_pointer dtb) = Inr dtb"
proof -
  show h: "holds mem dtb c" using assms by (simp add: tree_blob_def encodes_def node_at_def)
  obtain tail where r: "rep mem dtb (stored_header c (dtb_size dtb)) (body c @ tail)" using holds_rep [OF h] by blast
  have "length (blob mem dtb) = 40 + length (body c) + length tail" using r by (simp add: rep_def)
  then show "used c \<le> dtb_size dtb" using length_body [of c] by (simp add: length_blob)
  show "unat (dtb_pointer dtb) + dtb_size dtb \<le> 2 ^ 64" using r by (simp add: rep_def fits_def)
  show "Dtb_from_ptr mem (dtb_pointer dtb) = Inr dtb"
    using from_ptr_holds [OF h] by (simp add: Dtb_from_ptr_def total_size_bytes_def view_def)
qed

section \<open>The hand-over\<close>

lemma boot_and_start_ok:
  assumes t: "tree_blob mem tree c nm items Z ss" and size: "dtb_size tree \<le> 2 ^ 29" and n: "normal a"
    and h: "held a (dtb_pointer tree) (dtb_size tree)" and zero: "\<not> free_byte a 0" and cmd: "length cmd \<le> 255"
    and ok: "\<forall>lf. initrd = Some lf \<longrightarrow> unat (physical_start lf) + size_bytes lf < 2 ^ 64"
    and r: "boot_and_start k initrd tree cmd hart (a, mem) = (Inr hand, a', mem')"
  shows "entry_address hand = physical_start k" and "register_a0 hand = hart"
    and "\<And>p m. held a p m \<Longrightarrow> read_bytes mem' p m = read_bytes mem p m"
    and "\<exists>fdt node. from_ptr mem' (register_a1 hand) = Inr fdt \<and> find_node fdt (str ''/chosen'') = Some node
      \<and> get_property fdt node (str ''bootargs'') = Some (cmd @ [0]) \<and> initrd_described fdt node initrd"
proof -
  note tb = tree_blob_size [OF t]
  have ua: "us_checked_add (dtb_size tree) LINUX_DTB_EXTRA_SIZE = Some (dtb_size tree + 8192)"
    using size by (simp add: us_checked_add_def LINUX_DTB_EXTRA_SIZE_def)
  obtain cr a1 m0 where c0: "dtb_clone tree (dtb_size tree + 8192) (a, mem) = (cr, a1, m0)" by (metis prod.exhaust)
  define rq where "rq = (\<lambda>d. \<lparr>device_tree = d, request_command_line = cmd, kernel_size_bytes = size_bytes k,
    initrd_size_bytes = map_option size_bytes initrd\<rparr>)"
  from r obtain d m1 where c: "dtb_clone tree (dtb_size tree + 8192) (a, mem) = (Inr d, a', m1)"
    and u: "update_device_tree m1 (rq d) initrd cmd = (Inr (), mem')"
    and hand: "hand = start_kernel k hart (dtb_pointer d)"
    by (cases cr; cases initrd) (auto simp: boot_and_start_def boot_def FileInfo_new_def pure_op_def ua map_error_def c0 rq_def
        split: prod.splits sum.splits)
  define req where "req = rq d"
  have req: "device_tree req = d" by (simp add: req_def rq_def)
  note u = u [folded req_def]
  have kept: "\<forall>x. map_type a x = Some (type_u32 EfiConventionalMemory) \<longrightarrow>
      x \<noteq> 0 \<and> \<not> (unat (dtb_pointer tree) \<le> x \<and> x < unat (dtb_pointer tree) + dtb_size tree)"
    using h zero by (auto simp: held_def)
  have "dtb_size tree + 8192 \<le> 2 ^ 30" using size by simp
  note cl = dtb_clone_ok [OF tb(1) n this kept c]
  have t1: "tree_blob m1 d c nm items Z ss" using tree_blob_moved [OF t] cl by blast
  have "used c + 400 \<le> dtb_size d" using tb(2) cl by simp
  then obtain mem2 fdt node where up: "update_device_tree m1 req initrd cmd = (Inr (), mem2)" "frame d m1 mem2"
      "from_ptr mem2 (dtb_pointer d) = Inr fdt" "find_node fdt (str ''/chosen'') = Some node"
      "get_property fdt node (str ''bootargs'') = Some (cmd @ [0])" "initrd_described fdt node initrd"
    using update_device_tree_ok [of m1 req c nm items Z ss cmd initrd] t1 req cmd ok by auto
  have m2: "mem2 = mem'" using up(1) u by simp
  show "entry_address hand = physical_start k" "register_a0 hand = hart" by (simp_all add: hand start_kernel_def)
  show "\<exists>fdt node. from_ptr mem' (register_a1 hand) = Inr fdt \<and> find_node fdt (str ''/chosen'') = Some node
      \<and> get_property fdt node (str ''bootargs'') = Some (cmd @ [0]) \<and> initrd_described fdt node initrd"
    using up m2 by (auto simp: hand start_kernel_def)
  have "frame d mem mem'" using cl up(2) m2 frame_trans by blast
  then show "read_bytes mem' p m = read_bytes mem p m" if "held a p m" for p m
    using cl tree_blob_size(3) [OF t1] by (intro outside_free [OF _ _ that]) (auto simp: frame_def)
qed

lemma root_command_line_length: "root_command_line i p = Some cmd \<Longrightarrow> length cmd \<le> 23"
  using digits_loop_length [of p 10] u32_less [of p]
  by (auto simp: root_command_line_def Let_def str_def split: if_splits)

lemma handoff_steps:
  assumes "try_boot_from_filesystem leftover fs_open fs_load idx part hart ptr (a, mem) = Some (Some hand, a', mem')"
  obtains p k a1 m1 r a2 m2 cmd tree k' a3 m3 where
    "load_first_file leftover fs_open fs_load (\<lambda>i. map_option as_str (kernel_candidate_path i)) (a, mem) = Some (Some (p, k), a1, m1)"
    "load_first_file leftover fs_open fs_load (\<lambda>i. map_option as_str (initrd_candidate_path i)) (a1, m1) = Some (r, a2, m2)"
    "root_command_line idx part = Some cmd" "Dtb_from_ptr m2 ptr = Inr tree" "check_kernel_header m2 k = Inr ()"
    "relocate_kernel k (a2, m2) = (Some k', a3, m3)"
    "boot_and_start k' (map_option snd r) tree cmd hart (a3, m3) = (Inr hand, a', mem')"
  using assms by (auto simp: try_boot_from_filesystem_def split: option.splits prod.splits sum.splits)

definition boot_image :: "u8 list \<Rightarrow> bool" where
  "boot_image bytes \<longleftrightarrow> 64 \<le> length bytes \<and> le_field bytes 48 8 = unat RISCV_LINUX_MAGIC \<and> le_field bytes 56 4 = unat RISCV_LINUX_MAGIC2"

lemma check_kernel_header_ok:
  assumes "check_kernel_header mem lf = Inr ()"
  shows "boot_image (loaded_bytes mem lf)"
proof -
  let ?b = "loaded_bytes mem lf"
  have len: "64 \<le> length ?b"
    using assms by (auto simp: check_kernel_header_def parse_linux_boot_image_header_def RISCV_LINUX_HEADER_SIZE_def split: if_splits)
  have m: "read_le_u64 ?b 48 = Some RISCV_LINUX_MAGIC" "read_le_u32 ?b 56 = Some RISCV_LINUX_MAGIC2"
    using assms by (auto simp: check_kernel_header_def parse_linux_boot_image_header_def split: if_splits)
  have "read_le_u64 ?b 48 = Some (of_nat (le_field ?b 48 8))" "read_le_u32 ?b 56 = Some (of_nat (le_field ?b 56 4))"
    using len by (simp_all add: read_le_u64_def read_le_u32_def slice_get_def from_le_bytes_def le_field_def)
  then have w: "RISCV_LINUX_MAGIC = of_nat (le_field ?b 48 8)" "RISCV_LINUX_MAGIC2 = of_nat (le_field ?b 56 4)" using m by simp_all
  have "unat RISCV_LINUX_MAGIC = le_field ?b 48 8" "unat RISCV_LINUX_MAGIC2 = le_field ?b 56 4"
    unfolding w using le_field_less [of ?b 48 8] le_field_less [of ?b 56 4] by (simp_all add: unat_of_nat)
  then show ?thesis using len by (simp add: boot_image_def)
qed

text \<open>The state between loading and starting: the kernel has been moved, everything else that was in use is still there.\<close>

lemma loaded_state:
  assumes fs: "file_system fs_open fs_load" and n: "normal a" and zero: "\<not> free_byte a 0"
    and t: "tree_blob mem tree c nm items Z ss" and d: "held a (dtb_pointer tree) (dtb_size tree)"
    and lk: "load_first_file leftover fs_open fs_load f (a, mem) = Some (Some (p, k), a1, m1)"
    and li: "load_first_file leftover fs_open fs_load g (a1, m1) = Some (r, a2, m2)"
    and rel: "relocate_kernel k (a2, m2) = (Some k', a3, m3)"
  shows "normal a3" and "\<not> free_byte a3 0" and "held a3 (dtb_pointer tree) (dtb_size tree)"
    and "tree_blob m2 tree c nm items Z ss" and "tree_blob m3 tree c nm items Z ss"
    and "read_bytes m3 (dtb_pointer tree) (dtb_size tree) = read_bytes mem (dtb_pointer tree) (dtb_size tree)"
    and "loaded_bytes m2 k = loaded_bytes m1 k" and "loaded_bytes m3 k' = loaded_bytes m1 k"
    and "size_bytes k' = size_bytes k" and "held a3 (physical_start k') (size_bytes k')" and "2 ^ 21 dvd unat (physical_start k')"
    and "\<forall>lf. map_option snd r = Some lf \<longrightarrow> unat (physical_start lf) + size_bytes lf < 2 ^ 64"
    and "\<And>q lf. r = Some (q, lf) \<Longrightarrow> held a3 (physical_start lf) (size_bytes lf) \<and> loaded_bytes m3 lf = loaded_bytes m2 lf"
proof -
  note s1 = file_system.load_first_file_safe [OF fs n lk]
  obtain b1 w1 where b1: "keeps_types a b1" "stored b1 a1 w1 m1 k" using s1(4) by blast
  note s2 = file_system.load_first_file_safe [OF fs s1(1) li]
  have k12: "keeps_types a a2" "keeps_bytes a mem m2"
    using keeps_types_trans [OF s1(2) s2(2)] keeps_bytes_trans [OF s1(3,2) s2(3)] by auto
  define P where "P = (\<lambda>x. unat (physical_start k) \<le> x \<and> x < unat (physical_start k) + page_count k * 4096)"
  have hk1: "held a1 (physical_start k) (page_count k * 4096)" "held a1 (physical_start k) (size_bytes k)"
    by (rule stored_held [OF b1(2)])+
  have klim: "size_bytes k \<le> page_count k * 4096" "size_bytes k < 2 ^ 64" "page_count k * 4096 < 2 ^ 64"
    using b1(2) by (auto simp: stored_def Let_def)
  note rl = relocate_kernel_ok [OF s2(1) keeps_held [OF s2(2) hk1(1)] klim rel]
  have out: "\<not> P x" if "\<not> free_byte a x" for x
    using that b1 by (auto simp: P_def stored_def free_at_def keeps_types_def Let_def)
  have held3: "held a3 q m" if "held a2 q m" "\<And>x. unat q \<le> x \<Longrightarrow> x < unat q + m \<Longrightarrow> \<not> P x" for q m
    using that rl(7) by (auto simp: held_def P_def)
  show "normal a3" "size_bytes k' = size_bytes k" "held a3 (physical_start k') (size_bytes k')" "2 ^ 21 dvd unat (physical_start k')"
    by (rule rl)+
  show "held a3 (dtb_pointer tree) (dtb_size tree)"
    using d out by (intro held3 keeps_held [OF k12(1) d]) (auto simp: held_def)
  have "map_type a2 0 = map_type a 0" using k12(1) zero by (simp add: keeps_types_def)
  then show "\<not> free_byte a3 0" using rl(7) [of 0] zero out [OF zero] by (simp add: P_def)
  have blob2: "read_bytes m2 (dtb_pointer tree) (dtb_size tree) = read_bytes mem (dtb_pointer tree) (dtb_size tree)"
    by (rule keeps_read [OF k12(2) d])
  show blob3: "read_bytes m3 (dtb_pointer tree) (dtb_size tree) = read_bytes mem (dtb_pointer tree) (dtb_size tree)"
    using rl(6) [OF keeps_held [OF k12(1) d]] blob2 by simp
  show "tree_blob m2 tree c nm items Z ss" "tree_blob m3 tree c nm items Z ss"
    using tree_blob_cong [OF t] blob2 blob3 by (simp_all add: blob_def)
  show kb: "loaded_bytes m2 k = loaded_bytes m1 k" unfolding loaded_read by (rule keeps_read [OF s2(3) hk1(2)])
  then show "loaded_bytes m3 k' = loaded_bytes m1 k" using rl(5) by (simp add: loaded_read)
  have "unat (physical_start lf) + size_bytes lf < 2 ^ 64" if "r = Some (q, lf)" for q lf
    using s2(4) [OF that] by (auto simp: stored_def Let_def)
  then show "\<forall>lf. map_option snd r = Some lf \<longrightarrow> unat (physical_start lf) + size_bytes lf < 2 ^ 64"
    by (auto simp: map_option_case split: option.splits)
  fix q lf assume r: "r = Some (q, lf)"
  then obtain b2 w2 where b2: "keeps_types a1 b2" "stored b2 a2 w2 m2 lf" using s2(4) by blast
  have h2: "held a2 (physical_start lf) (size_bytes lf)" by (rule stored_held(2) [OF b2(2)])
  have np: "\<not> free_byte b2 x" if "P x" for x using keeps_held [OF b2(1) hk1(1)] that by (simp add: held_def P_def)
  have "free_byte b2 x" if "unat (physical_start lf) \<le> x" "x < unat (physical_start lf) + size_bytes lf" for x
    using b2(2) that by (simp add: stored_def free_at_def Let_def)
  then have "held a3 (physical_start lf) (size_bytes lf)" using np by (intro held3 [OF h2]) blast
  then show "held a3 (physical_start lf) (size_bytes lf) \<and> loaded_bytes m3 lf = loaded_bytes m2 lf"
    using rl(6) [OF h2] by (simp add: loaded_read)
qed

lemma handoff_correct:
  assumes fs: "file_system fs_open fs_load" and n: "normal a" and zero: "\<not> free_byte a 0"
    and t: "tree_blob mem tree c nm items Z ss" and size: "dtb_size tree \<le> 2 ^ 29" and d: "held a (dtb_pointer tree) (dtb_size tree)"
    and run: "try_boot_from_filesystem leftover fs_open fs_load idx part hart (dtb_pointer tree) (a, mem) = Some (Some hand, a', mem')"
  shows "\<exists>p k a1 m1 r a2 m2 cmd fdt node.
      load_first_file leftover fs_open fs_load (\<lambda>i. map_option as_str (kernel_candidate_path i)) (a, mem) = Some (Some (p, k), a1, m1)
    \<and> load_first_file leftover fs_open fs_load (\<lambda>i. map_option as_str (initrd_candidate_path i)) (a1, m1) = Some (r, a2, m2)
    \<and> root_command_line idx part = Some cmd
    \<and> boot_image (loaded_bytes m1 k) \<and> 2 ^ 21 dvd unat (entry_address hand) \<and> register_a0 hand = hart
    \<and> read_bytes mem' (entry_address hand) (size_bytes k) = loaded_bytes m1 k
    \<and> (\<forall>q lf. r = Some (q, lf) \<longrightarrow> loaded_bytes mem' lf = loaded_bytes m2 lf)
    \<and> read_bytes mem' (dtb_pointer tree) (dtb_size tree) = read_bytes mem (dtb_pointer tree) (dtb_size tree)
    \<and> from_ptr mem' (register_a1 hand) = Inr fdt \<and> find_node fdt (str ''/chosen'') = Some node
    \<and> get_property fdt node (str ''bootargs'') = Some (cmd @ [0]) \<and> initrd_described fdt node (map_option snd r)"
proof -
  from run obtain p k a1 m1 r a2 m2 cmd tree' k' a3 m3 where
    lk: "load_first_file leftover fs_open fs_load (\<lambda>i. map_option as_str (kernel_candidate_path i)) (a, mem) = Some (Some (p, k), a1, m1)"
    and li: "load_first_file leftover fs_open fs_load (\<lambda>i. map_option as_str (initrd_candidate_path i)) (a1, m1) = Some (r, a2, m2)"
    and cmd: "root_command_line idx part = Some cmd" and tr: "Dtb_from_ptr m2 (dtb_pointer tree) = Inr tree'"
    and hdr: "check_kernel_header m2 k = Inr ()" and rel: "relocate_kernel k (a2, m2) = (Some k', a3, m3)"
    and st: "boot_and_start k' (map_option snd r) tree' cmd hart (a3, m3) = (Inr hand, a', mem')"
    by (rule handoff_steps)
  note l = loaded_state [OF fs n zero t d lk li rel]
  have tree': "tree' = tree" using tr tree_blob_size(4) [OF l(4)] by simp
  have "length cmd \<le> 255" using root_command_line_length [OF cmd] by simp
  note bs = boot_and_start_ok [OF l(5) size l(1,3,2) this l(12) st [unfolded tree']]
  have "read_bytes mem' (entry_address hand) (size_bytes k) = loaded_bytes m1 k"
    using bs(3) [OF l(10)] l(8,9) by (simp add: bs(1) loaded_read)
  moreover have "loaded_bytes mem' lf = loaded_bytes m2 lf" if "r = Some (q, lf)" for q lf
    using bs(3) [of "physical_start lf" "size_bytes lf"] l(13) [OF that] by (simp add: loaded_read)
  moreover have "read_bytes mem' (dtb_pointer tree) (dtb_size tree) = read_bytes mem (dtb_pointer tree) (dtb_size tree)"
    using bs(3) [OF l(3)] l(6) by simp
  moreover have "boot_image (loaded_bytes m1 k)" using check_kernel_header_ok [OF hdr] l(7) by simp
  moreover have "2 ^ 21 dvd unat (entry_address hand)" using l(11) bs(1) by simp
  ultimately show ?thesis using lk li cmd bs(2,4) by blast
qed

section \<open>Progress\<close>

lemma dtb_clone_runs:
  assumes h: "holds mem dtb c" and size: "dtb_size dtb < new_size" "new_size \<le> 2 ^ 30"
    and al: "AllocatePages a AllocateAnyPages EfiACPIReclaimMemory (of_nat ((new_size + 4095) div 4096)) 0 = (Inr q, a')"
  shows "\<exists>d mem'. dtb_clone dtb new_size (a, mem) = (Inr d, a', mem')"
proof -
  obtain tail where rp: "rep mem dtb (stored_header c (dtb_size dtb)) (body c @ tail)" and b: "dtb_size dtb < 2 ^ 31" "used c < 2 ^ 31"
    using holds_rep [OF h] by blast
  have tot: "unat (header_total_size (dtb_header mem dtb)) = dtb_size dtb"
    unfolding rep_header [OF rp] by (rule stored_header_fields(2) [OF b(2,1)])
  define k where "k = (new_size + 4095) div 4096"
  have "k * 4096 \<le> new_size + 4095" unfolding k_def by (rule div_times_less_eq_dividend)
  then have k: "k * 4096 < 2 ^ 31" using size by simp
  have pg: "unat EFI_PAGE_SIZE = 4096" by (simp add: EFI_PAGE_SIZE_def EFI_PAGE_SHIFT_def)
  have pk: "(new_size + 4096 - 1) div 4096 = k" by (simp add: k_def)
  show ?thesis
    unfolding dtb_clone_def Let_def prod.case tot pg pk using size k al [folded k_def]
    by (simp add: us_checked_mul_def del: of_nat_mult)
qed

lemma boot_and_start_runs:
  assumes t: "tree_blob mem tree c nm items Z ss" and size: "dtb_size tree \<le> 2 ^ 29" and n: "normal a"
    and h: "held a (dtb_pointer tree) (dtb_size tree)" and zero: "\<not> free_byte a 0" and cmd: "length cmd \<le> 255"
    and ok: "\<forall>lf. initrd = Some lf \<longrightarrow> unat (physical_start lf) + size_bytes lf < 2 ^ 64"
    and al: "AllocatePages a AllocateAnyPages EfiACPIReclaimMemory (of_nat ((dtb_size tree + 8192 + 4095) div 4096)) 0 = (Inr q, a')"
  shows "\<exists>hand mem'. boot_and_start k initrd tree cmd hart (a, mem) = (Inr hand, a', mem')"
proof -
  note tb = tree_blob_size [OF t]
  have ua: "us_checked_add (dtb_size tree) LINUX_DTB_EXTRA_SIZE = Some (dtb_size tree + 8192)"
    using size by (simp add: us_checked_add_def LINUX_DTB_EXTRA_SIZE_def)
  obtain d m1 where c: "dtb_clone tree (dtb_size tree + 8192) (a, mem) = (Inr d, a', m1)"
    using dtb_clone_runs [OF tb(1) _ _ al] size by auto
  have kept: "\<forall>x. map_type a x = Some (type_u32 EfiConventionalMemory) \<longrightarrow>
      x \<noteq> 0 \<and> \<not> (unat (dtb_pointer tree) \<le> x \<and> x < unat (dtb_pointer tree) + dtb_size tree)"
    using h zero by (auto simp: held_def)
  have "dtb_size tree + 8192 \<le> 2 ^ 30" using size by simp
  note cl = dtb_clone_ok [OF tb(1) n this kept c]
  define req where "req = \<lparr>device_tree = d, request_command_line = cmd, kernel_size_bytes = size_bytes k,
    initrd_size_bytes = map_option size_bytes initrd\<rparr>"
  have t1: "tree_blob m1 (device_tree req) c nm items Z ss" using tree_blob_moved [OF t] cl by (simp add: req_def)
  have "used c + 400 \<le> dtb_size (device_tree req)" using tb(2) cl by (simp add: req_def)
  then obtain mem2 where "update_device_tree m1 req initrd cmd = (Inr (), mem2)"
    using update_device_tree_ok [OF t1 _ cmd ok] by blast
  then show ?thesis
    by (cases initrd) (simp_all add: boot_and_start_def boot_def FileInfo_new_def pure_op_def ua map_error_def c req_def)
qed


lemma check_kernel_header_iff: "check_kernel_header mem lf = Inr () \<longleftrightarrow> boot_image (loaded_bytes mem lf)"
proof
  show "check_kernel_header mem lf = Inr () \<Longrightarrow> boot_image (loaded_bytes mem lf)" by (rule check_kernel_header_ok)
next
  define b where "b = loaded_bytes mem lf"
  assume "boot_image (loaded_bytes mem lf)"
  then have len: "\<not> length b < 64" and m: "le_field b 48 8 = unat RISCV_LINUX_MAGIC" "le_field b 56 4 = unat RISCV_LINUX_MAGIC2"
    by (simp_all add: boot_image_def b_def)
  have r4: "read_le_u32 b i = Some (of_nat (le_field b i 4))" if "i + 4 \<le> 64" for i
    using that len by (simp add: read_le_u32_def slice_get_def from_le_bytes_def le_field_def)
  have r8: "read_le_u64 b i = Some (of_nat (le_field b i 8))" if "i + 8 \<le> 64" for i
    using that len by (simp add: read_le_u64_def slice_get_def from_le_bytes_def le_field_def)
  show "check_kernel_header mem lf = Inr ()"
    unfolding check_kernel_header_def parse_linux_boot_image_header_def RISCV_LINUX_HEADER_SIZE_def b_def [symmetric] if_not_P [OF len]
    by (simp add: r4 r8 m del: One_nat_def)
qed

text \<open>Once the kernel is loaded, only the relocation and the allocation of the new tree can stop the boot.\<close>

lemma handoff_runs:
  assumes fs: "file_system fs_open fs_load" and n: "normal a" and zero: "\<not> free_byte a 0"
    and t: "tree_blob mem tree c nm items Z ss" and size: "dtb_size tree \<le> 2 ^ 29" and d: "held a (dtb_pointer tree) (dtb_size tree)"
    and lk: "load_first_file leftover fs_open fs_load (\<lambda>i. map_option as_str (kernel_candidate_path i)) (a, mem) = Some (Some (p, k), a1, m1)"
    and li: "load_first_file leftover fs_open fs_load (\<lambda>i. map_option as_str (initrd_candidate_path i)) (a1, m1) = Some (r, a2, m2)"
    and idx: "idx < 26" and img: "boot_image (loaded_bytes m1 k)"
    and rel: "relocate_kernel k (a2, m2) = (Some k', a3, m3)"
    and al: "AllocatePages a3 AllocateAnyPages EfiACPIReclaimMemory (of_nat ((dtb_size tree + 8192 + 4095) div 4096)) 0 = (Inr q, a')"
  shows "\<exists>hand mem'. try_boot_from_filesystem leftover fs_open fs_load idx part hart (dtb_pointer tree) (a, mem)
    = Some (Some hand, a', mem')"
proof -
  note l = loaded_state [OF fs n zero t d lk li rel]
  obtain cmd where cmd: "root_command_line idx part = Some cmd" using idx by (simp add: root_command_line_def Let_def)
  have "length cmd \<le> 255" using root_command_line_length [OF cmd] by simp
  then obtain hand mem' where "boot_and_start k' (map_option snd r) tree cmd hart (a3, m3) = (Inr hand, a', mem')"
    using boot_and_start_runs [OF l(5) size l(1,3,2) _ l(12) al] by blast
  moreover have "check_kernel_header m2 k = Inr ()" using img l(7) by (simp add: check_kernel_header_iff)
  ultimately show ?thesis using lk li cmd rel tree_blob_size(4) [OF l(4)] by (simp add: try_boot_from_filesystem_def)
qed

end
