(* ===== verification/LinuxBoot.thy ===== *)
theory LinuxBoot
  imports LinuxSpec
begin

text \<open>
  The properties of the Linux boot method, and a boot from the example ext4 volume of \<open>Ext4Spec\<close> with the
  example device tree of \<open>DtbWriteSpec\<close>.
\<close>

section \<open>A boot from the example volume\<close>

lemma demo_paths:
  "lookup_path demo_fs EXT4_ROOT_INODE (path_components (str ''/boot/vmlinuz'')) = Inl Ext4NotFound"
  "lookup_path demo_fs EXT4_ROOT_INODE (path_components (str ''/vmlinuz'')) = Inr 3"
  "lookup_path demo_fs EXT4_ROOT_INODE (path_components (str ''/boot/initrd.img'')) = Inl Ext4NotFound"
  "lookup_path demo_fs EXT4_ROOT_INODE (path_components (str ''/initrd.img'')) = Inl Ext4NotFound"
  using demo_flags(1) by (simp_all add: EXT4_ROOT_INODE_def demo_fs_def path_components_def str_def of_char_def)

lemma demo_open:
  "ext4_open 6 demo_volume (str ''/boot/vmlinuz'') = Some (Inl Ext4NotFound)"
  "ext4_open 6 demo_volume (str ''/vmlinuz'') = Some (Inr \<lparr>ext4_volume = demo_volume, ext4_inode = demo_file\<rparr>)"
  "ext4_open 6 demo_volume (str ''/boot/initrd.img'') = Some (Inl Ext4NotFound)"
  "ext4_open 6 demo_volume (str ''/initrd.img'') = Some (Inl Ext4NotFound)"
  using resolve_path_ok [OF demo_on demo_represents _ demo_root_known, of 6 _ 0]
  by (simp_all add: ext4_open_def demo_paths) (simp add: demo_fs_def)

definition demo_bytes_read :: "u8 list" where
  "demo_bytes_read = map (file_byte demo_disk demo_volume demo_extents) [0..<2051]"

lemma demo_contents: "read_inode_contents 6 demo_volume demo_file 2051 = Some (Inr demo_bytes_read)"
proof -
  have sz: "unat (inode_size_bytes demo_file) = 2051" by (simp add: demo_file_def)
  have asc: "ascending demo_extents" by (simp add: ascending_def demo_extents_def)
  have ins: "\<forall>e \<in> set demo_extents. blocks_inside demo_disk demo_volume (physical_block e) (unat (block_count e))"
    by (auto simp: demo_extents_def intro: demo_inside)
  show ?thesis
    using read_inode_contents_ok [OF demo_on _ demo_flags(2,6) demo_file_tree _ _ asc ins, of 6 2051]
    by (simp add: sz demo_bytes_read_def demo_extents_def)
qed

lemma demo_image: "boot_image demo_bytes_read"
proof -
  have b: "demo_bytes_read ! i = demo_block ! i" if "i < 60" for i
    using that by (simp add: demo_bytes_read_def file_byte_def extent_covers_def demo_extents_def block_pos_def demo_volume_def)
      (simp add: demo_disk_def nth_append demo_lengths)
  have t: "take n (drop k demo_bytes_read) = take n (drop k demo_block)" if "k + n \<le> 60" for k n
    using that b by (intro nth_equalityI) (simp_all add: demo_bytes_read_def demo_lengths)
  have "length demo_bytes_read = 2051" by (simp add: demo_bytes_read_def)
  then show ?thesis unfolding boot_image_def le_field_def using t [of 48 8] t [of 56 4]
    by (simp add: demo_block_def RISCV_LINUX_MAGIC_def RISCV_LINUX_MAGIC2_def)
qed

lemma demo_file_system: "file_system (ext4_open 6 demo_volume) (ext4_load 6)"
proof -
  have "block_device (ext4_device demo_volume) demo_disk"
    using demo_on by (simp add: ext4_on_def reliable_device_def)
  then show ?thesis by (rule ext4_file_system) (simp_all add: demo_volume_def)
qed

lemma candidates:
  "map_option as_str (kernel_candidate_path 0) = Some (str ''/boot/vmlinuz'')"
  "map_option as_str (kernel_candidate_path (Suc 0)) = Some (str ''/vmlinuz'')"
  "map_option as_str (initrd_candidate_path 0) = Some (str ''/boot/initrd.img'')"
  "map_option as_str (initrd_candidate_path (Suc 0)) = Some (str ''/initrd.img'')"
  "map_option as_str (initrd_candidate_path (Suc (Suc 0))) = None"
  by (simp_all add: kernel_candidate_path_def initrd_candidate_path_def BootPath_from_bytes_def as_str_def str_def)

text \<open>The allocator after loading the kernel, after its relocation, and after the allocation of the new tree.\<close>

lemma demo_allocate: "\<exists>a1 a2 a3 a4. AllocatePages sample_allocator AllocateAnyPages EfiBootServicesData 1 0 = (Inr 0x8000f000, a1)
    \<and> allocate_aligned_pages a1 EfiBootServicesData 1 (2 ^ 21) Low = (Inr 0x80000000, a2)
    \<and> FreePages a2 0x8000f000 1 = (Inr (), a3)
    \<and> AllocatePages a3 AllocateAnyPages EfiACPIReclaimMemory 3 0 = (Inr 0x8000d000, a4)"
  by (simp add: run_simps)

lemma demo_pages: "pages_for_size 2051 = Inr 1"
  by (simp add: pages_for_size_def run_simps EFI_PAGE_SIZE_def EFI_PAGE_SHIFT_def max_def)

lemma demo_kernel_loads:
  assumes "AllocatePages sample_allocator AllocateAnyPages EfiBootServicesData 1 0 = (Inr 0x8000f000, a1)"
  defines "k \<equiv> LoadedFile_new 0x8000f000 1 2051"
    and "m1 \<equiv> write_memory (write_memory boot_memory 0x8000f000 (replicate 4096 0)) 0x8000f000 demo_bytes_read"
  shows "load_first_file leftover (ext4_open 6 demo_volume) (ext4_load 6) (\<lambda>i. map_option as_str (kernel_candidate_path i))
      (sample_allocator, boot_memory) = Some (Some (str ''/vmlinuz'', k), a1, m1)"
    and "load_first_file leftover (ext4_open 6 demo_volume) (ext4_load 6) (\<lambda>i. map_option as_str (initrd_candidate_path i))
      (a1, m1) = Some (None, a1, m1)"
    and "loaded_bytes m1 k = demo_bytes_read"
proof -
  have sz: "unat (inode_size_bytes demo_file) = 2051" "inode_size_bytes demo_file = 2051" by (simp_all add: demo_file_def)
  have l: "ext4_load 6 \<lparr>ext4_volume = demo_volume, ext4_inode = demo_file\<rparr> sample_allocator boot_memory = Some (Inr (k, m1), a1)"
    using assms(1) demo_contents demo_flags(2)
    by (simp add: ext4_load_def ext4_load_into_allocated_pages_def ext4_load_contents_def sz ext4_file_size_to_page_count_def
        us_checked_add_def allocate_pages_for_size_def demo_pages k_def m1_def Let_def EFI_PAGE_SIZE_def EFI_PAGE_SHIFT_def)
  show "load_first_file leftover (ext4_open 6 demo_volume) (ext4_load 6) (\<lambda>i. map_option as_str (kernel_candidate_path i))
      (sample_allocator, boot_memory) = Some (Some (str ''/vmlinuz'', k), a1, m1)"
    unfolding load_first_file_def
    by (subst load_first_loop.simps, simp add: candidates demo_open) (subst load_first_loop.simps, simp add: candidates demo_open l)
  show "load_first_file leftover (ext4_open 6 demo_volume) (ext4_load 6) (\<lambda>i. map_option as_str (initrd_candidate_path i))
      (a1, m1) = Some (None, a1, m1)"
    unfolding load_first_file_def
    by (subst load_first_loop.simps, simp add: candidates demo_open, subst load_first_loop.simps, simp add: candidates demo_open)
      (subst load_first_loop.simps, simp add: candidates)
  have "length demo_bytes_read = 2051" by (simp add: demo_bytes_read_def)
  then show "loaded_bytes m1 k = demo_bytes_read"
    using read_write_memory [of demo_bytes_read "write_memory boot_memory 0x8000f000 (replicate 4096 0)" "0x8000f000"]
    by (simp add: loaded_bytes_def k_def m1_def LoadedFile_new_def)
qed


section \<open>Properties\<close>

text \<open>C3: when the boot method hands over to a kernel, the entry point is 2 MiB aligned and holds exactly the bytes of the
  first kernel candidate that could be loaded, which are a boot image with both magic numbers; \<open>a0\<close> is the boot
  hart; the initrd and the original device tree are unchanged; and \<open>a1\<close> points to a valid device tree whose
  \<open>/chosen\<close> carries the command line for the partition and the range of the initrd.\<close>

theorem linux_handoff_correct:
  assumes "file_system fs_open fs_load" and "normal a" and "\<not> free_byte a 0"
    and "tree_blob mem tree c nm items Z ss" and "dtb_size tree \<le> 2 ^ 29" and "held a (dtb_pointer tree) (dtb_size tree)"
    and "try_boot_from_filesystem leftover fs_open fs_load idx part hart (dtb_pointer tree) (a, mem) = Some (Some hand, a', mem')"
  shows "\<exists>p k a1 m1 r a2 m2 cmd fdt node.
      load_first_file leftover fs_open fs_load (\<lambda>i. map_option as_str (kernel_candidate_path i)) (a, mem) = Some (Some (p, k), a1, m1)
    \<and> load_first_file leftover fs_open fs_load (\<lambda>i. map_option as_str (initrd_candidate_path i)) (a1, m1) = Some (r, a2, m2)
    \<and> root_command_line idx part = Some cmd
    \<and> boot_image (loaded_bytes m1 k) \<and> 2 ^ 21 dvd unat (entry_address hand) \<and> register_a0 hand = hart
    \<and> read_bytes mem' (entry_address hand) (size_bytes k) = loaded_bytes m1 k
    \<and> (\<forall>q lf. r = Some (q, lf) \<longrightarrow> loaded_bytes mem' lf = loaded_bytes m2 lf)
    \<and> read_bytes mem' (dtb_pointer tree) (dtb_size tree) = read_bytes mem (dtb_pointer tree) (dtb_size tree)
    \<and> from_ptr mem' (register_a1 hand) = Inr fdt \<and> find_node fdt (str ''/chosen'') = Some node
    \<and> get_property fdt node (str ''bootargs'') = Some (cmd @ [0]) \<and> initrd_described fdt node (map_option snd r)"
  by (rule handoff_correct [OF assms])


text \<open>The command line of a partition is the name of the disk and the partition number in decimal without leading zeros,
  for at most 26 disks, and it fits the 24 bytes of the buffer.\<close>

theorem root_command_line_correct:
  "root_command_line idx part = (if idx < 26 then Some (str ''root=/dev/vd'' @ [0x61 + of_nat idx] @ rev (digits_loop part)) else None)
   \<and> decimal_value (rev (digits_loop part)) = unat part \<and> decimal_digits (rev (digits_loop part))
   \<and> length (str ''root=/dev/vd'' @ [0x61 + of_nat idx] @ rev (digits_loop part)) \<le> 24"
proof -
  have "length (digits_loop part) \<le> 10" using digits_loop_length [of part 10] u32_less [of part] by simp
  moreover have "(str ''root=/dev/vda'')[12 := b] = str ''root=/dev/vd'' @ [b]" "length (str ''root=/dev/vda'') - 1 = 12" for b
    by (simp_all add: str_def)
  ultimately show ?thesis using digits_loop_value [of part] by (simp add: root_command_line_def Let_def) (simp add: str_def)
qed

section \<open>Witnesses\<close>

lemma demo_boot_setting:
  "\<not> free_byte sample_allocator 0" "tree_blob boot_memory boot_dtb boot_contents [] boot_tree (be32 FDT_END) [str ''cell'']"
  "dtb_size boot_dtb \<le> 2 ^ 29" "held sample_allocator (dtb_pointer boot_dtb) (dtb_size boot_dtb)"
  using boot_encodes boot_strings by (simp_all add: sample_type boot_dtb_def tree_blob_def held_def)

lemma demo_relocates:
  assumes "allocate_aligned_pages a1 EfiBootServicesData 1 (2 ^ 21) Low = (Inr 0x80000000, a2)"
    and "FreePages a2 0x8000f000 1 = (Inr (), a3)"
  shows "\<exists>k' m. relocate_kernel (LoadedFile_new 0x8000f000 1 2051) (a1, mem) = (Some k', a3, m)"
  using assms by (simp add: relocate_kernel_def LoadedFile_new_def allocate_aligned_pages_for_size_def demo_pages
      KERNEL_ALIGNMENT_def Let_def)

abbreviation demo_boot :: "leftovers \<Rightarrow> (Handoff option \<times> PageAllocator \<times> memory) option" where
  "demo_boot leftover \<equiv> try_boot_from_filesystem leftover (ext4_open 6 demo_volume) (ext4_load 6) 0 2 1 (dtb_pointer boot_dtb)
     (sample_allocator, boot_memory)"

lemma demo_ready:
  obtains a1 m1 k' a3 m3 a4 where
    "\<And>leftover. load_first_file leftover (ext4_open 6 demo_volume) (ext4_load 6) (\<lambda>i. map_option as_str (kernel_candidate_path i))
      (sample_allocator, boot_memory) = Some (Some (str ''/vmlinuz'', LoadedFile_new 0x8000f000 1 2051), a1, m1)"
    "\<And>leftover. load_first_file leftover (ext4_open 6 demo_volume) (ext4_load 6) (\<lambda>i. map_option as_str (initrd_candidate_path i))
      (a1, m1) = Some (None, a1, m1)"
    "loaded_bytes m1 (LoadedFile_new 0x8000f000 1 2051) = demo_bytes_read"
    "relocate_kernel (LoadedFile_new 0x8000f000 1 2051) (a1, m1) = (Some k', a3, m3)"
    "AllocatePages a3 AllocateAnyPages EfiACPIReclaimMemory (of_nat ((dtb_size boot_dtb + 8192 + 4095) div 4096)) 0 = (Inr 0x8000d000, a4)"
proof -
  obtain a1 a2 a3 a4 where al: "AllocatePages sample_allocator AllocateAnyPages EfiBootServicesData 1 0 = (Inr 0x8000f000, a1)"
      "allocate_aligned_pages a1 EfiBootServicesData 1 (2 ^ 21) Low = (Inr 0x80000000, a2)"
      "FreePages a2 0x8000f000 1 = (Inr (), a3)"
      "AllocatePages a3 AllocateAnyPages EfiACPIReclaimMemory 3 0 = (Inr 0x8000d000, a4)"
    using demo_allocate by blast
  have pg: "of_nat ((dtb_size boot_dtb + 8192 + 4095) div 4096) = (3 :: u64)" by (simp add: boot_dtb_def)
  show ?thesis
    using that [OF demo_kernel_loads [OF al(1)]] demo_relocates [OF al(2,3)] al(4) unfolding pg by blast
qed


lemma demo_boots: "\<exists>hand a' mem'. demo_boot leftover = Some (Some hand, a', mem')"
proof (rule demo_ready, goal_cases)
  case (1 a1 m1 k' a3 m3 a4)
  have img: "boot_image (loaded_bytes m1 (LoadedFile_new 0x8000f000 1 2051))" using 1(3) demo_image by simp
  show ?case using handoff_runs [OF demo_file_system sample_normal demo_boot_setting 1(1,2) _ img 1(4,5)] by fastforce
qed

lemma demo_command_line: "root_command_line 0 2 = Some (str ''root=/dev/vda2'')"
proof -
  have "digits_loop 2 = [0x32]" by (subst digits_loop.simps) (simp add: unat_div)
  then show ?thesis by (simp add: root_command_line_def str_def of_char_def)
qed

theorem linux_handoff_correct_witness:
  "\<exists>hand a' mem' fdt node. demo_boot (\<lambda>_ _. 0) = Some (Some hand, a', mem')
     \<and> read_bytes mem' (entry_address hand) 2051 = demo_bytes_read \<and> 2 ^ 21 dvd unat (entry_address hand) \<and> register_a0 hand = 1
     \<and> from_ptr mem' (register_a1 hand) = Inr fdt \<and> find_node fdt (str ''/chosen'') = Some node
     \<and> get_property fdt node (str ''bootargs'') = Some (str ''root=/dev/vda2'' @ [0])"
proof (rule demo_ready, goal_cases)
  case (1 a1 m1 k' a3 m3 a4)
  obtain hand a' mem' where run: "demo_boot (\<lambda>_ _. 0) = Some (Some hand, a', mem')" using demo_boots by blast
  have "size_bytes (LoadedFile_new 0x8000f000 1 2051) = 2051" by (simp add: LoadedFile_new_def)
  then show ?case
    using linux_handoff_correct [OF demo_file_system sample_normal demo_boot_setting run] run 1(1,3) demo_command_line by auto
qed

end
