(* ===== verification/VirtioSpec.thy ===== *)
theory VirtioSpec
  imports Virtio
begin

unbundle bit_operations_syntax

text \<open>
  What the block driver promises: the layout of the queue, the contents of memory when a request is published, and
  the answers it gives on a device that serves requests as the VirtIO specification says.
\<close>

section \<open>Address ranges\<close>

definition span :: "u64 \<Rightarrow> nat \<Rightarrow> u64 set" where
  "span p n = {x. unat (x - p) < n}"

lemma span_mem: "i < n \<Longrightarrow> n \<le> 2 ^ 64 \<Longrightarrow> p + of_nat i \<in> span p n"
  by (simp add: span_def unat_of_nat)

lemma span_offset:
  assumes "x \<in> span (p + of_nat a) k" and "a + k \<le> 2 ^ 64"
  shows "a \<le> unat (x - p) \<and> unat (x - p) < a + k"
proof -
  have y: "unat (x - (p + of_nat a)) < k" using assms by (simp add: span_def)
  have a: "unat (of_nat a :: u64) = a" using assms y by (simp add: unat_of_nat)
  have "x - p = x - (p + of_nat a) + of_nat a" by simp
  moreover have "unat (x - (p + of_nat a) + of_nat a) = unat (x - (p + of_nat a)) + a"
    using unat_add_small [of "x - (p + of_nat a)" "of_nat a"] y a assms by simp
  ultimately show ?thesis using y by simp
qed

lemma span_sub:
  assumes "a + k \<le> n" and "n \<le> 2 ^ 64"
  shows "span (p + of_nat a) k \<subseteq> span p n"
proof
  fix x assume "x \<in> span (p + of_nat a) k"
  then have "unat (x - p) < a + k" using span_offset assms by auto
  then show "x \<in> span p n" using assms(1) by (simp add: span_def)
qed

lemma span_apart:
  assumes "a + k \<le> b \<or> b + m \<le> a" and "a + k \<le> 2 ^ 64" and "b + m \<le> 2 ^ 64"
  shows "span (p + of_nat a) k \<inter> span (p + of_nat b) m = {}"
proof -
  have False if "x \<in> span (p + of_nat a) k" "x \<in> span (p + of_nat b) m" for x
    using span_offset [OF that(1) assms(2)] span_offset [OF that(2) assms(3)] assms(1) by linarith
  then show ?thesis by blast
qed

lemma write_outside_span: "x \<notin> span p (length bs) \<Longrightarrow> write_memory mem p bs x = mem x"
  by (simp add: span_def write_memory_def)

lemma read_write_apart:
  assumes "span p (length bs) \<inter> span q n = {}" and "n \<le> 2 ^ 64"
  shows "read_bytes (write_memory mem p bs) q n = read_bytes mem q n"
  using assms span_mem [OF _ assms(2), of _ q] by (fastforce simp: read_bytes_def intro: write_outside_span)

lemma read_write_same: "length bs = n \<Longrightarrow> n \<le> 2 ^ 64 \<Longrightarrow> read_bytes (write_memory mem p bs) p n = bs"
  using read_write_memory [of bs mem p] by (simp add: read_bytes_def)

section \<open>Queue layout and fields\<close>

lemma virtio_align_up_4: "v + 3 < 2 ^ 64 \<Longrightarrow> virtio_align_up v 4 = (v + 3) div 4 * 4"
proof -
  assume v: "v + 3 < 2 ^ 64"
  have "unat ((of_nat v + 3 :: u64) AND NOT 3) = unat (of_nat v + 3 :: u64) div 4 * 4"
    using unat_and_not_mask [of "of_nat v + 3 :: u64" 2] by (simp add: mask_eq_exp_minus_1 minus_mod_eq_div_mult)
  moreover have "of_nat v + 3 = (of_nat (v + 3) :: u64)" by simp
  moreover have "unat (of_nat (v + 3) :: u64) = v + 3" using v by (subst unat_of_nat) simp
  moreover have "virtio_align_up v 4 = unat ((of_nat v + 3 :: u64) AND NOT 3)" by (simp add: virtio_align_up_def)
  ultimately show ?thesis by metis
qed

lemma block_layout: "VirtQueueLayout_new VIRTIO_BLOCK_QUEUE_SIZE False = \<lparr>layout_queue_size = 4, layout_event_idx = False,
    desc_offset = 0, avail_offset = 64, used_offset = 76, total_size_of_queue = 112\<rparr>"
  by (simp add: VirtQueueLayout_new_def VIRTIO_BLOCK_QUEUE_SIZE_def virtio_align_up_4)

lemma descriptor_roundtrip [simp]: "descriptor_of_bytes (descriptor_bytes d) = d"
  by (simp add: descriptor_of_bytes_def descriptor_bytes_def from_le_to_le)

lemma used_elem_roundtrip [simp]: "used_elem_of_bytes (used_elem_bytes e) = e"
  by (simp add: used_elem_of_bytes_def used_elem_bytes_def from_le_to_le)

lemma field_lengths [simp]:
  "length (descriptor_bytes d) = 16" "length (used_elem_bytes e) = 8" "length (header_of_request sector) = 16"
  by (simp_all add: descriptor_bytes_def used_elem_bytes_def header_of_request_def)

section \<open>The device\<close>

text \<open>The queue as the device sees it, from the addresses programmed into its registers.\<close>

record device_queue =
  dq_desc :: u64
  dq_avail :: u64
  dq_used :: u64
  dq_num :: nat

definition device_descriptor :: "memory \<Rightarrow> device_queue \<Rightarrow> u16 \<Rightarrow> VirtqDescriptor" where
  "device_descriptor mem q i = descriptor_of_bytes (read_bytes mem (dq_desc q + of_nat (16 * unat i)) 16)"

text \<open>What a VirtIO block device does with the request at position \<open>i\<close> of the available ring: it follows the chain of
  three descriptors, answers a read inside the disk with the bytes and status 0 and anything else with an error
  status, and then returns the chain in the used ring.\<close>

definition serve_request :: "u8 list \<Rightarrow> device_queue \<Rightarrow> u16 \<Rightarrow> memory \<Rightarrow> memory" where
  "serve_request disk q i mem =
     (let slot = unat i mod dq_num q;
          head = read_u16_at mem (dq_avail q + of_nat (4 + slot * 2));
          d0 = device_descriptor mem q head;
          d1 = device_descriptor mem q (desc_next d0);
          d2 = device_descriptor mem q (desc_next d1);
          op = (from_le_bytes (read_bytes mem (desc_addr d0) 4) :: u32);
          sector = (from_le_bytes (read_bytes mem (desc_addr d0 + 8) 8) :: u64);
          ok = (desc_flags d0 = 1 \<and> desc_flags d1 = 3 \<and> desc_flags d2 = 2 \<and> desc_len d0 = 16 \<and> desc_len d2 = 1
                \<and> op = 0 \<and> unat sector * 512 + unat (desc_len d1) \<le> length disk);
          mem = (if ok then write_memory mem (desc_addr d1) (disk_bytes disk (unat sector) (unat (desc_len d1))) else mem);
          mem = write_memory mem (desc_addr d2) [if ok then 0 else 1];
          mem = write_memory mem (dq_used q + of_nat (4 + slot * 8))
                  (used_elem_bytes \<lparr>used_elem_id = ucast head, used_elem_len = (if ok then desc_len d1 + 1 else 1)\<rparr>) in
      write_u16_at mem (dq_used q + 2) (i + 1))"

text \<open>The contract of a block device: once it is notified of one new request, it serves that request within the polling
  limit, and until then the used index stays. \<open>live i\<close> says that the device has served \<open>i\<close> requests.\<close>

definition serves :: "'d bus \<Rightarrow> u64 \<Rightarrow> u8 list \<Rightarrow> device_queue \<Rightarrow> (u16 \<Rightarrow> 'd \<Rightarrow> bool) \<Rightarrow> bool" where
  "serves bus mmio disk q live \<longleftrightarrow> (\<forall>i d mem.
     live i d \<and> read_u16_at mem (dq_avail q + 2) = i + 1 \<and> read_u16_at mem (dq_used q + 2) = i \<longrightarrow>
     (\<exists>k \<le> VIRTIO_BLOCK_REQUEST_POLL_LIMIT.
        let after = (\<lambda>j. (bus_idle bus ^^ j) (bus_write bus (mmio + MMIO_QUEUE_NOTIFY) 0 (mem, d))) in
        (\<forall>j < k. read_u16_at (fst (after j)) (dq_used q + 2) = i)
        \<and> fst (after k) = serve_request disk q i mem \<and> live (i + 1) (snd (after k))))"

lemma poll_used_runs:
  assumes "\<And>j. j < k \<Longrightarrow> queue_used_idx (fst ((bus_idle bus ^^ j) s)) q = i" and "k \<le> n"
    and "queue_used_idx (fst ((bus_idle bus ^^ k) s)) q \<noteq> i"
  shows "poll_used bus q i n s = (True, (bus_idle bus ^^ k) s)"
  using assms
proof (induction k arbitrary: n s)
  case 0
  then show ?case by (subst poll_used.simps) simp
next
  case (Suc k)
  have here: "queue_used_idx (fst s) q = i" using Suc.prems(1) [of 0] by simp
  have "poll_used bus q i (n - 1) (bus_idle bus s) = (True, (bus_idle bus ^^ k) (bus_idle bus s))"
  proof (rule Suc.IH)
    show "queue_used_idx (fst ((bus_idle bus ^^ j) (bus_idle bus s))) q = i" if "j < k" for j
      using Suc.prems(1) [of "Suc j"] that by (simp add: funpow_swap1)
    show "queue_used_idx (fst ((bus_idle bus ^^ k) (bus_idle bus s))) q \<noteq> i"
      using Suc.prems(3) by (simp add: funpow_swap1)
    show "k \<le> n - 1" using Suc.prems(2) by simp
  qed
  then show ?case using here Suc.prems(2) by (subst poll_used.simps) (simp add: funpow_swap1)
qed

section \<open>A request in memory\<close>

text \<open>The addresses of the queue, of the static variables and of the caller's buffer.\<close>

definition qat :: "u64 \<Rightarrow> nat \<Rightarrow> u64" where
  "qat qb k = qb + of_nat k"

definition block_queue :: "u64 \<Rightarrow> device_queue" where
  "block_queue qb = \<lparr>dq_desc = qb, dq_avail = qat qb 64, dq_used = qat qb 76, dq_num = 4\<rparr>"

definition driver_on :: "virtio_statics \<Rightarrow> VirtioBlockDriver \<Rightarrow> bool" where
  "driver_on statics drv \<longleftrightarrow> driver_queue drv =
     \<lparr>queue_base = queue_memory statics, layout_of_queue = VirtQueueLayout_new VIRTIO_BLOCK_QUEUE_SIZE False\<rparr>"

definition placed :: "virtio_statics \<Rightarrow> u64 \<Rightarrow> nat \<Rightarrow> bool" where
  "placed statics buf n \<longleftrightarrow>
     (let Q = span (queue_memory statics) 112; H = span (request_header statics) 16; S = span (request_status statics) 1;
          B = span buf n in
      Q \<inter> H = {} \<and> Q \<inter> S = {} \<and> Q \<inter> B = {} \<and> H \<inter> S = {} \<and> H \<inter> B = {} \<and> S \<inter> B = {})"

lemma driver_ptrs:
  assumes "driver_on statics drv"
  defines "qb \<equiv> queue_memory statics"
  shows "descriptor_ptr (driver_queue drv) i = qat qb (unat i * 16)"
    and "avail_idx_ptr (driver_queue drv) = qat qb 66" and "avail_ring_ptr (driver_queue drv) i = qat qb (68 + unat i * 2)"
    and "used_idx_ptr (driver_queue drv) = qat qb 78" and "used_ring_ptr (driver_queue drv) i = qat qb (80 + unat i * 8)"
  using assms(1) by (simp_all add: driver_on_def block_layout qb_def qat_def descriptor_ptr_def avail_idx_ptr_def
      avail_ring_ptr_def used_idx_ptr_def used_ring_ptr_def)

lemma block_queue_ptrs:
  "dq_desc (block_queue qb) + of_nat (16 * k) = qat qb (k * 16)" "dq_avail (block_queue qb) + 2 = qat qb 66"
  "dq_avail (block_queue qb) + of_nat (4 + k * 2) = qat qb (68 + k * 2)" "dq_used (block_queue qb) + 2 = qat qb 78"
  "dq_used (block_queue qb) + of_nat (4 + k * 8) = qat qb (80 + k * 8)" "dq_num (block_queue qb) = 4"
  by (simp_all add: block_queue_def qat_def)

text \<open>Reads after writes: inside the queue by offset, elsewhere by the placement.\<close>

lemma queue_read_apart:
  assumes "a + length bs \<le> b \<or> b + m \<le> a" and "a + length bs \<le> 112" and "b + m \<le> 112"
  shows "read_bytes (write_memory mem (qat qb a) bs) (qat qb b) m = read_bytes mem (qat qb b) m"
  using assms span_apart [of a "length bs" b m qb] by (intro read_write_apart) (auto simp: qat_def)

lemma placed_reads:
  assumes p: "placed statics buf n" and n: "n \<le> 2 ^ 64"
  defines "qb \<equiv> queue_memory statics"
  shows "b + m \<le> 112 \<Longrightarrow> length bs = 16 \<Longrightarrow>
      read_bytes (write_memory mem (request_header statics) bs) (qat qb b) m = read_bytes mem (qat qb b) m"
    and "b + m \<le> 112 \<Longrightarrow> read_bytes (write_memory mem (request_status statics) [v]) (qat qb b) m = read_bytes mem (qat qb b) m"
    and "b + m \<le> 112 \<Longrightarrow> length bs = n \<Longrightarrow> read_bytes (write_memory mem buf bs) (qat qb b) m = read_bytes mem (qat qb b) m"
    and "a + length bs \<le> 112 \<Longrightarrow>
      read_bytes (write_memory mem (qat qb a) bs) (request_header statics) 16 = read_bytes mem (request_header statics) 16"
    and "read_bytes (write_memory mem (request_status statics) [v]) (request_header statics) 16 = read_bytes mem (request_header statics) 16"
    and "a + length bs \<le> 112 \<Longrightarrow> read_bytes (write_memory mem (qat qb a) bs) buf n = read_bytes mem buf n"
    and "read_bytes (write_memory mem (request_status statics) [v]) buf n = read_bytes mem buf n"
    and "a + length bs \<le> 112 \<Longrightarrow> write_memory mem (qat qb a) bs (request_status statics) = mem (request_status statics)"
proof -
  note P = p [unfolded placed_def Let_def]
  have sub: "span (qat qb b) m \<subseteq> span (queue_memory statics) 112" if "b + m \<le> 112" for b m
    using span_sub [OF that] by (simp add: qat_def qb_def)
  have st: "request_status statics \<in> span (request_status statics) 1" by (simp add: span_def)
  show "read_bytes (write_memory mem (request_header statics) bs) (qat qb b) m = read_bytes mem (qat qb b) m"
    if "b + m \<le> 112" "length bs = 16"
    using sub [OF that(1)] that P by (intro read_write_apart) auto
  show "read_bytes (write_memory mem (request_status statics) [v]) (qat qb b) m = read_bytes mem (qat qb b) m" if "b + m \<le> 112"
    using sub [OF that] that P by (intro read_write_apart) auto
  show "read_bytes (write_memory mem buf bs) (qat qb b) m = read_bytes mem (qat qb b) m" if "b + m \<le> 112" "length bs = n"
    using sub [OF that(1)] that P by (intro read_write_apart) auto
  show "read_bytes (write_memory mem (qat qb a) bs) (request_header statics) 16 = read_bytes mem (request_header statics) 16"
    if "a + length bs \<le> 112"
    using sub [OF that] P by (intro read_write_apart) auto
  show "read_bytes (write_memory mem (request_status statics) [v]) (request_header statics) 16 = read_bytes mem (request_header statics) 16"
    using P by (intro read_write_apart) auto
  show "read_bytes (write_memory mem (qat qb a) bs) buf n = read_bytes mem buf n" if "a + length bs \<le> 112"
    using sub [OF that] P n by (intro read_write_apart) auto
  show "read_bytes (write_memory mem (request_status statics) [v]) buf n = read_bytes mem buf n"
    using P n by (intro read_write_apart) auto
  show "write_memory mem (qat qb a) bs (request_status statics) = mem (request_status statics)" if "a + length bs \<le> 112"
    using sub [OF that] P st by (intro write_outside_span) auto
qed


lemma slot_less: "unat (i :: u16) mod 4 < 4"
  by simp

lemma slot_word: "unat ((i :: u16) mod VIRTIO_BLOCK_QUEUE_SIZE) = unat i mod 4"
  by (simp add: VIRTIO_BLOCK_QUEUE_SIZE_def unat_mod)

definition request_descriptors :: "virtio_statics \<Rightarrow> u64 \<Rightarrow> u32 \<Rightarrow> nat \<Rightarrow> VirtqDescriptor" where
  "request_descriptors statics buf len k =
     [\<lparr>desc_addr = request_header statics, desc_len = 16, desc_flags = 1, desc_next = 1\<rparr>,
      \<lparr>desc_addr = buf, desc_len = len, desc_flags = 3, desc_next = 2\<rparr>,
      \<lparr>desc_addr = request_status statics, desc_len = 1, desc_flags = 2, desc_next = 0\<rparr>] ! k"

text \<open>What the device finds in memory after a request has been published.\<close>

lemma published:
  fixes sector :: u64 and len :: u32 and mem :: memory
  assumes on: "driver_on statics drv" and pl: "placed statics buf n" and n: "n \<le> 2 ^ 64"
  defines "qb \<equiv> queue_memory statics"
    and "mem1 \<equiv> publish_request statics drv sector buf len mem" and "i \<equiv> driver_avail_idx drv"
  shows "read_u16_at mem1 (qat qb 66) = i + 1"
    and "read_u16_at mem1 (qat qb (68 + (unat i mod 4) * 2)) = 0"
    and "k < 3 \<Longrightarrow> device_descriptor mem1 (block_queue qb) (of_nat k) = request_descriptors statics buf len k"
    and "read_bytes mem1 (request_header statics) 16 = header_of_request sector"
    and "read_u16_at mem1 (qat qb 78) = read_u16_at mem (qat qb 78)"
    and "x \<notin> span qb 112 \<Longrightarrow> x \<notin> span (request_header statics) 16 \<Longrightarrow> x \<notin> span (request_status statics) 1 \<Longrightarrow> mem1 x = mem x"
proof -
  note ptrs = driver_ptrs [OF on, folded qb_def]
  note pr = placed_reads [OF pl n, folded qb_def]
  define m0 where "m0 = write_memory (write_memory mem (request_header statics) (header_of_request sector)) (request_status statics) [0xff]"
  define m3 where "m3 = write_memory (write_memory (write_memory m0
    (qat qb 0) (descriptor_bytes (request_descriptors statics buf len 0)))
    (qat qb 16) (descriptor_bytes (request_descriptors statics buf len 1)))
    (qat qb 32) (descriptor_bytes (request_descriptors statics buf len 2))"
  have m1: "mem1 = write_memory (write_memory m3 (qat qb (68 + (unat i mod 4) * 2)) (to_le_bytes 2 (0 :: u16)))
      (qat qb 66) (to_le_bytes 2 (i + 1))"
    by (simp add: mem1_def publish_request_def Let_def write_descriptor_def set_avail_ring_def set_avail_idx_def write_u16_at_def
        ptrs slot_word m3_def m0_def i_def request_descriptors_def VIRTQ_DESC_F_NEXT_def VIRTQ_DESC_F_WRITE_def)
  note lt = slot_less [of i]
  note qr = queue_read_apart
  show "read_u16_at mem1 (qat qb 66) = i + 1"
    by (simp add: m1 read_u16_at_def read_write_same from_le_to_le)
  show "read_u16_at mem1 (qat qb (68 + (unat i mod 4) * 2)) = 0"
    using lt by (simp add: m1 read_u16_at_def qr read_write_same from_le_to_le)
  show "read_bytes mem1 (request_header statics) 16 = header_of_request sector"
    using lt by (simp add: m1 m3_def m0_def pr read_write_same)
  show "read_u16_at mem1 (qat qb 78) = read_u16_at mem (qat qb 78)"
    using lt by (simp add: m1 m3_def m0_def read_u16_at_def qr pr)
  have d: "read_bytes mem1 (qat qb 0) 16 = descriptor_bytes (request_descriptors statics buf len 0)"
    "read_bytes mem1 (qat qb 16) 16 = descriptor_bytes (request_descriptors statics buf len 1)"
    "read_bytes mem1 (qat qb 32) 16 = descriptor_bytes (request_descriptors statics buf len 2)"
    using lt by (simp_all add: m1 m3_def qr read_write_same)
  show "device_descriptor mem1 (block_queue qb) (of_nat k) = request_descriptors statics buf len k" if "k < 3"
  proof -
    have "k = 0 \<or> k = 1 \<or> k = 2" using that by linarith
    then show ?thesis using d by (elim disjE) (simp_all add: device_descriptor_def block_queue_def qat_def)
  qed
  show "mem1 x = mem x" if "x \<notin> span qb 112" "x \<notin> span (request_header statics) 16" "x \<notin> span (request_status statics) 1"
  proof -
    have "x \<notin> span (qat qb b) m" if "b + m \<le> 112" for b m
      using span_sub [OF that, of qb] \<open>x \<notin> span qb 112\<close> by (auto simp: qat_def)
    then show ?thesis using that lt by (simp add: m1 m3_def m0_def write_outside_span)
  qed
qed

lemma read_bytes_part: "a + k \<le> n \<Longrightarrow> read_bytes mem (p + of_nat a) k = take k (drop a (read_bytes mem p n))"
  by (rule nth_equalityI) (simp_all add: read_bytes_def add.assoc)

text \<open>What the device leaves in memory.\<close>

lemma served:
  fixes sector :: u64 and mem :: memory and disk :: "u8 list"
  assumes on: "driver_on statics drv" and pl: "placed statics buf n" and n: "n < 2 ^ 32"
  defines "qb \<equiv> queue_memory statics" and "i \<equiv> driver_avail_idx drv"
    and "ok \<equiv> unat sector * 512 + n \<le> length disk"
    and "mem2 \<equiv> serve_request disk (block_queue (queue_memory statics)) (driver_avail_idx drv)
      (publish_request statics drv sector buf (of_nat n) mem)"
  shows "ok \<Longrightarrow> read_bytes mem2 buf n = disk_bytes disk (unat sector) n"
    and "mem2 (request_status statics) = (if ok then 0 else 1)"
    and "used_elem_id (used_elem_of_bytes (read_bytes mem2 (qat qb (80 + (unat i mod 4) * 8)) 8)) = 0"
    and "read_u16_at mem2 (qat qb 78) = i + 1"
    and "x \<notin> span qb 112 \<Longrightarrow> x \<notin> span (request_header statics) 16 \<Longrightarrow> x \<notin> span (request_status statics) 1 \<Longrightarrow>
      x \<notin> span buf n \<Longrightarrow> mem2 x = mem x"
proof -
  have n64: "n \<le> 2 ^ 64" and un: "unat (of_nat n :: u32) = n" using n by (simp_all add: unat_of_nat)
  define m1 where "m1 = publish_request statics drv sector buf (of_nat n) mem"
  note pb = published [OF on pl n64, where sector = sector and len = "of_nat n" and mem = mem, folded m1_def qb_def i_def]
  note pr = placed_reads [OF pl n64, folded qb_def]
  have d: "device_descriptor m1 (block_queue qb) 0 = request_descriptors statics buf (of_nat n) 0"
    "device_descriptor m1 (block_queue qb) 1 = request_descriptors statics buf (of_nat n) 1"
    "device_descriptor m1 (block_queue qb) 2 = request_descriptors statics buf (of_nat n) 2"
    using pb(3) [of 0] pb(3) [of 1] pb(3) [of 2] by simp_all
  have op: "from_le_bytes (read_bytes m1 (request_header statics) 4) = (0 :: u32)"
    using read_bytes_part [of 0 4 16 m1 "request_header statics"] pb(4)
    by (simp add: header_of_request_def VIRTIO_BLK_REQUEST_TYPE_IN_def from_le_to_le)
  have sec: "from_le_bytes (read_bytes m1 (request_header statics + 8) 8) = sector"
    using read_bytes_part [of 8 8 16 m1 "request_header statics"] pb(4)
    by (simp add: header_of_request_def from_le_to_le)
  define m2 where "m2 = (if ok then write_memory m1 buf (disk_bytes disk (unat sector) n) else m1)"
  define e where "e = \<lparr>used_elem_id = 0, used_elem_len = (if ok then of_nat n + 1 else 1)\<rparr>"
  have mem2: "mem2 = write_memory (write_memory (write_memory m2 (request_status statics) [if ok then 0 else 1])
      (qat qb (80 + (unat i mod 4) * 8)) (used_elem_bytes e)) (qat qb 78) (to_le_bytes 2 (i + 1))"
    unfolding mem2_def qb_def [symmetric] m1_def [symmetric] i_def [symmetric] serve_request_def Let_def block_queue_ptrs pb(2)
    by (simp add: d request_descriptors_def op sec un ok_def m2_def e_def write_u16_at_def)
  note lt = slot_less [of i]
  have lb: "length (disk_bytes disk (unat sector) n) = n" if ok using that by (simp add: disk_bytes_def ok_def)
  show "read_bytes mem2 buf n = disk_bytes disk (unat sector) n" if ok
    using that lt lb n64 by (simp add: mem2 pr m2_def read_write_same)
  show "mem2 (request_status statics) = (if ok then 0 else 1)"
    using lt by (simp add: mem2 pr) (simp add: write_memory_def)
  show "used_elem_id (used_elem_of_bytes (read_bytes mem2 (qat qb (80 + (unat i mod 4) * 8)) 8)) = 0"
    using lt by (simp add: mem2 queue_read_apart read_write_same e_def)
  show "read_u16_at mem2 (qat qb 78) = i + 1"
    by (simp add: mem2 read_u16_at_def read_write_same from_le_to_le)
  show "mem2 x = mem x" if x: "x \<notin> span qb 112" "x \<notin> span (request_header statics) 16" "x \<notin> span (request_status statics) 1"
    "x \<notin> span buf n"
  proof -
    have q: "x \<notin> span (qat qb b) m" if "b + m \<le> 112" for b m
      using span_sub [OF that, of qb] x(1) by (auto simp: qat_def)
    have "m2 x = m1 x" using x(4) lb by (simp add: m2_def write_outside_span)
    then show ?thesis using x lt q pb(6) by (simp add: mem2 write_outside_span)
  qed
qed

section \<open>The driver as a block device\<close>

text \<open>The answers of the driver on a disk, in the terms of the interface the file systems use.\<close>

definition virtio_view :: "u8 list \<Rightarrow> BlockDevice" where
  "virtio_view disk = \<lparr>sector_count = of_nat (length disk div 512),
     read_blocks = (\<lambda>sector n.
       if n = 0 \<or> n mod 512 \<noteq> 0 \<or> 2 ^ 32 \<le> n then Inl InvalidBufferLength
       else if unat sector * 512 + n \<le> length disk then Inr (disk_bytes disk (unat sector) n)
       else Inl (BlockRequestFailed 1))\<rparr>"

lemma virtio_view_block_device:
  assumes "image_ok disk"
  shows "block_device (virtio_view disk) disk"
proof
  have "length disk div 512 < 2 ^ 64" using assms by (auto simp: image_ok_def)
  then have "unat (of_nat (length disk div 512) :: u64) = length disk div 512" by (simp add: unat_of_nat)
  then show "length disk = unat (sector_count (virtio_view disk)) * 512" using assms by (simp add: virtio_view_def image_ok_def)
qed (auto simp: virtio_view_def split: if_splits)

interpretation virtio_disk: block_device "virtio_view (image_file img)" "image_file img"
  for img :: disk_image
  using virtio_view_block_device image_file by blast

text \<open>Driver and device have dealt with the same number of requests.\<close>

definition in_step :: "virtio_statics \<Rightarrow> (u16 \<Rightarrow> 'd \<Rightarrow> bool) \<Rightarrow> VirtioBlockDriver \<Rightarrow> memory \<times> 'd \<Rightarrow> bool" where
  "in_step statics live drv s \<longleftrightarrow> driver_on statics drv \<and> driver_used_idx drv = driver_avail_idx drv
     \<and> live (driver_avail_idx drv) (snd s)
     \<and> read_u16_at (fst s) (qat (queue_memory statics) 78) = driver_avail_idx drv"

lemma driver_on_update [simp]:
  "driver_on statics (drv\<lparr>driver_avail_idx := i\<rparr>) = driver_on statics drv"
  "driver_on statics (drv\<lparr>driver_used_idx := i\<rparr>) = driver_on statics drv"
  by (simp_all add: driver_on_def)

lemma queue_used_idx_on: "driver_on statics drv \<Longrightarrow> queue_used_idx mem (driver_queue drv) = read_u16_at mem (qat (queue_memory statics) 78)"
  by (simp add: queue_used_idx_def driver_ptrs)

lemma used_elem_on: "driver_on statics drv \<Longrightarrow> used_elem mem (driver_queue drv) (i mod VIRTIO_BLOCK_QUEUE_SIZE)
    = used_elem_of_bytes (read_bytes mem (qat (queue_memory statics) (80 + (unat i mod 4) * 8)) 8)"
  by (simp add: used_elem_def driver_ptrs slot_word)

lemma next_index: "(i :: u16) + 1 \<noteq> i"
  by simp

text \<open>A request of valid length, by the outcome of the polling loop.\<close>

lemma virtio_read_blocks_polled:
  assumes n: "0 < n" "n mod 512 = 0" "n < 2 ^ 32"
    and poll: "poll_used bus (driver_queue drv) (driver_used_idx drv) VIRTIO_BLOCK_REQUEST_POLL_LIMIT
      (bus_write bus (mmio_base (driver_device drv) + MMIO_QUEUE_NOTIFY) 0
        (publish_request statics drv sector buf (of_nat n) (fst s), snd s)) = (b, s')"
    and i: "i = driver_used_idx drv"
  shows "virtio_read_blocks bus statics sector buf n drv s =
    (let drv1 = drv\<lparr>driver_avail_idx := driver_avail_idx drv + 1\<rparr>;
         drv2 = drv1\<lparr>driver_used_idx := i + 1\<rparr>;
         e = used_elem_id (used_elem (fst s') (driver_queue drv) (i mod VIRTIO_BLOCK_QUEUE_SIZE));
         status = fst s' (request_status statics) in
     if \<not> b then (Inl RequestTimeout, drv1, s')
     else if e \<noteq> 0 then (Inl (UnexpectedUsedId e), drv1, s')
     else if status = 0 then (Inr (), drv2, s') else (Inl (BlockRequestFailed status), drv2, s'))"
  using n poll
  by (cases b) (simp_all add: virtio_read_blocks_def Let_def write_reg_def VIRTIO_BLOCK_QUEUE_def VIRTIO_BLK_STATUS_OK_def i)

lemma virtio_read_blocks_step:
  assumes sv: "serves bus (mmio_base (driver_device drv)) disk (block_queue (queue_memory statics)) live"
    and st: "in_step statics live drv s" and pl: "placed statics buf n"
  shows "\<exists>drv' s'. virtio_read_blocks bus statics sector buf n drv s
      = (map_sum id (\<lambda>_. ()) (read_blocks (virtio_view disk) sector n), drv', s')
    \<and> in_step statics live drv' s' \<and> driver_device drv' = driver_device drv
    \<and> (\<forall>bs. read_blocks (virtio_view disk) sector n = Inr bs \<longrightarrow> read_bytes (fst s') buf n = bs)
    \<and> (\<forall>x. x \<notin> span (queue_memory statics) 112 \<and> x \<notin> span (request_header statics) 16
          \<and> x \<notin> span (request_status statics) 1 \<and> x \<notin> span buf n \<longrightarrow> fst s' x = fst s x)"
proof (cases "n = 0 \<or> n mod 512 \<noteq> 0 \<or> 2 ^ 32 \<le> n")
  case True
  then have "virtio_read_blocks bus statics sector buf n drv s = (Inl InvalidBufferLength, drv, s)"
    "read_blocks (virtio_view disk) sector n = Inl InvalidBufferLength"
    by (auto simp: virtio_read_blocks_def virtio_view_def)
  then show ?thesis using st by auto
next
  case False
  then have n: "n < 2 ^ 32" and ne: "\<not> (n = 0 \<or> n mod 512 \<noteq> 0)" by auto
  obtain mem d where s: "s = (mem, d)" by fastforce
  define qb i where "qb = queue_memory statics" and "i = driver_avail_idx drv"
  have on: "driver_on statics drv" and ui: "driver_used_idx drv = i" and lv: "live i d" and ux: "read_u16_at mem (qat qb 78) = i"
    using st by (simp_all add: in_step_def s qb_def i_def)
  define ok where "ok \<longleftrightarrow> unat sector * 512 + n \<le> length disk"
  define m1 where "m1 = publish_request statics drv sector buf (of_nat n) mem"
  have n64: "n \<le> 2 ^ 64" using n by simp
  note pb = published [OF on pl n64, where sector = sector and len = "of_nat n" and mem = mem, folded m1_def qb_def i_def]
  note sd = served [OF on pl n, where sector = sector and mem = mem and disk = disk, folded m1_def qb_def i_def ok_def]
  define run where "run = (\<lambda>j. (bus_idle bus ^^ j) (bus_write bus (mmio_base (driver_device drv) + MMIO_QUEUE_NOTIFY) 0 (m1, d)))"
  obtain k where k: "k \<le> VIRTIO_BLOCK_REQUEST_POLL_LIMIT" "\<forall>j < k. read_u16_at (fst (run j)) (qat qb 78) = i"
      "fst (run k) = serve_request disk (block_queue qb) i m1" "live (i + 1) (snd (run k))"
    using sv [unfolded serves_def, rule_format, of i d m1] lv pb(1,5) ux
    by (auto simp: block_queue_ptrs qb_def [symmetric] run_def Let_def)
  have "poll_used bus (driver_queue drv) i VIRTIO_BLOCK_REQUEST_POLL_LIMIT (run 0) = (True, (bus_idle bus ^^ k) (run 0))"
    using k sd(4) by (intro poll_used_runs) (simp_all add: queue_used_idx_on [OF on] run_def qb_def [symmetric])
  then have poll: "poll_used bus (driver_queue drv) (driver_used_idx drv) VIRTIO_BLOCK_REQUEST_POLL_LIMIT
      (bus_write bus (mmio_base (driver_device drv) + MMIO_QUEUE_NOTIFY) 0
        (publish_request statics drv sector buf (of_nat n) (fst s), snd s)) = (True, run k)"
    by (simp add: run_def s ui m1_def)
  have elem: "used_elem_id (used_elem (fst (run k)) (driver_queue drv) (i mod VIRTIO_BLOCK_QUEUE_SIZE)) = 0"
    using sd(3) by (simp add: used_elem_on [OF on] k(3) qb_def [symmetric])
  have stat: "fst (run k) (request_status statics) = (if ok then 0 else 1)" using sd(2) by (simp add: k(3))
  define drv2 where "drv2 = drv\<lparr>driver_avail_idx := i + 1, driver_used_idx := i + 1\<rparr>"
  have "virtio_read_blocks bus statics sector buf n drv s = (if ok then Inr () else Inl (BlockRequestFailed 1), drv2, run k)"
    using virtio_read_blocks_polled [OF _ _ n poll ui [symmetric]] ne elem stat by (simp add: Let_def drv2_def i_def)
  moreover have "read_blocks (virtio_view disk) sector n = (if ok then Inr (disk_bytes disk (unat sector) n) else Inl (BlockRequestFailed 1))"
    using False by (auto simp: virtio_view_def ok_def)
  moreover have "in_step statics live drv2 (run k)"
    using on k sd(4) by (simp add: in_step_def drv2_def qb_def [symmetric])
  ultimately show ?thesis using sd(1,5) k(3) by (auto simp: drv2_def s qb_def)
qed

section \<open>Sequences of requests\<close>

text \<open>What a client gets from a sequence of reads: sector, buffer and length of each.\<close>

fun read_all ::
  "'d bus \<Rightarrow> virtio_statics \<Rightarrow> (u64 \<times> u64 \<times> nat) list \<Rightarrow> VirtioBlockDriver \<Rightarrow> memory \<times> 'd
   \<Rightarrow> (VirtioError + u8 list) list \<times> VirtioBlockDriver \<times> memory \<times> 'd" where
  "read_all bus statics [] drv s = ([], drv, s)"
| "read_all bus statics ((sector, buf, n) # rs) drv s =
     (case virtio_read_blocks bus statics sector buf n drv s of (r, drv, s) \<Rightarrow>
      case read_all bus statics rs drv s of (answers, rest) \<Rightarrow>
        (map_sum id (\<lambda>_. read_bytes (fst s) buf n) r # answers, rest))"

lemma read_all_ok:
  assumes "serves bus (mmio_base (driver_device drv)) disk (block_queue (queue_memory statics)) live"
    and "in_step statics live drv s" and "\<forall>(sector, buf, n) \<in> set rs. placed statics buf n"
  shows "\<exists>drv' s'. read_all bus statics rs drv s
      = (map (\<lambda>(sector, buf, n). read_blocks (virtio_view disk) sector n) rs, drv', s')
    \<and> in_step statics live drv' s' \<and> driver_device drv' = driver_device drv"
  using assms
proof (induction rs arbitrary: drv s)
  case (Cons r rs)
  obtain sector buf n where r: "r = (sector, buf, n)" by (cases r) auto
  obtain drv1 s1 where st: "virtio_read_blocks bus statics sector buf n drv s
        = (map_sum id (\<lambda>_. ()) (read_blocks (virtio_view disk) sector n), drv1, s1)"
      "in_step statics live drv1 s1" "driver_device drv1 = driver_device drv"
      "\<forall>bs. read_blocks (virtio_view disk) sector n = Inr bs \<longrightarrow> read_bytes (fst s1) buf n = bs"
    using virtio_read_blocks_step [OF Cons.prems(1,2), of buf n sector] Cons.prems(3) r by auto
  have "map_sum id (\<lambda>_. read_bytes (fst s1) buf n) (map_sum id (\<lambda>_. ()) (read_blocks (virtio_view disk) sector n))
      = read_blocks (virtio_view disk) sector n"
    using st(4) by (cases "read_blocks (virtio_view disk) sector n") auto
  moreover obtain drv2 s2 where "read_all bus statics rs drv1 s1
        = (map (\<lambda>(sector, buf, n). read_blocks (virtio_view disk) sector n) rs, drv2, s2)"
      "in_step statics live drv2 s2" "driver_device drv2 = driver_device drv1"
    using Cons.IH [of drv1 s1] Cons.prems(1,3) st(2,3) by auto
  ultimately show ?case using st(1,3) by (simp add: r)
qed simp

section \<open>Devices that do not answer in time\<close>

lemma poll_used_stuck:
  assumes "\<And>j. j \<le> n \<Longrightarrow> queue_used_idx (fst ((bus_idle bus ^^ j) s)) q = i"
  shows "poll_used bus q i n s = (False, (bus_idle bus ^^ n) s)"
  using assms
proof (induction n arbitrary: s)
  case 0
  then show ?case using "0.prems" [of 0] by (subst poll_used.simps) simp
next
  case (Suc n)
  have "queue_used_idx (fst s) q = i" using Suc.prems [of 0] by simp
  moreover have "poll_used bus q i n (bus_idle bus s) = (False, (bus_idle bus ^^ n) (bus_idle bus s))"
    using Suc.prems [of "Suc j" for j] by (intro Suc.IH) (simp add: funpow_swap1)
  ultimately show ?case by (subst poll_used.simps) (simp add: funpow_swap1)
qed

section \<open>Initialisation\<close>

text \<open>A bus that records the register writes.\<close>

definition logged :: "'d bus \<Rightarrow> ('d \<times> (u64 \<times> u32) list) bus" where
  "logged bus = \<lparr>bus_read = (\<lambda>a (d, log). case bus_read bus a d of (v, d) \<Rightarrow> (v, d, log)),
     bus_read_byte = (\<lambda>a (d, log). case bus_read_byte bus a d of (v, d) \<Rightarrow> (v, d, log)),
     bus_write = (\<lambda>a v (mem, d, log). case bus_write bus a v (mem, d) of (mem, d) \<Rightarrow> (mem, d, log @ [(a, v)])),
     bus_idle = (\<lambda>(mem, d, log). case bus_idle bus (mem, d) of (mem, d) \<Rightarrow> (mem, d, log))\<rparr>"

definition log_of :: "memory \<times> 'd \<times> (u64 \<times> u32) list \<Rightarrow> (u64 \<times> u32) list" where
  "log_of s = snd (snd s)"

lemma log_read: "read_reg (logged bus) dev off s = (v, s') \<Longrightarrow> log_of s' = log_of s"
  by (auto simp: read_reg_def logged_def log_of_def split: prod.splits)

lemma log_write: "log_of (write_reg (logged bus) dev off v s) = log_of s @ [(mmio_base dev + off, v)]"
  by (auto simp: write_reg_def logged_def log_of_def split: prod.splits)

lemma log_status: "\<exists>c. log_of (add_status (logged bus) dev v s) = log_of s @ [(mmio_base dev + MMIO_STATUS, c OR v)]"
  by (auto simp: add_status_def log_write dest!: log_read split: prod.splits)

lemma log_memory: "log_of (mem, snd s) = log_of s"
  by (simp add: log_of_def)

lemma log_block: "is_block_device (logged bus) dev s = (b, s') \<Longrightarrow> log_of s' = log_of s"
  by (auto simp: is_block_device_def is_present_device_def dest!: log_read split: prod.splits if_splits)

lemma log_config_bytes: "config_bytes (logged bus) dev off n s = (bs, s') \<Longrightarrow> log_of s' = log_of s"
  by (induction "logged bus" dev off n s arbitrary: bs s' rule: config_bytes.induct)
    (auto simp: logged_def log_of_def split: prod.splits)

lemma log_config:
  assumes "read_config_u64_le (logged bus) dev off s = Some r"
  shows "log_of (snd r) = log_of s"
proof -
  have "logged bus = logged bus \<longrightarrow> log_of (snd r) = log_of s"
  proof (rule read_config_u64_le.raw_induct [where P = "\<lambda>b dev off s r. b = logged bus \<longrightarrow> log_of (snd r) = log_of s", OF _ assms],
      intro impI)
    fix loop b dev off s r
    assume IH: "\<And>b dev off s r. loop b dev off s = Some r \<Longrightarrow> b = logged bus \<longrightarrow> log_of (snd r) = log_of s"
      and eq: "(case config_generation b dev s of (before, s) \<Rightarrow>
        case config_bytes b dev off 8 s of (bytes, s) \<Rightarrow>
        case config_generation b dev s of (after, s) \<Rightarrow>
        if before = after then Some (from_le_bytes bytes, s) else loop b dev off s) = Some r"
      and b: "b = logged bus"
    obtain before s1 where r1: "read_reg (logged bus) dev MMIO_CONFIG_GENERATION s = (before, s1)" by (metis surj_pair)
    obtain bytes s2 where r2: "config_bytes (logged bus) dev off 8 s1 = (bytes, s2)" by (metis surj_pair)
    obtain after s3 where r3: "read_reg (logged bus) dev MMIO_CONFIG_GENERATION s2 = (after, s3)" by (metis surj_pair)
    have l: "log_of s3 = log_of s" using log_read [OF r1] log_config_bytes [OF r2] log_read [OF r3] by simp
    show "log_of (snd r) = log_of s"
      using eq IH [of "logged bus" dev off s3 r] l by (auto simp: b r1 r2 r3 split: if_splits)
  qed
  then show ?thesis by simp
qed

text \<open>The register writes of a successful initialisation, in order.\<close>

definition init_log :: "u64 \<Rightarrow> u64 \<Rightarrow> u32 \<Rightarrow> u32 \<Rightarrow> u32 \<Rightarrow> u32 \<Rightarrow> (u64 \<times> u32) list" where
  "init_log mmio qb c1 c2 c3 c4 = map (\<lambda>(off, v). (mmio + off, v))
     ([(0x70, 0), (0x70, c1 OR 1), (0x70, c2 OR 2), (0x14, 1),
       (0x24, 0), (0x20, 0), (0x24, 1), (0x20, 1), (0x70, c3 OR 8), (0x30, 0), (0x38, 4)]
      @ [(0x80, ucast qb), (0x84, ucast (drop_bit 32 qb)),
         (0x90, ucast (qat qb 64)), (0x94, ucast (drop_bit 32 (qat qb 64))),
         (0xa0, ucast (qat qb 76)), (0xa4, ucast (drop_bit 32 (qat qb 76)))]
      @ [(0x44, 1), (0x70, c4 OR 4)])"

lemma VirtioBlockDriver_new_log:
  assumes new: "VirtioBlockDriver_new (logged bus) statics dev s = Some (Inr drv, s')"
  shows "driver_on statics drv" and "driver_device drv = dev" and "driver_avail_idx drv = 0" and "driver_used_idx drv = 0"
    and "queue_memory statics \<noteq> 0"
    and "\<exists>c1 c2 c3 c4. log_of s' = log_of s @ init_log (mmio_base dev) (queue_memory statics) c1 c2 c3 c4"
proof -
  let ?b = "logged bus" and ?qb = "queue_memory statics"
  obtain bl t1 where b1: "is_block_device ?b dev s = (bl, t1)" by (metis surj_pair)
  with new obtain cap t2 where b2: "read_config_u64_le ?b dev 0 t1 = Some (cap, t2)"
    by (auto simp: VirtioBlockDriver_new_def split: if_splits option.splits)
  define t3 where "t3 = add_status ?b dev VIRTIO_STATUS_DRIVER (add_status ?b dev VIRTIO_STATUS_ACKNOWLEDGE (write_reg ?b dev MMIO_STATUS 0 t2))"
  obtain f t4 where b4: "device_features ?b dev VIRTIO_F_VERSION_1_SELECTOR t3 = (f, t4)" by (metis surj_pair)
  define t5 where "t5 = add_status ?b dev VIRTIO_STATUS_FEATURES_OK (set_driver_features ?b dev VIRTIO_F_VERSION_1_SELECTOR
    VIRTIO_F_VERSION_1_BIT (set_driver_features ?b dev 0 0 t4))"
  obtain g t6 where b6: "read_reg ?b dev MMIO_STATUS t5 = (g, t6)" by (metis surj_pair)
  obtain h t7 where b7: "read_reg ?b dev MMIO_QUEUE_NUM_MAX (write_reg ?b dev MMIO_QUEUE_SEL VIRTIO_BLOCK_QUEUE t6) = (h, t7)" by (metis surj_pair)
  define t8 where "t8 = write_reg ?b dev MMIO_QUEUE_READY 1 (set_queue_addresses ?b dev ?qb (qat ?qb 64) (qat ?qb 76)
    (write_reg ?b dev MMIO_QUEUE_NUM 4 (write_memory (fst t7) ?qb (replicate 4096 0), snd t7)))"
  have nz: "?qb \<noteq> 0"
    and d: "drv = \<lparr>driver_device = dev, capacity_sectors = cap, driver_queue = \<lparr>queue_base = ?qb,
      layout_of_queue = VirtQueueLayout_new VIRTIO_BLOCK_QUEUE_SIZE False\<rparr>, driver_avail_idx = 0, driver_used_idx = 0\<rparr>"
    and s': "s' = add_status ?b dev VIRTIO_STATUS_DRIVER_OK t8"
    using new
    by (auto simp: VirtioBlockDriver_new_def b1 b2 Let_def t3_def [symmetric] b4 t5_def [symmetric] b6 b7 VirtQueue_from_ptr_def
        block_layout block_layout [unfolded VIRTIO_BLOCK_QUEUE_SIZE_def] t8_def qat_def VIRTIO_BLOCK_QUEUE_SIZE_def split: if_splits)
  show "driver_on statics drv" "driver_device drv = dev" "driver_avail_idx drv = 0" "driver_used_idx drv = 0" "?qb \<noteq> 0"
    by (simp_all add: d driver_on_def nz)
  have l2: "log_of t2 = log_of s" using log_block [OF b1] log_config [OF b2] by simp
  obtain c1 c2 where l3: "log_of t3 = log_of s @ [(mmio_base dev + 0x70, 0), (mmio_base dev + 0x70, c1 OR 1), (mmio_base dev + 0x70, c2 OR 2)]"
    using log_status [of bus dev VIRTIO_STATUS_ACKNOWLEDGE "write_reg ?b dev MMIO_STATUS 0 t2"]
      log_status [of bus dev VIRTIO_STATUS_DRIVER "add_status ?b dev VIRTIO_STATUS_ACKNOWLEDGE (write_reg ?b dev MMIO_STATUS 0 t2)"]
    by (auto simp: t3_def log_write l2 VIRTIO_STATUS_ACKNOWLEDGE_def VIRTIO_STATUS_DRIVER_def mmio_offsets)
  have l4: "log_of t4 = log_of t3 @ [(mmio_base dev + 0x14, 1)]"
    using log_read [OF b4 [unfolded device_features_def]] by (simp add: log_write VIRTIO_F_VERSION_1_SELECTOR_def mmio_offsets)
  obtain c3 where l5: "log_of t5 = log_of t4 @ [(mmio_base dev + 0x24, 0), (mmio_base dev + 0x20, 0), (mmio_base dev + 0x24, 1),
      (mmio_base dev + 0x20, 1), (mmio_base dev + 0x70, c3 OR 8)]"
    using log_status [of bus dev VIRTIO_STATUS_FEATURES_OK "set_driver_features ?b dev VIRTIO_F_VERSION_1_SELECTOR
      VIRTIO_F_VERSION_1_BIT (set_driver_features ?b dev 0 0 t4)"]
    by (auto simp: t5_def set_driver_features_def log_write VIRTIO_STATUS_FEATURES_OK_def VIRTIO_F_VERSION_1_SELECTOR_def
        VIRTIO_F_VERSION_1_BIT_def mmio_offsets)
  have l7: "log_of t7 = log_of t5 @ [(mmio_base dev + 0x30, 0)]"
    using log_read [OF b6] log_read [OF b7] by (simp add: log_write VIRTIO_BLOCK_QUEUE_def mmio_offsets)
  have l8: "log_of t8 = log_of t7 @ [(mmio_base dev + 0x38, 4), (mmio_base dev + 0x80, ucast ?qb), (mmio_base dev + 0x84, ucast (drop_bit 32 ?qb)),
      (mmio_base dev + 0x90, ucast (qat ?qb 64)), (mmio_base dev + 0x94, ucast (drop_bit 32 (qat ?qb 64))),
      (mmio_base dev + 0xa0, ucast (qat ?qb 76)), (mmio_base dev + 0xa4, ucast (drop_bit 32 (qat ?qb 76))), (mmio_base dev + 0x44, 1)]"
    by (simp add: t8_def set_queue_addresses_def write_reg64_def log_write log_memory mmio_offsets)
  obtain c4 where "log_of s' = log_of t8 @ [(mmio_base dev + 0x70, c4 OR 4)]"
    using log_status [of bus dev VIRTIO_STATUS_DRIVER_OK t8] by (auto simp: s' VIRTIO_STATUS_DRIVER_OK_def mmio_offsets)
  then have "log_of s' = log_of s @ init_log (mmio_base dev) ?qb c1 c2 c3 c4"
    by (simp add: l8 l7 l5 l4 l3 init_log_def)
  then show "\<exists>c1 c2 c3 c4. log_of s' = log_of s @ init_log (mmio_base dev) ?qb c1 c2 c3 c4" by blast
qed

end
