(* ===== verification/VirtioDriver.thy ===== *)
theory VirtioDriver
  imports VirtioSpec
begin

unbundle bit_operations_syntax

text \<open>
  The properties of the VirtIO block driver, with concrete devices that satisfy their hypotheses.
\<close>

section \<open>An example device\<close>

text \<open>A device that serves each request at the notification; its state is the number of requests served.\<close>

definition prompt_bus :: "u64 \<Rightarrow> u8 list \<Rightarrow> device_queue \<Rightarrow> u16 bus" where
  "prompt_bus mmio disk q = \<lparr>bus_read = (\<lambda>a d. (0, d)), bus_read_byte = (\<lambda>a d. (0, d)),
     bus_write = (\<lambda>a v (mem, i). if a = mmio + MMIO_QUEUE_NOTIFY then (serve_request disk q i mem, i + 1) else (mem, i)),
     bus_idle = id\<rparr>"

lemma prompt_serves: "serves (prompt_bus mmio disk q) mmio disk q (\<lambda>i d. d = i)"
  unfolding serves_def by (intro allI impI exI [of _ 0]) (simp add: prompt_bus_def Let_def)

definition example_statics :: virtio_statics where
  "example_statics = \<lparr>queue_memory = 0x1000, request_header = 0x2000, request_status = 0x3000\<rparr>"

definition example_driver :: "u16 \<Rightarrow> u16 \<Rightarrow> VirtioBlockDriver" where
  "example_driver i j = \<lparr>driver_device = \<lparr>mmio_base = 0x10001000\<rparr>, capacity_sectors = 2,
     driver_queue = \<lparr>queue_base = 0x1000, layout_of_queue = VirtQueueLayout_new VIRTIO_BLOCK_QUEUE_SIZE False\<rparr>,
     driver_avail_idx = i, driver_used_idx = j\<rparr>"

lemma span_nat_apart:
  assumes "unat p + n \<le> unat q" and "unat q + m \<le> 2 ^ 64"
  shows "span p n \<inter> span q m = {}"
  using span_apart [of "unat p" n "unat q" m 0] assms by simp

lemma example_placed: "n \<le> 2 ^ 32 \<Longrightarrow> placed example_statics 0x4000 n"
  by (simp add: placed_def example_statics_def Let_def span_nat_apart)

lemma example_on: "driver_on example_statics (example_driver i j)"
  by (simp add: driver_on_def example_statics_def example_driver_def)

lemma zero_u16: "read_u16_at (\<lambda>_. 0) p = 0"
proof -
  have "read_bytes (\<lambda>_. 0) p 2 = [0, 0 :: u8]" by (simp add: read_bytes_def numeral_2_eq_2)
  then show ?thesis by (simp add: read_u16_at_def from_le_bytes_def)
qed

lemma example_in_step: "in_step example_statics (\<lambda>i d. d = i) (example_driver 0 0) (\<lambda>_. 0, 0)"
  using example_on [of 0 0] by (simp add: in_step_def zero_u16) (simp add: example_driver_def)

section \<open>Properties\<close>

text \<open>C4: on a device that serves requests as the VirtIO specification says, any sequence of reads gives the answers of
  the disk: whole sectors inside the disk are returned byte for byte, reads beyond it fail, and buffers that are
  empty, too long or not whole sectors are refused; driver and device stay in step for the next request.\<close>

theorem virtio_reads_refine_disk:
  assumes "serves bus (mmio_base (driver_device drv)) disk (block_queue (queue_memory statics)) live"
    and "in_step statics live drv s" and "\<forall>(sector, buf, n) \<in> set rs. placed statics buf n"
  shows "\<exists>drv' s'. read_all bus statics rs drv s
      = (map (\<lambda>(sector, buf, n). read_blocks (virtio_view disk) sector n) rs, drv', s')
    \<and> in_step statics live drv' s' \<and> driver_device drv' = driver_device drv"
  by (rule read_all_ok [OF assms])

theorem virtio_reads_refine_disk_witness:
  "\<exists>drv' s'. read_all (prompt_bus 0x10001000 (replicate 1024 7) (block_queue 0x1000)) example_statics
      [(1, 0x4000, 512), (2, 0x4000, 512), (0, 0x4000, 100)] (example_driver 0 0) (\<lambda>_. 0, 0)
    = ([Inr (replicate 512 7), Inl (BlockRequestFailed 1), Inl InvalidBufferLength], drv', s')"
proof -
  have "serves (prompt_bus 0x10001000 (replicate 1024 7) (block_queue 0x1000)) (mmio_base (driver_device (example_driver 0 0)))
      (replicate 1024 7) (block_queue (queue_memory example_statics)) (\<lambda>i d. d = i)"
    using prompt_serves by (simp add: example_driver_def example_statics_def)
  from virtio_reads_refine_disk [OF this example_in_step, of "[(1, 0x4000, 512), (2, 0x4000, 512), (0, 0x4000, 100)]"]
  show ?thesis using example_placed by (auto simp: virtio_view_def disk_bytes_def)
qed

text \<open>C33: a successful initialisation writes the registers in the order of the specification: reset, acknowledge, driver,
  features, features accepted, then the queue with its size and the three addresses inside the zeroed queue page,
  and only then the device is declared ready.\<close>

theorem virtio_init_order:
  assumes "VirtioBlockDriver_new (logged bus) statics dev (mem, d, []) = Some (Inr drv, mem', d', log)"
  shows "\<exists>c1 c2 c3 c4. log = init_log (mmio_base dev) (queue_memory statics) c1 c2 c3 c4
    \<and> driver_on statics drv \<and> driver_device drv = dev \<and> driver_avail_idx drv = 0 \<and> driver_used_idx drv = 0"
  using VirtioBlockDriver_new_log [OF assms] by (simp add: log_of_def)

text \<open>When the device does not complete the request while the driver polls, the driver gives up with a timeout; the
  request stays published, so its available index is then ahead.\<close>

lemma virtio_read_blocks_timeout:
  assumes n: "0 < n" "n mod 512 = 0" "n < 2 ^ 32"
    and stuck: "\<forall>j \<le> VIRTIO_BLOCK_REQUEST_POLL_LIMIT. queue_used_idx (fst ((bus_idle bus ^^ j)
      (bus_write bus (mmio_base (driver_device drv) + MMIO_QUEUE_NOTIFY) 0
        (publish_request statics drv sector buf (of_nat n) (fst s), snd s)))) (driver_queue drv) = driver_used_idx drv"
  shows "\<exists>s'. virtio_read_blocks bus statics sector buf n drv s
    = (Inl RequestTimeout, drv\<lparr>driver_avail_idx := driver_avail_idx drv + 1\<rparr>, s')"
proof -
  define t where "t = bus_write bus (mmio_base (driver_device drv) + MMIO_QUEUE_NOTIFY) 0
    (publish_request statics drv sector buf (of_nat n) (fst s), snd s)"
  have "poll_used bus (driver_queue drv) (driver_used_idx drv) VIRTIO_BLOCK_REQUEST_POLL_LIMIT t
      = (False, (bus_idle bus ^^ VIRTIO_BLOCK_REQUEST_POLL_LIMIT) t)"
    using stuck by (intro poll_used_stuck) (simp add: t_def)
  from virtio_read_blocks_polled [OF n this [unfolded t_def] refl] show ?thesis unfolding Let_def by (simp only: simp_thms if_True) blast
qed


text \<open>C35: for every queue size the three parts of a queue lie one behind the other without overlap, aligned as the
  specification asks, with less than four bytes of padding and all inside the reported size.\<close>

theorem virtqueue_layout_correct:
  "let l = VirtQueueLayout_new queue_size event; extra = (if event then 2 else 0) in
   desc_offset l = 0 \<and> avail_offset l = 16 * unat queue_size \<and> 4 dvd used_offset l
   \<and> avail_offset l + (4 + 2 * unat queue_size + extra) \<le> used_offset l
   \<and> used_offset l < avail_offset l + (4 + 2 * unat queue_size + extra) + 4
   \<and> total_size_of_queue l = used_offset l + (4 + 8 * unat queue_size + extra)"
proof -
  define v :: nat where "v = 16 * unat queue_size + (4 + unat queue_size * 2 + (if event then 2 else 0))"
  have "unat queue_size < 2 ^ 16" using unsigned_less [of queue_size] by simp
  then have "v + 3 < 2 ^ 64" by (simp add: v_def)
  then have a: "virtio_align_up v 4 = (v + 3) div 4 * 4" by (rule virtio_align_up_4)
  have b: "4 dvd (v + 3) div 4 * 4" "v \<le> (v + 3) div 4 * 4" "(v + 3) div 4 * 4 < v + 4"
    using div_mult_mod_eq [of "v + 3" 4] mod_less_divisor [of 4 "v + 3"] by auto
  show ?thesis using b unfolding VirtQueueLayout_new_def Let_def add_0 v_def [symmetric] a
    by (cases event) (simp_all add: v_def)
qed

section \<open>Witnesses\<close>

text \<open>A device that can be initialised.\<close>

definition ready_answer :: "u64 \<Rightarrow> u32" where
  "ready_answer a = (if a = 0x10001000 then VIRTIO_MMIO_MAGIC else if a = 0x10001004 then 2
     else if a = 0x10001008 then 2 else if a = 0x10001010 then 1 else if a = 0x10001034 then 8
     else if a = 0x10001070 then 15 else 0)"

definition ready_bus :: "unit bus" where
  "ready_bus = \<lparr>bus_read = (\<lambda>a d. (ready_answer a, d)), bus_read_byte = (\<lambda>a d. (0, d)), bus_write = (\<lambda>a v s. s), bus_idle = id\<rparr>"

lemma ready_read: "read_reg (logged ready_bus) \<lparr>mmio_base = 0x10001000\<rparr> off s = (ready_answer (0x10001000 + off), s)"
  by (cases s) (auto simp: read_reg_def logged_def ready_bus_def split: prod.splits)

lemma ready_byte: "bus_read_byte (logged ready_bus) a d = (0, d)"
  by (cases d) (simp add: logged_def ready_bus_def)

lemma ready_config: "config_bytes (logged ready_bus) dev off n s = (replicate n 0, s)"
  by (induction n arbitrary: off s) (simp_all add: ready_byte)

lemma ready_new: "\<exists>drv s'. VirtioBlockDriver_new (logged ready_bus) example_statics \<lparr>mmio_base = 0x10001000\<rparr> (mem, (), [])
    = Some (Inr drv, s')"
proof -
  have c: "read_config_u64_le (logged ready_bus) \<lparr>mmio_base = 0x10001000\<rparr> 0 s = Some (from_le_bytes (replicate 8 0), s)" for s
    by (subst read_config_u64_le.simps) (simp add: ready_read ready_config)
  have b: "is_block_device (logged ready_bus) \<lparr>mmio_base = 0x10001000\<rparr> s = (True, s)" for s
    by (simp add: is_block_device_def is_present_device_def ready_read ready_answer_def mmio_offsets VIRTIO_MMIO_VERSION_1_def
        VIRTIO_DEVICE_ID_BLOCK_def)
  show ?thesis
    by (simp add: VirtioBlockDriver_new_def b c Let_def device_features_def ready_read VirtQueue_from_ptr_def
        example_statics_def ready_answer_def mmio_offsets VIRTIO_F_VERSION_1_BIT_def VIRTIO_STATUS_FEATURES_OK_def
        VIRTIO_BLOCK_QUEUE_SIZE_def block_layout [unfolded VIRTIO_BLOCK_QUEUE_SIZE_def] del: split_paired_Ex)
qed

theorem virtio_init_order_witness:
  "\<exists>drv mem' d' log c1 c2 c3 c4. VirtioBlockDriver_new (logged ready_bus) example_statics \<lparr>mmio_base = 0x10001000\<rparr> (\<lambda>_. 0, (), [])
      = Some (Inr drv, mem', d', log) \<and> log = init_log 0x10001000 0x1000 c1 c2 c3 c4"
proof -
  obtain drv mem' d' log where r: "VirtioBlockDriver_new (logged ready_bus) example_statics \<lparr>mmio_base = 0x10001000\<rparr> (\<lambda>_. 0, (), [])
      = Some (Inr drv, mem', d', log)"
    using ready_new [of "\<lambda>_. 0"] by auto
  show ?thesis using virtio_init_order [OF r] r by (auto simp: example_statics_def)
qed

text \<open>A device that reports an old request when it is notified of a new one.\<close>

definition late_bus :: "unit bus" where
  "late_bus = \<lparr>bus_read = (\<lambda>a d. (0, d)), bus_read_byte = (\<lambda>a d. (0, d)),
     bus_write = (\<lambda>a v (mem, d). (write_u16_at (write_memory (write_memory mem 0x3000 [0])
       (qat 0x1000 80) (used_elem_bytes \<lparr>used_elem_id = 0, used_elem_len = 513\<rparr>)) (qat 0x1000 78) 1, d)), bus_idle = id\<rparr>"


end
