(* ===== verification/FirmwareSpec.thy ===== *)
theory FirmwareSpec
  imports Firmware LinuxBoot VirtioDriver
begin

text \<open>
  What the firmware does as a whole: its relocation leaves everything that is in use intact, a kernel is only started
  from a partition marked bootable, and a kernel started from a partition gets what the Linux boot method promises.
\<close>

section \<open>The allocator of the live device tree\<close>

lemma live_allocator:
  assumes l: "page_allocator_from_live_fdt lla mem ptr ms rs buffer = Some a"
  obtains fdt where "from_ptr mem ptr = Inr fdt" and "normal a" and "held a ptr (total_size fdt)"
    and "\<And>x. free_byte a x \<Longrightarrow> \<not> firmware_pages lla x"
proof -
  from l obtain fdt ms' rs' where f: "from_ptr mem ptr = Inr fdt" and b: "from_fdt lla fdt ms rs buffer = (Inr a, ms', rs')"
    by (auto simp: page_allocator_from_live_fdt_def bind_eq_Some_conv) (metis prod.collapse)
  obtain n ms1 where m: "memory_regions fdt ms = (n, ms1)" by fastforce
  obtain k res where r: "reserve_map_regions fdt rs = (k, res)" by fastforce
  note s = from_ptr_shape [OF f]
  obtain q where n: "normal a" and q: "align_region_to_pages (blob_region fdt) True = Inr q"
    using from_fdt_withdraws [OF b] by blast
  have un: "unat (of_nat (total_size fdt) :: u64) = total_size fdt" using s by (simp add: unat_of_nat)
  have blob: "blob_region fdt = \<lparr>base = ptr, region_size = of_nat (total_size fdt)\<rparr>"
    using s by (simp add: blob_region_def base_ptr_def total_size_bytes_def)
  have "unat ptr + total_size fdt < 2 ^ 64" using q by (auto simp: align_region_to_pages_def blob checked_add_def un split: if_splits)
  moreover have "\<not> free_byte a x" if "unat ptr \<le> x" "x < unat ptr + total_size fdt" for x
    using from_fdt_free [OF b m r, of x] that by (auto simp: blob in_region_def un)
  ultimately have "held a ptr (total_size fdt)" by (simp add: held_def)
  moreover have "\<not> firmware_pages lla x" if "free_byte a x" for x using from_fdt_free [OF b m r that] by blast
  ultimately show ?thesis using that f n by blast
qed

section \<open>Booting from a volume\<close>

text \<open>The hand-over with the allocator the boot method builds itself.\<close>

lemma volume_handoff_correct:
  assumes fs: "file_system fs_open fs_load" and t: "tree_blob mem tree c nm items Z ss" and size: "dtb_size tree \<le> 2 ^ 29"
    and zero: "\<And>a. page_allocator_from_live_fdt lla mem (dtb_pointer tree) (replicate 8 \<lparr>base = 0, region_size = 0\<rparr>)
        (replicate 16 \<lparr>base = 0, region_size = 0\<rparr>) (replicate 32 EMPTY_MEMORY_DESCRIPTOR) = Some a \<Longrightarrow> \<not> free_byte a 0"
    and run: "try_boot_from_volume lla leftover fs_open fs_load idx part hart (dtb_pointer tree) mem = Some (Some hand, mem')"
  shows "\<exists>a p k a1 m1 r a2 m2 cmd fdt node. normal a \<and> held a (dtb_pointer tree) (dtb_size tree)
    \<and> (\<forall>x. free_byte a x \<longrightarrow> \<not> firmware_pages lla x)
    \<and> load_first_file leftover fs_open fs_load (\<lambda>i. map_option as_str (kernel_candidate_path i)) (a, mem) = Some (Some (p, k), a1, m1)
    \<and> load_first_file leftover fs_open fs_load (\<lambda>i. map_option as_str (initrd_candidate_path i)) (a1, m1) = Some (r, a2, m2)
    \<and> root_command_line idx part = Some cmd
    \<and> boot_image (loaded_bytes m1 k) \<and> 2 ^ 21 dvd unat (entry_address hand) \<and> register_a0 hand = hart
    \<and> read_bytes mem' (entry_address hand) (size_bytes k) = loaded_bytes m1 k
    \<and> (\<forall>q lf. r = Some (q, lf) \<longrightarrow> loaded_bytes mem' lf = loaded_bytes m2 lf)
    \<and> read_bytes mem' (dtb_pointer tree) (dtb_size tree) = read_bytes mem (dtb_pointer tree) (dtb_size tree)
    \<and> from_ptr mem' (register_a1 hand) = Inr fdt \<and> find_node fdt (str ''/chosen'') = Some node
    \<and> get_property fdt node (str ''bootargs'') = Some (cmd @ [0]) \<and> initrd_described fdt node (map_option snd r)"
proof -
  from run obtain a a' where l: "page_allocator_from_live_fdt lla mem (dtb_pointer tree) (replicate 8 \<lparr>base = 0, region_size = 0\<rparr>)
        (replicate 16 \<lparr>base = 0, region_size = 0\<rparr>) (replicate 32 EMPTY_MEMORY_DESCRIPTOR) = Some a"
    and b: "try_boot_from_filesystem leftover fs_open fs_load idx part hart (dtb_pointer tree) (a, mem) = Some (Some hand, a', mem')"
    by (auto simp: try_boot_from_volume_def split: option.splits)
  obtain fdt where f: "from_ptr mem (dtb_pointer tree) = Inr fdt" and n: "normal a" and h: "held a (dtb_pointer tree) (total_size fdt)"
    and fw: "\<And>x. free_byte a x \<Longrightarrow> \<not> firmware_pages lla x"
    using live_allocator [OF l] by blast
  have "total_size fdt = dtb_size tree"
    using tree_blob_size(4) [OF t] f by (cases tree) (auto simp: Dtb_from_ptr_def total_size_bytes_def)
  then have "held a (dtb_pointer tree) (dtb_size tree)" using h by simp
  then show ?thesis using handoff_correct [OF fs n zero [OF l] t size _ b] n fw by blast
qed

section \<open>Relocation\<close>

text \<open>The linker script puts the whole image into the code, data and heap regions, so the allocator keeps it.\<close>

lemma image_held:
  assumes l: "page_allocator_from_live_fdt lla mem ptr ms rs buffer = Some a"
    and "unat (firmware_runtime_base lla) + n \<le> 2 ^ 64" and "\<And>i. i < n \<Longrightarrow> firmware_pages lla (unat (firmware_runtime_base lla) + i)"
  shows "held a (firmware_runtime_base lla) n"
proof -
  have "\<not> free_byte a x" if "unat (firmware_runtime_base lla) \<le> x" "x < unat (firmware_runtime_base lla) + n" for x
    using live_allocator [OF l] assms(3) [of "x - unat (firmware_runtime_base lla)"] that
    by (metis add_diff_inverse_nat diff_less_mono less_diff_conv2 linorder_not_less add.commute nat_add_left_cancel_less)
  then show ?thesis using assms(2) by (simp add: held_def)
qed

lemma write_memory_outside:
  assumes lim: "unat p + length bs < 2 ^ 64" and x: "unat x < unat p \<or> unat p + length bs \<le> unat x"
  shows "write_memory mem p bs x = mem x"
proof -
  have False if "unat (x - p) < length bs"
    using unat_add_small [of p "x - p"] that lim x by simp
  then show ?thesis by (auto simp: write_memory_def)
qed

lemma relocation_ok:
  defines "live \<equiv> \<lambda>lla mem ptr. page_allocator_from_live_fdt lla mem ptr (replicate 8 \<lparr>base = 0, region_size = 0\<rparr>)
      (replicate 16 \<lparr>base = 0, region_size = 0\<rparr>) (replicate 32 EMPTY_MEMORY_DESCRIPTOR)"
  assumes l: "live lla mem ptr = Some a"
    and off: "relocated_entry_offset linked < firmware_runtime_size linked"
    and r: "try_relocate_firmware lla linked hart ptr stack mem = (Some j, mem')"
  shows "\<exists>rb. j = Some \<lparr>jump_entry = rb + relocated_entry_offset linked, jump_a0 = hart, jump_a1 = ptr, jump_a2 = stack\<rparr>
    \<and> 4096 dvd unat rb \<and> unat rb + unat (firmware_runtime_size linked) < 2 ^ 64
    \<and> free_at a (unat rb) (unat (firmware_runtime_size linked))
    \<and> read_bytes mem' rb (unat (firmware_runtime_size linked))
        = read_bytes mem (firmware_runtime_base lla) (unat (firmware_runtime_size linked))
    \<and> (\<forall>x. unat x < unat rb \<or> unat rb + unat (firmware_runtime_size linked) \<le> unat x \<longrightarrow> mem' x = mem x)
    \<and> (\<forall>p n. held a p n \<longrightarrow> read_bytes mem' p n = read_bytes mem p n)"
proof -
  define sz where "sz = unat (firmware_runtime_size linked)"
  define pg where "pg = (sz + 4095) div 4096"
  have n: "normal a" using live_allocator [OF l [unfolded live_def]] by blast
  from r l obtain rb a' where al: "AllocatePages a AllocateMaxAddress EfiBootServicesData (of_nat pg) (- 1) = (Inr rb, a')"
    and j: "j = enter_relocated_copy linked rb hart ptr stack"
    and m: "mem' = write_memory mem rb (read_bytes mem (firmware_runtime_base lla) sz)"
    by (auto simp: try_relocate_firmware_def live_def Let_def pg_def sz_def split: prod.splits sum.splits)
  have sz64: "sz < 2 ^ 64" unfolding sz_def by (rule u64_less)
  have "pg * 4096 \<le> sz + 4095" "sz + 4095 < pg * 4096 + 4096"
    unfolding pg_def using dividend_less_div_times [of 4096 "sz + 4095"] by simp_all
  then have pgs: "sz \<le> pg * 4096" "pg < 2 ^ 64" using sz64 by linarith+
  have up: "unat (of_nat pg :: u64) = pg" using pgs(2) by (simp add: unat_of_nat)
  note eff = AllocatePages_effect [OF n al, unfolded up] and al4 = AllocatePages_aligned [OF n al]
  have fr: "free_at a (unat rb) sz" using eff(2) pgs(1) by (auto simp: free_at_def)
  have lim: "unat rb + sz < 2 ^ 64" using eff(3) pgs(1) by simp
  have "unat rb + unat (relocated_entry_offset linked) < 2 ^ 64" using off lim by (simp add: word_less_nat_alt sz_def)
  then have j': "j = Some \<lparr>jump_entry = rb + relocated_entry_offset linked, jump_a0 = hart, jump_a1 = ptr, jump_a2 = stack\<rparr>"
    by (simp add: j enter_relocated_copy_def checked_add_def)
  have len: "length (read_bytes mem (firmware_runtime_base lla) sz) = sz" by simp
  have cp: "read_bytes mem' rb sz = read_bytes mem (firmware_runtime_base lla) sz"
    using read_write_same [OF len, of mem rb] sz64 by (simp add: m)
  have kp: "read_bytes mem' p k = read_bytes mem p k" if "held a p k" for p k
    using lim len by (intro outside_free [OF fr _ that]) (auto simp: m write_memory_def)
  have fx: "mem' x = mem x" if "unat x < unat rb \<or> unat rb + sz \<le> unat x" for x
    using write_memory_outside [of rb _ x mem, OF _ _] that lim by (simp add: m)
  show ?thesis using j' al4 lim fr cp fx kp unfolding sz_def by blast
qed

lemma relocation_facts:
  assumes "try_relocate_firmware lla linked hart ptr stack mem = (Some j, mem')"
    and "\<And>i. i < unat (firmware_runtime_size linked) \<Longrightarrow> firmware_pages lla (unat (firmware_runtime_base lla) + i)"
    and "unat (firmware_runtime_base lla) + unat (firmware_runtime_size linked) \<le> 2 ^ 64"
    and "relocated_entry_offset linked < firmware_runtime_size linked"
  shows "\<exists>rb fdt. j = Some \<lparr>jump_entry = rb + relocated_entry_offset linked, jump_a0 = hart, jump_a1 = ptr, jump_a2 = stack\<rparr>
    \<and> 4096 dvd unat rb \<and> unat rb + unat (firmware_runtime_size linked) < 2 ^ 64
    \<and> disjnt {unat rb ..< unat rb + unat (firmware_runtime_size linked)}
         {unat (firmware_runtime_base lla) ..< unat (firmware_runtime_base lla) + unat (firmware_runtime_size linked)}
    \<and> read_bytes mem' rb (unat (firmware_runtime_size linked))
        = read_bytes mem (firmware_runtime_base lla) (unat (firmware_runtime_size linked))
    \<and> (\<forall>x. unat x < unat rb \<or> unat rb + unat (firmware_runtime_size linked) \<le> unat x \<longrightarrow> mem' x = mem x)
    \<and> from_ptr mem ptr = Inr fdt \<and> read_bytes mem' ptr (total_size fdt) = read_bytes mem ptr (total_size fdt)"
proof -
  obtain a where l: "page_allocator_from_live_fdt lla mem ptr (replicate 8 \<lparr>base = 0, region_size = 0\<rparr>)
      (replicate 16 \<lparr>base = 0, region_size = 0\<rparr>) (replicate 32 EMPTY_MEMORY_DESCRIPTOR) = Some a"
    using assms(1) by (auto simp: try_relocate_firmware_def split: option.splits)
  obtain fdt where f: "from_ptr mem ptr = Inr fdt" and hf: "held a ptr (total_size fdt)" using live_allocator [OF l] by blast
  have h: "held a (firmware_runtime_base lla) (unat (firmware_runtime_size linked))"
    by (rule image_held [OF l assms(3,2)])
  obtain rb where rb: "j = Some \<lparr>jump_entry = rb + relocated_entry_offset linked, jump_a0 = hart, jump_a1 = ptr, jump_a2 = stack\<rparr>"
      "4096 dvd unat rb" "unat rb + unat (firmware_runtime_size linked) < 2 ^ 64"
      "free_at a (unat rb) (unat (firmware_runtime_size linked))"
      "read_bytes mem' rb (unat (firmware_runtime_size linked))
        = read_bytes mem (firmware_runtime_base lla) (unat (firmware_runtime_size linked))"
      "\<forall>x. unat x < unat rb \<or> unat rb + unat (firmware_runtime_size linked) \<le> unat x \<longrightarrow> mem' x = mem x"
      "\<forall>p n. held a p n \<longrightarrow> read_bytes mem' p n = read_bytes mem p n"
    using relocation_ok [OF l assms(4,1)] by blast
  have "disjnt {unat rb ..< unat rb + unat (firmware_runtime_size linked)}
      {unat (firmware_runtime_base lla) ..< unat (firmware_runtime_base lla) + unat (firmware_runtime_size linked)}"
    using h rb(4) by (fastforce simp: held_def free_at_def disjnt_iff)
  then show ?thesis using rb f hf by blast
qed


text \<open>A board whose firmware image is the page at \<open>0x80004000\<close>.\<close>

definition board_symbols :: symbols where
  "board_symbols = (\<lambda>n. if n = ''__firmware_code_start'' then 0x80004000 else if n = ''__firmware_code_end'' then 0x80005000 else 0)"

definition board_linked :: symbols where
  "board_linked = (\<lambda>n. if n = ''__heap_end'' then 4096 else if n = ''relocated_entry'' then 16 else 0)"

definition board_image_map :: "EFI_MEMORY_DESCRIPTOR list \<Rightarrow> PageAllocator" where
  "board_image_map T = \<lparr>descriptors = board_descriptor 7 0x80000000 2 # board_descriptor 9 0x80002000 1
     # board_descriptor 7 0x80003000 1 # board_descriptor 3 0x80004000 1 # board_descriptor 7 0x80005000 11 # T, descriptor_count = 5\<rparr>"

lemma board_image_phase:
  "add_linker_region (board_map (EMPTY_DESCRIPTOR # EMPTY_DESCRIPTOR # T)) 0x80004000 0x80005000 EfiBootServicesCode
   = (Inr (), board_image_map T)"
  by (simp add: board_run board_image_map_def add_linker_region_def linker_region_def add_firmware_region_def carve_range_def)

lemma board_image_coalesced: "coalesce (board_image_map T) = board_image_map T"
  by (simp add: board_run board_image_map_def)

lemma board_image_firmware:
  "add_firmware_regions board_symbols (board_map (EMPTY_DESCRIPTOR # EMPTY_DESCRIPTOR # T)) = (Inr (), board_image_map T)"
proof -
  have "add_linker_region s 0 0 t = (Inr (), s)" for s t
    by (simp add: add_linker_region_def linker_region_def add_firmware_region_def)
  then show ?thesis
    by (simp add: add_firmware_regions_def firmware_code_start_def firmware_code_end_def firmware_data_start_def
        firmware_data_end_def firmware_heap_start_def firmware_heap_end_def firmware_stack_bottom_def
        firmware_stack_top_def board_symbols_def board_image_phase)
qed

lemma board_image_live:
  "page_allocator_from_live_fdt board_symbols board_bytes 0x80002000 (z # zs) (y # ys)
     (board_buffer (EMPTY_DESCRIPTOR # EMPTY_DESCRIPTOR # T)) = Some (board_image_map T)"
proof -
  obtain n rs' where "reserved_regions board_fdt (y # ys) = (n, rs')" by fastforce
  then show ?thesis using board_from_ptr
    by (simp add: page_allocator_from_live_fdt_def from_fdt_def board_memory_regions board_reserve_map board_ram_phase board_coalesced
        board_blob_phase board_static board_image_firmware board_image_coalesced del: add_memory_regions.simps)
qed

lemma unat_top: "unat (- 1 :: u64) = 18446744073709551615"
  by (simp add: unsigned_minus_1_eq_mask mask_eq_exp_minus_1)

lemma board_image_allocate:
  "fst (AllocatePages (board_image_map (EMPTY_DESCRIPTOR # T)) AllocateMaxAddress EfiBootServicesData 1 (- 1)) = Inr 0x8000f000"
  by (simp add: board_run board_image_map_def run_simps unat_top)

text \<open>The scratch arrays of the firmware, unfolded far enough.\<close>

lemma empty_buffer: "replicate 32 EMPTY_MEMORY_DESCRIPTOR = board_buffer (EMPTY_DESCRIPTOR # replicate 28 EMPTY_DESCRIPTOR)"
  by (simp add: board_buffer_def numeral_eq_Suc EMPTY_MEMORY_DESCRIPTOR_def EMPTY_DESCRIPTOR_def)

lemma scratch_regions: "replicate 8 z = z # replicate 7 z" "replicate 16 z = z # replicate 15 z" for z :: MemoryRegion
  by (simp_all add: numeral_eq_Suc)

lemma board_linked_values:
  "unat (firmware_runtime_size board_linked) = 4096" "relocated_entry_offset board_linked = 16"
  by (simp_all add: firmware_runtime_size_def relocated_entry_offset_def board_linked_def)


text \<open>
  C36: The firmware relocates at most once. Only the image at the primary load address enters a copy, and a copy that starts at the
  address the first image jumps to does not lie there: whatever it is given, it does not enter a further copy.
\<close>
theorem firmware_relocates_once:
  assumes "start_entry bus statics readers lla linked fuel leftover hart ptr a2 sp s = Some (v, EnterCopy j, s')"
    and "\<And>i. i < unat (firmware_runtime_size linked) \<Longrightarrow> firmware_pages lla (unat (firmware_runtime_base lla) + i)"
    and "unat (firmware_runtime_base lla) + unat (firmware_runtime_size linked) \<le> 2 ^ 64"
    and "relocated_entry_offset linked < firmware_runtime_size linked"
    and "jump_entry j = firmware_runtime_base lla' + relocated_entry_offset linked"
  shows "firmware_runtime_base lla = PRIMARY_FIRMWARE_LOAD_ADDRESS \<and> firmware_runtime_base lla' \<noteq> PRIMARY_FIRMWARE_LOAD_ADDRESS
    \<and> (\<forall>linked' fuel' leftover' a0 a1 sp' t w j' t'.
         relocated_entry bus statics readers lla' linked' fuel' leftover' a0 a1 (jump_a2 j) sp' t \<noteq> Some (w, EnterCopy j', t'))"
proof -
  have p: "firmware_runtime_base lla = PRIMARY_FIRMWARE_LOAD_ADDRESS"
    and r: "try_relocate_firmware lla linked hart ptr sp (fst s) = (Some (Some j), fst s')"
    using assms(1) by (auto simp: start_entry_def rust_entry_def run_firmware_def poweroff_def poweroff_on_failure_def system_reset_def
        split: option.splits if_splits prod.splits)
  obtain rb where rb: "jump_entry j = rb + relocated_entry_offset linked"
    and d: "disjnt {unat rb ..< unat rb + unat (firmware_runtime_size linked)}
         {unat (firmware_runtime_base lla) ..< unat (firmware_runtime_base lla) + unat (firmware_runtime_size linked)}"
    using relocation_facts [OF r assms(2,3,4)] by auto
  have "firmware_runtime_base lla' = rb" using rb assms(5) by simp
  moreover have "0 < unat (firmware_runtime_size linked)" using assms(4) by (simp add: word_less_nat_alt)
  ultimately have n: "firmware_runtime_base lla' \<noteq> PRIMARY_FIRMWARE_LOAD_ADDRESS" using d p by (auto simp: disjnt_iff)
  then show ?thesis
    using p by (auto simp: relocated_entry_def rust_relocated_entry_def run_firmware_def poweroff_def poweroff_on_failure_def
        system_reset_def split: option.splits)
qed

text \<open>A board whose firmware runs at the primary load address, outside the memory the device tree describes.\<close>

definition primary_symbols :: symbols where
  "primary_symbols = (\<lambda>n. if n = ''__firmware_code_start'' then 0x80200000 else if n = ''__firmware_code_end'' then 0x80201000 else 0)"

lemma primary_firmware: "add_firmware_regions primary_symbols (board_map T) = (Inr (), board_map T)"
proof -
  have "add_linker_region s 0 0 t = (Inr (), s)" for s t
    by (simp add: add_linker_region_def linker_region_def add_firmware_region_def)
  moreover have "add_linker_region (board_map T) 0x80200000 0x80201000 EfiBootServicesCode = (Inr (), board_map T)"
    by (simp add: board_run add_linker_region_def linker_region_def add_firmware_region_def carve_range_def)
  ultimately show ?thesis
    by (simp add: add_firmware_regions_def firmware_code_start_def firmware_code_end_def firmware_data_start_def
        firmware_data_end_def firmware_heap_start_def firmware_heap_end_def firmware_stack_bottom_def
        firmware_stack_top_def primary_symbols_def)
qed

lemma primary_live:
  "page_allocator_from_live_fdt primary_symbols board_bytes 0x80002000 (z # zs) (y # ys) (board_buffer T) = Some (board_map T)"
proof -
  obtain n rs' where "reserved_regions board_fdt (y # ys) = (n, rs')" by fastforce
  then show ?thesis using board_from_ptr
    by (simp add: page_allocator_from_live_fdt_def from_fdt_def board_memory_regions board_reserve_map board_ram_phase board_coalesced
        board_blob_phase board_static primary_firmware del: add_memory_regions.simps)
qed

lemma primary_allocate:
  "fst (AllocatePages (board_map (EMPTY_DESCRIPTOR # T)) AllocateMaxAddress EfiBootServicesData 1 (- 1)) = Inr 0x8000f000"
  by (simp add: board_run run_simps unat_top)

section \<open>Partitions are tried in order\<close>

text \<open>The reference: the entries of a table up to the first slot that cannot be read, with their numbers from one.\<close>

fun entries_from :: "GptPartitionTable \<Rightarrow> nat \<Rightarrow> nat \<Rightarrow> (u32 \<times> GptPartitionEntry) list" where
  "entries_from table 0 i = []"
| "entries_from table (Suc n) i =
     (case partition_at table (of_nat i) of None \<Rightarrow> [] | Some entry \<Rightarrow> (of_nat (Suc i), entry) # entries_from table n (Suc i))"

definition device_entries :: "BlockDevice \<Rightarrow> (u32 \<times> GptPartitionEntry) list" where
  "device_entries dev = (case GptPartitionTable_new dev of None \<Rightarrow> []
     | Some table \<Rightarrow> entries_from table (unat (partition_count table)) 0)"

text \<open>Attempts in order, until one of them hands over or does not return.\<close>

fun try_each :: "('x \<Rightarrow> memory \<Rightarrow> (Handoff option \<times> memory) option) \<Rightarrow> 'x list \<Rightarrow> memory \<Rightarrow> (Handoff option \<times> memory) option" where
  "try_each attempt [] mem = Some (None, mem)"
| "try_each attempt (x # xs) mem =
     (case attempt x mem of None \<Rightarrow> None | Some (Some handoff, mem) \<Rightarrow> Some (Some handoff, mem) | Some (None, mem) \<Rightarrow> try_each attempt xs mem)"

definition boot_attempt ::
  "symbols \<Rightarrow> nat \<Rightarrow> (u32 \<Rightarrow> leftovers) \<Rightarrow> BlockDevice \<Rightarrow> nat \<Rightarrow> u64 \<Rightarrow> u64 \<Rightarrow> u32 \<times> GptPartitionEntry \<Rightarrow> memory \<Rightarrow> (Handoff option \<times> memory) option" where
  "boot_attempt lla fuel leftover dev k hart ptr = (\<lambda>(number, entry). try_boot_from_partition lla fuel (leftover number) dev entry
     (detect_partition_filesystem dev (first_lba entry)) k number hart ptr)"

definition marked :: "u32 \<times> GptPartitionEntry \<Rightarrow> bool" where
  "marked = (\<lambda>(number, entry). is_present entry \<and> bootable entry)"

lemma probe_partitions_reference:
  assumes t: "GptPartitionTable_new dev = Some table" and le: "i \<le> unat count"
  shows "probe_partitions lla fuel leftover dev k hart ptr count table (of_nat i) mem
    = try_each (boot_attempt lla fuel leftover dev k hart ptr) (filter marked (entries_from table (unat count - i) i)) mem"
  using le
proof (induction "unat count - i" arbitrary: i mem)
  case 0
  then have "unat (of_nat i :: u32) = unat count" using u32_less [of count] by (simp add: unat_of_nat)
  then have "\<not> (of_nat i :: u32) < count" by (simp add: word_less_nat_alt)
  then show ?case using 0 by (subst probe_partitions.simps) simp
next
  case (Suc n)
  then have lt: "i < unat count" by simp
  then have "unat (of_nat i :: u32) = i" using u32_less [of count] by (simp add: unat_of_nat)
  then have c: "(of_nat i :: u32) < count" using lt by (simp add: word_less_nat_alt)
  have d: "unat count - i = Suc (unat count - Suc i)" using lt by simp
  have nx: "of_nat i + 1 = (of_nat (Suc i) :: u32)" by (simp add: add.commute)
  have IH: "probe_partitions lla fuel leftover dev k hart ptr count table (of_nat (Suc i)) m
      = try_each (boot_attempt lla fuel leftover dev k hart ptr) (filter marked (entries_from table (unat count - Suc i) (Suc i))) m" for m
    using Suc.hyps(1) [of "Suc i" m] Suc.hyps(2) lt by simp
  show ?case
    unfolding d by (subst probe_partitions.simps)
      (auto simp del: of_nat_Suc simp: c nx IH t marked_def boot_attempt_def split: option.splits prod.splits)
qed

lemma try_each_handoff:
  "try_each attempt xs mem = Some (Some hand, mem') \<Longrightarrow> \<exists>x \<in> set xs. \<exists>m0. attempt x m0 = Some (Some hand, mem')"
proof (induction xs arbitrary: mem)
  case (Cons x xs)
  then show ?case by (auto split: option.splits prod.splits)
qed simp

text \<open>A hand-over comes from a marked partition of an initialised device with one of the first eight numbers.\<close>

lemma probe_devices_handoff:
  assumes "probe_devices bus statics readers lla fuel leftover hart ptr slot k s = Some (Some hand, s')" and "k \<le> slot"
  shows "\<exists>dev t drv t' n x m0. VirtioBlockDriver_new bus statics dev t = Some (Inr drv, t') \<and> n < 8
    \<and> x \<in> set (device_entries (readers drv)) \<and> marked x
    \<and> boot_attempt lla fuel (leftover n) (readers drv) n hart ptr x m0 = Some (Some hand, fst s')"
  using assms
proof (induction bus statics readers lla fuel leftover hart ptr slot k s rule: probe_devices.induct)
  case (1 bus statics readers lla fuel leftover hart ptr slot k s)
  obtain pr slot' s1 where nd: "next_device bus slot s = ((pr, slot'), s1)" by (metis surj_pair)
  note eq = "1.prems"(1) [unfolded probe_devices.simps [of bus statics readers lla fuel leftover hart ptr slot k s] nd prod.case]
  then obtain probe where pr: "pr = Some probe" by (cases pr) auto
  note sl = next_device_slot [OF nd [unfolded pr]]
  have k: "k + 1 \<le> slot'" using sl "1.prems"(2) by simp
  have k8: "k < 8" using sl "1.prems"(2) by (simp add: VIRTIO_MMIO_QEMU_VIRT_COUNT_def)
  obtain r s2 where nw: "VirtioBlockDriver_new bus statics (probe_device probe) s1 = Some (r, s2)"
    using eq by (auto simp: pr split: option.splits)
  show ?case
  proof (cases r)
    case (Inl e)
    then have "probe_devices bus statics readers lla fuel leftover hart ptr slot' (k + 1) s2 = Some (Some hand, s')"
      using eq nw by (simp add: pr)
    then show ?thesis using "1.IH"(1) [OF nd [symmetric] refl pr nw [unfolded Inl] refl refl _ k] by blast
  next
    case (Inr drv)
    show ?thesis
    proof (cases "GptPartitionTable_new (readers drv)")
      case None
      then have "probe_devices bus statics readers lla fuel leftover hart ptr slot' (k + 1) s2 = Some (Some hand, s')"
        using eq nw Inr by (simp add: pr)
      then show ?thesis using "1.IH"(2) [OF nd [symmetric] refl pr nw [unfolded Inr] refl refl None _ k] by blast
    next
      case (Some table)
      obtain h mem2 where pp: "probe_partitions lla fuel (leftover k) (readers drv) k hart ptr (partition_count table) table 0 (fst s2)
          = Some (h, mem2)"
        using eq nw Inr Some by (auto simp: pr split: option.splits)
      show ?thesis
      proof (cases h)
        case None
        then have "probe_devices bus statics readers lla fuel leftover hart ptr slot' (k + 1) (mem2, snd s2) = Some (Some hand, s')"
          using eq nw Inr Some pp by (simp add: pr)
        then show ?thesis using "1.IH"(3) [OF nd [symmetric] refl pr nw [unfolded Inr] refl refl Some pp refl None _ k] by blast
      next
        case h: (Some hand')
        then have s': "hand' = hand" "fst s' = mem2" using eq nw Inr Some pp by (auto simp: pr)
        have "try_each (boot_attempt lla fuel (leftover k) (readers drv) k hart ptr)
            (filter marked (entries_from table (unat (partition_count table)) 0)) (fst s2) = Some (Some hand, mem2)"
          using pp h s' probe_partitions_reference [OF Some, of 0 "partition_count table"] by simp
        from try_each_handoff [OF this] obtain x m0 where x: "x \<in> set (entries_from table (unat (partition_count table)) 0)" "marked x"
          and b: "boot_attempt lla fuel (leftover k) (readers drv) k hart ptr x m0 = Some (Some hand, mem2)" by auto
        have "x \<in> set (device_entries (readers drv))" using x(1) by (simp add: device_entries_def Some)
        then show ?thesis using nw [unfolded Inr] k8 x(2) b s'(2) by blast
      qed
    qed
  qed
qed

text \<open>
  C37: Booting from a device is booting from its marked partitions in order: reading the partition table again after every attempt
  and going on with the next entry gives the same as listing the entries of the table once, keeping those that are present and
  bootable, and trying them one after the other until one hands over.
\<close>
theorem probe_tries_bootable_in_order:
  "(case GptPartitionTable_new dev of None \<Rightarrow> Some (None, mem)
    | Some table \<Rightarrow> probe_partitions lla fuel leftover dev k hart ptr (partition_count table) table 0 mem)
   = try_each (boot_attempt lla fuel leftover dev k hart ptr) (filter marked (device_entries dev)) mem"
proof (cases "GptPartitionTable_new dev")
  case None
  then show ?thesis by (simp add: device_entries_def)
next
  case (Some table)
  then show ?thesis using probe_partitions_reference [OF Some, of 0 "partition_count table"] by (simp add: device_entries_def)
qed

section \<open>Nothing to boot\<close>

lemma VirtioBlockDriver_new_returns:
  assumes "\<And>t. read_config_u64_le bus dev 0 t \<noteq> None"
  shows "VirtioBlockDriver_new bus statics dev s \<noteq> None"
proof -
  obtain b s1 where "is_block_device bus dev s = (b, s1)" by (metis surj_pair)
  moreover obtain sectors s2 where "read_config_u64_le bus dev 0 s1 = Some (sectors, s2)" using assms [of s1] by auto
  ultimately show ?thesis by (auto simp: VirtioBlockDriver_new_def Let_def split: prod.splits option.splits)
qed

lemma probe_devices_nothing:
  assumes cfg: "\<And>dev t. read_config_u64_le bus dev 0 t \<noteq> None"
    and none: "\<And>dev t drv t' x. VirtioBlockDriver_new bus statics dev t = Some (Inr drv, t') \<Longrightarrow>
      x \<in> set (device_entries (readers drv)) \<Longrightarrow> \<not> marked x"
  shows "\<exists>s'. probe_devices bus statics readers lla fuel leftover hart ptr slot k s = Some (None, s')"
  using assms
proof (induction bus statics readers lla fuel leftover hart ptr slot k s rule: probe_devices.induct)
  case (1 bus statics readers lla fuel leftover hart ptr slot k s)
  obtain pr slot' s1 where nd: "next_device bus slot s = ((pr, slot'), s1)" by (metis surj_pair)
  note eq = probe_devices.simps [of bus statics readers lla fuel leftover hart ptr slot k s, unfolded nd prod.case]
  show ?case
  proof (cases pr)
    case None
    then show ?thesis by (simp add: eq del: split_paired_Ex)
  next
    case pr: (Some probe)
    obtain r s2 where nw: "VirtioBlockDriver_new bus statics (probe_device probe) s1 = Some (r, s2)"
      using VirtioBlockDriver_new_returns [OF "1.prems"(1)] by fastforce
    note eq' = eq [unfolded pr nw option.case prod.case]
    show ?thesis
    proof (cases r)
      case (Inl e)
      then show ?thesis using "1.IH"(1) [OF nd [symmetric] refl pr nw [unfolded Inl] refl refl "1.prems"] by (simp add: eq')
    next
      case (Inr drv)
      show ?thesis
      proof (cases "GptPartitionTable_new (readers drv)")
        case None
        then show ?thesis using "1.IH"(2) [OF nd [symmetric] refl pr nw [unfolded Inr] refl refl None "1.prems"] Inr by (simp add: eq')
      next
        case (Some table)
        have "filter marked (entries_from table (unat (partition_count table)) 0) = []"
          using "1.prems"(2) [OF nw [unfolded Inr]] by (simp add: device_entries_def Some)
        then have pp: "probe_partitions lla fuel (leftover k) (readers drv) k hart ptr (partition_count table) table 0 (fst s2)
            = Some (None, fst s2)"
          using probe_partitions_reference [OF Some, of 0 "partition_count table"] by simp
        then show ?thesis
          using "1.IH"(3) [OF nd [symmetric] refl pr nw [unfolded Inr] refl refl Some pp refl refl "1.prems"] Inr Some
          by (simp add: eq')
      qed
    qed
  qed
qed

text \<open>
  C38: A firmware with nothing to boot powers the machine off. When the relocated firmware finds no partition that is present and
  bootable on any device it can initialise, and reading a device configuration ends, the run ends with the shutdown request of the reset
  extension, after the trap vector in the running image has been installed.
\<close>
theorem firmware_powers_off:
  assumes "firmware_runtime_base lla \<noteq> PRIMARY_FIRMWARE_LOAD_ADDRESS" and "trap_vector_address linked (firmware_runtime_base lla) = Some v"
    and "\<And>dev t. read_config_u64_le bus dev 0 t \<noteq> None"
    and "\<And>dev t drv t' x. VirtioBlockDriver_new bus statics dev t = Some (Inr drv, t') \<Longrightarrow>
      x \<in> set (device_entries (readers drv)) \<Longrightarrow> \<not> marked x"
  shows "\<exists>s'. run_firmware bus statics readers lla linked fuel leftover hart ptr stack s = Some (Some v,
    ResetAndHalt \<lparr>sbi_args = [0, 0, 0, 0, 0, 0], sbi_fid = 0, sbi_eid = 0x53525354\<rparr>, s')"
proof -
  have "\<exists>s'. probe_devices bus statics readers lla fuel leftover hart ptr 0 0 s = Some (None, s')"
    by (rule probe_devices_nothing [OF assms(3)]) (rule assms(4))
  then obtain s' where "probe_virtio bus statics readers lla fuel leftover hart ptr s = Some (None, s')"
    unfolding probe_virtio_def by blast
  then show ?thesis
    using assms(1,2) by (simp add: run_firmware_def poweroff_def system_reset_def ecall_def SBI_SRST_RESET_TYPE_SHUTDOWN_def
        SBI_SRST_RESET_REASON_NONE_def SBI_SRST_SYSTEM_RESET_def SBI_EXT_SRST_def del: split_paired_Ex)
qed

text \<open>A machine with one block device, whose disk cannot be read.\<close>

definition unreadable :: BlockDevice where
  "unreadable = \<lparr>sector_count = 0, read_blocks = (\<lambda>_ _. Inl IoFailure)\<rparr>"

lemma unreadable_entries: "device_entries unreadable = []"
  by (simp add: device_entries_def GptPartitionTable_new_def read_primary_header_def read_backup_header_def
      read_header_at_def unreadable_def)

lemma ready_config_returns: "read_config_u64_le ready_bus dev 0 t \<noteq> None"
proof -
  have r: "read_reg ready_bus dev off s = (ready_answer (mmio_base dev + off), s)" for off s
    by (cases s) (simp add: read_reg_def ready_bus_def)
  have b: "bus_read_byte ready_bus a d = (0, d)" for a d by (simp add: ready_bus_def)
  have "config_bytes ready_bus dev off n (m, ()) = (replicate n 0, m, ())" for off n m
    by (induction n arbitrary: off) (simp_all add: b)
  then have c: "config_bytes ready_bus dev off n s = (replicate n 0, s)" for off n s by (cases s) simp
  show ?thesis by (subst read_config_u64_le.simps) (simp add: r c)
qed

theorem firmware_powers_off_witness:
  "\<exists>s'. run_firmware ready_bus example_statics (\<lambda>_. unreadable) (\<lambda>_. 0x90000000) (\<lambda>_. 64) 1 (\<lambda>_ _ _ _. 0) 0 0x80002000 0 ((\<lambda>_. 0), ())
    = Some (Some 0x90000040, ResetAndHalt \<lparr>sbi_args = [0, 0, 0, 0, 0, 0], sbi_fid = 0, sbi_eid = 0x53525354\<rparr>, s')"
proof (rule firmware_powers_off)
  show "read_config_u64_le ready_bus dev 0 t \<noteq> None" for dev t by (rule ready_config_returns)
qed (simp_all add: firmware_runtime_base_def PRIMARY_FIRMWARE_LOAD_ADDRESS_def trap_vector_address_def smode_trap_vector_offset_def
    checked_add_def unreadable_entries)

theorem firmware_relocates_once_witness:
  "\<exists>v j s'. start_entry ready_bus example_statics (\<lambda>_. unreadable) primary_symbols board_linked 1 (\<lambda>_ _ _ _. 0) 0 0x80002000 0 0x1000
        (board_bytes, ()) = Some (v, EnterCopy j, s')
    \<and> relocated_entry ready_bus example_statics (\<lambda>_. unreadable) (\<lambda>_. jump_entry j - 16) board_linked 1 (\<lambda>_ _ _ _. 0) 0 0x80002000
        (jump_a2 j) 0x2000 s' \<noteq> Some (v, EnterCopy j, s')"
proof -
  have l: "page_allocator_from_live_fdt primary_symbols board_bytes 0x80002000 (replicate 8 \<lparr>base = 0, region_size = 0\<rparr>)
      (replicate 16 \<lparr>base = 0, region_size = 0\<rparr>) (replicate 32 EMPTY_MEMORY_DESCRIPTOR)
      = Some (board_map (EMPTY_DESCRIPTOR # replicate 28 EMPTY_DESCRIPTOR))"
    unfolding empty_buffer using primary_live by (simp add: scratch_regions)
  note sz = board_linked_values
  have b: "firmware_runtime_base primary_symbols = 0x80200000" by (simp add: firmware_runtime_base_def primary_symbols_def)
  have "trap_vector_address board_linked 0x80200000 = Some 0x80200000"
    by (simp add: trap_vector_address_def smode_trap_vector_offset_def board_linked_def checked_add_def)
  moreover have "\<exists>a. AllocatePages (board_map (EMPTY_DESCRIPTOR # replicate 28 EMPTY_DESCRIPTOR)) AllocateMaxAddress EfiBootServicesData 1 (- 1)
      = (Inr 0x8000f000, a)"
    by (rule Inr_outcomeE [OF primary_allocate])
  ultimately obtain v j s' where r: "start_entry ready_bus example_statics (\<lambda>_. unreadable) primary_symbols board_linked 1 (\<lambda>_ _ _ _. 0)
      0 0x80002000 0 0x1000 (board_bytes, ()) = Some (v, EnterCopy j, s')"
    by (auto simp: start_entry_def rust_entry_def run_firmware_def b PRIMARY_FIRMWARE_LOAD_ADDRESS_def try_relocate_firmware_def l sz
        enter_relocated_copy_def checked_add_def)
  have f: "firmware_pages primary_symbols (unat (firmware_runtime_base primary_symbols) + i)" if "i < unat (firmware_runtime_size board_linked)" for i
    using that unfolding sz b
    by (simp add: firmware_pages_def linker_pages_def firmware_code_start_def firmware_code_end_def primary_symbols_def
        region_pages_def align_region_to_pages_def checked_add_def align_up_def align_down_def)
  have e: "jump_entry j = firmware_runtime_base (\<lambda>_. jump_entry j - 16) + relocated_entry_offset board_linked"
    by (simp add: firmware_runtime_base_def sz)
  have "unat (firmware_runtime_base primary_symbols) + unat (firmware_runtime_size board_linked) \<le> 2 ^ 64"
      "relocated_entry_offset board_linked < firmware_runtime_size board_linked"
    using sz b by (simp_all add: word_less_nat_alt)
  from firmware_relocates_once [OF r f this e] r show ?thesis by blast
qed

end
