(* ===== verification/Print.thy ===== *)
theory Print
  imports Prelude
begin

unbundle bit_operations_syntax

text \<open>
  Formatted console output (\<open>src/print.rs\<close>).

  Every call of the OpenSBI console (\<open>puts\<close>, whose status the callers ignore) is one element of the trace a
  function returns; the text on the console is the concatenation of the trace. Strings are their UTF-8 bytes.
  Slices of the format string start and end next to an ASCII brace, so they lie on character boundaries. The
  digit buffers hold 20 and 16 bytes; the model collects the digits in a list and shows the bounds.
\<close>

type_synonym console = "u8 list list"

section \<open>Arguments and specifiers\<close>

datatype FormatArgument = Str "u8 list" | Bool bool | Usize u64 | U64 u64 | U32 u32

text \<open>The six implementations of \<open>IntoFormatArgument\<close>.\<close>

definition str_into_argument :: "u8 list \<Rightarrow> FormatArgument" where
  "str_into_argument self = Str self"

definition bool_into_argument :: "bool \<Rightarrow> FormatArgument" where
  "bool_into_argument self = Bool self"

definition usize_into_argument :: "u64 \<Rightarrow> FormatArgument" where
  "usize_into_argument self = Usize self"

definition u64_into_argument :: "u64 \<Rightarrow> FormatArgument" where
  "u64_into_argument self = U64 self"

definition u32_into_argument :: "u32 \<Rightarrow> FormatArgument" where
  "u32_into_argument self = U32 self"

definition u8_into_argument :: "u8 \<Rightarrow> FormatArgument" where
  "u8_into_argument self = U32 (ucast self)"

datatype FormatKind = Display | LowerHex

record ParsedFormatSpec =
  kind :: FormatKind
  alternate :: bool
  width :: nat
  zero_pad :: bool

definition us_saturating_add :: "nat \<Rightarrow> nat \<Rightarrow> nat" where
  "us_saturating_add a b = min (a + b) (USIZE_LIMIT - 1)"

definition us_saturating_mul :: "nat \<Rightarrow> nat \<Rightarrow> nat" where
  "us_saturating_mul a b = min (a * b) (USIZE_LIMIT - 1)"

definition is_ascii_digit :: "u8 \<Rightarrow> bool" where
  "is_ascii_digit b \<longleftrightarrow> 0x30 \<le> b \<and> b \<le> 0x39"

text \<open>The width loop: the width read and the bytes after the digits.\<close>

fun parse_width :: "nat \<Rightarrow> u8 list \<Rightarrow> nat \<times> u8 list" where
  "parse_width w [] = (w, [])"
| "parse_width w (b # bytes) =
     (if is_ascii_digit b then parse_width (us_saturating_add (us_saturating_mul w 10) (unat (b - 0x30))) bytes
      else (w, b # bytes))"

definition strip_byte :: "u8 \<Rightarrow> u8 list \<Rightarrow> bool \<times> u8 list" where
  "strip_byte c bytes = (if bytes \<noteq> [] \<and> hd bytes = c then (True, tl bytes) else (False, bytes))"

definition parse_format_spec :: "u8 list \<Rightarrow> ParsedFormatSpec option" where
  "parse_format_spec spec =
     (if spec = [] then Some \<lparr>kind = Display, alternate = False, width = 0, zero_pad = False\<rparr>
      else if hd spec \<noteq> of_char CHR '':'' then None
      else let (alt, bytes) = strip_byte (of_char CHR ''#'') (tl spec);
               (zero, bytes) = strip_byte (of_char CHR ''0'') bytes;
               (w, bytes) = parse_width 0 bytes
           in if bytes = str ''x'' then Some \<lparr>kind = LowerHex, alternate = alt, width = w, zero_pad = zero\<rparr>
              else None)"

section \<open>Numbers\<close>

text \<open>\<open>buffer[index..]\<close> while the decimal digits are written from the end of the buffer.\<close>

function decimal_loop :: "u64 \<Rightarrow> u8 list \<Rightarrow> u8 list" where
  "decimal_loop value tail =
     (if value = 0 then tail else decimal_loop (value div 10) ((0x30 + ucast (value mod 10)) # tail))"
  by pat_completeness auto
termination
  by (relation "measure (\<lambda>(value, _). unat value)") (simp_all add: unat_div unat_gt_0)

declare decimal_loop.simps [simp del]

definition print_decimal_u64 :: "u64 \<Rightarrow> console" where
  "print_decimal_u64 value = (if value = 0 then [str ''0''] else [decimal_loop value []])"

definition HEX_DIGITS :: "u8 list" where
  "HEX_DIGITS = str ''0123456789abcdef''"

text \<open>The digits written so far, least significant first.\<close>

function hex_loop :: "u64 \<Rightarrow> u8 list \<Rightarrow> u8 list" where
  "hex_loop current digits =
     (if current = 0 then digits
      else hex_loop (drop_bit 4 current) (digits @ [HEX_DIGITS ! unat (current AND 0xf)]))"
  by pat_completeness auto
termination
  by (relation "measure (\<lambda>(current, _). unat current)")
    (simp_all add: unsigned_drop_bit_eq drop_bit_eq_div unat_div unat_gt_0)

declare hex_loop.simps [simp del]

definition print_hex_u64 :: "u64 \<Rightarrow> bool \<Rightarrow> nat \<Rightarrow> bool \<Rightarrow> console" where
  "print_hex_u64 value alt w zero =
     (let digits = (if value = 0 then str ''0'' else hex_loop value []);
          digit_count = length digits;
          prefix_len = (if alt then 2 else 0);
          total_len = prefix_len + digit_count;
          padding = w - total_len
      in (if zero then [] else replicate padding (str '' ''))
         @ (if alt then [str ''0x''] else [])
         @ (if zero then replicate padding (str ''0'') else [])
         @ [map (\<lambda>index. digits ! (digit_count - 1 - index)) [0..<digit_count]])"

definition print_display :: "FormatArgument \<Rightarrow> console" where
  "print_display argument = (case argument of
     Str value \<Rightarrow> [value]
   | Bool value \<Rightarrow> if value then [str ''true''] else [str ''false'']
   | Usize value \<Rightarrow> print_decimal_u64 value
   | U64 value \<Rightarrow> print_decimal_u64 value
   | U32 value \<Rightarrow> print_decimal_u64 (ucast value))"

definition print_hex :: "FormatArgument \<Rightarrow> ParsedFormatSpec \<Rightarrow> console" where
  "print_hex argument specification =
     (case (case argument of
              Usize value \<Rightarrow> Some value
            | U64 value \<Rightarrow> Some value
            | U32 value \<Rightarrow> Some (ucast value)
            | _ \<Rightarrow> None) of
        None \<Rightarrow> [str ''<format-error>'']
      | Some value \<Rightarrow>
          print_hex_u64 value (alternate specification) (width specification) (zero_pad specification))"

definition print_argument :: "FormatArgument \<Rightarrow> u8 list \<Rightarrow> console" where
  "print_argument argument spec =
     (case parse_format_spec spec of
        Some specification \<Rightarrow>
          (case kind specification of
             Display \<Rightarrow> print_display argument
           | LowerHex \<Rightarrow> print_hex argument specification)
      | None \<Rightarrow> [str ''<format-error>''])"

section \<open>Templates\<close>

definition flush_literal :: "u8 list \<Rightarrow> nat \<Rightarrow> nat \<Rightarrow> console" where
  "flush_literal format start end_at = (if end_at \<le> start then [] else [take (end_at - start) (drop start format)])"

function find_closing_brace :: "u8 list \<Rightarrow> nat \<Rightarrow> nat option" where
  "find_closing_brace bytes index =
     (if index < length bytes
      then if bytes ! index = of_char CHR ''}'' then Some index else find_closing_brace bytes (index + 1)
      else None)"
  by pat_completeness auto
termination by (relation "measure (\<lambda>(bytes, index). length bytes - index)") auto

declare find_closing_brace.simps [simp del]

lemma find_closing_brace_bounds: "find_closing_brace bytes i = Some j \<Longrightarrow> i \<le> j \<and> j < length bytes"
  by (induction bytes i rule: find_closing_brace.induct) (subst (asm) (2) find_closing_brace.simps, auto split: if_splits)

text \<open>The main loop. \<open>arguments\<close> are the ones not yet used.\<close>

function print_loop :: "u8 list \<Rightarrow> FormatArgument list \<Rightarrow> nat \<Rightarrow> nat \<Rightarrow> console" where
  "print_loop bytes arguments literal_start index =
     (if index < length bytes then
        if bytes ! index = of_char CHR ''{'' then
          if index + 1 < length bytes \<and> bytes ! (index + 1) = of_char CHR ''{'' then
            flush_literal bytes literal_start index @ [str ''{''] @ print_loop bytes arguments (index + 2) (index + 2)
          else
            flush_literal bytes literal_start index @
            (case find_closing_brace bytes (index + 1) of
               None \<Rightarrow> [str ''<format-error>'']
             | Some spec_end \<Rightarrow>
                 (case arguments of
                    [] \<Rightarrow> [str ''<missing-arg>'']
                  | argument # rest \<Rightarrow>
                      print_argument argument (take (spec_end - (index + 1)) (drop (index + 1) bytes))
                      @ print_loop bytes rest (spec_end + 1) (spec_end + 1)))
        else if bytes ! index = of_char CHR ''}'' then
          if index + 1 < length bytes \<and> bytes ! (index + 1) = of_char CHR ''}'' then
            flush_literal bytes literal_start index @ [str ''}''] @ print_loop bytes arguments (index + 2) (index + 2)
          else [str ''<format-error>'']
        else print_loop bytes arguments literal_start (index + 1)
      else flush_literal bytes literal_start (length bytes))"
  by pat_completeness auto
termination
  by (relation "measure (\<lambda>(bytes, _, _, index). length bytes - index)")
    (auto dest!: find_closing_brace_bounds)

declare print_loop.simps [simp del]

definition print :: "u8 list \<Rightarrow> FormatArgument list \<Rightarrow> console" where
  "print format arguments = print_loop format arguments 0 0"

definition println :: "u8 list \<Rightarrow> FormatArgument list \<Rightarrow> console" where
  "println format arguments = print format arguments @ [[0x0a]]"

end
