(* ===== verification/PrintSpec.thy ===== *)
theory PrintSpec
  imports Print
begin

unbundle bit_operations_syntax

text \<open>
  What the formatter prints.

  A template is a list of pieces: brace-free text, the two escapes and arguments with their specifier. The
  main loop on the text of a template prints the pieces in order. Numbers are printed as the digits that
  read back as the number, without leading zeros before the padding, and the hexadecimal specifiers the
  documentation lists are parsed as written.
\<close>

section \<open>Templates\<close>

abbreviation open_brace :: u8 where "open_brace \<equiv> 0x7b"
abbreviation close_brace :: u8 where "close_brace \<equiv> 0x7d"

datatype piece = Text "u8 list" | OpenBrace | CloseBrace | Argument "u8 list"

fun piece_text :: "piece \<Rightarrow> u8 list" where
  "piece_text (Text t) = t"
| "piece_text OpenBrace = [open_brace, open_brace]"
| "piece_text CloseBrace = [close_brace, close_brace]"
| "piece_text (Argument spec) = open_brace # spec @ [close_brace]"

definition template_text :: "piece list \<Rightarrow> u8 list" where
  "template_text ps = concat (map piece_text ps)"

fun piece_ok :: "piece \<Rightarrow> bool" where
  "piece_ok (Text t) \<longleftrightarrow> open_brace \<notin> set t \<and> close_brace \<notin> set t"
| "piece_ok (Argument spec) \<longleftrightarrow> close_brace \<notin> set spec \<and> (spec = [] \<or> hd spec \<noteq> open_brace)"
| "piece_ok _ \<longleftrightarrow> True"

fun render :: "piece list \<Rightarrow> FormatArgument list \<Rightarrow> u8 list" where
  "render [] args = []"
| "render (Text t # ps) args = t @ render ps args"
| "render (OpenBrace # ps) args = open_brace # render ps args"
| "render (CloseBrace # ps) args = close_brace # render ps args"
| "render (Argument spec # ps) [] = str ''<missing-arg>''"
| "render (Argument spec # ps) (a # args) = concat (print_argument a spec) @ render ps args"

lemma template_text_simps [simp]:
  "template_text [] = []" "template_text (p # ps) = piece_text p @ template_text ps"
  by (simp_all add: template_text_def)

lemma brace_bytes: "of_char CHR ''{'' = open_brace" "of_char CHR ''}'' = close_brace"
    "str ''{'' = [open_brace]" "str ''}'' = [close_brace]"
  by (simp_all add: str_def)

lemma find_closing_brace_append:
  assumes "close_brace \<notin> set s"
  shows "find_closing_brace (pre @ s @ close_brace # rest) (length pre) = Some (length pre + length s)"
  using assms
proof (induction s arbitrary: pre)
  case Nil
  then show ?case by (simp add: find_closing_brace.simps [of "pre @ close_brace # rest"] brace_bytes)
next
  case (Cons c s)
  then show ?case using Cons.IH [of "pre @ [c]"]
    by (simp add: find_closing_brace.simps [of "pre @ c # s @ close_brace # rest"] brace_bytes)
qed

lemma flush_literal_append: "concat (flush_literal (pre @ lit @ rest) (length pre) (length pre + length lit)) = lit"
  by (simp add: flush_literal_def)

text \<open>Text without braces extends the pending literal.\<close>

lemma print_loop_text:
  assumes "open_brace \<notin> set t" and "close_brace \<notin> set t"
  shows "print_loop (pre @ t @ rest) args start (length pre) = print_loop (pre @ t @ rest) args start (length (pre @ t))"
  using assms
proof (induction t arbitrary: pre)
  case (Cons c t)
  then show ?case using Cons.IH [of "pre @ [c]"]
    by (simp add: print_loop.simps [of "pre @ c # t @ rest" args start "length pre"] brace_bytes)
qed simp

lemma print_loop_argument:
  assumes "piece_ok (Argument spec)" and bytes_def: "bytes = pre @ lit @ open_brace # spec @ close_brace # rest"
  shows "print_loop bytes args (length pre) (length pre + length lit) =
    flush_literal bytes (length pre) (length pre + length lit) @
    (case args of
       [] \<Rightarrow> [str ''<missing-arg>'']
     | a # args' \<Rightarrow> print_argument a spec
         @ print_loop bytes args' (Suc (Suc (length pre + length lit + length spec)))
             (Suc (Suc (length pre + length lit + length spec))))"
proof -
  let ?i = "length pre + length lit"
  have len: "?i < length bytes" "bytes ! ?i = open_brace" by (simp_all add: bytes_def nth_append)
  have "bytes ! (?i + 1) = (spec @ close_brace # rest) ! 0"
    by (simp add: bytes_def nth_append)
  then have after: "bytes ! (?i + 1) \<noteq> open_brace" using assms(1) by (cases spec) auto
  have close: "find_closing_brace bytes (?i + 1) = Some (?i + 1 + length spec)"
    using find_closing_brace_append [of spec "pre @ lit @ [open_brace]" rest] assms(1) by (simp add: bytes_def)
  have "take (length spec) (drop (?i + 1) bytes) = spec" by (simp add: bytes_def)
  then show ?thesis using len after close
    by (simp add: print_loop.simps [of bytes args "length pre" ?i] brace_bytes split: list.split)
qed

lemma print_loop_template:
  assumes "\<forall>p \<in> set ps. piece_ok p" 
  shows "concat (print_loop (pre @ lit @ template_text ps) args (length pre) (length (pre @ lit))) = lit @ render ps args"
  using assms
proof (induction ps args arbitrary: pre lit rule: render.induct)
  case (1 args)
  then show ?case
    using flush_literal_append [of pre lit "[]"] by (simp add: print_loop.simps [of "pre @ lit"])
next
  case (2 t ps args)
  let ?bytes = "pre @ lit @ t @ template_text ps"
  have "print_loop ?bytes args (length pre) (length (pre @ lit)) = print_loop ?bytes args (length pre) (length (pre @ lit @ t))"
    using print_loop_text [of t "pre @ lit" "template_text ps" args "length pre"] "2.prems" by simp
  then show ?case using "2.IH" [of pre "lit @ t"] "2.prems" by simp
next
  case (3 ps args)
  let ?bytes = "pre @ lit @ open_brace # open_brace # template_text ps"
  show ?case
    using "3.IH" [of "pre @ lit @ [open_brace, open_brace]" "[]"] "3.prems"
      flush_literal_append [of pre lit "open_brace # open_brace # template_text ps"]
    by (simp add: print_loop.simps [of ?bytes args "length pre"] brace_bytes nth_append)
next
  case (4 ps args)
  let ?bytes = "pre @ lit @ close_brace # close_brace # template_text ps"
  show ?case
    using "4.IH" [of "pre @ lit @ [close_brace, close_brace]" "[]"] "4.prems"
      flush_literal_append [of pre lit "close_brace # close_brace # template_text ps"]
    by (simp add: print_loop.simps [of ?bytes args "length pre"] brace_bytes nth_append)
next
  case (5 spec ps)
  then show ?case
    using flush_literal_append [of pre lit "open_brace # spec @ close_brace # template_text ps"]
    by (simp add: print_loop_argument [OF _ refl] add.assoc)
next
  case (6 spec ps a args)
  then show ?case
    using flush_literal_append [of pre lit "open_brace # spec @ close_brace # template_text ps"]
      "6.IH" [of "pre @ lit @ [open_brace] @ spec @ [close_brace]" "[]"]
    by (simp add: print_loop_argument [OF _ refl] add.assoc)
qed

lemma print_template:
  assumes "\<forall>p \<in> set ps. piece_ok p"
  shows "concat (print (template_text ps) args) = render ps args"
  using print_loop_template [OF assms, of "[]" "[]" args] by (simp add: print_def)

section \<open>Numbers\<close>

definition digit_value :: "u8 \<Rightarrow> nat" where
  "digit_value b = (if b \<le> 0x39 then unat b - 48 else unat b - 87)"

definition digits_value :: "nat \<Rightarrow> u8 list \<Rightarrow> nat" where
  "digits_value base ds = foldl (\<lambda>n b. base * n + digit_value b) 0 ds"

definition decimal_digits :: "u8 list \<Rightarrow> bool" where
  "decimal_digits ds \<longleftrightarrow> (\<forall>b \<in> set ds. is_ascii_digit b)"

definition hex_digits :: "u8 list \<Rightarrow> bool" where
  "hex_digits ds \<longleftrightarrow> set ds \<subseteq> set HEX_DIGITS"

lemma digits_value_snoc: "digits_value base (ds @ [d]) = base * digits_value base ds + digit_value d"
  by (simp add: digits_value_def)

lemma decimal_digit:
  assumes "d < (10 :: u64)"
  shows "digit_value (0x30 + ucast d) = unat d" and "is_ascii_digit (0x30 + ucast d)"
    and "0x30 + ucast d = (0x30 :: u8) \<longleftrightarrow> d = 0"
proof -
  have "unat (0x30 + ucast d :: u8) = 48 + unat d"
    using assms by (simp add: unat_word_ariths unsigned_ucast_eq word_less_nat_alt take_bit_eq_mod)
  then show "digit_value (0x30 + ucast d) = unat d" "is_ascii_digit (0x30 + ucast d)"
    "0x30 + ucast d = (0x30 :: u8) \<longleftrightarrow> d = 0"
    using assms by (auto simp: digit_value_def is_ascii_digit_def word_le_nat_alt word_less_nat_alt word_unat_eq_iff)
qed

text \<open>The digits in front of the tail, most significant first.\<close>

lemma decimal_loop_digits:
  "\<exists>ds. decimal_loop v tail = ds @ tail \<and> decimal_digits ds \<and> digits_value 10 ds = unat v
     \<and> (ds = [] \<longleftrightarrow> v = 0) \<and> (v \<noteq> 0 \<longrightarrow> hd ds \<noteq> 0x30 \<and> 10 ^ (length ds - 1) \<le> unat v)"
proof (induction v tail rule: decimal_loop.induct)
  case (1 v tail)
  show ?case
  proof (cases "v = 0")
    case True
    then show ?thesis by (simp add: decimal_loop.simps [of 0 tail] decimal_digits_def digits_value_def)
  next
    case False
    obtain ds where ds: "decimal_loop (v div 10) ((0x30 + ucast (v mod 10)) # tail) = ds @ (0x30 + ucast (v mod 10)) # tail"
      "decimal_digits ds" "digits_value 10 ds = unat (v div 10)" "ds = [] \<longleftrightarrow> v div 10 = 0"
      "v div 10 \<noteq> 0 \<longrightarrow> hd ds \<noteq> 0x30 \<and> 10 ^ (length ds - 1) \<le> unat (v div 10)"
      using "1.IH" [OF False] by blast
    define d where "d = v mod 10"
    have d: "d < 10" "unat d = unat v mod 10" by (simp_all add: d_def word_less_nat_alt unat_mod)
    have q: "unat (v div 10) = unat v div 10" by (simp add: unat_div)
    let ?ds = "ds @ [0x30 + ucast d]"
    have "decimal_loop v tail = ?ds @ tail"
      using ds(1) False by (simp add: decimal_loop.simps [of v] d_def)
    moreover have "decimal_digits ?ds" using ds(2) decimal_digit [OF d(1)] by (simp add: decimal_digits_def)
    moreover have "digits_value 10 ?ds = unat v"
      using ds(3) d(2) q decimal_digit [OF d(1)] by (simp add: digits_value_snoc)
    moreover have "hd ?ds \<noteq> 0x30"
    proof (cases "v div 10 = 0")
      case True
      then have "d \<noteq> 0" using False div_mult_mod_eq [of v 10] by (auto simp: d_def)
      then show ?thesis using True ds(4) decimal_digit [OF d(1)] by simp
    next
      case False
      then show ?thesis using ds(4,5) by (cases ds) auto
    qed
    moreover have "10 ^ (length ?ds - 1) \<le> unat v"
    proof (cases "v div 10 = 0")
      case True
      then show ?thesis using ds(4) False by (simp add: Suc_leI unat_gt_0)
    next
      case False
      then have "ds \<noteq> []" "10 ^ (length ds - 1) \<le> unat v div 10" using ds(4,5) q by auto
      then show ?thesis by (cases ds) auto
    qed
    ultimately show ?thesis using False by (intro exI [of _ ?ds]) simp
  qed
qed

lemma decimal_length:
  assumes "10 ^ (length ds - 1) \<le> unat (v :: u64)"
  shows "length ds \<le> 20"
proof (rule ccontr)
  assume "\<not> length ds \<le> 20"
  then have "(10 :: nat) ^ 20 \<le> 10 ^ (length ds - 1)" by (intro power_increasing) auto
  also have "\<dots> < 2 ^ 64" using assms u64_less [of v] by simp
  finally show False by simp
qed

lemma HEX_digit: "i < 16 \<Longrightarrow> digit_value (HEX_DIGITS ! i) = i \<and> HEX_DIGITS ! i \<in> set HEX_DIGITS
    \<and> (HEX_DIGITS ! i = 0x30 \<longleftrightarrow> i = 0)"
proof -
  have "list_all (\<lambda>i. digit_value (HEX_DIGITS ! i) = i \<and> HEX_DIGITS ! i \<in> set HEX_DIGITS
    \<and> (HEX_DIGITS ! i = 0x30 \<longleftrightarrow> i = 0)) [0..<16]" by code_simp
  moreover assume "i < 16"
  ultimately show ?thesis by (auto simp: list_all_iff)
qed

lemma hex_loop_digits:
  "\<exists>ds. hex_loop v digits = digits @ rev ds \<and> hex_digits ds \<and> digits_value 16 ds = unat v
     \<and> (ds = [] \<longleftrightarrow> v = 0) \<and> (v \<noteq> 0 \<longrightarrow> hd ds \<noteq> 0x30 \<and> 16 ^ (length ds - 1) \<le> unat v)"
proof (induction v digits rule: hex_loop.induct)
  case (1 v digits)
  show ?case
  proof (cases "v = 0")
    case True
    then show ?thesis by (simp add: hex_loop.simps [of 0 digits] hex_digits_def digits_value_def)
  next
    case False
    define d where "d = unat (v AND 0xf)"
    let ?h = "HEX_DIGITS ! d"
    obtain ds where ds: "hex_loop (drop_bit 4 v) (digits @ [?h]) = (digits @ [?h]) @ rev ds"
      "hex_digits ds" "digits_value 16 ds = unat (drop_bit 4 v)" "ds = [] \<longleftrightarrow> drop_bit 4 v = 0"
      "drop_bit 4 v \<noteq> 0 \<longrightarrow> hd ds \<noteq> 0x30 \<and> 16 ^ (length ds - 1) \<le> unat (drop_bit 4 v)"
      using "1.IH" [OF False] unfolding d_def by blast
    have "v AND 0xf = take_bit 4 v" by (simp add: take_bit_eq_mask mask_eq_exp_minus_1)
    then have d: "d = unat v mod 16" by (simp add: d_def unat_take_bit_word)
    then have h: "digit_value ?h = d" "?h \<in> set HEX_DIGITS" "?h = 0x30 \<longleftrightarrow> d = 0" using HEX_digit [of d] by simp_all
    have q: "unat (drop_bit 4 v) = unat v div 16" by (simp add: drop_bit_eq_div unat_div)
    have z: "drop_bit 4 v = 0 \<longleftrightarrow> unat v div 16 = 0" using q by (metis unat_eq_0)
    let ?ds = "ds @ [?h]"
    have "hex_loop v digits = digits @ rev ?ds"
      using ds(1) False by (simp add: hex_loop.simps [of v] d_def)
    moreover have "hex_digits ?ds" using ds(2) h by (simp add: hex_digits_def)
    moreover have "digits_value 16 ?ds = unat v" using ds(3) d q h by (simp add: digits_value_snoc)
    moreover have "hd ?ds \<noteq> 0x30 \<and> 16 ^ (length ?ds - 1) \<le> unat v"
    proof (cases "unat v div 16 = 0")
      case True
      then have "0 < d" using False d by (metis div_mult_mod_eq add_0 mult_zero_left unat_gt_0)
      then show ?thesis using True ds(4) z h d False by (simp add: Suc_leI unat_gt_0)
    next
      case False
      then have "ds \<noteq> []" "hd ds \<noteq> 0x30" "16 ^ (length ds - 1) \<le> unat v div 16" using ds(4,5) q z by auto
      then show ?thesis by (cases ds) auto
    qed
    ultimately show ?thesis using False by (intro exI [of _ ?ds]) simp
  qed
qed

lemma hex_length:
  assumes "16 ^ (length ds - 1) \<le> unat (v :: u64)"
  shows "length ds \<le> 16"
proof (rule ccontr)
  assume "\<not> length ds \<le> 16"
  then have "(16 :: nat) ^ 16 \<le> 16 ^ (length ds - 1)" by (intro power_increasing) auto
  also have "\<dots> < 2 ^ 64" using assms u64_less [of v] by simp
  finally show False by simp
qed

lemma map_rev_nth: "map (\<lambda>i. xs ! (length xs - 1 - i)) [0..<length xs] = rev xs"
  by (rule nth_equalityI) (simp_all add: rev_nth)

section \<open>Specifiers\<close>

lemma foldl_digits_ge: "a \<le> foldl (\<lambda>n b. 10 * n + digit_value b) a bs"
proof (induction bs arbitrary: a)
  case (Cons b bs)
  have "a \<le> 10 * a + digit_value b" by simp
  also have "\<dots> \<le> foldl (\<lambda>n b. 10 * n + digit_value b) (10 * a + digit_value b) bs" by (rule Cons.IH)
  finally show ?case by simp
qed simp

lemma parse_width_digits:
  assumes "decimal_digits ds" and "rest = [] \<or> \<not> is_ascii_digit (hd rest)"
    and "foldl (\<lambda>n b. 10 * n + digit_value b) w ds < 2 ^ 64"
  shows "parse_width w (ds @ rest) = (foldl (\<lambda>n b. 10 * n + digit_value b) w ds, rest)"
  using assms
proof (induction ds arbitrary: w)
  case Nil
  then show ?case by (cases rest) auto
next
  case (Cons d ds)
  have d: "is_ascii_digit d" using Cons.prems(1) by (simp add: decimal_digits_def)
  then have "unat (d - 0x30) = digit_value d"
    using unat_sub_le [of "0x30" d] by (simp add: is_ascii_digit_def digit_value_def)
  moreover have "10 * w + digit_value d < 2 ^ 64"
    using foldl_digits_ge [of "10 * w + digit_value d" ds] Cons.prems(3) by simp
  ultimately show ?case using Cons d
    by (simp add: us_saturating_add_def us_saturating_mul_def decimal_digits_def mult.commute)
qed

text \<open>The specifier that asks for hexadecimal output.\<close>

definition hex_spec_text :: "bool \<Rightarrow> bool \<Rightarrow> u64 \<Rightarrow> u8 list" where
  "hex_spec_text alt zero w = str '':'' @ (if alt then str ''#'' else []) @ (if zero then str ''0'' else [])
     @ decimal_loop w [] @ str ''x''"

lemma parse_hex_spec:
  "parse_format_spec (hex_spec_text alt zero w)
     = Some \<lparr>kind = LowerHex, alternate = alt, width = unat w, zero_pad = zero\<rparr>"
proof -
  obtain ds where ds: "decimal_loop w [] = ds" "decimal_digits ds" "digits_value 10 ds = unat w" "ds = [] \<longleftrightarrow> w = 0"
    "w \<noteq> 0 \<longrightarrow> hd ds \<noteq> 0x30"
    using decimal_loop_digits [of w "[]"] by auto
  have width: "parse_width 0 (ds @ [0x78]) = (unat w, [0x78])"
    using parse_width_digits [OF ds(2), of "[0x78]" 0] ds(3) u64_less [of w]
    by (simp add: digits_value_def is_ascii_digit_def)
  have hash: "hd (ds @ [0x78]) \<noteq> 0x23"
    using ds(2) by (cases ds) (auto simp: decimal_digits_def is_ascii_digit_def)
  have zero: "hd (ds @ [0x78]) \<noteq> 0x30"
    using ds(4,5) by (cases ds) auto
  show ?thesis
    using width hash zero
    by (simp add: parse_format_spec_def hex_spec_text_def ds(1) strip_byte_def str_def hd_append)
qed

section \<open>Properties\<close>

text \<open>C19: on the text of any template \<open>print\<close> writes the pieces in order: literal text as it is, \<open>{{\<close> and \<open>}}\<close> as
  single braces, and each \<open>{spec}\<close> as the next argument formatted by its specifier; when the arguments run
  out, it writes \<open><missing-arg>\<close> in place of the rest.\<close>

theorem print_renders_template:
  assumes "\<forall>p \<in> set ps. piece_ok p"
  shows "concat (print (template_text ps) args) = render ps args"
  by (rule print_template [OF assms])

theorem print_renders_template_witness:
  "concat (print (template_text [Text (str ''n=''), Argument []]) [Bool True]) = str ''n=true''"
  using print_renders_template [of "[Text (str ''n=''), Argument []]" "[Bool True]"]
  by (simp add: str_def print_argument_def parse_format_spec_def print_display_def)

text \<open>A \<open>u64\<close> is printed in decimal as one string of at most 20 digits, without leading zeros, that reads
  back as the number.\<close>

theorem print_decimal_roundtrip:
  "\<exists>ds. print_decimal_u64 v = [ds] \<and> decimal_digits ds \<and> digits_value 10 ds = unat v
     \<and> 0 < length ds \<and> length ds \<le> 20 \<and> (hd ds = 0x30 \<longleftrightarrow> v = 0)"
proof (cases "v = 0")
  case True
  then show ?thesis
    by (simp add: print_decimal_u64_def str_def decimal_digits_def is_ascii_digit_def digits_value_def digit_value_def)
next
  case False
  obtain ds where ds: "decimal_loop v [] = ds" "decimal_digits ds" "digits_value 10 ds = unat v" "ds \<noteq> []"
    "hd ds \<noteq> 0x30" "10 ^ (length ds - 1) \<le> unat v"
    using decimal_loop_digits [of v "[]"] False by auto
  then show ?thesis using False decimal_length [of ds v] by (simp add: print_decimal_u64_def)
qed

lemma hex_digits_exist:
  "\<exists>ds. (if v = 0 then str ''0'' else hex_loop v []) = rev ds \<and> hex_digits ds \<and> digits_value 16 ds = unat v
     \<and> 0 < length ds \<and> length ds \<le> 16 \<and> (hd ds = 0x30 \<longleftrightarrow> v = 0)"
proof (cases "v = 0")
  case True
  then show ?thesis
    by (intro exI [of _ "[0x30]"]) (simp add: str_def hex_digits_def HEX_DIGITS_def digits_value_def digit_value_def)
next
  case False
  obtain ds where ds: "hex_loop v [] = rev ds" "hex_digits ds" "digits_value 16 ds = unat v" "ds \<noteq> []"
    "hd ds \<noteq> 0x30" "16 ^ (length ds - 1) \<le> unat v"
    using hex_loop_digits [of v "[]"] False by auto
  then show ?thesis using False hex_length [of ds v] by auto
qed

text \<open>An integer argument printed with \<open>{:x}\<close>, optionally with the prefix flag \<open>#\<close>, the zero flag and a width,
  is written as at most 16 lowercase hexadecimal digits without leading zeros that read back as the number,
  with the prefix if asked for, padded to the width with zeros after the prefix or with blanks in front.\<close>

theorem print_hex_spec:
  "\<exists>ds. hex_digits ds \<and> digits_value 16 ds = unat v \<and> 0 < length ds \<and> length ds \<le> 16 \<and> (hd ds = 0x30 \<longleftrightarrow> v = 0)
     \<and> concat (print_argument (U64 v) (hex_spec_text alt zero w))
       = (let prefix = (if alt then str ''0x'' else []); pad = unat w - (length prefix + length ds) in
          if zero then prefix @ replicate pad 0x30 @ ds else replicate pad 0x20 @ prefix @ ds)"
proof -
  obtain ds where ds: "(if v = 0 then str ''0'' else hex_loop v []) = rev ds" "hex_digits ds" "digits_value 16 ds = unat v"
     "0 < length ds" "length ds \<le> 16" "hd ds = 0x30 \<longleftrightarrow> v = 0"
    using hex_digits_exist by blast
  have pad: "concat (replicate n [x]) = replicate n x" for n and x :: u8 by (induction n) auto
  have "concat (print_argument (U64 v) (hex_spec_text alt zero w))
       = (let prefix = (if alt then str ''0x'' else []); pad = unat w - (length prefix + length ds) in
          if zero then prefix @ replicate pad 0x30 @ ds else replicate pad 0x20 @ prefix @ ds)"
    using map_rev_nth [of "rev ds"]
    by (simp add: print_argument_def parse_hex_spec print_hex_def print_hex_u64_def ds(1) Let_def str_def pad)
  with ds show ?thesis by blast
qed

text \<open>A lone closing brace stops the output with an error marker and drops the literal text in front of it,
  while an opening brace without its closing one writes that text first.\<close>

theorem print_lone_brace:
  assumes "open_brace \<notin> set t" and "close_brace \<notin> set t" and "rest = [] \<or> hd rest \<noteq> close_brace"
  shows "concat (print (t @ close_brace # rest) args) = str ''<format-error>''
    \<and> (close_brace \<notin> set u \<and> (u = [] \<or> hd u \<noteq> open_brace)
       \<longrightarrow> concat (print (t @ open_brace # u) args) = t @ str ''<format-error>'')"
proof -
  have close: "print_loop (t @ close_brace # rest) args 0 (length t) = [str ''<format-error>'']"
    using assms(3)
    by (cases rest) (simp_all add: print_loop.simps [of "t @ close_brace # rest" args 0 "length t" for rest] brace_bytes nth_append)
  have none: "find_closing_brace (pre @ u) (length pre) = None" if "close_brace \<notin> set u" for pre u
    using that
  proof (induction u arbitrary: pre)
    case (Cons c u)
    then show ?case using Cons.IH [of "pre @ [c]"]
      by (simp add: find_closing_brace.simps [of "pre @ c # u"] brace_bytes)
  qed (simp add: find_closing_brace.simps [of pre "length pre" for pre])
  have "concat (print_loop (t @ open_brace # u) args 0 (length t)) = t @ str ''<format-error>''"
    if "close_brace \<notin> set u \<and> (u = [] \<or> hd u \<noteq> open_brace)"
    using that none [of u "t @ [open_brace]"] flush_literal_append [of "[]" t "open_brace # u"]
    by (cases u) (simp_all add: print_loop.simps [of "t @ open_brace # u" args 0 "length t" for u] brace_bytes nth_append)
  then show ?thesis
    using close print_loop_text [OF assms(1,2), of "[]" "close_brace # rest" args 0]
      print_loop_text [OF assms(1,2), of "[]" "open_brace # u" args 0]
    by (simp add: print_def)
qed

theorem print_lone_brace_witness:
  "concat (print (str ''lost}'') []) = str ''<format-error>'' \<and> concat (print (str ''kept{'') []) = str ''kept<format-error>''"
  using print_lone_brace [of "str ''lost''" "[]" "[]" "[]"] print_lone_brace [of "str ''kept''" "[]" "[]" "[]"]
  by (simp add: str_def)

end
