(* ===== verification/Console.thy ===== *)
theory Console
  imports DtbMemory Firmware PrintSpec
begin

unbundle bit_operations_syntax

text \<open>
  The firmware's reports: the diagnostics of \<open>src/diagnostics.rs\<close> and the trap report of \<open>src/interrupts.rs\<close>.

  Each function returns the calls of the console it makes, in order, as the formatter does. \<open>println!\<close> and
  \<open>print!\<close> convert their arguments and call the formatter. The build profile is an environment variable of the
  build and a parameter here.
\<close>

section \<open>Banners\<close>

definition line :: "string \<Rightarrow> u8 list" where
  "line s = str s @ [0x0a]"

text \<open>The backslash, which the string literals of the banners contain.\<close>

definition bs :: string where
  "bs = [char_of (92 :: nat)]"

definition quote_mark :: string where
  "quote_mark = [char_of (39 :: nat)]"

definition print_rustfw_banner :: console where
  "print_rustfw_banner = println
     (line ''                 _   _______        __''
      @ line (''  _ __ _   _ ___| |_|  ___'' @ bs @ '' '' @ bs @ ''      / /'')
      @ line ('' | '' @ quote_mark @ ''__| | | / __| __| |_   '' @ bs @ '' '' @ bs @ '' /'' @ bs @ '' / /'')
      @ line ('' | |  | |_| '' @ bs @ ''__ '' @ bs @ '' |_|  _|   '' @ bs @ '' V  V /'')
      @ line ('' |_|   '' @ bs @ ''__,_|___/'' @ bs @ ''__|_|      '' @ bs @ ''_/'' @ bs @ ''_/'')) []"

definition BUILD_PROFILE :: "u8 list option \<Rightarrow> u8 list" where
  "BUILD_PROFILE profile_name = (case profile_name of Some profile \<Rightarrow> profile | None \<Rightarrow> str ''unknown'')"

definition greet :: "u8 list option \<Rightarrow> console" where
  "greet profile_name = println (str ''{} {} ({})'')
     [str_into_argument (str ''rustfimware''), str_into_argument (str ''0.1.0''), str_into_argument (BUILD_PROFILE profile_name)]"

definition banner_handoff :: console where
  "banner_handoff = println
     ([0x0a]
      @ line ('' /||'' @ bs)
      @ line ''| O.O|''
      @ line ('' '' @ bs @ ''_=/'')
      @ line '' | |''
      @ line ('' |'' @ bs @ '' '' @ bs)
      @ line ('' | '' @ bs @ ''_'' @ bs @ ''_____________'')
      @ line ('' | |    '' @ bs @ ''      __ /'')
      @ line ('' | |_    '' @ bs @ ''___ /  '' @ bs @ '' '')
      @ line ('' |___|        '' @ bs @ ''__/'')) []"

section \<open>Diagnostics\<close>

definition print_diagnostics :: "u64 \<Rightarrow> u64 \<Rightarrow> console" where
  "print_diagnostics boot_hart tree_ptr = println (str ''entry: boot_hart={}, device_tree={:#018x}'')
     [usize_into_argument boot_hart, usize_into_argument tree_ptr]"

text \<open>The rows of a dump of at most 64 bytes, 16 in a row.\<close>

function byte_rows :: "u8 list \<Rightarrow> u8 list \<Rightarrow> nat \<Rightarrow> nat \<Rightarrow> console" where
  "byte_rows label_text bytes limit index =
     (if index < limit then
        print (str ''{}:   '') [str_into_argument label_text]
        @ concat (map (\<lambda>column. print (str ''{:02x} '') [u8_into_argument (bytes ! (index + column))]) [0..<min 16 (limit - index)])
        @ println (str '''') []
        @ byte_rows label_text bytes limit (index + 16)
      else [])"
  by pat_completeness auto
termination by (relation "measure (\<lambda>(_, _, limit, index). limit - index)") auto

declare byte_rows.simps [simp del]

definition print_byte_prefix :: "u8 list \<Rightarrow> u8 list \<Rightarrow> console" where
  "print_byte_prefix label_text bytes = println (str ''{}: first 0x40 bytes'') [str_into_argument label_text]
     @ byte_rows label_text bytes (min (length bytes) 0x40) 0"

definition print_region :: "string \<Rightarrow> MemoryRegion list \<Rightarrow> nat \<Rightarrow> console" where
  "print_region format rs index = println (str format)
     [usize_into_argument (of_nat (index + 1)), usize_into_argument (base (rs ! index)), usize_into_argument (region_size (rs ! index))]"

text \<open>The closure over the static reservations; it counts on from the entries of the reserve map.\<close>

definition print_static :: "MemoryRegion \<Rightarrow> ReservedMemoryType \<Rightarrow> nat \<times> console \<Rightarrow> bool \<times> nat \<times> console" where
  "print_static region memory_type s =
     (case s of (index, out) \<Rightarrow>
      (True, index + 1, out
         @ print (str ''reserved {}: base={:#018x}, size={:#018x}, no-map='')
             [usize_into_argument (of_nat (index + 1)), usize_into_argument (base region), usize_into_argument (region_size region)]
         @ (if memory_type = Reserved then println (str ''yes'') [] else println (str ''no'') [])))"

definition print_fdt_information ::
  "Fdt \<Rightarrow> MemoryRegion list \<Rightarrow> MemoryRegion list \<Rightarrow> console \<times> MemoryRegion list \<times> MemoryRegion list" where
  "print_fdt_information fdt memory_scratch reserved_scratch =
     (let (memory_region_count, memory_scratch) = memory_regions fdt memory_scratch;
          (reserve_map_region_count, reserved_scratch) = reserve_map_regions fdt reserved_scratch;
          (_, reserved_scratch) = reserved_regions fdt reserved_scratch;
          memory_lines = concat (map (print_region ''memory {}: base={:#018x}, size={:#018x}'' memory_scratch) [0..<memory_region_count]);
          reserve_lines = concat (map (print_region ''reserved {}: base={:#018x}, size={:#018x}'' reserved_scratch) [0..<reserve_map_region_count]);
          (_, static_lines) = for_each_static_reserved_memory_region fdt print_static (reserve_map_region_count, [])
      in (memory_lines @ reserve_lines @ static_lines, memory_scratch, reserved_scratch))"

definition saturating_mul :: "u64 \<Rightarrow> u64 \<Rightarrow> u64" where
  "saturating_mul a b = (case checked_mul a b of Some c \<Rightarrow> c | None \<Rightarrow> - 1)"

definition print_memory_map_line :: "nat \<Rightarrow> EFI_MEMORY_DESCRIPTOR \<Rightarrow> console" where
  "print_memory_map_line index descriptor =
     (let size_in_bytes = saturating_mul (NumberOfPages descriptor) EFI_PAGE_SIZE; t = Type descriptor in
      print (str ''efi-memory {}: type='') [usize_into_argument (of_nat index)]
      @ (if t = 0 then print (str ''EfiReservedMemoryType'') []
         else if t = 1 then print (str ''EfiLoaderCode'') []
         else if t = 2 then print (str ''EfiLoaderData'') []
         else if t = 3 then print (str ''EfiBootServicesCode'') []
         else if t = 4 then print (str ''EfiBootServicesData'') []
         else if t = 5 then print (str ''EfiRuntimeServicesCode'') []
         else if t = 6 then print (str ''EfiRuntimeServicesData'') []
         else if t = 7 then print (str ''EfiConventionalMemory'') []
         else if t = 8 then print (str ''EfiUnusableMemory'') []
         else if t = 9 then print (str ''EfiACPIReclaimMemory'') []
         else if t = 10 then print (str ''EfiACPIMemoryNVS'') []
         else if t = 11 then print (str ''EfiMemoryMappedIO'') []
         else if t = 12 then print (str ''EfiMemoryMappedIOPortSpace'') []
         else if t = 13 then print (str ''EfiPalCode'') []
         else if t = 14 then print (str ''EfiPersistentMemory'') []
         else if t = 15 then print (str ''EfiUnacceptedMemoryType'') []
         else print (str ''unknown'') [])
      @ println (str '', base={:#018x}, size={:#018x}, attr={:#018x}'')
          [usize_into_argument (PhysicalStart descriptor), usize_into_argument size_in_bytes, usize_into_argument (Attribute descriptor)])"

text \<open>\<open>memory_map_from_fdt\<close> returns the number of descriptors and leaves the map in the buffer of the allocator.\<close>

definition print_memory_map ::
  "symbols \<Rightarrow> Fdt \<Rightarrow> MemoryRegion list \<Rightarrow> MemoryRegion list \<Rightarrow> EFI_MEMORY_DESCRIPTOR list \<Rightarrow> console" where
  "print_memory_map lla fdt memory_scratch reserved_scratch memory_map =
     (case fst (from_fdt lla fdt memory_scratch reserved_scratch memory_map) of
        Inl e \<Rightarrow> println (str ''diagnostics: efi-memory-map unavailable'') []
      | Inr allocator \<Rightarrow>
          concat (map (\<lambda>index. print_memory_map_line (index + 1) (descriptors allocator ! index)) [0..<descriptor_count allocator]))"

definition print_memory_layout :: "symbols \<Rightarrow> memory \<Rightarrow> u64 \<Rightarrow> console" where
  "print_memory_layout lla mem tree_ptr =
     (case from_ptr mem tree_ptr of
        Inl e \<Rightarrow> println (str ''memory layout: memory-map unavailable'') []
      | Inr fdt \<Rightarrow>
          let (information, regions, reserved) = print_fdt_information fdt (replicate 8 \<lparr>base = 0, region_size = 0\<rparr>)
                (replicate 16 \<lparr>base = 0, region_size = 0\<rparr>)
          in information @ print_memory_map lla fdt regions reserved (replicate 32 EMPTY_MEMORY_DESCRIPTOR))"

section \<open>Traps\<close>

definition print_trap_cause_name :: "bool \<Rightarrow> u64 \<Rightarrow> console" where
  "print_trap_cause_name is_interrupt cause_code =
     (if is_interrupt then
        if cause_code = 1 then [str ''supervisor software interrupt'']
        else if cause_code = 5 then [str ''supervisor timer interrupt'']
        else if cause_code = 9 then [str ''supervisor external interrupt'']
        else [str ''unknown interrupt'']
      else
        if cause_code = 0 then [str ''instruction address misaligned'']
        else if cause_code = 1 then [str ''instruction access fault'']
        else if cause_code = 2 then [str ''illegal instruction'']
        else if cause_code = 3 then [str ''breakpoint'']
        else if cause_code = 4 then [str ''load address misaligned'']
        else if cause_code = 5 then [str ''load access fault'']
        else if cause_code = 6 then [str ''store or AMO address misaligned'']
        else if cause_code = 7 then [str ''store or AMO access fault'']
        else if cause_code = 8 then [str ''environment call from U-mode'']
        else if cause_code = 9 then [str ''environment call from S-mode'']
        else if cause_code = 12 then [str ''instruction page fault'']
        else if cause_code = 13 then [str ''load page fault'']
        else if cause_code = 15 then [str ''store or AMO page fault'']
        else [str ''unknown exception''])"

definition rust_smode_trap :: "u64 \<Rightarrow> u64 \<Rightarrow> u64 \<Rightarrow> console \<times> Outcome" where
  "rust_smode_trap scause stval sepc =
     (let interrupt_bit = push_bit 63 1;
          is_interrupt = (scause AND interrupt_bit \<noteq> 0);
          cause_code = scause AND NOT interrupt_bit
      in ((if is_interrupt then print (str ''rustfimware: s-mode interrupt cause={} ('') [usize_into_argument cause_code]
           else print (str ''rustfimware: s-mode exception cause={} ('') [usize_into_argument cause_code])
          @ print_trap_cause_name is_interrupt cause_code
          @ println (str '') stval={:#018x} sepc={:#018x}'') [usize_into_argument stval, usize_into_argument sepc],
          poweroff_on_failure))"

section \<open>Panics\<close>

text \<open>The panic handler; the location is the file and the line when there is one.\<close>

definition firmware_panic :: "(u8 list \<times> u32) option \<Rightarrow> console \<times> Outcome" where
  "firmware_panic location =
     (println (str ''rustfimware: panic'') []
      @ (case location of
           Some (path, number) \<Rightarrow> println (str ''rustfimware: panic location {}:{}'') [str_into_argument path, u32_into_argument number]
         | None \<Rightarrow> []),
      poweroff_on_failure)"

section \<open>Loaded files\<close>

definition print_loaded_file :: "u8 list \<Rightarrow> u8 list \<Rightarrow> LoadedFile \<Rightarrow> console" where
  "print_loaded_file filesystem_name path loaded = println
     (str (''{}: loaded '' @ quote_mark @ ''{}'' @ quote_mark @ '', size={} @ {:#018x}''))
     [str_into_argument filesystem_name, str_into_argument path, usize_into_argument (of_nat (size_bytes loaded)),
      usize_into_argument (physical_start loaded)]"

end
