(* ===== verification/ConsoleSpec.thy ===== *)
theory ConsoleSpec
  imports Console
begin

unbundle bit_operations_syntax

text \<open>
  What the reports say: a line of the memory map names the type of the descriptor and shows its fields, and a trap report
  shows the decoded cause; every trap ends the firmware.
\<close>

section \<open>Fixed-width numbers\<close>

text \<open>The specifier of addresses prints a prefix and exactly sixteen digits.\<close>

definition hex_of :: "u8 list \<Rightarrow> u64 \<Rightarrow> bool" where
  "hex_of ds v \<longleftrightarrow> length ds = 16 \<and> hex_digits ds \<and> digits_value 16 ds = unat v"

lemma digits_value_pad: "digits_value 16 (replicate n 0x30 @ ds) = digits_value 16 ds"
proof (induction n)
  case (Suc n)
  have "digit_value 0x30 = 0" by (simp add: digit_value_def)
  then show ?case using Suc by (simp add: digits_value_def)
qed simp

lemma address_argument: "\<exists>ds. concat (print_argument (Usize v) (str '':#018x'')) = str ''0x'' @ ds \<and> hex_of ds v"
proof -
  obtain ds where ds: "(if v = 0 then str ''0'' else hex_loop v []) = rev ds" "hex_digits ds" "digits_value 16 ds = unat v"
     "0 < length ds" "length ds \<le> 16"
    using hex_digits_exist by blast
  have pad: "concat (replicate n [x]) = replicate n x" for n and x :: u8 by (induction n) auto
  have p: "parse_format_spec (str '':#018x'') = Some \<lparr>kind = LowerHex, alternate = True, width = 18, zero_pad = True\<rparr>"
    by (simp add: parse_format_spec_def str_def strip_byte_def is_ascii_digit_def us_saturating_add_def us_saturating_mul_def)
  have "concat (print_argument (Usize v) (str '':#018x'')) = str ''0x'' @ replicate (16 - length ds) 0x30 @ ds"
    using map_rev_nth [of "rev ds"]
    unfolding print_argument_def p by (simp add: print_hex_def print_hex_u64_def ds(1) Let_def pad) (simp add: str_def pad)
  moreover have "hex_of (replicate (16 - length ds) 0x30 @ ds) v"
    using ds digits_value_pad [of "16 - length ds" ds]
    by (auto simp: hex_of_def hex_digits_def HEX_DIGITS_def str_def)
  ultimately show ?thesis by blast
qed

section \<open>Lines\<close>

definition type_label :: "EFI_MEMORY_TYPE \<Rightarrow> string" where
  "type_label t = (case t of
     EfiReservedMemoryType \<Rightarrow> ''EfiReservedMemoryType'' | EfiLoaderCode \<Rightarrow> ''EfiLoaderCode'' | EfiLoaderData \<Rightarrow> ''EfiLoaderData''
   | EfiBootServicesCode \<Rightarrow> ''EfiBootServicesCode'' | EfiBootServicesData \<Rightarrow> ''EfiBootServicesData''
   | EfiRuntimeServicesCode \<Rightarrow> ''EfiRuntimeServicesCode'' | EfiRuntimeServicesData \<Rightarrow> ''EfiRuntimeServicesData''
   | EfiConventionalMemory \<Rightarrow> ''EfiConventionalMemory'' | EfiUnusableMemory \<Rightarrow> ''EfiUnusableMemory''
   | EfiACPIReclaimMemory \<Rightarrow> ''EfiACPIReclaimMemory'' | EfiACPIMemoryNVS \<Rightarrow> ''EfiACPIMemoryNVS''
   | EfiMemoryMappedIO \<Rightarrow> ''EfiMemoryMappedIO'' | EfiMemoryMappedIOPortSpace \<Rightarrow> ''EfiMemoryMappedIOPortSpace''
   | EfiPalCode \<Rightarrow> ''EfiPalCode'' | EfiPersistentMemory \<Rightarrow> ''EfiPersistentMemory''
   | EfiUnacceptedMemoryType \<Rightarrow> ''EfiUnacceptedMemoryType'' | EfiMaxMemoryType \<Rightarrow> ''unknown'')"

lemma print_plain: "open_brace \<notin> set t \<Longrightarrow> close_brace \<notin> set t \<Longrightarrow> concat (print t []) = t"
  using print_template [of "[Text t]" "[]"] by simp

lemma display_argument: "concat (print_argument (Usize v) []) = concat (print_decimal_u64 v)"
  by (simp add: print_argument_def parse_format_spec_def print_display_def)

lemma type_line:
  "concat (print_memory_map_line i (d\<lparr>Type := type_u32 t\<rparr>)) =
     concat (print (str ''efi-memory {}: type='') [Usize (of_nat i)]) @ str (type_label t)
     @ concat (println (str '', base={:#018x}, size={:#018x}, attr={:#018x}'')
         [Usize (PhysicalStart d), Usize (saturating_mul (NumberOfPages d) EFI_PAGE_SIZE), Usize (Attribute d)])"
proof -
  have "concat (print (str (type_label t)) []) = str (type_label t)"
    by (rule print_plain) (cases t; simp add: type_label_def str_def)+
  then show ?thesis
    by (cases t) (simp_all add: print_memory_map_line_def type_label_def usize_into_argument_def Let_def)
qed

text \<open>
  C39: A line of the printed memory map names the type of the descriptor by its EFI name and shows its number in decimal and the
  base address, the size in bytes, saturated at the largest address, and the attributes with exactly sixteen hexadecimal digits.
\<close>
theorem memory_map_line_correct:
  "\<exists>b s a. concat (print_memory_map_line i (d\<lparr>Type := type_u32 t\<rparr>)) =
       str ''efi-memory '' @ concat (print_decimal_u64 (of_nat i)) @ str '': type='' @ str (type_label t)
       @ str '', base=0x'' @ b @ str '', size=0x'' @ s @ str '', attr=0x'' @ a @ [0x0a]
     \<and> hex_of b (PhysicalStart d) \<and> hex_of a (Attribute d)
     \<and> (\<exists>v. hex_of s v \<and> unat v = min (unat (NumberOfPages d) * 4096) (2 ^ 64 - 1))"
proof -
  define z where "z = saturating_mul (NumberOfPages d) EFI_PAGE_SIZE"
  have z: "unat z = min (unat (NumberOfPages d) * 4096) (2 ^ 64 - 1)"
    by (auto simp: z_def saturating_mul_def checked_mul_def EFI_PAGE_SIZE_def unsigned_minus_1_eq_mask mask_eq_exp_minus_1 unat_word_ariths)
  obtain b s a where h: "concat (print_argument (Usize (PhysicalStart d)) (str '':#018x'')) = str ''0x'' @ b" "hex_of b (PhysicalStart d)"
      "concat (print_argument (Usize z) (str '':#018x'')) = str ''0x'' @ s" "hex_of s z"
      "concat (print_argument (Usize (Attribute d)) (str '':#018x'')) = str ''0x'' @ a" "hex_of a (Attribute d)"
    using address_argument by metis
  have l1: "concat (print (str ''efi-memory {}: type='') [Usize (of_nat i)]) = str ''efi-memory '' @ concat (print_decimal_u64 (of_nat i)) @ str '': type=''"
    using print_template [of "[Text (str ''efi-memory ''), Argument [], Text (str '': type='')]" "[Usize (of_nat i)]"]
    by (simp add: display_argument str_def)
  have "concat (print (str '', base={:#018x}, size={:#018x}, attr={:#018x}'') [Usize (PhysicalStart d), Usize z, Usize (Attribute d)])
      = str '', base='' @ (str ''0x'' @ b) @ str '', size='' @ (str ''0x'' @ s) @ str '', attr='' @ (str ''0x'' @ a)"
    using print_template [of "[Text (str '', base=''), Argument (str '':#018x''), Text (str '', size=''), Argument (str '':#018x''),
        Text (str '', attr=''), Argument (str '':#018x'')]" "[Usize (PhysicalStart d), Usize z, Usize (Attribute d)]"] h
    by (simp add: str_def)
  then have l2: "concat (println (str '', base={:#018x}, size={:#018x}, attr={:#018x}'') [Usize (PhysicalStart d), Usize z, Usize (Attribute d)])
      = str '', base=0x'' @ b @ str '', size=0x'' @ s @ str '', attr=0x'' @ a @ [0x0a]"
    by (simp add: println_def str_def)
  have "concat (print_memory_map_line i (d\<lparr>Type := type_u32 t\<rparr>)) =
       str ''efi-memory '' @ concat (print_decimal_u64 (of_nat i)) @ str '': type='' @ str (type_label t)
       @ str '', base=0x'' @ b @ str '', size=0x'' @ s @ str '', attr=0x'' @ a @ [0x0a]"
    unfolding type_line l1 l2 [unfolded z_def] by simp
  then show ?thesis using h(2,4,6) z by blast
qed

section \<open>Trap reports\<close>

lemma trap_bits:
  fixes scause :: u64
  shows "scause AND push_bit 63 1 \<noteq> 0 \<longleftrightarrow> 2 ^ 63 \<le> unat scause" and "scause AND NOT (push_bit 63 1) = of_nat (unat scause mod 2 ^ 63)"
proof -
  have m: "NOT (push_bit 63 1 :: u64) = mask 63" by (simp add: mask_eq_exp_minus_1)
  have t: "take_bit 63 scause = of_nat (unat scause mod 2 ^ 63)"
  proof -
    have "unat (take_bit 63 scause) = unat scause mod 2 ^ 63" by (simp only: unsigned_take_bit_eq) (simp add: take_bit_eq_mod)
    moreover have "of_nat (unat (take_bit 63 scause)) = take_bit 63 scause" by simp
    ultimately show ?thesis by metis
  qed
  then show "scause AND NOT (push_bit 63 1) = of_nat (unat scause mod 2 ^ 63)" unfolding m by (simp add: take_bit_eq_mask)
  have "scause AND push_bit 63 1 \<noteq> 0 \<longleftrightarrow> bit scause 63"
    using and_exp_eq_0_iff_not_bit [of scause 63] by (simp add: push_bit_eq_mult)
  also have "\<dots> \<longleftrightarrow> odd (unat scause div 2 ^ 63)" using bit_unsigned_iff [of scause 63, where 'a = nat] bit_iff_odd [of "unat scause" 63] by simp
  also have "\<dots> \<longleftrightarrow> 2 ^ 63 \<le> unat scause"
  proof -
    have "unat scause div 2 ^ 63 < 2" using u64_less [of scause] by (simp add: less_mult_imp_div_less)
    then have "odd (unat scause div 2 ^ 63) \<longleftrightarrow> 0 < unat scause div 2 ^ 63" by (cases "unat scause div 2 ^ 63") auto
    then show ?thesis by (simp add: div_greater_zero_iff)
  qed
  finally show "scause AND push_bit 63 1 \<noteq> 0 \<longleftrightarrow> 2 ^ 63 \<le> unat scause" .
qed


end
