(* ===== verification/Spec2Isabelle.thy ===== *)
theory Spec2Isabelle
  imports AllocationSpec DtbWriteSpec FatSpec FatNames Ext4Spec FirmwareSpec ConsoleSpec
begin

text \<open>
  A verification library for \<open>rustfimware\<close>, a RISC-V boot firmware in Rust (\<open>src/\<close>).

  \<^bold>\<open>The program.\<close> OpenSBI starts the firmware with a hart number and the address of a flattened device tree.
  The firmware builds an EFI-style page map from the tree, copies itself to high memory and continues there
  (\<open>main.rs\<close>, \<open>memory.rs\<close>, \<open>dtb_read.rs\<close>, \<open>dtb_memory.rs\<close>). It then probes the eight VirtIO slots of the QEMU virt
  machine, reads the GPT of each block device, and on every partition with the boot flag looks for a kernel and an
  initrd on a FAT or ext4 file system (\<open>virtio.rs\<close>, \<open>gpt.rs\<close>, \<open>fat.rs\<close>, \<open>ext4.rs\<close>, \<open>filesystem.rs\<close>). The first kernel
  that loads is moved to an aligned address, the device tree is cloned and extended, and control is handed to the
  kernel (\<open>linux.rs\<close>, \<open>dtb_write.rs\<close>). If nothing boots, the machine is powered off (\<open>sbi.rs\<close>).

  \<^bold>\<open>The theories.\<close> Every definition keeps the name of the function or type it models where possible.

  \<^item> \<open>Prelude\<close>: words, checked arithmetic on \<open>usize\<close>, results as sums, byte order, UTF-8, shared lemmas.
  \<^item> \<open>memory.rs\<close>: \<open>PageMap\<close> (descriptors, the sorted buffer, \<open>coalesce\<close>, \<open>replace_range\<close>; the invariant \<open>alloc_ok\<close>
    and the abstract map \<open>map_type\<close> from bytes to memory types), \<open>Memory\<close> (searches, \<open>AllocatePages\<close>,
    \<open>FreePages\<close>, carving, \<open>from_regions\<close> and their effect on \<open>map_type\<close>), \<open>Allocation\<close> (the locale
    \<open>candidate_search\<close> for the search loops, interpreted for the highest and the lowest candidate; the locale \<open>page_store\<close> for
    clients of the allocator, interpreted for the map), \<open>AllocationSpec\<close> (properties).
  \<^item> \<open>dtb_read.rs\<close>: \<open>DtbRead\<close> (header, tokens, traversal, lookup), \<open>DtbTree\<close> (encoded trees, correctness of the reader on
    them, safety on arbitrary blobs). \<open>dtb_memory.rs\<close> and \<open>from_fdt\<close> of \<open>memory.rs\<close>: \<open>DtbMemory\<close>.
  \<^item> \<open>dtb_write.rs\<close>: \<open>DtbWrite\<close> (model on memory), \<open>DtbEdit\<close> (its effect on byte lists), \<open>DtbUpdate\<close> (its effect on
    trees), \<open>DtbWriteSpec\<close> (properties).
  \<^item> \<open>virtio.rs\<close>: \<open>Block\<close> (the interface; locales \<open>block_device\<close> and \<open>reliable_device\<close>, interpreted for image files),
    \<open>Virtio\<close> (registers, the queue in memory, the driver), \<open>VirtioSpec\<close> (the contract of a device, the state of the memory at
    each point of a request; \<open>block_device\<close> interpreted for the driver's view of a disk), \<open>VirtioDriver\<close> (properties).
  \<^item> \<open>gpt.rs\<close>, \<open>partition.rs\<close>: \<open>Gpt\<close>, \<open>GptSpec\<close>. \<open>fat.rs\<close>: \<open>Fat\<close>, \<open>FatSpec\<close>, \<open>FatNames\<close>. \<open>ext4.rs\<close>: \<open>Ext4\<close>,
    \<open>Ext4Blocks\<close>, \<open>Ext4Spec\<close>. \<open>filesystem.rs\<close>: \<open>Filesystem\<close> (metadata), \<open>FileSystems\<close> (the locale \<open>file_system\<close>,
    interpreted for both formats; detection; the search for the first loadable file).
  \<^item> \<open>linux.rs\<close>: \<open>Linux\<close> (model), \<open>LinuxSpec\<close> (the state of the machine at the hand-over), \<open>LinuxBoot\<close> (properties, a
    complete boot from an example disk).
  \<^item> \<open>main.rs\<close>, \<open>sbi.rs\<close>, the trap vector of \<open>interrupts.rs\<close> and \<open>probe_virtio\<close> of \<open>virtio.rs\<close>: \<open>Firmware\<close> (model),
    \<open>FirmwareSpec\<close> (properties that span the components).
  \<^item> \<open>print.rs\<close>: \<open>Print\<close>, \<open>PrintSpec\<close>. \<open>diagnostics.rs\<close>, the trap report of \<open>interrupts.rs\<close> and the panic handler of \<open>main.rs\<close>: \<open>Console\<close>, \<open>ConsoleSpec\<close>.

  \<^bold>\<open>State and effects.\<close> The allocator is a record passed through and returned; memory is a function from 64-bit addresses to
  bytes; errors are the left values of sums, and a value of the type \<open>outcome\<close> pairs a result with the state after it, errors included.
  Arithmetic is that of the release profile: 64-bit \<open>usize\<close>, wrapping where the source does not check. A slice of bytes is a list
  where only its contents matter, and a range of memory where the source writes through a pointer.

  \<^bold>\<open>What is shown.\<close>

  \<^item> Allocation: each policy returns the range it documents, from free memory only; any sequence of calls keeps the map well
    formed, moves no byte in or out of it, keeps reserved bytes reserved and allocations disjoint; freeing restores the map. The map
    built from a device tree offers only memory outside the tree, the reservations and the firmware.
  \<^item> Device trees: reading an encoded tree returns its properties and nodes; arbitrary blobs are never read outside their bounds;
    setting properties and creating nodes implement the update of the tree; a clone holds the same tree in fresh pages.
  \<^item> Disks: GPT headers and entries are accepted exactly when they satisfy the declarative specification; file contents are the disk
    bytes of the cluster chain or of the extents, with zeros in holes; path resolution implements lookup in the directory tree, symbolic
    links included; loading touches only freshly allocated pages; cyclic chains and directories do not stop the walks.
  \<^item> The driver: a sequence of reads returns what the disk holds when the device serves requests as specified; the initialisation
    writes the registers in the prescribed order; a late completion after a timeout is taken for the next request.
  \<^item> Booting: at the hand-over the kernel is intact at an aligned entry, initrd and device tree are intact and the new tree
    describes them; only a lack of memory stops the boot of a valid kernel. Relocation copies the image without touching anything in
    use and happens once; only present and bootable partitions are tried, in order; a firmware with nothing to boot powers off.
  \<^item> Output: templates are printed as written, numbers read back, memory map lines and trap reports show what they describe.

  \<^bold>\<open>Bounds and fuel.\<close> Loops over bounded data are total functions with their measure. A loop that may not end is a
  \<open>partial_function\<close> in \<open>option\<close> whose value \<open>None\<close> is not returning: reading a device configuration that never settles, a directory
  search on a cyclic FAT chain, the contents of a FAT file and the search of candidates, which are shown to return. The recursion over ext4 extent trees and paths takes fuel: on a tree of a given depth one
  more unit than the depth is enough, and \<open>collect_extent_node_cycle\<close> shows a disk on which no fuel is. The poll limit of a request and
  the candidate lists are those of the source.

  \<^bold>\<open>Parameters.\<close> The VirtIO device is the record \<open>bus\<close>; \<open>serves\<close> states what the specification asks of it, and two concrete
  devices satisfy it or violate it on purpose. \<open>virtio_statics\<close> gives the addresses of the driver's static buffers, \<open>lla\<close> and
  \<open>linked\<close> the run-time and link-time values of linker symbols. The readers of disks take a device as the function from requests to
  answers; in \<open>Firmware\<close> the parameter \<open>readers\<close> gives that function for an initialised driver, which \<open>virtio_reads_refine_disk\<close>
  justifies for a conforming device. A failed load leaves bytes in freed pages that the readers do not describe; \<open>leftover\<close> stands for
  them, for every path and partition, and is arbitrary. The build profile of the greeting is an environment variable of the build.

  \<^bold>\<open>Not modelled.\<close> Console messages inside the boot path (they change no state; the formatter and the diagnostics are modelled on
  their own); the assembly instructions that switch stacks, read trap registers, fence and disable interrupts before halting;
  memory ordering between hart and device beyond register writes and polls; the captured-register accessors of \<open>main.rs\<close>, which
  nothing uses; the test programs under \<open>src/bin\<close>, except the image-file device of \<open>gpt_test.rs\<close>.
\<close>

end
